(* ===== verification/MC_Prelude.thy ===== *)
theory MC_Prelude
  imports Main "HOL-Library.Word"
begin

text \<open>
  What every component shares: the names of the machine integer types, the little-endian
  codecs that \<^verbatim>\<open>src/src/packet/packet.cpp\<close> (and, in identical copies, identity.cpp and
  room.cpp) define as file-local helpers, the model of \<^verbatim>\<open>memcpy\<close> into a fixed array, the
  protocol constants of \<^verbatim>\<open>src/src/defines.h\<close>, and the generic list and word lemmas that
  the component proofs rewrite with (collected in \<open>mc_simps\<close>).
\<close>

unbundle bit_operations_syntax

named_theorems mc_simps \<open>rewrite rules on lists, options and words shared by the components\<close>
named_theorems size_simps \<open>length facts of fixed-size buffers\<close>

section \<open>Machine types\<close>

type_synonym byte = "8 word"
type_synonym bytes = "8 word list"
type_synonym u16 = "16 word"
type_synonym u32 = "32 word"
type_synonym u64 = "64 word"
type_synonym Millis = "64 word"
type_synonym SendId = "32 word"
type_synonym public_key = "8 word list"
type_synonym shared_secret = "8 word list"

section \<open>Constants of defines.h\<close>

abbreviation (input) MAX_PACKET_FRAME :: nat where "MAX_PACKET_FRAME \<equiv> 255"
abbreviation (input) MAX_PATH_SIZE :: nat where "MAX_PATH_SIZE \<equiv> 64"
abbreviation (input) MAX_PACKET_PAYLOAD :: nat where "MAX_PACKET_PAYLOAD \<equiv> 184"
abbreviation (input) MAX_HOP_COUNT :: nat where "MAX_HOP_COUNT \<equiv> 63"
abbreviation (input) MAX_HASH_SIZE :: nat where "MAX_HASH_SIZE \<equiv> 3"
abbreviation (input) NODE_HASH_SIZE :: nat where "NODE_HASH_SIZE \<equiv> 1"
abbreviation (input) PACKET_PUBLIC_KEY_SIZE :: nat where "PACKET_PUBLIC_KEY_SIZE \<equiv> 32"
abbreviation (input) PACKET_PRIVATE_KEY_SIZE :: nat where "PACKET_PRIVATE_KEY_SIZE \<equiv> 64"
abbreviation (input) PACKET_SIGNATURE_SIZE :: nat where "PACKET_SIGNATURE_SIZE \<equiv> 64"
abbreviation (input) PACKET_TIMESTAMP_SIZE :: nat where "PACKET_TIMESTAMP_SIZE \<equiv> 4"
abbreviation (input) PACKET_MAC_SIZE :: nat where "PACKET_MAC_SIZE \<equiv> 2"
abbreviation (input) PACKET_CIPHER_KEY_SIZE :: nat where "PACKET_CIPHER_KEY_SIZE \<equiv> 16"
abbreviation (input) PACKET_CIPHER_BLOCK_SIZE :: nat where "PACKET_CIPHER_BLOCK_SIZE \<equiv> 16"
abbreviation (input) ADVERT_PAYLOAD_SIZE :: nat where "ADVERT_PAYLOAD_SIZE \<equiv> 100"
abbreviation (input) TEXT_MSG_PREFIX_SIZE :: nat where "TEXT_MSG_PREFIX_SIZE \<equiv> 5"
abbreviation (input) ANON_REQ_PREFIX_SIZE :: nat where "ANON_REQ_PREFIX_SIZE \<equiv> 35"
abbreviation (input) ENVELOPE_PREFIX_SIZE :: nat where "ENVELOPE_PREFIX_SIZE \<equiv> 4"
abbreviation (input) TRACE_PREFIX_SIZE :: nat where "TRACE_PREFIX_SIZE \<equiv> 9"
abbreviation (input) GROUP_PREFIX_SIZE :: nat where "GROUP_PREFIX_SIZE \<equiv> 3"
abbreviation (input) LOGIN_RESPONSE_NONCE_SIZE :: nat where "LOGIN_RESPONSE_NONCE_SIZE \<equiv> 4"
abbreviation (input) MAX_CONTACTS :: nat where "MAX_CONTACTS \<equiv> 512"
abbreviation (input) MAX_CONTACT_NAME :: nat where "MAX_CONTACT_NAME \<equiv> 64"
abbreviation (input) MAX_SECRET_CACHE :: nat where "MAX_SECRET_CACHE \<equiv> 256"
abbreviation (input) MAX_LOGGED_IN_CANDIDATES :: nat where "MAX_LOGGED_IN_CANDIDATES \<equiv> 8"

section \<open>Buffers\<close>

text \<open>\<^verbatim>\<open>memcpy(dst + off, src, n)\<close> on an array: the bytes before and after are untouched.\<close>

definition memcpy :: "'a list \<Rightarrow> nat \<Rightarrow> 'a list \<Rightarrow> 'a list" where
  "memcpy dst off src = take off dst @ src @ drop (off + length src) dst"

text \<open>\<^verbatim>\<open>std::span::subspan(off, n)\<close>.\<close>

definition subspan :: "'a list \<Rightarrow> nat \<Rightarrow> nat \<Rightarrow> 'a list" where
  "subspan xs off n = take n (drop off xs)"

text \<open>Little-endian, as every integer on air and on disk.\<close>

definition readUint32 :: "bytes \<Rightarrow> nat \<Rightarrow> u32" where
  "readUint32 view off =
     ucast (view ! off) OR push_bit 8 (ucast (view ! (off + 1)))
       OR push_bit 16 (ucast (view ! (off + 2))) OR push_bit 24 (ucast (view ! (off + 3)))"

definition writeUint32 :: "u32 \<Rightarrow> bytes" where
  "writeUint32 value =
     [ucast value, ucast (drop_bit 8 value), ucast (drop_bit 16 value), ucast (drop_bit 24 value)]"

definition readUint16 :: "bytes \<Rightarrow> nat \<Rightarrow> u16" where
  "readUint16 view off = ucast (view ! off) OR push_bit 8 (ucast (view ! (off + 1)))"

definition writeUint16 :: "u16 \<Rightarrow> bytes" where
  "writeUint16 value = [ucast value, ucast (drop_bit 8 value)]"

section \<open>Formatting\<close>

text \<open>\<^verbatim>\<open>%u\<close> and \<^verbatim>\<open>%llu\<close>; \<^verbatim>\<open>snprintf\<close> cuts the text so that a terminator still fits.\<close>

fun decimal :: "nat \<Rightarrow> string" where
  "decimal n = (if n < 10 then [char_of (48 + n)] else decimal (n div 10) @ [char_of (48 + n mod 10)])"

declare decimal.simps [simp del]

definition snprintf :: "nat \<Rightarrow> string \<Rightarrow> string" where
  "snprintf sz text = take (sz - 1) text"

definition nl :: string where
  "nl = [char_of (10 :: nat)]"

section \<open>Lemmas on buffers\<close>

lemma length_memcpy [size_simps]:
  "off + length src \<le> length dst \<Longrightarrow> length (memcpy dst off src) = length dst"
  by (simp add: memcpy_def)

lemma take_memcpy_0 [mc_simps]: "take (length src) (memcpy dst 0 src) = src"
  by (simp add: memcpy_def)

lemma memcpy_full [mc_simps]: "length src = length dst \<Longrightarrow> memcpy dst 0 src = src"
  by (simp add: memcpy_def)

lemma length_subspan [size_simps]: "off + n \<le> length xs \<Longrightarrow> length (subspan xs off n) = n"
  by (simp add: subspan_def)

lemma length_writeUint32 [simp]: "length (writeUint32 v) = 4"
  by (simp add: writeUint32_def)

lemma length_writeUint16 [simp]: "length (writeUint16 v) = 2"
  by (simp add: writeUint16_def)

lemma read_bytes4:
  "(ucast (ucast v :: byte) OR push_bit 8 (ucast (ucast (drop_bit 8 v) :: byte))
     OR push_bit 16 (ucast (ucast (drop_bit 16 v) :: byte))
     OR push_bit 24 (ucast (ucast (drop_bit 24 v) :: byte)) :: u32) = v"
proof (rule bit_word_eqI)
  fix n :: nat assume "n < LENGTH(32)"
  then show "bit (ucast (ucast v :: byte) OR push_bit 8 (ucast (ucast (drop_bit 8 v) :: byte))
     OR push_bit 16 (ucast (ucast (drop_bit 16 v) :: byte))
     OR push_bit 24 (ucast (ucast (drop_bit 24 v) :: byte)) :: u32) n = bit v n"
    by (cases "24 \<le> n"; cases "16 \<le> n"; cases "8 \<le> n") (auto simp: bit_simps)
qed

lemma readUint32_writeUint32 [simp]: "readUint32 (writeUint32 v) 0 = v"
  by (simp add: readUint32_def writeUint32_def read_bytes4 numeral_2_eq_2 numeral_3_eq_3)

lemma readUint32_append:
  "length pre = off \<Longrightarrow> 4 \<le> length xs \<Longrightarrow> readUint32 (pre @ xs) off = readUint32 xs 0"
  by (simp add: readUint32_def nth_append eval_nat_numeral)

lemma readUint32_append_left:
  "off + 4 \<le> length xs \<Longrightarrow> readUint32 (xs @ ys) off = readUint32 xs off"
  by (simp add: readUint32_def nth_append)

lemma readUint32_at:
  "length pre = off \<Longrightarrow> readUint32 (pre @ writeUint32 v @ post) off = v"
  by (simp add: readUint32_append readUint32_append_left)

lemma readUint32_head [simp]: "readUint32 (writeUint32 v @ post) 0 = v"
  using readUint32_at [of "[]" 0 v post] by simp

lemma write_bytes4:
  "writeUint32 (ucast a OR push_bit 8 (ucast b) OR push_bit 16 (ucast c) OR push_bit 24 (ucast d))
     = [a, b, c, d]" for a b c d :: byte
  by (auto simp: writeUint32_def intro!: bit_word_eqI) (auto simp: bit_simps dest: bit_imp_le_length)

lemma take4_nth:
  "off + 4 \<le> length xs \<Longrightarrow>
   take 4 (drop off xs) = [xs ! off, xs ! (off + 1), xs ! (off + 2), xs ! (off + 3)]"
  by (rule nth_equalityI) (auto simp: less_Suc_eq numeral_eq_Suc)

lemma writeUint32_readUint32:
  "off + 4 \<le> length xs \<Longrightarrow> writeUint32 (readUint32 xs off) = take 4 (drop off xs)"
  by (simp add: readUint32_def write_bytes4 take4_nth)

lemma readUint16_writeUint16 [simp]: "readUint16 (writeUint16 v) 0 = v"
  unfolding readUint16_def writeUint16_def
  by (rule bit_word_eqI) (auto simp: bit_simps)

lemma readUint16_append:
  "length pre = off \<Longrightarrow> 2 \<le> length xs \<Longrightarrow> readUint16 (pre @ xs) off = readUint16 xs 0"
  by (simp add: readUint16_def nth_append)

lemma readUint16_append_left:
  "off + 2 \<le> length xs \<Longrightarrow> readUint16 (xs @ ys) off = readUint16 xs off"
  by (simp add: readUint16_def nth_append)

lemma write_bytes2: "writeUint16 (ucast a OR push_bit 8 (ucast b)) = [a, b]" for a b :: byte
  by (auto simp: writeUint16_def intro!: bit_word_eqI) (auto simp: bit_simps dest: bit_imp_le_length)

lemma writeUint16_readUint16:
  "off + 2 \<le> length xs \<Longrightarrow> writeUint16 (readUint16 xs off) = take 2 (drop off xs)"
  by (simp add: readUint16_def write_bytes2)
    (rule nth_equalityI, auto simp: less_Suc_eq numeral_eq_Suc)

lemma take_drop_nth: "i < length xs \<Longrightarrow> drop i xs = xs ! i # drop (Suc i) xs"
  by (simp add: Cons_nth_drop_Suc)

lemma byte_less_256 [simp]: "unat (b :: byte) < 256"
  using unsigned_less [of b] by simp

lemma unat_u32_less: "unat (v :: u32) < 4294967296"
  using unsigned_less [of v, where ?'a = nat] by simp

lemma unat_u64_less: "unat (v :: u64) < 18446744073709551616"
  using unsigned_less [of v, where ?'a = nat] by simp

lemma unat_ucast_32_64 [simp]: "unat (ucast (a :: u32) :: u64) = unat a"
  using unat_u32_less [of a] by (simp add: unsigned_ucast_eq take_bit_nat_eq_self)

lemma unat_ucast_8_64 [simp]: "unat (ucast (a :: byte) :: u64) = unat a"
  using byte_less_256 [of a] by (simp add: unsigned_ucast_eq take_bit_nat_eq_self del: byte_less_256)

lemma unat_of_nat_byte [mc_simps]: "n < 256 \<Longrightarrow> unat (of_nat n :: byte) = n"
  by (simp add: unat_of_nat)

lemma of_nat_unat_byte [simp]: "(of_nat (unat b) :: byte) = b"
  by simp

lemma readUint32_skip: "length pre \<le> off \<Longrightarrow> readUint32 (pre @ xs) off = readUint32 xs (off - length pre)"
  by (simp add: readUint32_def nth_append Suc_diff_le)

lemma readUint32_skip1: "0 < off \<Longrightarrow> readUint32 (x # xs) off = readUint32 xs (off - 1)"
  using readUint32_skip [of "[x]" off xs] by simp

lemma readUint16_skip: "length pre \<le> off \<Longrightarrow> readUint16 (pre @ xs) off = readUint16 xs (off - length pre)"
  by (simp add: readUint16_def nth_append Suc_diff_le)

lemma readUint16_head [simp]: "readUint16 (writeUint16 v @ post) 0 = v"
  using readUint16_append_left [of 0 "writeUint16 v" post] by simp

section \<open>Bytes bit by bit\<close>

lemma less_8_cases: "n < (8::nat) \<Longrightarrow> n = 0 \<or> n = 1 \<or> n = 2 \<or> n = 3 \<or> n = 4 \<or> n = 5 \<or> n = 6 \<or> n = 7"
  by arith

lemma byte_eq_iff:
  "(a :: byte) = b \<longleftrightarrow> bit a 0 = bit b 0 \<and> bit a 1 = bit b 1 \<and> bit a 2 = bit b 2 \<and> bit a 3 = bit b 3
     \<and> bit a 4 = bit b 4 \<and> bit a 5 = bit b 5 \<and> bit a 6 = bit b 6 \<and> bit a 7 = bit b 7"
  (is "_ \<longleftrightarrow> ?bits")
proof
  assume bits: ?bits
  show "a = b"
  proof (rule bit_word_eqI)
    fix n assume "n < LENGTH(8)"
    then have "n < 8" by simp
    with bits show "bit a n = bit b n" using less_8_cases by blast
  qed
qed simp

lemma byte_and_63: "unat (h :: byte) \<le> 63 \<Longrightarrow> h AND 0x3F = h"
  using less_mask_eq [of h 6] by (simp add: mask_eq_exp_minus_1 word_less_nat_alt)

lemma byte_and_3: "unat (h :: byte) \<le> 3 \<Longrightarrow> h AND 3 = h"
  using less_mask_eq [of h 2] by (simp add: mask_eq_exp_minus_1 word_less_nat_alt)

lemma unat_and_63: "unat (b AND (0x3F :: byte)) \<le> 63"
  using word_and_le1 [of b 63] by (simp add: word_le_nat_alt)

lemma unat_and_3: "unat (b AND (0x03 :: byte)) \<le> 3"
  using word_and_le1 [of b 3] by (simp add: word_le_nat_alt)

text \<open>The path-length byte: two bits of hash size code above six bits of hop count.\<close>

lemma path_byte_hops:
  assumes "unat (h :: byte) \<le> 63" shows "(push_bit 6 k OR h) AND 0x3F = h"
  using byte_and_63 [OF assms] by (simp add: byte_eq_iff bit_simps)

lemma path_byte_code:
  assumes "unat (h :: byte) \<le> 63" and "unat (k :: byte) \<le> 3"
  shows "drop_bit 6 ((push_bit 6 k OR h) AND 0xC0) = k"
  using byte_and_63 [OF assms(1)] byte_and_3 [OF assms(2)] by (simp add: byte_eq_iff bit_simps)

lemma path_byte_split: "push_bit 6 (drop_bit 6 (b AND (0xC0 :: byte))) OR (b AND 0x3F) = b"
  by (simp add: byte_eq_iff bit_simps)

text \<open>The text flags byte: six bits of type above two bits of attempt.\<close>

lemma text_byte_attempt:
  assumes "unat (a :: byte) \<le> 3" shows "(push_bit 2 t OR a) AND 0x03 = a"
  using byte_and_3 [OF assms] by (simp add: byte_eq_iff bit_simps)

lemma text_byte_type:
  assumes "unat (a :: byte) \<le> 3" and "unat (t :: byte) \<le> 63"
  shows "drop_bit 2 ((push_bit 2 t OR a) AND 0xFC) = t"
  using byte_and_3 [OF assms(1)] byte_and_63 [OF assms(2)] by (simp add: byte_eq_iff bit_simps)

lemma text_byte_split: "push_bit 2 (drop_bit 2 (b AND (0xFC :: byte))) OR (b AND 0x03) = b"
  by (simp add: byte_eq_iff bit_simps)

lemma drop_bit_2_and_FC: "unat (drop_bit 2 (b AND (0xFC :: byte))) \<le> 63"
proof -
  have "drop_bit 2 (b AND (0xFC :: byte)) AND 0x3F = drop_bit 2 (b AND 0xFC)"
    by (simp add: byte_eq_iff bit_simps)
  then show ?thesis using unat_and_63 by metis
qed

text \<open>The header byte: a payload type of four bits above a route type of two.\<close>

lemma header_byte_type:
  assumes "unat (r :: byte) \<le> 3" and "unat (t :: byte) \<le> 15"
  shows "drop_bit 2 ((push_bit 2 t OR r) AND 0x3C) = t"
proof -
  have "t AND 15 = t"
    using less_mask_eq [of t 4] assms(2) by (simp add: mask_eq_exp_minus_1 word_less_nat_alt)
  then show ?thesis using byte_and_3 [OF assms(1)] by (simp add: byte_eq_iff bit_simps)
qed

lemma header_byte_route:
  assumes "unat (r :: byte) \<le> 3" shows "(push_bit 2 t OR r) AND 0x03 = r"
  by (rule text_byte_attempt [OF assms])

section \<open>Decimal numbers\<close>

lemma length_decimal: "n < 10 ^ k \<Longrightarrow> 0 < k \<Longrightarrow> length (decimal n) \<le> k"
proof (induction k arbitrary: n)
  case (Suc k)
  show ?case
  proof (cases "n < 10")
    case False
    then have "0 < k" using Suc.prems by (cases k) auto
    moreover have "n div 10 < 10 ^ k" using Suc.prems by (simp add: less_mult_imp_div_less mult.commute)
    ultimately show ?thesis using Suc.IH [of "n div 10"] False by (subst decimal.simps) simp
  qed (subst decimal.simps, simp)
qed simp

lemma snprintf_fits: "length text < sz \<Longrightarrow> snprintf sz text = text"
  by (simp add: snprintf_def)

section \<open>Scanning a vector\<close>

text \<open>The position of the first element that satisfies a test, as a range-for with an early return finds it.\<close>

fun find_index :: "('a \<Rightarrow> bool) \<Rightarrow> 'a list \<Rightarrow> nat option" where
  "find_index P [] = None"
| "find_index P (x # xs) = (if P x then Some 0 else map_option Suc (find_index P xs))"

text \<open>The position with the least key, the earliest one among equals, starting from a first guess.\<close>

definition least_index :: "(nat \<Rightarrow> 'k::linorder) \<Rightarrow> nat list \<Rightarrow> nat \<Rightarrow> nat" where
  "least_index key is start = fold (\<lambda>i best. if key i < key best then i else best) is start"

lemma find_index_None: "find_index P xs = None \<longleftrightarrow> (\<forall>x \<in> set xs. \<not> P x)"
  by (induction xs) auto

lemma find_index_Some:
  "find_index P xs = Some i \<Longrightarrow> i < length xs \<and> P (xs ! i) \<and> (\<forall>j < i. \<not> P (xs ! j))"
  by (induction xs arbitrary: i) (auto simp: nth_Cons split: if_splits nat.splits)

lemma least_index_spec:
  "least_index key is start \<in> set (start # is)
    \<and> (\<forall>i \<in> set (start # is). key (least_index key is start) \<le> key i)"
  unfolding least_index_def
proof (induction "is" arbitrary: start)
  case (Cons i "is")
  show ?case using Cons.IH [of i] Cons.IH [of start] by (auto intro: order_trans less_imp_le)
qed simp

lemma least_index_less:
  assumes "k \<le> 1" and "0 < n"
  shows "least_index key [k..<n] 0 < n \<and> (\<forall>i < n. key (least_index key [k..<n] 0) \<le> key i)"
proof -
  have "i \<in> set (0 # [k..<n])" if "i < n" for i using that assms by (cases i) auto
  moreover have "set (0 # [k..<n]) \<subseteq> {..<n}" using assms by auto
  ultimately show ?thesis using least_index_spec [of key "[k..<n]" 0] by blast
qed

end
