(* ===== verification/Packet_Codec.thy ===== *)
theory Packet_Codec
  imports MC_Prelude
begin

text \<open>
  The wire format: \<^verbatim>\<open>src/src/packet/packet.h\<close> and \<^verbatim>\<open>packet.cpp\<close>. A \<open>Packet\<close> keeps the
  code's fixed arrays (64 bytes of path, 184 of payload, zero-initialised), its one-byte
  counters as \<open>8 word\<close> and its \<^verbatim>\<open>size_t\<close> values as \<open>nat\<close>. A decoder takes the bytes it is
  given (\<^verbatim>\<open>ByteView\<close>) and returns \<open>None\<close> where the code returns \<^verbatim>\<open>nullopt\<close>. An encoder takes
  the size of the output span and returns the bytes it wrote at its start, so the
  \<^verbatim>\<open>std::optional<size_t>\<close> of the code is the length of that list.
\<close>

section \<open>Data\<close>

datatype RouteType = TRANSPORT_FLOOD | FLOOD | DIRECT | TRANSPORT_DIRECT

text \<open>
  The cast \<^verbatim>\<open>(PayloadType)n\<close> accepts any four-bit value; the three the enum does not name
  are \<open>Unassigned\<close>.
\<close>

datatype PayloadType = REQ | RESPONSE | TXT_MSG | ACK | ADVERT | GRP_TXT | GRP_DATA | ANON_REQ
  | PATH | TRACE | MULTIPART | CONTROL | RAW_CUSTOM | Unassigned byte

record Packet =
  header :: byte
  transportCode1 :: u16
  transportCode2 :: u16
  hashSize :: byte
  hopCount :: byte
  path :: bytes
  payload :: bytes
  payloadSize :: byte

definition packet_init :: Packet where
  "packet_init =
     \<lparr>header = 0, transportCode1 = 0, transportCode2 = 0, hashSize = 1, hopCount = 0,
      path = replicate MAX_PATH_SIZE 0, payload = replicate MAX_PACKET_PAYLOAD 0, payloadSize = 0\<rparr>"

definition routeType_of :: "byte \<Rightarrow> RouteType" where
  "routeType_of code =
     (if code = 0 then TRANSPORT_FLOOD else if code = 1 then FLOOD
      else if code = 2 then DIRECT else TRANSPORT_DIRECT)"

fun routeType_code :: "RouteType \<Rightarrow> byte" where
  "routeType_code TRANSPORT_FLOOD = 0"
| "routeType_code FLOOD = 1"
| "routeType_code DIRECT = 2"
| "routeType_code TRANSPORT_DIRECT = 3"

definition payloadType_of :: "byte \<Rightarrow> PayloadType" where
  "payloadType_of code =
     (if code = 0 then REQ else if code = 1 then RESPONSE else if code = 2 then TXT_MSG
      else if code = 3 then ACK else if code = 4 then ADVERT else if code = 5 then GRP_TXT
      else if code = 6 then GRP_DATA else if code = 7 then ANON_REQ else if code = 8 then PATH
      else if code = 9 then TRACE else if code = 10 then MULTIPART else if code = 11 then CONTROL
      else if code = 15 then RAW_CUSTOM else Unassigned code)"

fun payloadType_code :: "PayloadType \<Rightarrow> byte" where
  "payloadType_code REQ = 0"
| "payloadType_code RESPONSE = 1"
| "payloadType_code TXT_MSG = 2"
| "payloadType_code ACK = 3"
| "payloadType_code ADVERT = 4"
| "payloadType_code GRP_TXT = 5"
| "payloadType_code GRP_DATA = 6"
| "payloadType_code ANON_REQ = 7"
| "payloadType_code PATH = 8"
| "payloadType_code TRACE = 9"
| "payloadType_code MULTIPART = 10"
| "payloadType_code CONTROL = 11"
| "payloadType_code RAW_CUSTOM = 15"
| "payloadType_code (Unassigned c) = c"

definition routeType :: "Packet \<Rightarrow> RouteType" where
  "routeType p = routeType_of (header p AND 0x03)"

definition payloadType :: "Packet \<Rightarrow> PayloadType" where
  "payloadType p = payloadType_of (drop_bit 2 (header p AND 0x3C))"

definition hasTransportCodes :: "Packet \<Rightarrow> bool" where
  "hasTransportCodes p \<longleftrightarrow> routeType p = TRANSPORT_FLOOD \<or> routeType p = TRANSPORT_DIRECT"

definition pathSize :: "Packet \<Rightarrow> nat" where
  "pathSize p = unat (hopCount p) * unat (hashSize p)"

definition payloadView :: "Packet \<Rightarrow> bytes" where
  "payloadView p = take (unat (payloadSize p)) (payload p)"

text \<open>The bytes of the path array in use, which callers write \<^verbatim>\<open>{ p.path.data(), p.pathSize() }\<close>.\<close>

definition pathView :: "Packet \<Rightarrow> bytes" where
  "pathView p = take (pathSize p) (path p)"

section \<open>Frames\<close>

abbreviation (input) kFixedPrefixSize :: nat where "kFixedPrefixSize \<equiv> 2"

definition parse :: "bytes \<Rightarrow> Packet option" where
  "parse frame =
     (if length frame < kFixedPrefixSize \<or> length frame > MAX_PACKET_FRAME then None else
      let p = packet_init\<lparr>header := frame ! 0\<rparr>; offset = 1 in
      if hasTransportCodes p \<and> length frame < offset + 4 then None else
      let p = (if hasTransportCodes p
               then p\<lparr>transportCode1 := readUint16 frame offset,
                      transportCode2 := readUint16 frame (offset + 2)\<rparr> else p);
          offset = (if hasTransportCodes p then offset + 4 else offset) in
      if length frame < offset + 1 then None else
      let pathLength = frame ! offset; offset = offset + 1;
          p = p\<lparr>hopCount := pathLength AND 0x3F\<rparr>;
          hashCode = drop_bit 6 (pathLength AND 0xC0) in
      if unat hashCode + 1 > MAX_HASH_SIZE then None else
      let p = p\<lparr>hashSize := hashCode + 1\<rparr>; pathSz = pathSize p in
      if pathSz > MAX_PATH_SIZE then None else
      if length frame - offset < pathSz then None else
      let p = p\<lparr>path := memcpy (path p) 0 (subspan frame offset pathSz)\<rparr>;
          offset = offset + pathSz;
          payloadSz = length frame - offset in
      if payloadSz > MAX_PACKET_PAYLOAD then None else
      Some (p\<lparr>payload := memcpy (payload p) 0 (subspan frame offset payloadSz),
              payloadSize := of_nat payloadSz\<rparr>))"

definition serialize :: "Packet \<Rightarrow> nat \<Rightarrow> bytes option" where
  "serialize p outSize =
     (if unat (hopCount p) > MAX_HOP_COUNT then None else
      if unat (hashSize p) < 1 \<or> unat (hashSize p) > MAX_HASH_SIZE then None else
      if unat (payloadSize p) > MAX_PACKET_PAYLOAD then None else
      if pathSize p > MAX_PATH_SIZE then None else
      let total = kFixedPrefixSize + pathSize p + unat (payloadSize p)
                    + (if hasTransportCodes p then 4 else 0) in
      if total > MAX_PACKET_FRAME \<or> outSize < total then None else
      Some ([header p]
            @ (if hasTransportCodes p
               then writeUint16 (transportCode1 p) @ writeUint16 (transportCode2 p) else [])
            @ [push_bit 6 (hashSize p - 1) OR hopCount p]
            @ take (pathSize p) (path p)
            @ take (unat (payloadSize p)) (payload p)))"

definition appendSelf :: "Packet \<Rightarrow> byte \<Rightarrow> Packet option" where
  "appendSelf p selfHash =
     (if unat (hashSize p) \<noteq> NODE_HASH_SIZE then None else
      if unat (hopCount p) \<ge> MAX_HOP_COUNT then None else
      if pathSize p + unat (hashSize p) > MAX_PATH_SIZE then None else
      Some (p\<lparr>path := (path p)[pathSize p := selfHash], hopCount := hopCount p + 1\<rparr>))"

definition stripSelf :: "Packet \<Rightarrow> byte \<Rightarrow> Packet option" where
  "stripSelf p selfHash =
     (if unat (hashSize p) \<noteq> NODE_HASH_SIZE then None else
      if hopCount p = 0 then None else
      if path p ! 0 \<noteq> selfHash then None else
      let n = pathSize p; h = unat (hashSize p);
          moved = memcpy (path p) 0 (subspan (path p) h (n - h)) in
      Some (p\<lparr>path := moved[n - h := 0], hopCount := hopCount p - 1\<rparr>))"

section \<open>Payload codecs\<close>

record Advert =
  adv_publicKey :: bytes
  adv_timestamp :: u32
  adv_signature :: bytes
  adv_appdata :: bytes

text \<open>\<^verbatim>\<open>signedMessage\<close> returns the number of bytes written, 0 on failure: the empty list.\<close>

definition signedMessage :: "Advert \<Rightarrow> nat \<Rightarrow> bytes" where
  "signedMessage a outSize =
     (if length (adv_publicKey a) \<noteq> PACKET_PUBLIC_KEY_SIZE then [] else
      if outSize < PACKET_PUBLIC_KEY_SIZE + PACKET_TIMESTAMP_SIZE + length (adv_appdata a) then [] else
      adv_publicKey a @ writeUint32 (adv_timestamp a) @ adv_appdata a)"

definition decodeAdvert :: "bytes \<Rightarrow> Advert option" where
  "decodeAdvert pl =
     (if length pl < ADVERT_PAYLOAD_SIZE then None else
      Some \<lparr>adv_publicKey = subspan pl 0 PACKET_PUBLIC_KEY_SIZE,
            adv_timestamp = readUint32 pl PACKET_PUBLIC_KEY_SIZE,
            adv_signature = subspan pl (PACKET_PUBLIC_KEY_SIZE + PACKET_TIMESTAMP_SIZE) PACKET_SIGNATURE_SIZE,
            adv_appdata = drop ADVERT_PAYLOAD_SIZE pl\<rparr>)"

definition encodeAdvert :: "Advert \<Rightarrow> nat \<Rightarrow> bytes option" where
  "encodeAdvert a outSize =
     (if length (adv_publicKey a) \<noteq> PACKET_PUBLIC_KEY_SIZE then None else
      if length (adv_signature a) \<noteq> PACKET_SIGNATURE_SIZE then None else
      let total = ADVERT_PAYLOAD_SIZE + length (adv_appdata a) in
      if total > MAX_PACKET_PAYLOAD \<or> outSize < total then None else
      Some (adv_publicKey a @ writeUint32 (adv_timestamp a) @ adv_signature a @ adv_appdata a))"

record TextMsg =
  txt_timestamp :: u32
  txtType :: byte
  attempt :: byte
  txt_message :: bytes

definition decodeText :: "bytes \<Rightarrow> TextMsg option" where
  "decodeText plain =
     (if length plain < TEXT_MSG_PREFIX_SIZE then None else
      let flags = plain ! PACKET_TIMESTAMP_SIZE in
      Some \<lparr>txt_timestamp = readUint32 plain 0,
            txtType = drop_bit 2 (flags AND 0xFC),
            attempt = flags AND 0x03,
            txt_message = drop TEXT_MSG_PREFIX_SIZE plain\<rparr>)"

definition encodeText :: "TextMsg \<Rightarrow> nat \<Rightarrow> bytes option" where
  "encodeText m outSize =
     (if txtType m > 0x3F \<or> attempt m > 0x03 then None else
      let total = TEXT_MSG_PREFIX_SIZE + length (txt_message m) in
      if total > MAX_PACKET_PAYLOAD \<or> outSize < total then None else
      Some (writeUint32 (txt_timestamp m) @ [push_bit 2 (txtType m) OR attempt m] @ txt_message m))"

record AnonReq =
  anon_destinationHash :: byte
  anon_publicKey :: bytes
  anon_cipherMac :: bytes
  anon_ciphertext :: bytes

definition decodeAnonReq :: "bytes \<Rightarrow> AnonReq option" where
  "decodeAnonReq pl =
     (if length pl < ANON_REQ_PREFIX_SIZE then None else
      Some \<lparr>anon_destinationHash = pl ! 0,
            anon_publicKey = subspan pl NODE_HASH_SIZE PACKET_PUBLIC_KEY_SIZE,
            anon_cipherMac = subspan pl (NODE_HASH_SIZE + PACKET_PUBLIC_KEY_SIZE) PACKET_MAC_SIZE,
            anon_ciphertext = drop ANON_REQ_PREFIX_SIZE pl\<rparr>)"

record LoginResponse =
  nonce :: bytes
  login_body :: bytes

definition encodeLoginResponse :: "LoginResponse \<Rightarrow> nat \<Rightarrow> bytes option" where
  "encodeLoginResponse r outSize =
     (let total = LOGIN_RESPONSE_NONCE_SIZE + length (login_body r) in
      if total > MAX_PACKET_PAYLOAD \<or> outSize < total then None else
      Some (take LOGIN_RESPONSE_NONCE_SIZE (nonce r) @ login_body r))"

record Envelope =
  env_destinationHash :: byte
  env_sourceHash :: byte
  env_cipherMac :: bytes
  env_ciphertext :: bytes

definition decodeEnvelope :: "bytes \<Rightarrow> Envelope option" where
  "decodeEnvelope pl =
     (if length pl < ENVELOPE_PREFIX_SIZE then None else
      Some \<lparr>env_destinationHash = pl ! 0, env_sourceHash = pl ! 1,
            env_cipherMac = subspan pl (NODE_HASH_SIZE * 2) PACKET_MAC_SIZE,
            env_ciphertext = drop ENVELOPE_PREFIX_SIZE pl\<rparr>)"

definition encodeEnvelope :: "Envelope \<Rightarrow> nat \<Rightarrow> bytes option" where
  "encodeEnvelope e outSize =
     (if length (env_cipherMac e) \<noteq> PACKET_MAC_SIZE then None else
      let total = ENVELOPE_PREFIX_SIZE + length (env_ciphertext e) in
      if total > MAX_PACKET_PAYLOAD \<or> outSize < total then None else
      Some ([env_destinationHash e, env_sourceHash e] @ env_cipherMac e @ env_ciphertext e))"

record GroupMsg =
  grp_channelHash :: byte
  grp_cipherMac :: bytes
  grp_ciphertext :: bytes

definition decodeGroup :: "bytes \<Rightarrow> GroupMsg option" where
  "decodeGroup pl =
     (if length pl < GROUP_PREFIX_SIZE then None else
      Some \<lparr>grp_channelHash = pl ! 0,
            grp_cipherMac = subspan pl NODE_HASH_SIZE PACKET_MAC_SIZE,
            grp_ciphertext = drop GROUP_PREFIX_SIZE pl\<rparr>)"

definition encodeGroup :: "GroupMsg \<Rightarrow> nat \<Rightarrow> bytes option" where
  "encodeGroup g outSize =
     (if length (grp_cipherMac g) \<noteq> PACKET_MAC_SIZE then None else
      let total = GROUP_PREFIX_SIZE + length (grp_ciphertext g) in
      if total > MAX_PACKET_PAYLOAD \<or> outSize < total then None else
      Some ([grp_channelHash g] @ grp_cipherMac g @ grp_ciphertext g))"

record Trace =
  trace_tag :: u32
  trace_authCode :: u32
  trace_flags :: byte
  trace_snr :: bytes

definition decodeTrace :: "bytes \<Rightarrow> Trace option" where
  "decodeTrace pl =
     (if length pl < TRACE_PREFIX_SIZE then None else
      Some \<lparr>trace_tag = readUint32 pl 0, trace_authCode = readUint32 pl PACKET_TIMESTAMP_SIZE,
            trace_flags = pl ! (PACKET_TIMESTAMP_SIZE * 2), trace_snr = drop TRACE_PREFIX_SIZE pl\<rparr>)"

definition encodeTrace :: "Trace \<Rightarrow> nat \<Rightarrow> bytes option" where
  "encodeTrace t outSize =
     (let total = TRACE_PREFIX_SIZE + length (trace_snr t) in
      if total > MAX_PACKET_PAYLOAD \<or> outSize < total then None else
      Some (writeUint32 (trace_tag t) @ writeUint32 (trace_authCode t) @ [trace_flags t] @ trace_snr t))"

text \<open>The reading is an \<^verbatim>\<open>int16_t\<close>, here its value; it is clamped, then cut to one byte.\<close>

definition appendTraceHop :: "Packet \<Rightarrow> int \<Rightarrow> Packet option" where
  "appendTraceHop p snrQuarterDb =
     (if payloadType p \<noteq> TRACE then None else
      if unat (payloadSize p) < TRACE_PREFIX_SIZE then None else
      if unat (payloadSize p) \<ge> MAX_PACKET_PAYLOAD then None else
      let clamped = (if snrQuarterDb < -128 then -128 else if snrQuarterDb > 127 then 127
                     else snrQuarterDb) in
      Some (p\<lparr>payload := (payload p)[unat (payloadSize p) := word_of_int clamped],
              payloadSize := payloadSize p + 1\<rparr>))"

record PathReturn =
  ret_path :: bytes
  ret_extraType :: byte
  ret_extra :: bytes

definition decodePath :: "bytes \<Rightarrow> PathReturn option" where
  "decodePath pl =
     (if pl = [] then None else
      let pathSz = unat (pl ! 0) in
      if pathSz > MAX_PATH_SIZE then None else
      let prefix = 1 + pathSz + 1 in
      if length pl < prefix then None else
      Some \<lparr>ret_path = subspan pl 1 pathSz, ret_extraType = pl ! (1 + pathSz),
            ret_extra = drop prefix pl\<rparr>)"

definition encodePath :: "PathReturn \<Rightarrow> nat \<Rightarrow> bytes option" where
  "encodePath r outSize =
     (if length (ret_path r) > MAX_PATH_SIZE then None else
      let total = 1 + length (ret_path r) + 1 + length (ret_extra r) in
      if total > MAX_PACKET_PAYLOAD \<or> outSize < total then None else
      Some ([of_nat (length (ret_path r))] @ ret_path r @ [ret_extraType r] @ ret_extra r))"

section \<open>The invariant of a packet\<close>

text \<open>
  What the fixed arrays and the guards give every packet the code builds: array sizes, a
  path and a payload within them. \<open>clean_packet\<close> adds what \<^verbatim>\<open>parse\<close> leaves behind: zeros
  past the bytes in use and no transport codes where the route type has none.
\<close>

definition wf_packet :: "Packet \<Rightarrow> bool" where
  "wf_packet p \<longleftrightarrow>
     length (path p) = MAX_PATH_SIZE \<and> length (payload p) = MAX_PACKET_PAYLOAD
     \<and> unat (hopCount p) \<le> MAX_HOP_COUNT \<and> 1 \<le> unat (hashSize p) \<and> unat (hashSize p) \<le> MAX_HASH_SIZE
     \<and> pathSize p \<le> MAX_PATH_SIZE \<and> unat (payloadSize p) \<le> MAX_PACKET_PAYLOAD"

definition clean_packet :: "Packet \<Rightarrow> bool" where
  "clean_packet p \<longleftrightarrow>
     drop (pathSize p) (path p) = replicate (MAX_PATH_SIZE - pathSize p) 0
     \<and> drop (unat (payloadSize p)) (payload p) = replicate (MAX_PACKET_PAYLOAD - unat (payloadSize p)) 0
     \<and> (\<not> hasTransportCodes p \<longrightarrow> transportCode1 p = 0 \<and> transportCode2 p = 0)"

text \<open>The layout of a frame, which \<open>serialize\<close> writes and \<open>parse\<close> reads (lemmas below).\<close>

definition tc_header :: "byte \<Rightarrow> bool" where
  "tc_header h \<longleftrightarrow> routeType_of (h AND 0x03) = TRANSPORT_FLOOD \<or> routeType_of (h AND 0x03) = TRANSPORT_DIRECT"

definition body_offset :: "byte \<Rightarrow> nat" where
  "body_offset h = (if tc_header h then 5 else 1)"

lemma hasTransportCodes_eq: "hasTransportCodes p = tc_header (header p)"
  by (simp add: hasTransportCodes_def routeType_def tc_header_def)

definition code_bytes :: "Packet \<Rightarrow> bytes" where
  "code_bytes p = (if hasTransportCodes p then writeUint16 (transportCode1 p) @ writeUint16 (transportCode2 p) else [])"

definition frame_of :: "Packet \<Rightarrow> bytes" where
  "frame_of p = [header p] @ code_bytes p @ [push_bit 6 (hashSize p - 1) OR hopCount p] @ pathView p @ payloadView p"

lemma parse_flat:
  "parse f =
     (let h = f ! 0; off = body_offset h; pb = f ! off; hops = pb AND 0x3F;
          code = drop_bit 6 (pb AND 0xC0); psz = unat hops * unat (code + 1); rest = drop (off + 1) f in
      if length f < 2 \<or> length f > 255 \<or> length f < off + 1 \<or> unat code + 1 > 3 \<or> psz > 64
         \<or> length rest < psz \<or> length rest - psz > 184 then None
      else Some \<lparr>header = h, transportCode1 = if tc_header h then readUint16 f 1 else 0,
             transportCode2 = if tc_header h then readUint16 f 3 else 0, hashSize = code + 1, hopCount = hops,
             path = memcpy (replicate 64 0) 0 (take psz rest),
             payload = memcpy (replicate 184 0) 0 (drop psz rest),
             payloadSize = of_nat (length rest - psz)\<rparr>)"
  by (auto simp: parse_def Let_def hasTransportCodes_eq packet_init_def body_offset_def pathSize_def subspan_def
       add.commute numeral_3_eq_3)

lemma length_frame_of: "wf_packet p \<Longrightarrow> length (frame_of p) = 2 + (if hasTransportCodes p then 4 else 0) + pathSize p + unat (payloadSize p)"
  by (simp add: frame_of_def code_bytes_def pathView_def payloadView_def wf_packet_def)

lemma serialize_wf:
  "wf_packet p \<Longrightarrow> serialize p n = (if n < length (frame_of p) then None else Some (frame_of p))"
  by (auto simp: serialize_def length_frame_of Let_def) (auto simp: wf_packet_def frame_of_def code_bytes_def pathView_def payloadView_def)

lemma serialize_SomeD:
  "serialize p n = Some f \<Longrightarrow> length (path p) = 64 \<Longrightarrow> length (payload p) = 184 \<Longrightarrow> wf_packet p \<and> f = frame_of p"
  by (auto simp: serialize_def Let_def wf_packet_def frame_of_def code_bytes_def pathView_def payloadView_def split: if_splits)

lemma hashSize_byte:
  assumes "wf_packet p"
  shows "unat (hashSize p - 1) \<le> 2"
  using assms by (auto simp: wf_packet_def unat_sub word_le_nat_alt)

lemma clean_path: "clean_packet p \<Longrightarrow> wf_packet p \<Longrightarrow> memcpy (replicate 64 0) 0 (pathView p) = path p"
  using append_take_drop_id [of "pathSize p" "path p"]
  by (simp add: memcpy_def clean_packet_def pathView_def wf_packet_def)

lemma clean_payload: "clean_packet p \<Longrightarrow> wf_packet p \<Longrightarrow> memcpy (replicate 184 0) 0 (payloadView p) = payload p"
  using append_take_drop_id [of "unat (payloadSize p)" "payload p"]
  by (simp add: memcpy_def clean_packet_def payloadView_def wf_packet_def)

lemma views_wf:
  assumes "wf_packet p"
  shows "length (pathView p) = pathSize p" "length (payloadView p) = unat (payloadSize p)"
  using assms by (simp_all add: wf_packet_def pathView_def payloadView_def)

lemma parse_frame_of:
  assumes wf: "wf_packet p" and cl: "clean_packet p"
  shows "parse (frame_of p) = Some p"
proof -
  let ?pb = "push_bit 6 (hashSize p - 1) OR hopCount p"
  have hop: "unat (hopCount p) \<le> 63" using wf by (simp add: wf_packet_def)
  have hs: "unat (hashSize p - 1) \<le> 3" using hashSize_byte[OF wf] by simp
  note pb = path_byte_hops [OF hop, of "hashSize p - 1"] path_byte_code [OF hop hs]
  have rest: "drop (body_offset (header p) + 1) (frame_of p) = pathView p @ payloadView p"
    by (simp add: body_offset_def frame_of_def code_bytes_def hasTransportCodes_eq)
  have pbn: "frame_of p ! body_offset (header p) = ?pb"
    by (simp add: body_offset_def frame_of_def code_bytes_def hasTransportCodes_eq nth_append)
  have t1: "tc_header (header p) \<Longrightarrow> readUint16 (frame_of p) 1 = transportCode1 p"
    using readUint16_append [of "[header p]" 1]
    by (simp add: frame_of_def code_bytes_def hasTransportCodes_eq readUint16_append_left)
  have t2: "tc_header (header p) \<Longrightarrow> readUint16 (frame_of p) 3 = transportCode2 p"
    using readUint16_append [of "header p # writeUint16 (transportCode1 p)" 3]
    by (simp add: frame_of_def code_bytes_def hasTransportCodes_eq readUint16_append_left)
  have h0: "frame_of p ! 0 = header p" by (simp add: frame_of_def)
  have psz: "unat (hopCount p) * unat (hashSize p) = pathSize p" by (simp add: pathSize_def)
  have lenf: "length (frame_of p) = body_offset (header p) + 1 + pathSize p + unat (payloadSize p)"
    using length_frame_of [OF wf] by (simp add: body_offset_def hasTransportCodes_eq)
  have bnd: "pathSize p \<le> 64" "unat (payloadSize p) \<le> 184" "body_offset (header p) \<le> 5" "1 \<le> body_offset (header p)"
    using wf by (simp_all add: wf_packet_def body_offset_def)
  have ncl: "\<not> tc_header (header p) \<Longrightarrow> transportCode1 p = 0 \<and> transportCode2 p = 0"
    using cl by (simp add: clean_packet_def hasTransportCodes_eq)
  show ?thesis
    using bnd hashSize_byte [OF wf] t1 t2 ncl
    unfolding parse_flat Let_def h0 pbn pb rest lenf
    by (auto simp: psz views_wf [OF wf] clean_path [OF cl wf] clean_payload [OF cl wf])
qed

lemma frame_pieces:
  assumes "1 \<le> off" "off < length f"
  shows "f ! 0 # take (off - 1) (drop 1 f) @ f ! off # drop (off + 1) f = f"
proof -
  have "take off f = f ! 0 # take (off - 1) (drop 1 f)" using assms by (cases f; cases off) simp_all
  then show ?thesis using id_take_nth_drop [OF assms(2)] by simp
qed

lemma parse_SomeD:
  assumes "parse f = Some p"
  shows "wf_packet p" "clean_packet p" "frame_of p = f"
proof -
  define h where "h = f ! 0"
  define off where "off = body_offset h"
  define pb where "pb = f ! off"
  define hops where "hops = pb AND 0x3F"
  define code where "code = drop_bit 6 (pb AND 0xC0)"
  define psz where "psz = unat hops * unat (code + 1)"
  define rest where "rest = drop (off + 1) f"
  note defs = h_def off_def pb_def hops_def code_def psz_def rest_def
  from assms have g: "2 \<le> length f" "length f \<le> 255" "off + 1 \<le> length f" "unat code + 1 \<le> 3" "psz \<le> 64"
      "psz \<le> length rest" "length rest - psz \<le> 184"
    and p: "p = \<lparr>header = h, transportCode1 = if tc_header h then readUint16 f 1 else 0,
             transportCode2 = if tc_header h then readUint16 f 3 else 0, hashSize = code + 1, hopCount = hops,
             path = memcpy (replicate 64 0) 0 (take psz rest),
             payload = memcpy (replicate 184 0) 0 (drop psz rest),
             payloadSize = of_nat (length rest - psz)\<rparr>"
    by (simp_all add: parse_flat Let_def defs split: if_splits)
  have code1: "unat (code + 1) = unat code + 1" using g(4) by (simp add: unat_word_ariths)
  have fld: "header p = h" "hashSize p = code + 1" "hopCount p = hops"
      "path p = memcpy (replicate 64 0) 0 (take psz rest)"
      "payload p = memcpy (replicate 184 0) 0 (drop psz rest)"
      "transportCode1 p = (if tc_header h then readUint16 f 1 else 0)"
      "transportCode2 p = (if tc_header h then readUint16 f 3 else 0)"
    by (simp_all add: p)
  have sz: "unat (payloadSize p) = length rest - psz"
    using g(7) by (simp add: p unat_of_nat del: of_nat_diff)
  have ps: "pathSize p = psz" by (simp add: fld pathSize_def psz_def)
  show wf: "wf_packet p" unfolding wf_packet_def ps sz using g
    by (simp add: fld code1 memcpy_def unat_and_63 hops_def)
  show "clean_packet p" unfolding clean_packet_def ps sz using g
    by (simp add: fld memcpy_def hasTransportCodes_eq)
  have v: "pathView p = take psz rest" "payloadView p = drop psz rest"
    unfolding pathView_def payloadView_def ps sz using g by (simp_all add: fld memcpy_def)
  have c: "code_bytes p = take (off - 1) (drop 1 f)"
    using g writeUint16_readUint16 [of 1 f] writeUint16_readUint16 [of 3 f] take_add [of 2 2 "drop 1 f"]
    by (auto simp: code_bytes_def hasTransportCodes_eq fld off_def body_offset_def)
  have pbe: "push_bit 6 (hashSize p - 1) OR hopCount p = pb"
    unfolding fld code_def hops_def add_diff_cancel_right' by (rule path_byte_split)
  have "frame_of p = h # take (off - 1) (drop 1 f) @ pb # rest"
    unfolding frame_of_def v c pbe by (simp add: fld)
  also have "\<dots> = f" unfolding h_def pb_def rest_def using g by (intro frame_pieces) (simp_all add: off_def body_offset_def)
  finally show "frame_of p = f" .
qed

lemma decodeAdvert_encodeAdvert: "encodeAdvert a n = Some bs \<Longrightarrow> decodeAdvert bs = Some a"
  by (auto simp: encodeAdvert_def decodeAdvert_def Let_def subspan_def readUint32_at split: if_splits)

lemma encodeAdvert_decodeAdvert:
  assumes "decodeAdvert bs = Some a" "length bs \<le> 184" shows "encodeAdvert a 184 = Some bs"
proof -
  from assms(1) have l: "100 \<le> length bs" by (auto simp: decodeAdvert_def split: if_splits)
  have "take 32 bs @ take 4 (drop 32 bs) @ take 64 (drop 36 bs) @ drop 100 bs = bs"
    using take_add [of 32 4 bs] take_add [of 36 64 bs] append_take_drop_id [of 100 bs] by simp
  then show ?thesis using assms l
    by (auto simp: encodeAdvert_def decodeAdvert_def subspan_def writeUint32_readUint32 split: if_splits)
qed

lemma decodeText_encodeText:
  assumes "encodeText m n = Some bs" shows "decodeText bs = Some m"
proof -
  define fl where "fl = push_bit 2 (txtType m) OR attempt m"
  from assms have bs: "bs = writeUint32 (txt_timestamp m) @ fl # txt_message m"
    and b: "unat (txtType m) \<le> 63" "unat (attempt m) \<le> 3"
    by (auto simp: encodeText_def Let_def fl_def word_le_nat_alt not_less split: if_splits)
  have "drop_bit 2 (fl AND 0xFC) = txtType m" "fl AND 0x03 = attempt m"
    unfolding fl_def by (rule text_byte_type [OF b(2,1)], rule text_byte_attempt [OF b(2)])
  then show ?thesis by (simp add: bs decodeText_def nth_append)
qed

lemma decodeEnvelope_encodeEnvelope: "encodeEnvelope e n = Some bs \<Longrightarrow> decodeEnvelope bs = Some e"
  by (auto simp: encodeEnvelope_def decodeEnvelope_def subspan_def Let_def split: if_splits)

lemma decodeGroup_encodeGroup: "encodeGroup e n = Some bs \<Longrightarrow> decodeGroup bs = Some e"
  by (auto simp: encodeGroup_def decodeGroup_def subspan_def Let_def split: if_splits)

lemma decodeTrace_encodeTrace: "encodeTrace e n = Some bs \<Longrightarrow> decodeTrace bs = Some e"
  using readUint32_at [of "writeUint32 (trace_tag e)" 4 "trace_authCode e" "trace_flags e # trace_snr e"]
  by (auto simp: encodeTrace_def decodeTrace_def Let_def nth_append split: if_splits)

lemma decodePath_encodePath: "encodePath r n = Some bs \<Longrightarrow> decodePath bs = Some r"
  by (auto simp: encodePath_def decodePath_def Let_def subspan_def nth_append mc_simps split: if_splits)


lemma appendSelf_SomeD:
  assumes "appendSelf p s = Some q" and wf: "wf_packet p"
  shows "wf_packet q" "pathView q = pathView p @ [s]" "payloadView q = payloadView p"
    "header q = header p" "unat (hopCount q) = unat (hopCount p) + 1" "hashSize q = 1"
proof -
  from assms(1) have q: "q = p\<lparr>path := (path p)[pathSize p := s], hopCount := hopCount p + 1\<rparr>"
    and g: "unat (hashSize p) = 1" "unat (hopCount p) < 63" "pathSize p + 1 \<le> 64"
    by (auto simp: appendSelf_def split: if_splits)
  show h1: "hashSize q = 1" using g(1) by (simp add: q word_unat_eq_iff)
  show h2: "unat (hopCount q) = unat (hopCount p) + 1" using g by (simp add: q unat_word_ariths)
  have ps: "pathSize q = pathSize p + 1" using h1 h2 g by (simp add: pathSize_def)
  have len: "pathSize p < length (path p)" using wf g by (simp add: wf_packet_def)
  show "wf_packet q" using wf g h1 h2 ps by (simp add: wf_packet_def) (simp add: q)
  show "pathView q = pathView p @ [s]" using len unfolding pathView_def ps
    by (simp add: q take_Suc_conv_app_nth)
  show "payloadView q = payloadView p" "header q = header p" by (simp_all add: q payloadView_def)
qed

lemma stripSelf_SomeD:
  assumes "stripSelf p s = Some q" and wf: "wf_packet p"
  shows "wf_packet q" "pathView p = s # pathView q" "payloadView q = payloadView p"
    "header q = header p" "unat (hopCount p) = unat (hopCount q) + 1" "hashSize q = 1"
proof -
  let ?n = "pathSize p"
  from assms(1) have q: "q = p\<lparr>path := (memcpy (path p) 0 (subspan (path p) 1 (?n - 1)))[?n - 1 := 0], hopCount := hopCount p - 1\<rparr>"
    and g: "unat (hashSize p) = 1" "hopCount p \<noteq> 0" "path p ! 0 = s"
    by (auto simp: stripSelf_def Let_def split: if_splits)
  have hop: "0 < unat (hopCount p)" using g(2) by (simp add: unat_gt_0)
  have n: "?n = unat (hopCount p)" using g(1) by (simp add: pathSize_def)
  have bnd: "?n \<le> 64" "length (path p) = 64" using wf by (simp_all add: wf_packet_def)
  show h1: "hashSize q = 1" using g(1) by (simp add: q word_unat_eq_iff)
  show h2: "unat (hopCount p) = unat (hopCount q) + 1"
    using hop by (simp add: q unat_sub word_le_nat_alt)
  have ps: "pathSize q = ?n - 1" using h1 h2 n by (simp add: pathSize_def)
  have len: "length (subspan (path p) 1 (?n - 1)) = ?n - 1"
    using bnd hop n by (simp add: subspan_def)
  have lp: "length (path q) = 64" using bnd hop n len by (simp add: q memcpy_def)
  have pl: "payload q = payload p" "payloadSize q = payloadSize p" by (simp_all add: q)
  have hq: "unat (hopCount q) \<le> 63" using wf h2 by (simp add: wf_packet_def)
  show "wf_packet q" using wf bnd unfolding wf_packet_def ps lp pl h1 by (simp add: hq)
  have "pathView q = subspan (path p) 1 (?n - 1)"
    unfolding pathView_def ps by (simp add: q memcpy_def len [unfolded One_nat_def])
  moreover have "pathView p = path p ! 0 # subspan (path p) 1 (?n - 1)"
  proof -
    obtain x xs where "path p = x # xs" using bnd by (cases "path p") auto
    then show ?thesis using hop n by (simp add: pathView_def subspan_def take_Cons')
  qed
  ultimately show "pathView p = s # pathView q" using g(3) by simp
  show "payloadView q = payloadView p" "header q = header p" by (simp_all add: q payloadView_def)
qed

lemma appendTraceHop_SomeD:
  assumes "appendTraceHop p r = Some q" and wf: "wf_packet p"
  shows "wf_packet q" "pathView q = pathView p" "header q = header p"
    "payloadView q = payloadView p @ [word_of_int (max (-128) (min 127 r))]"
proof -
  have cl: "(if r < -128 then -128 else if r > 127 then 127 else r) = max (-128) (min 127 r)" by auto
  from assms(1) have q: "q = p\<lparr>payload := (payload p)[unat (payloadSize p) := word_of_int (max (-128) (min 127 r))],
              payloadSize := payloadSize p + 1\<rparr>" and g: "unat (payloadSize p) < 184"
    unfolding appendTraceHop_def Let_def cl by (auto split: if_splits)
  have sz: "unat (payloadSize q) = unat (payloadSize p) + 1" using g by (simp add: q unat_word_ariths)
  show "wf_packet q" using wf g sz by (simp add: wf_packet_def pathSize_def) (simp add: q)
  show "pathView q = pathView p" "header q = header p" by (simp_all add: q pathView_def pathSize_def)
  show "payloadView q = payloadView p @ [word_of_int (max (-128) (min 127 r))]"
    unfolding payloadView_def sz using g wf by (simp add: q take_Suc_conv_app_nth wf_packet_def)
qed

lemma appendSelf_None:
  "appendSelf p s = None \<Longrightarrow> wf_packet p \<Longrightarrow> hashSize p \<noteq> 1 \<or> unat (hopCount p) = MAX_HOP_COUNT"
  by (auto simp: appendSelf_def wf_packet_def pathSize_def word_unat_eq_iff split: if_splits)

lemma stripSelf_None:
  "stripSelf p s = None \<Longrightarrow> wf_packet p \<Longrightarrow> hashSize p \<noteq> 1 \<or> (\<nexists>rest. pathView p = s # rest)"
  by (cases "path p")
    (auto simp: stripSelf_def Let_def pathView_def pathSize_def take_Cons' word_unat_eq_iff split: if_splits)

section \<open>Properties\<close>

text \<open>
  C4. \<^verbatim>\<open>parse\<close> and \<^verbatim>\<open>serialize\<close> are inverse to each other: a frame parses to a packet exactly
  when that packet is well formed (array sizes, hop count, hash size, path and payload in
  bounds), clean (zeros beyond what is used), and serialises into a 255-byte buffer to that
  very frame. So no two frames parse alike, no accepted frame loses a bit when forwarded,
  and every malformed frame is refused.
\<close>

theorem parse_serialize_inverse:
  "parse f = Some p \<longleftrightarrow> wf_packet p \<and> clean_packet p \<and> serialize p MAX_PACKET_FRAME = Some f"
proof
  assume "parse f = Some p"
  from parse_SomeD [OF this] show "wf_packet p \<and> clean_packet p \<and> serialize p MAX_PACKET_FRAME = Some f"
    using length_frame_of [of p] by (auto simp: serialize_wf wf_packet_def)
next
  assume "wf_packet p \<and> clean_packet p \<and> serialize p MAX_PACKET_FRAME = Some f"
  then show "parse f = Some p"
    using parse_frame_of [of p] serialize_SomeD [of p MAX_PACKET_FRAME f] by (auto simp: wf_packet_def)
qed

text \<open>
  every payload codec decodes what it encoded: whatever encoder succeeds, the matching
  decoder returns the same fields from the bytes written (advert, text, addressed envelope,
  channel message, trace, returned path).
\<close>

theorem payload_codecs_roundtrip:
  "(encodeAdvert a n = Some bs \<longrightarrow> decodeAdvert bs = Some a)
   \<and> (encodeText m n = Some bs \<longrightarrow> decodeText bs = Some m)
   \<and> (encodeEnvelope e n = Some bs \<longrightarrow> decodeEnvelope bs = Some e)
   \<and> (encodeGroup g n = Some bs \<longrightarrow> decodeGroup bs = Some g)
   \<and> (encodeTrace t n = Some bs \<longrightarrow> decodeTrace bs = Some t)
   \<and> (encodePath r n = Some bs \<longrightarrow> decodePath bs = Some r)"
  by (simp add: decodeAdvert_encodeAdvert decodeText_encodeText decodeEnvelope_encodeEnvelope
      decodeGroup_encodeGroup decodeTrace_encodeTrace decodePath_encodePath)

theorem payload_codecs_roundtrip_witness:
  "encodePath \<lparr>ret_path = [1, 2], ret_extraType = 0, ret_extra = [9]\<rparr> 184 = Some [2, 1, 2, 0, 9]
   \<and> decodePath [2, 1, 2, 0, 9] = Some \<lparr>ret_path = [1, 2], ret_extraType = 0, ret_extra = [9]\<rparr>"
proof -
  have e: "encodePath \<lparr>ret_path = [1, 2], ret_extraType = 0, ret_extra = [9]\<rparr> 184 = Some [2, 1, 2, 0, 9]"
    by (simp add: encodePath_def)
  with payload_codecs_roundtrip [of undefined 184 "[2, 1, 2, 0, 9]" undefined undefined undefined undefined
      "\<lparr>ret_path = [1, 2], ret_extraType = 0, ret_extra = [9]\<rparr>"]
  show ?thesis by simp
qed

text \<open>
  a repeater's two edits of the path, on any well-formed packet. Appending succeeds
  exactly with one-byte hashes and fewer than 63 hops, and then adds our hash at the end;
  stripping succeeds exactly when our hash is the next hop, and then removes it from the
  front. Both keep header, payload and well-formedness, so the edited packet can be sent.
\<close>

theorem hop_edits_correct:
  assumes "wf_packet p"
  shows "(case appendSelf p h of
            None \<Rightarrow> hashSize p \<noteq> 1 \<or> unat (hopCount p) = MAX_HOP_COUNT
          | Some q \<Rightarrow> wf_packet q \<and> pathView q = pathView p @ [h] \<and> header q = header p
              \<and> payloadView q = payloadView p)
       \<and> (case stripSelf p h of
            None \<Rightarrow> hashSize p \<noteq> 1 \<or> (\<nexists>rest. pathView p = h # rest)
          | Some q \<Rightarrow> wf_packet q \<and> pathView p = h # pathView q \<and> header q = header p
              \<and> payloadView q = payloadView p)"
proof (rule conjI)
  show "case appendSelf p h of
            None \<Rightarrow> hashSize p \<noteq> 1 \<or> unat (hopCount p) = MAX_HOP_COUNT
          | Some q \<Rightarrow> wf_packet q \<and> pathView q = pathView p @ [h] \<and> header q = header p
              \<and> payloadView q = payloadView p"
    using assms appendSelf_SomeD [OF _ assms] appendSelf_None [OF _ assms] by (auto split: option.split)
  show "case stripSelf p h of
            None \<Rightarrow> hashSize p \<noteq> 1 \<or> (\<nexists>rest. pathView p = h # rest)
          | Some q \<Rightarrow> wf_packet q \<and> pathView p = h # pathView q \<and> header q = header p
              \<and> payloadView q = payloadView p"
    using stripSelf_SomeD [OF _ assms] stripSelf_None [OF _ assms] by (auto split: option.split)
qed

theorem hop_edits_correct_witness:
  "wf_packet packet_init \<and> (\<exists>q. appendSelf packet_init 7 = Some q \<and> pathView q = [7])"
proof -
  have wf: "wf_packet packet_init" by (simp add: wf_packet_def packet_init_def pathSize_def)
  have e: "appendSelf packet_init 7 \<noteq> None" by (simp add: appendSelf_def packet_init_def pathSize_def)
  have v: "pathView packet_init = []" by (simp add: pathView_def packet_init_def pathSize_def)
  show ?thesis using hop_edits_correct [OF wf, of 7] wf e v by (auto split: option.splits)
qed

end
