(* ===== verification/Aes128_Block.thy ===== *)
theory Aes128_Block
  imports MC_Prelude
begin

text \<open>
  The AES-128 block cipher of \<^verbatim>\<open>src/src/crypto/aes128.c\<close>, translated function by function: the
  table, the inverse table built from it, multiplication in GF(2^8), the key schedule, the
  round functions on the 16-byte column-major state, and the two block functions. The main
  result is that decryption inverts encryption for every key schedule and every block; the
  inverse of each round function is proved on its own, and the S-box by the loop that builds
  the inverse table being right for any table without repetitions.
\<close>

unbundle bit_operations_syntax

section \<open>Tables and field arithmetic\<close>

definition SBOX :: bytes where
  "SBOX =
     [0x63, 0x7c, 0x77, 0x7b, 0xf2, 0x6b, 0x6f, 0xc5, 0x30, 0x01, 0x67, 0x2b, 0xfe, 0xd7, 0xab, 0x76,
      0xca, 0x82, 0xc9, 0x7d, 0xfa, 0x59, 0x47, 0xf0, 0xad, 0xd4, 0xa2, 0xaf, 0x9c, 0xa4, 0x72, 0xc0,
      0xb7, 0xfd, 0x93, 0x26, 0x36, 0x3f, 0xf7, 0xcc, 0x34, 0xa5, 0xe5, 0xf1, 0x71, 0xd8, 0x31, 0x15,
      0x04, 0xc7, 0x23, 0xc3, 0x18, 0x96, 0x05, 0x9a, 0x07, 0x12, 0x80, 0xe2, 0xeb, 0x27, 0xb2, 0x75,
      0x09, 0x83, 0x2c, 0x1a, 0x1b, 0x6e, 0x5a, 0xa0, 0x52, 0x3b, 0xd6, 0xb3, 0x29, 0xe3, 0x2f, 0x84,
      0x53, 0xd1, 0x00, 0xed, 0x20, 0xfc, 0xb1, 0x5b, 0x6a, 0xcb, 0xbe, 0x39, 0x4a, 0x4c, 0x58, 0xcf,
      0xd0, 0xef, 0xaa, 0xfb, 0x43, 0x4d, 0x33, 0x85, 0x45, 0xf9, 0x02, 0x7f, 0x50, 0x3c, 0x9f, 0xa8,
      0x51, 0xa3, 0x40, 0x8f, 0x92, 0x9d, 0x38, 0xf5, 0xbc, 0xb6, 0xda, 0x21, 0x10, 0xff, 0xf3, 0xd2,
      0xcd, 0x0c, 0x13, 0xec, 0x5f, 0x97, 0x44, 0x17, 0xc4, 0xa7, 0x7e, 0x3d, 0x64, 0x5d, 0x19, 0x73,
      0x60, 0x81, 0x4f, 0xdc, 0x22, 0x2a, 0x90, 0x88, 0x46, 0xee, 0xb8, 0x14, 0xde, 0x5e, 0x0b, 0xdb,
      0xe0, 0x32, 0x3a, 0x0a, 0x49, 0x06, 0x24, 0x5c, 0xc2, 0xd3, 0xac, 0x62, 0x91, 0x95, 0xe4, 0x79,
      0xe7, 0xc8, 0x37, 0x6d, 0x8d, 0xd5, 0x4e, 0xa9, 0x6c, 0x56, 0xf4, 0xea, 0x65, 0x7a, 0xae, 0x08,
      0xba, 0x78, 0x25, 0x2e, 0x1c, 0xa6, 0xb4, 0xc6, 0xe8, 0xdd, 0x74, 0x1f, 0x4b, 0xbd, 0x8b, 0x8a,
      0x70, 0x3e, 0xb5, 0x66, 0x48, 0x03, 0xf6, 0x0e, 0x61, 0x35, 0x57, 0xb9, 0x86, 0xc1, 0x1d, 0x9e,
      0xe1, 0xf8, 0x98, 0x11, 0x69, 0xd9, 0x8e, 0x94, 0x9b, 0x1e, 0x87, 0xe9, 0xce, 0x55, 0x28, 0xdf,
      0x8c, 0xa1, 0x89, 0x0d, 0xbf, 0xe6, 0x42, 0x68, 0x41, 0x99, 0x2d, 0x0f, 0xb0, 0x54, 0xbb, 0x16]"

text \<open>\<^verbatim>\<open>build_inv_sbox\<close>: the array starts as zeros and the loop writes one entry per index.\<close>

definition build_inv_sbox :: "bytes \<Rightarrow> bytes" where
  "build_inv_sbox tab = fold (\<lambda>i inv. inv[unat (tab ! i) := of_nat i]) [0..<256] (replicate 256 0)"

definition INV_SBOX :: bytes where
  "INV_SBOX = build_inv_sbox SBOX"

definition RCON :: bytes where
  "RCON = [0x01, 0x02, 0x04, 0x08, 0x10, 0x20, 0x40, 0x80, 0x1b, 0x36]"

definition xtime :: "byte \<Rightarrow> byte" where
  "xtime b = push_bit 1 b XOR (drop_bit 7 b * 0x1b)"

fun gmul_loop :: "nat \<Rightarrow> byte \<Rightarrow> byte \<Rightarrow> byte \<Rightarrow> byte" where
  "gmul_loop 0 a b result = result"
| "gmul_loop (Suc n) a b result =
     gmul_loop n (xtime a) (drop_bit 1 b) (if b AND 1 \<noteq> 0 then result XOR a else result)"

definition gmul :: "byte \<Rightarrow> byte \<Rightarrow> byte" where
  "gmul a b = gmul_loop 8 a b 0"

section \<open>Key schedule\<close>

definition key_step :: "nat \<Rightarrow> bytes \<Rightarrow> bytes" where
  "key_step i rk =
     (let t = subspan rk ((i - 1) * 4) 4;
          t = (if i mod 4 = 0
               then [SBOX ! unat (t ! 1) XOR RCON ! (i div 4 - 1), SBOX ! unat (t ! 2),
                     SBOX ! unat (t ! 3), SBOX ! unat (t ! 0)]
               else t)
      in fold (\<lambda>j rk. rk[i * 4 + j := rk ! ((i - 4) * 4 + j) XOR t ! j]) [0..<4] rk)"

definition aes128_init :: "bytes \<Rightarrow> bytes" where
  "aes128_init key = fold key_step [4..<44] (memcpy (replicate 176 0) 0 (take 16 key))"

section \<open>Round functions\<close>

definition add_round_key :: "bytes \<Rightarrow> bytes \<Rightarrow> bytes" where
  "add_round_key state round_key = map (\<lambda>i. state ! i XOR round_key ! i) [0..<16]"

definition sub_bytes :: "bytes \<Rightarrow> bytes" where
  "sub_bytes state = map (\<lambda>i. SBOX ! unat (state ! i)) [0..<16]"

definition inv_sub_bytes :: "bytes \<Rightarrow> bytes" where
  "inv_sub_bytes state = map (\<lambda>i. INV_SBOX ! unat (state ! i)) [0..<16]"

definition shift_rows :: "bytes \<Rightarrow> bytes" where
  "shift_rows s =
     (let t = s ! 1; s = s[1 := s ! 5]; s = s[5 := s ! 9]; s = s[9 := s ! 13]; s = s[13 := t];
          t = s ! 2; s = s[2 := s ! 10]; s = s[10 := t];
          t = s ! 6; s = s[6 := s ! 14]; s = s[14 := t];
          t = s ! 15; s = s[15 := s ! 11]; s = s[11 := s ! 7]; s = s[7 := s ! 3]
      in s[3 := t])"

definition inv_shift_rows :: "bytes \<Rightarrow> bytes" where
  "inv_shift_rows s =
     (let t = s ! 13; s = s[13 := s ! 9]; s = s[9 := s ! 5]; s = s[5 := s ! 1]; s = s[1 := t];
          t = s ! 2; s = s[2 := s ! 10]; s = s[10 := t];
          t = s ! 6; s = s[6 := s ! 14]; s = s[14 := t];
          t = s ! 3; s = s[3 := s ! 7]; s = s[7 := s ! 11]; s = s[11 := s ! 15]
      in s[15 := t])"

text \<open>The body of the two column loops, on column \<open>c\<close>; the four old bytes are read first.\<close>

definition mix_column :: "nat \<Rightarrow> bytes \<Rightarrow> bytes" where
  "mix_column c s =
     (let a0 = s ! (c * 4); a1 = s ! (c * 4 + 1); a2 = s ! (c * 4 + 2); a3 = s ! (c * 4 + 3);
          sum = a0 XOR a1 XOR a2 XOR a3;
          s = s[c * 4 := s ! (c * 4) XOR (sum XOR xtime (a0 XOR a1))];
          s = s[c * 4 + 1 := s ! (c * 4 + 1) XOR (sum XOR xtime (a1 XOR a2))];
          s = s[c * 4 + 2 := s ! (c * 4 + 2) XOR (sum XOR xtime (a2 XOR a3))]
      in s[c * 4 + 3 := s ! (c * 4 + 3) XOR (sum XOR xtime (a3 XOR a0))])"

definition mix_columns :: "bytes \<Rightarrow> bytes" where
  "mix_columns s = fold mix_column [0..<4] s"

definition inv_mix_column :: "nat \<Rightarrow> bytes \<Rightarrow> bytes" where
  "inv_mix_column c s =
     (let a0 = s ! (c * 4); a1 = s ! (c * 4 + 1); a2 = s ! (c * 4 + 2); a3 = s ! (c * 4 + 3);
          s = s[c * 4 := gmul a0 0x0e XOR gmul a1 0x0b XOR gmul a2 0x0d XOR gmul a3 0x09];
          s = s[c * 4 + 1 := gmul a0 0x09 XOR gmul a1 0x0e XOR gmul a2 0x0b XOR gmul a3 0x0d];
          s = s[c * 4 + 2 := gmul a0 0x0d XOR gmul a1 0x09 XOR gmul a2 0x0e XOR gmul a3 0x0b]
      in s[c * 4 + 3 := gmul a0 0x0b XOR gmul a1 0x0d XOR gmul a2 0x09 XOR gmul a3 0x0e])"

definition inv_mix_columns :: "bytes \<Rightarrow> bytes" where
  "inv_mix_columns s = fold inv_mix_column [0..<4] s"

section \<open>Blocks\<close>

definition encrypt_round :: "bytes \<Rightarrow> nat \<Rightarrow> bytes \<Rightarrow> bytes" where
  "encrypt_round ctx round state =
     add_round_key (mix_columns (shift_rows (sub_bytes state))) (drop (round * 16) ctx)"

definition aes128_encrypt_block :: "bytes \<Rightarrow> bytes \<Rightarrow> bytes" where
  "aes128_encrypt_block ctx block =
     (let state = add_round_key block ctx;
          state = fold (encrypt_round ctx) [1..<10] state
      in add_round_key (shift_rows (sub_bytes state)) (drop (10 * 16) ctx))"

definition decrypt_round :: "bytes \<Rightarrow> nat \<Rightarrow> bytes \<Rightarrow> bytes" where
  "decrypt_round ctx round state =
     inv_mix_columns (add_round_key (inv_sub_bytes (inv_shift_rows state)) (drop (round * 16) ctx))"

definition aes128_decrypt_block :: "bytes \<Rightarrow> bytes \<Rightarrow> bytes" where
  "aes128_decrypt_block ctx block =
     (let state = add_round_key block (drop (10 * 16) ctx);
          state = fold (decrypt_round ctx) (rev [1..<10]) state
      in add_round_key (inv_sub_bytes (inv_shift_rows state)) ctx)"

definition aes128_clear :: "bytes \<Rightarrow> bytes" where
  "aes128_clear ctx = map (\<lambda>_. 0) ctx"

section \<open>Each step is undone by its inverse\<close>

lemma length_SBOX: "length SBOX = 256" by (simp add: SBOX_def)
lemma uint_SBOX: "distinct (map uint SBOX)"
  by (simp add: SBOX_def)
lemma distinct_SBOX: "distinct SBOX"
  using uint_SBOX by (simp add: distinct_map)

lemma len16: "length s = 16 \<Longrightarrow> \<exists>a b c d e f g h i j k l m n p q. s = [a,b,c,d,e,f,g,h,i,j,k,l,m,n,p,q]"
  by (auto simp: numeral_eq_Suc length_Suc_conv)

lemma inv_shift_rows_shift_rows: "length s = 16 \<Longrightarrow> inv_shift_rows (shift_rows s) = s"
  by (drule len16) (auto simp: shift_rows_def inv_shift_rows_def)

lemma add_round_key_twice: "length s = 16 \<Longrightarrow> add_round_key (add_round_key s k) k = s"
  by (rule nth_equalityI) (auto simp: add_round_key_def xor.assoc)


lemma length_fold_update:
  "length (fold (\<lambda>i t. t[f i := g i]) is t) = length t"
  by (induction "is" arbitrary: t) auto

lemma build_inv_prefix:
  "n \<le> length tab \<Longrightarrow> distinct tab \<Longrightarrow> j < n \<Longrightarrow> length tbl = 256 \<Longrightarrow>
   fold (\<lambda>i t. t[unat (tab ! i) := of_nat i]) [0..<n] tbl ! unat (tab ! j) = (of_nat j :: byte)"
  for tab :: bytes
proof (induction n)
  case (Suc n)
  show ?case
  proof (cases "j = n")
    case True
    then show ?thesis using Suc.prems by (simp add: length_fold_update)
  next
    case False
    with Suc.prems have "tab ! n \<noteq> tab ! j" by (simp add: nth_eq_iff_index_eq)
    then have "unat (tab ! n) \<noteq> unat (tab ! j)" by (simp add: word_unat_eq_iff)
    then show ?thesis using Suc False by (simp add: length_fold_update)
  qed
qed simp

lemma INV_SBOX_SBOX: "INV_SBOX ! unat (SBOX ! unat b) = b"
  using build_inv_prefix [of 256 SBOX "unat b" "replicate 256 0"]
  by (simp add: INV_SBOX_def build_inv_sbox_def length_SBOX distinct_SBOX)

lemma inv_sub_bytes_sub_bytes: "length s = 16 \<Longrightarrow> inv_sub_bytes (sub_bytes s) = s"
  by (rule nth_equalityI) (simp_all add: sub_bytes_def inv_sub_bytes_def INV_SBOX_SBOX)

lemma xtime_bits: 
  "bit (xtime b) 0 = bit b 7" "bit (xtime b) 1 = (bit b 0 \<noteq> bit b 7)" "bit (xtime b) 2 = bit b 1"
  "bit (xtime b) 3 = (bit b 2 \<noteq> bit b 7)" "bit (xtime b) 4 = (bit b 3 \<noteq> bit b 7)" "bit (xtime b) 5 = bit b 4"
  "bit (xtime b) 6 = bit b 5" "bit (xtime b) 7 = bit b 6"
proof -
  have d: "drop_bit 7 b = (if bit b 7 then 1 else 0)"
    by (simp add: byte_eq_iff bit_simps) (auto dest: bit_imp_le_length)
  have e: "bit (push_bit 1 b) n = (1 \<le> n \<and> n < 8 \<and> bit b (n - 1))" for n
    using bit_push_bit_iff [of 1 b n] by (auto simp: bit_imp_le_length dest: bit_imp_le_length)
  show "bit (xtime b) 0 = bit b 7" "bit (xtime b) 1 = (bit b 0 \<noteq> bit b 7)" "bit (xtime b) 2 = bit b 1"
  "bit (xtime b) 3 = (bit b 2 \<noteq> bit b 7)" "bit (xtime b) 4 = (bit b 3 \<noteq> bit b 7)" "bit (xtime b) 5 = bit b 4"
  "bit (xtime b) 6 = bit b 5" "bit (xtime b) 7 = bit b 6"
    unfolding xtime_def bit_xor_iff e d by (simp_all add: bit_simps)
qed

lemma xtime_xor: "xtime (a XOR b) = xtime a XOR xtime b"
  unfolding byte_eq_iff [of "xtime (a XOR b)"] bit_xor_iff xtime_bits by blast



lemma eight_Suc: "(8::nat) = Suc (Suc (Suc (Suc (Suc (Suc (Suc (Suc 0)))))))" by simp


lemma halves:
  "drop_bit 1 (14::byte) = 7" "drop_bit 1 (13::byte) = 6" "drop_bit 1 (11::byte) = 5" "drop_bit 1 (9::byte) = 4"
  "drop_bit 1 (7::byte) = 3" "drop_bit 1 (6::byte) = 3" "drop_bit 1 (5::byte) = 2" "drop_bit 1 (4::byte) = 2"
  "drop_bit 1 (3::byte) = 1" "drop_bit 1 (2::byte) = 1" "drop_bit 1 (1::byte) = 0" "drop_bit 1 (0::byte) = 0"
  by code_simp+

lemma low_bits:
  "(14::byte) AND 1 = 0" "(13::byte) AND 1 = 1" "(11::byte) AND 1 = 1" "(9::byte) AND 1 = 1"
  "(7::byte) AND 1 = 1" "(6::byte) AND 1 = 0" "(5::byte) AND 1 = 1" "(4::byte) AND 1 = 0"
  "(3::byte) AND 1 = 1" "(2::byte) AND 1 = 0" "(1::byte) AND 1 = 1" "(0::byte) AND 1 = 0"
  by simp_all

lemma gmul_consts:
  "gmul a 0x09 = xtime (xtime (xtime a)) XOR a"
  "gmul a 0x0b = xtime (xtime (xtime a)) XOR xtime a XOR a"
  "gmul a 0x0d = xtime (xtime (xtime a)) XOR xtime (xtime a) XOR a"
  "gmul a 0x0e = xtime (xtime (xtime a)) XOR xtime (xtime a) XOR xtime a"
  unfolding gmul_def eight_Suc gmul_loop.simps halves low_bits by (simp_all add: ac_simps)

lemma xor_cancel: "(a::byte) XOR (a XOR b) = b" by (simp flip: xor.assoc)

lemmas xor_ac = xor.assoc xor.commute xor.left_commute xor_cancel

lemma inv_mix_mix:
  assumes "length s = 16"
  shows "inv_mix_columns (mix_columns s) = s"
  using len16 [OF assms]
  by (elim exE) (simp add: mix_columns_def inv_mix_columns_def mix_column_def inv_mix_column_def Let_def upt_rec
      gmul_consts xtime_xor xor_ac)

lemma length_add_round_key [simp]: "length (add_round_key s k) = 16" by (simp add: add_round_key_def)
lemma length_sub_bytes [simp]: "length (sub_bytes s) = 16" by (simp add: sub_bytes_def)
lemma length_inv_sub_bytes [simp]: "length (inv_sub_bytes s) = 16" by (simp add: inv_sub_bytes_def)
lemma length_shift_rows [simp]: "length (shift_rows s) = length s" by (simp add: shift_rows_def Let_def)
lemma length_inv_shift_rows [simp]: "length (inv_shift_rows s) = length s" by (simp add: inv_shift_rows_def Let_def)
lemma length_mix_columns [simp]: "length (mix_columns s) = length s"
  by (simp add: mix_columns_def mix_column_def Let_def upt_rec)
lemma length_inv_mix_columns [simp]: "length (inv_mix_columns s) = length s"
  by (simp add: inv_mix_columns_def inv_mix_column_def Let_def upt_rec)

lemma decrypt_round_cancel:
  "length s = 16 \<Longrightarrow>
   decrypt_round ctx r (shift_rows (sub_bytes (encrypt_round ctx r s))) = shift_rows (sub_bytes s)"
  by (simp add: decrypt_round_def encrypt_round_def inv_shift_rows_shift_rows inv_sub_bytes_sub_bytes
      add_round_key_twice inv_mix_mix)

lemma length_encrypt_round [simp]: "length (encrypt_round ctx r s) = 16"
  by (simp add: encrypt_round_def)

lemma length_fold_encrypt [simp]: "length s = 16 \<Longrightarrow> length (fold (encrypt_round ctx) rs s) = 16"
  by (induction rs arbitrary: s) auto

lemma decrypt_rounds_cancel:
  "length s = 16 \<Longrightarrow>
   fold (decrypt_round ctx) (rev rs) (shift_rows (sub_bytes (fold (encrypt_round ctx) rs s)))
     = shift_rows (sub_bytes s)"
  by (induction rs arbitrary: s) (simp_all add: decrypt_round_cancel)

lemma decrypt_encrypt_block:
  "length b = 16 \<Longrightarrow> aes128_decrypt_block ctx (aes128_encrypt_block ctx b) = b"
  by (simp add: aes128_decrypt_block_def aes128_encrypt_block_def Let_def add_round_key_twice
      decrypt_rounds_cancel inv_shift_rows_shift_rows inv_sub_bytes_sub_bytes)

lemma length_encrypt_block [simp]: "length (aes128_encrypt_block ctx b) = 16"
  by (simp add: aes128_encrypt_block_def Let_def)
lemma length_decrypt_block [simp]: "length (aes128_decrypt_block ctx b) = 16"
  by (simp add: aes128_decrypt_block_def Let_def)

lemma encrypt_decrypt_block:
  assumes "length b = 16" shows "aes128_encrypt_block ctx (aes128_decrypt_block ctx b) = b"
proof -
  let ?B = "{b :: bytes. length b = 16}"
  have fin: "finite ?B" using finite_lists_length_eq [of "UNIV :: byte set" 16] by simp
  have inj: "inj_on (aes128_encrypt_block ctx) ?B"
    by (rule inj_on_inverseI [where g = "aes128_decrypt_block ctx"]) (simp add: decrypt_encrypt_block)
  have "aes128_encrypt_block ctx ` ?B = ?B" by (rule endo_inj_surj [OF fin _ inj]) auto
  with assms obtain a where "length a = 16" "b = aes128_encrypt_block ctx a" by blast
  then show ?thesis by (simp add: decrypt_encrypt_block)
qed

lemma length_key_step [simp]: "length (key_step i rk) = length rk"
  by (simp add: key_step_def Let_def upt_rec)
lemma length_fold_key_step: "length (fold key_step is rk) = length rk"
  by (induction "is" arbitrary: rk) auto
lemma length_aes128_init: "length key = 16 \<Longrightarrow> length (aes128_init key) = 176"
  by (simp add: aes128_init_def length_fold_key_step memcpy_def)

section \<open>Properties\<close>

text \<open>
  C33. the block cipher is a permutation of 16-byte blocks under every expanded key, and
  \<^verbatim>\<open>aes128_decrypt_block\<close> is its inverse on both sides; in particular for the schedule that
  \<^verbatim>\<open>aes128_init\<close> computes, which always fills the 176 bytes of the context.
\<close>

theorem aes128_block_inverse:
  assumes "length key = 16" and "length b = 16"
  shows "aes128_decrypt_block (aes128_init key) (aes128_encrypt_block (aes128_init key) b) = b
    \<and> aes128_encrypt_block (aes128_init key) (aes128_decrypt_block (aes128_init key) b) = b
    \<and> length (aes128_encrypt_block (aes128_init key) b) = 16 \<and> length (aes128_init key) = 176"
  using assms by (simp add: decrypt_encrypt_block encrypt_decrypt_block length_aes128_init)

theorem aes128_block_inverse_witness:
  "aes128_decrypt_block (aes128_init (replicate 16 1)) (aes128_encrypt_block (aes128_init (replicate 16 1)) (replicate 16 7))
     = replicate 16 7"
  using aes128_block_inverse [of "replicate 16 1" "replicate 16 7"] by simp

end
