(* ===== verification/Crypto_Protocol.thy ===== *)
theory Crypto_Protocol
  imports Packet_Codec Aes128_Block
begin

text \<open>
  \<^verbatim>\<open>src/src/crypto/core.cpp\<close> and \<^verbatim>\<open>protocol.cpp\<close>. The libsodium primitives are not part of the
  repository: they are the fields of the record \<open>sodium\<close>, an argument of every definition
  that calls them, and what the code relies on is stated as the predicate \<open>memcmp_spec\<close>. The AES-128
  core is the repository's own and is the model of \<open>Aes128_Block\<close>. Output buffers are
  modelled as in \<open>Packet_Codec\<close>: the size of the buffer goes in, the bytes written come out.
\<close>

unbundle bit_operations_syntax

section \<open>The backend, as a parameter\<close>

record sodium =
  crypto_hash_sha256 :: "bytes \<Rightarrow> bytes"
  crypto_auth_hmacsha256 :: "bytes \<Rightarrow> bytes \<Rightarrow> bytes"
  crypto_sign_detached :: "bytes \<Rightarrow> bytes \<Rightarrow> bytes"
  crypto_sign_verify_detached :: "bytes \<Rightarrow> bytes \<Rightarrow> bytes \<Rightarrow> bool"
  crypto_sign_seed_keypair :: "bytes \<Rightarrow> bytes \<times> bytes"
  crypto_sign_ed25519_sk_to_seed :: "bytes \<Rightarrow> bytes option"
  crypto_sign_ed25519_pk_to_curve25519 :: "bytes \<Rightarrow> bytes option"
  crypto_sign_ed25519_sk_to_curve25519 :: "bytes \<Rightarrow> bytes option"
  crypto_scalarmult :: "bytes \<Rightarrow> bytes \<Rightarrow> bytes option"
  sodium_memcmp :: "bytes \<Rightarrow> bytes \<Rightarrow> bool"

text \<open>\<^verbatim>\<open>sodium_memcmp(a, b, n) == 0\<close> exactly when the two buffers of \<open>n\<close> bytes are equal.\<close>

definition memcmp_spec :: "sodium \<Rightarrow> bool" where
  "memcmp_spec S \<longleftrightarrow> (\<forall>a b. length a = length b \<longrightarrow> sodium_memcmp S a b = (a = b))"

section \<open>core\<close>

record KeyPair =
  kp_pk :: bytes
  kp_sk :: bytes

definition constantTimeEqual :: "sodium \<Rightarrow> bytes \<Rightarrow> bytes \<Rightarrow> bool" where
  "constantTimeEqual S a b =
     (if length a \<noteq> length b then False else if a = [] then True else sodium_memcmp S a b)"

text \<open>
  The random source is the code's pluggable \<^verbatim>\<open>RandomFn\<close>: a sequence of bytes and how many of
  them were drawn. An empty request draws nothing.
\<close>

type_synonym random_source = "nat \<Rightarrow> byte"

definition randomBytes :: "random_source \<Rightarrow> nat \<Rightarrow> nat \<Rightarrow> bytes \<times> nat" where
  "randomBytes src pos n = (map (\<lambda>i. src (pos + i)) [0..<n], pos + n)"

definition generateKeypair :: "sodium \<Rightarrow> random_source \<Rightarrow> nat \<Rightarrow> KeyPair \<times> nat" where
  "generateKeypair S src pos =
     (let (seed, pos) = randomBytes src pos 32; (pk, sk) = crypto_sign_seed_keypair S seed
      in (\<lparr>kp_pk = pk, kp_sk = sk\<rparr>, pos))"

definition deriveShared :: "sodium \<Rightarrow> bytes \<Rightarrow> bytes \<Rightarrow> shared_secret option" where
  "deriveShared S sk pk =
     (case crypto_sign_ed25519_pk_to_curve25519 S pk of None \<Rightarrow> None
      | Some montgomeryPk \<Rightarrow>
        (case crypto_sign_ed25519_sk_to_curve25519 S sk of None \<Rightarrow> None
         | Some montgomerySk \<Rightarrow> crypto_scalarmult S montgomerySk montgomeryPk))"

definition sha256 :: "sodium \<Rightarrow> bytes list \<Rightarrow> bytes" where
  "sha256 S chunks = crypto_hash_sha256 S (concat (filter (\<lambda>c. c \<noteq> []) chunks))"

definition hmacSha256 :: "sodium \<Rightarrow> bytes \<Rightarrow> bytes \<Rightarrow> bytes" where
  "hmacSha256 S key message = crypto_auth_hmacsha256 S key message"

definition sign :: "sodium \<Rightarrow> bytes \<Rightarrow> bytes \<Rightarrow> bytes" where
  "sign S sk message = crypto_sign_detached S sk message"

definition verify :: "sodium \<Rightarrow> bytes \<Rightarrow> bytes \<Rightarrow> bytes \<Rightarrow> bool" where
  "verify S pk message signature = crypto_sign_verify_detached S pk message signature"

text \<open>The loop over whole blocks; its callers check that the length divides.\<close>

function ecb_blocks :: "(bytes \<Rightarrow> bytes) \<Rightarrow> bytes \<Rightarrow> bytes" where
  "ecb_blocks f xs = (if xs = [] then [] else f (take 16 xs) @ ecb_blocks f (drop 16 xs))"
  by pat_completeness auto
termination
  by (relation "measure (\<lambda>(f, xs). length xs)") auto

declare ecb_blocks.simps [simp del]

definition aesEncrypt :: "bytes \<Rightarrow> bytes \<Rightarrow> nat \<Rightarrow> bytes option" where
  "aesEncrypt key inp outSize =
     (if length inp mod PACKET_CIPHER_BLOCK_SIZE \<noteq> 0 \<or> outSize < length inp then None
      else Some (ecb_blocks (aes128_encrypt_block (aes128_init key)) inp))"

definition aesDecrypt :: "bytes \<Rightarrow> bytes \<Rightarrow> nat \<Rightarrow> bytes option" where
  "aesDecrypt key inp outSize =
     (if length inp mod PACKET_CIPHER_BLOCK_SIZE \<noteq> 0 \<or> outSize < length inp then None
      else Some (ecb_blocks (aes128_decrypt_block (aes128_init key)) inp))"

text \<open>
  The key file. A path maps to a regular-file flag, permission bits and content; what the operating
  system may refuse (\<^verbatim>\<open>mkdir\<close>, the writes, \<^verbatim>\<open>close\<close>) are arguments. \<^verbatim>\<open>O_EXCL\<close> makes the open fail
  on an existing path, and a failed write removes the file again.
\<close>

record key_file =
  kf_regular :: bool
  kf_mode :: u32
  kf_content :: bytes

type_synonym file_system = "string \<Rightarrow> key_file option"

definition saveKeypair ::
  "(string \<Rightarrow> bool) \<Rightarrow> bool \<Rightarrow> bool \<Rightarrow> KeyPair \<Rightarrow> string \<Rightarrow> file_system \<Rightarrow> bool \<times> file_system" where
  "saveKeypair makeParentDir written closed keypair file fs =
     (if \<not> makeParentDir file then (False, fs) else
      if fs file \<noteq> None then (False, fs) else
      if \<not> written then (False, fs(file := None)) else
      (closed, fs(file \<mapsto> \<lparr>kf_regular = True, kf_mode = 0x180, kf_content = kp_sk keypair\<rparr>)))"

definition loadKeypair :: "sodium \<Rightarrow> string \<Rightarrow> file_system \<Rightarrow> KeyPair option" where
  "loadKeypair S file fs =
     (case fs file of None \<Rightarrow> None
      | Some info \<Rightarrow>
        if \<not> kf_regular info \<or> kf_mode info AND 0x3F \<noteq> 0
           \<or> length (kf_content info) \<noteq> PACKET_PRIVATE_KEY_SIZE then None else
        let sk = kf_content info in
        (case crypto_sign_ed25519_sk_to_seed S sk of None \<Rightarrow> None
         | Some seed \<Rightarrow>
           let (derived_pk, derived_sk) = crypto_sign_seed_keypair S seed in
           if \<not> sodium_memcmp S derived_sk sk then None
           else Some \<lparr>kp_pk = derived_pk, kp_sk = sk\<rparr>))"

section \<open>protocol\<close>

record Sealed =
  sealed_mac :: bytes
  sealed_ciphertext :: bytes

definition cipherKeyFrom :: "shared_secret \<Rightarrow> bytes" where
  "cipherKeyFrom secret = take PACKET_CIPHER_KEY_SIZE secret"

definition paddedLength :: "nat \<Rightarrow> nat" where
  "paddedLength n = n + (PACKET_CIPHER_BLOCK_SIZE - n mod PACKET_CIPHER_BLOCK_SIZE)"

definition truncateMac :: "bytes \<Rightarrow> bytes" where
  "truncateMac full = take PACKET_MAC_SIZE full"

definition packetHash :: "sodium \<Rightarrow> bytes \<Rightarrow> bytes" where
  "packetHash S frame =
     (case parse frame of None \<Rightarrow> replicate 32 0
      | Some parsed \<Rightarrow> sha256 S [[header parsed], payloadView parsed])"

definition packetSign :: "sodium \<Rightarrow> bytes \<Rightarrow> bytes \<Rightarrow> bytes" where
  "packetSign S sk frame =
     (case parse frame of None \<Rightarrow> replicate 64 0
      | Some parsed \<Rightarrow>
        if payloadType parsed \<noteq> ADVERT then replicate 64 0 else
        (case decodeAdvert (payloadView parsed) of None \<Rightarrow> replicate 64 0
         | Some advert \<Rightarrow>
           let buffer = signedMessage advert MAX_PACKET_PAYLOAD in
           if length buffer = 0 then replicate 64 0 else sign S sk buffer))"

definition packetVerify :: "sodium \<Rightarrow> bytes \<Rightarrow> bool" where
  "packetVerify S frame =
     (case parse frame of None \<Rightarrow> False
      | Some parsed \<Rightarrow>
        if payloadType parsed \<noteq> ADVERT then False else
        (case decodeAdvert (payloadView parsed) of None \<Rightarrow> False
         | Some advert \<Rightarrow>
           let buffer = signedMessage advert MAX_PACKET_PAYLOAD in
           if length buffer = 0 then False else
           if length (adv_publicKey advert) \<noteq> PACKET_PUBLIC_KEY_SIZE then False else
           if length (adv_signature advert) \<noteq> PACKET_SIGNATURE_SIZE then False else
           verify S (adv_publicKey advert) buffer (adv_signature advert)))"

definition seal :: "sodium \<Rightarrow> shared_secret \<Rightarrow> bytes \<Rightarrow> nat \<Rightarrow> Sealed option" where
  "seal S secret plaintext outSize =
     (let total = paddedLength (length plaintext) in
      if outSize < total then None else
      let pad = total - length plaintext;
          block = plaintext @ replicate pad (of_nat pad)
      in case aesEncrypt (cipherKeyFrom secret) block (length block) of None \<Rightarrow> None
         | Some ct \<Rightarrow> Some \<lparr>sealed_mac = truncateMac (hmacSha256 S secret ct), sealed_ciphertext = ct\<rparr>)"

fun trimZeros :: "bytes \<Rightarrow> nat \<Rightarrow> nat" where
  "trimZeros out 0 = 0"
| "trimZeros out (Suc n) = (if out ! n = 0 then trimZeros out n else Suc n)"

text \<open>\<^verbatim>\<open>protocol::open\<close>: the result is the plaintext, the first \<^verbatim>\<open>length\<close> bytes of the output.\<close>

definition openSealed :: "sodium \<Rightarrow> shared_secret \<Rightarrow> bytes \<Rightarrow> bytes \<Rightarrow> nat \<Rightarrow> bytes option" where
  "openSealed S secret mac ciphertext outSize =
     (if ciphertext = [] \<or> length ciphertext mod PACKET_CIPHER_BLOCK_SIZE \<noteq> 0 then None else
      if outSize < length ciphertext then None else
      let expected = truncateMac (hmacSha256 S secret ciphertext) in
      if \<not> constantTimeEqual S expected mac then None else
      case aesDecrypt (cipherKeyFrom secret) ciphertext outSize of None \<Rightarrow> None
      | Some out \<Rightarrow>
        let len = length ciphertext; pad = out ! (len - 1) in
        if pad \<noteq> 0 \<and> unat pad \<le> PACKET_CIPHER_BLOCK_SIZE \<and> unat pad \<le> len
           \<and> list_all (\<lambda>i. out ! i = pad) [len - unat pad..<len]
        then Some (take (len - unat pad) out)
        else Some (take (trimZeros out len) out))"

definition expectedAck :: "sodium \<Rightarrow> bytes \<Rightarrow> public_key \<Rightarrow> u32" where
  "expectedAck S plaintext sender = readUint32 (sha256 S [plaintext, sender]) 0"

section \<open>Lemmas\<close>

lemma ecb_blocks_Nil [simp]: "ecb_blocks f [] = []"
  by (subst ecb_blocks.simps) simp

lemma ecb_blocks_append: "length a = 16 \<Longrightarrow> ecb_blocks f (a @ xs) = f a @ ecb_blocks f xs"
  by (subst ecb_blocks.simps) auto

lemma blocks_induct [consumes 1, case_names Nil Block]:
  assumes "length xs mod 16 = 0"
    and "P []"
    and "\<And>a ys. length a = 16 \<Longrightarrow> length ys mod 16 = 0 \<Longrightarrow> P ys \<Longrightarrow> P (a @ ys)"
  shows "P xs"
  using assms(1)
proof (induction "length xs" arbitrary: xs rule: less_induct)
  case less
  show ?case
  proof (cases "xs = []")
    case False
    with less.prems have "16 \<le> length xs" by (cases "length xs < 16") auto
    then have "P (take 16 xs @ drop 16 xs)"
      using less.prems less.hyps [of "drop 16 xs"] by (intro assms(3)) (auto simp: mod_if)
    then show ?thesis by simp
  qed (simp add: assms(2))
qed

lemma ecb_length:
  assumes "length xs mod 16 = 0" and "\<And>b. length (f b) = 16"
  shows "length (ecb_blocks f xs) = length xs"
  using assms(1) by (induction xs rule: blocks_induct) (simp_all add: ecb_blocks_append assms(2))

lemma ecb_inverse:
  assumes "length xs mod 16 = 0" and "\<And>b. length (f b) = 16" and "\<And>b. length b = 16 \<Longrightarrow> g (f b) = b"
  shows "ecb_blocks g (ecb_blocks f xs) = xs"
  using assms(1) by (induction xs rule: blocks_induct) (simp_all add: ecb_blocks_append assms(2,3))

lemma aes_roundtrip:
  "aesEncrypt key xs n = Some ys \<Longrightarrow> aesDecrypt key ys (length ys) = Some xs \<and> length ys = length xs"
  by (auto simp: aesEncrypt_def aesDecrypt_def ecb_length ecb_inverse decrypt_encrypt_block split: if_splits)

lemma paddedLength_bounds:
  "n < paddedLength n" "paddedLength n \<le> n + 16" "paddedLength n mod 16 = 0"
  unfolding paddedLength_def by (simp, simp, presburger)

lemma constantTimeEqual_iff: "memcmp_spec S \<Longrightarrow> constantTimeEqual S a b = (a = b)"
  by (auto simp: constantTimeEqual_def memcmp_spec_def)

lemma seal_SomeD:
  assumes "seal S secret plain n = Some sd"
  shows "length (sealed_ciphertext sd) = paddedLength (length plain)"
    and "sealed_mac sd = truncateMac (hmacSha256 S secret (sealed_ciphertext sd))"
    and "aesDecrypt (cipherKeyFrom secret) (sealed_ciphertext sd) (length (sealed_ciphertext sd))
           = Some (plain @ replicate (paddedLength (length plain) - length plain)
                     (of_nat (paddedLength (length plain) - length plain)))"
    and "paddedLength (length plain) \<le> n"
  using assms paddedLength_bounds(1) [of "length plain"]
  by (auto simp: seal_def Let_def dest!: aes_roundtrip split: if_splits option.splits)

lemma seal_succeeds: "paddedLength (length plain) \<le> n \<Longrightarrow> \<exists>sd. seal S secret plain n = Some sd"
  using paddedLength_bounds [of "length plain"] by (auto simp: seal_def Let_def aesEncrypt_def)

lemma openSealed_macD:
  "memcmp_spec S \<Longrightarrow> openSealed S secret mac ct n = Some plain \<Longrightarrow> mac = truncateMac (hmacSha256 S secret ct)"
  by (auto simp: openSealed_def Let_def constantTimeEqual_iff split: if_splits)

lemma openSealed_decrypted:
  assumes "memcmp_spec S" and "mac = truncateMac (hmacSha256 S secret ct)" and "length ct \<le> m"
    and "ct \<noteq> []" and "length ct mod 16 = 0"
    and "aesDecrypt (cipherKeyFrom secret) ct (length ct) = Some out"
  shows "openSealed S secret mac ct m =
     (let pad = out ! (length ct - 1) in
        if pad \<noteq> 0 \<and> unat pad \<le> 16 \<and> unat pad \<le> length ct
           \<and> list_all (\<lambda>i. out ! i = pad) [length ct - unat pad..<length ct]
        then Some (take (length ct - unat pad) out)
        else Some (take (trimZeros out (length ct)) out))"
proof -
  have "aesDecrypt (cipherKeyFrom secret) ct m = Some out"
    using assms(3,5,6) by (simp add: aesDecrypt_def)
  then show ?thesis
    using assms(1-5) by (simp add: openSealed_def Let_def constantTimeEqual_iff)
qed

lemma last_padding: "0 < k \<Longrightarrow> length ct = length xs + k \<Longrightarrow> (xs @ replicate k b) ! (length ct - 1) = b"
  by (cases k) (auto simp: nth_append replicate_append_same [symmetric] simp del: replicate.simps)

lemma openSealed_seal:
  assumes "memcmp_spec S" and "seal S secret plain n = Some sd" and "length (sealed_ciphertext sd) \<le> m"
  shows "openSealed S secret (sealed_mac sd) (sealed_ciphertext sd) m = Some plain"
proof -
  let ?ct = "sealed_ciphertext sd"
  note pl = paddedLength_bounds [of "length plain"]
  obtain k where t: "paddedLength (length plain) = length plain + k" and k: "0 < k" "k \<le> 16"
    using pl(1,2) by (metis add_le_cancel_left less_imp_add_positive)
  define b where "b = (of_nat k :: byte)"
  have b: "unat b = k" using k by (simp add: b_def unat_of_nat)
  then have "b \<noteq> 0" using k by auto
  note sd = seal_SomeD [OF assms(2), unfolded t, simplified, folded b_def]
  have all: "list_all (\<lambda>i. (plain @ replicate k b) ! i = b) [length plain..<length plain + k]"
    by (auto simp: list_all_iff nth_append)
  have "(plain @ replicate k b) ! (length ?ct - 1) = b" using k sd(1) by (intro last_padding)
  moreover have "length ?ct mod 16 = 0" "?ct \<noteq> []" using pl(3) k sd(1) by (auto simp: t)
  ultimately show ?thesis
    using openSealed_decrypted [OF assms(1) sd(2) assms(3) _ _ sd(3)] all k b \<open>b \<noteq> 0\<close> sd(1) by simp
qed

lemma trimZeros_padded:
  "plain = [] \<or> last plain \<noteq> 0 \<Longrightarrow> trimZeros (plain @ replicate k 0) (length plain + k) = length plain"
proof -
  assume plain: "plain = [] \<or> last plain \<noteq> 0"
  have "j \<le> k \<Longrightarrow> trimZeros (plain @ replicate k 0) (length plain + j) = length plain" for j
  proof (induction j)
    case 0
    then show ?case using plain by (cases plain rule: rev_cases) (auto simp: nth_append)
  qed (simp add: nth_append)
  then show ?thesis by simp
qed

section \<open>Properties\<close>

text \<open>
  C7. Encrypt-then-MAC is a round trip: sealing succeeds exactly when the output buffer holds the
  padded length, the ciphertext is whole blocks and longer than the plaintext by 1 to 16 bytes, the
  peer that opens it with the same secret gets the plaintext back byte for byte, and any other
  two-byte tag on the same ciphertext is refused.
\<close>

theorem seal_open_roundtrip:
  assumes "memcmp_spec S"
  shows "case seal S secret plain n of
      None \<Rightarrow> n < paddedLength (length plain)
    | Some sd \<Rightarrow> paddedLength (length plain) \<le> n
       \<and> length (sealed_ciphertext sd) = paddedLength (length plain)
       \<and> paddedLength (length plain) mod 16 = 0
       \<and> length plain < paddedLength (length plain) \<and> paddedLength (length plain) \<le> length plain + 16
       \<and> (\<forall>m \<ge> paddedLength (length plain).
            openSealed S secret (sealed_mac sd) (sealed_ciphertext sd) m = Some plain)
       \<and> (\<forall>mac m. mac \<noteq> sealed_mac sd \<longrightarrow> openSealed S secret mac (sealed_ciphertext sd) m = None)"
proof (cases "seal S secret plain n")
  case None
  then show ?thesis using seal_succeeds [of plain n S secret] by fastforce
next
  case (Some sd)
  note D = seal_SomeD [OF Some]
  have "mac \<noteq> sealed_mac sd \<Longrightarrow> openSealed S secret mac (sealed_ciphertext sd) m = None" for mac m
    using openSealed_macD [OF assms] D(2) by (metis not_None_eq)
  then show ?thesis
    using paddedLength_bounds [of "length plain"] openSealed_seal [OF assms Some] D(1,4) Some by simp
qed

text \<open>A concrete backend, for evaluating: a toy digest and tag, byte equality.\<close>

definition test_sodium :: sodium where
  "test_sodium = \<lparr>
     crypto_hash_sha256 = (\<lambda>m. take 32 (m @ replicate 32 0)),
     crypto_auth_hmacsha256 = (\<lambda>k m. take 32 (m @ k @ replicate 32 0)),
     crypto_sign_detached = (\<lambda>sk m. take 64 (m @ sk @ replicate 64 0)),
     crypto_sign_verify_detached = (\<lambda>pk m s. s = take 64 (m @ pk @ pk @ replicate 64 0)),
     crypto_sign_seed_keypair = (\<lambda>seed. (seed, seed @ seed)),
     crypto_sign_ed25519_sk_to_seed = (\<lambda>sk. Some (take 32 sk)),
     crypto_sign_ed25519_pk_to_curve25519 = Some,
     crypto_sign_ed25519_sk_to_curve25519 = (\<lambda>sk. Some (take 32 sk)),
     crypto_scalarmult = (\<lambda>a b. Some (map2 (XOR) a b)),
     sodium_memcmp = (=)\<rparr>"

lemma test_sodium_memcmp: "memcmp_spec test_sodium"
  by (simp add: memcmp_spec_def test_sodium_def)

theorem seal_open_roundtrip_witness:
  "\<exists>sd. seal test_sodium (replicate 32 7) [1, 2, 3] 16 = Some sd
      \<and> openSealed test_sodium (replicate 32 7) (sealed_mac sd) (sealed_ciphertext sd) 184 = Some [1, 2, 3]"
  using seal_open_roundtrip [OF test_sodium_memcmp, of 16 "[1, 2, 3]" "replicate 32 7"]
  by (auto simp: paddedLength_def split: option.splits)

text \<open>
  Peers that pad with zeros are understood too: a block-aligned ciphertext of a plaintext that does
  not end in a zero byte, filled up with 1 to 15 zeros, opens to exactly that plaintext under a correct
  tag. Nothing opens under a wrong tag, whatever the padding.
\<close>

theorem open_zero_padded:
  assumes "memcmp_spec S" and "0 < k" and "k < 16" and "plain \<noteq> []" and "last plain \<noteq> 0"
    and "aesEncrypt (cipherKeyFrom secret) (plain @ replicate k 0) (length plain + k) = Some ct"
    and "length ct \<le> m"
  shows "openSealed S secret mac ct m =
           (if mac = truncateMac (hmacSha256 S secret ct) then Some plain else None)"
proof (cases "mac = truncateMac (hmacSha256 S secret ct)")
  case True
  have dec: "aesDecrypt (cipherKeyFrom secret) ct (length ct) = Some (plain @ replicate k 0)"
    and len: "length ct = length plain + k" using aes_roundtrip [OF assms(6)] by auto
  have "length ct mod 16 = 0" using assms(6) len by (auto simp: aesEncrypt_def split: if_splits)
  moreover have "(plain @ replicate k 0) ! (length ct - 1) = 0" using len assms(2) by (intro last_padding)
  moreover have "ct \<noteq> []" using len assms(2) by auto
  ultimately show ?thesis
    using openSealed_decrypted [OF assms(1) True assms(7) _ _ dec] True assms(4,5) len
    by (simp add: trimZeros_padded)
next
  case False
  then show ?thesis using openSealed_macD [OF assms(1)] by (metis not_None_eq)
qed

theorem open_zero_padded_witness:
  "\<exists>ct. openSealed test_sodium (replicate 32 7) (truncateMac (hmacSha256 test_sodium (replicate 32 7) ct)) ct 64
        = Some [1, 2, 3]"
proof -
  obtain ct where ct: "aesEncrypt (cipherKeyFrom (replicate 32 7)) ([1, 2, 3] @ replicate 13 0) (length [1, 2, 3 :: byte] + 13) = Some ct"
    by (auto simp: aesEncrypt_def)
  then have "length ct \<le> 64" using aes_roundtrip by fastforce
  then show ?thesis
    using open_zero_padded [OF test_sodium_memcmp _ _ _ _ ct, of 64] by (intro exI [of _ ct]) simp
qed

text \<open>libsodium's Ed25519 secret key is 64 bytes and holds its own seed.\<close>

definition keypair_spec :: "sodium \<Rightarrow> bool" where
  "keypair_spec S \<longleftrightarrow> (\<forall>seed. length seed = 32 \<longrightarrow>
     length (snd (crypto_sign_seed_keypair S seed)) = 64
   \<and> crypto_sign_ed25519_sk_to_seed S (snd (crypto_sign_seed_keypair S seed)) = Some seed)"

text \<open>
  C34. The identity on disk: a freshly generated pair that was saved loads back as the same pair, saving
  never changes a path that already exists nor any other path, and a file that is reachable by group or
  others, or is not exactly 64 bytes, never loads.
\<close>

theorem keypair_file_roundtrip:
  assumes "memcmp_spec S" and "keypair_spec S"
    and "generateKeypair S src pos = (kp, pos')"
    and "saveKeypair parentOk written closed kp file fs = (ok, fs')"
  shows "(ok \<longrightarrow> loadKeypair S file fs' = Some kp)
    \<and> (\<forall>q. q \<noteq> file \<or> fs file \<noteq> None \<longrightarrow> fs' q = fs q)
    \<and> (\<forall>q info. fs q = Some info \<and> (kf_mode info AND 0x3F \<noteq> 0 \<or> length (kf_content info) \<noteq> 64)
           \<longrightarrow> loadKeypair S q fs = None)"
proof -
  let ?seed = "fst (randomBytes src pos 32)"
  have seed: "length ?seed = 32" by (simp add: randomBytes_def)
  have "crypto_sign_seed_keypair S ?seed = (kp_pk kp, kp_sk kp)"
    using assms(3) by (auto simp: generateKeypair_def randomBytes_def Let_def split: prod.splits)
  then have "ok \<longrightarrow> loadKeypair S file fs' = Some kp"
    using assms(1,2,4) seed
    by (auto simp: saveKeypair_def loadKeypair_def keypair_spec_def memcmp_spec_def Let_def split: if_splits)
  moreover have "\<forall>q. q \<noteq> file \<or> fs file \<noteq> None \<longrightarrow> fs' q = fs q"
    using assms(4) by (auto simp: saveKeypair_def split: if_splits)
  ultimately show ?thesis by (auto simp: loadKeypair_def)
qed

lemma test_sodium_keypair: "keypair_spec test_sodium"
  by (simp add: keypair_spec_def test_sodium_def)

theorem keypair_file_roundtrip_witness:
  "loadKeypair test_sodium ''id.key''
     (snd (saveKeypair (\<lambda>_. True) True True (fst (generateKeypair test_sodium (\<lambda>_. 5) 0)) ''id.key'' (\<lambda>_. None)))
   = Some (fst (generateKeypair test_sodium (\<lambda>_. 5) 0))"
  using keypair_file_roundtrip [OF test_sodium_memcmp test_sodium_keypair prod.collapse [symmetric]
      prod.collapse [symmetric], of "\<lambda>_. True" True True "\<lambda>_. 5" 0 "''id.key''" "\<lambda>_. None"]
  by (simp add: saveKeypair_def)

end
