(* ===== verification/Telemetry_Bus.thy ===== *)
theory Telemetry_Bus
  imports MC_Prelude
begin

text \<open>
  \<^verbatim>\<open>src/src/telemetry\<close>: the event ring between the packet path and the metrics, the collector
  that drains it, and the rendering of the counters. The ring is shown to be a bounded first-in first-out
  queue through the locale \<open>bounded_fifo\<close>, whose facts carry the statements about
  whole runs of publishing and draining.
\<close>

section \<open>Events and the ring\<close>

datatype EventType = FrameRx | FrameTx | FrameDuplicate | DecryptFailed | Forwarded | ForwardRefused
  | AckTimeout | ContactAdded | ClientLogin | PostAdded | RouteReset | AdvertEchoed | Count

fun event_index :: "EventType \<Rightarrow> nat" where
  "event_index FrameRx = 0"
| "event_index FrameTx = 1"
| "event_index FrameDuplicate = 2"
| "event_index DecryptFailed = 3"
| "event_index Forwarded = 4"
| "event_index ForwardRefused = 5"
| "event_index AckTimeout = 6"
| "event_index ContactAdded = 7"
| "event_index ClientLogin = 8"
| "event_index PostAdded = 9"
| "event_index RouteReset = 10"
| "event_index AdvertEchoed = 11"
| "event_index Count = 12"

record Event =
  ev_type :: EventType
  ev_at :: u32
  ev_detail :: u32

definition event_init :: Event where
  "event_init = \<lparr>ev_type = FrameRx, ev_at = 0, ev_detail = 0\<rparr>"

record Bus =
  ring :: "Event list"
  bus_head :: nat
  bus_count :: nat
  bus_dropped :: u64

definition bus_new :: "nat \<Rightarrow> Bus" where
  "bus_new capacity =
     \<lparr>ring = replicate (if capacity = 0 then 1 else capacity) event_init,
      bus_head = 0, bus_count = 0, bus_dropped = 0\<rparr>"

definition publish :: "EventType \<Rightarrow> u32 \<Rightarrow> u32 \<Rightarrow> Bus \<Rightarrow> Bus" where
  "publish type at detail b =
     (if bus_count b = length (ring b) then b\<lparr>bus_dropped := bus_dropped b + 1\<rparr> else
      let tail = (bus_head b + bus_count b) mod length (ring b) in
      b\<lparr>ring := (ring b)[tail := \<lparr>ev_type = type, ev_at = at, ev_detail = detail\<rparr>],
        bus_count := bus_count b + 1\<rparr>)"

definition poll :: "Bus \<Rightarrow> (Event \<times> Bus) option" where
  "poll b =
     (if bus_count b = 0 then None
      else Some (ring b ! bus_head b,
                 b\<lparr>bus_head := (bus_head b + 1) mod length (ring b), bus_count := bus_count b - 1\<rparr>))"

lemma poll_count: "poll b = Some (e, b') \<Longrightarrow> bus_count b' < bus_count b"
  by (auto simp: poll_def split: if_splits)

section \<open>The collector\<close>

record Counters =
  byType :: "u64 list"
  txQueueDepth :: u32
  dutyCyclePermille :: u32
  cnt_dropped :: u64

definition counters_init :: Counters where
  "counters_init = \<lparr>byType = replicate 12 0, txQueueDepth = 0, dutyCyclePermille = 0, cnt_dropped = 0\<rparr>"

definition count_event :: "Event \<Rightarrow> Counters \<Rightarrow> Counters" where
  "count_event e c =
     (let i = event_index (ev_type e) in
      if i < event_index Count then c\<lparr>byType := (byType c)[i := byType c ! i + 1]\<rparr> else c)"

function drain_loop :: "Counters \<Rightarrow> Bus \<Rightarrow> Counters \<times> Bus" where
  "drain_loop c b = (case poll b of None \<Rightarrow> (c, b) | Some (e, b') \<Rightarrow> drain_loop (count_event e c) b')"
  by pat_completeness auto
termination
  by (relation "measure (\<lambda>(c, b). bus_count b)") (auto dest: poll_count)

declare drain_loop.simps [simp del]

definition drain :: "Counters \<Rightarrow> Bus \<Rightarrow> Counters \<times> Bus" where
  "drain c b = (let (c', b') = drain_loop c b in (c'\<lparr>cnt_dropped := bus_dropped b'\<rparr>, b'))"

definition observe :: "u32 \<Rightarrow> u32 \<Rightarrow> Counters \<Rightarrow> Counters" where
  "observe depth permille c = c\<lparr>txQueueDepth := depth, dutyCyclePermille := permille\<rparr>"

section \<open>Rendering\<close>

definition kNames :: "string list" where
  "kNames = [''frames_received'', ''frames_transmitted'', ''frames_duplicate'', ''decrypt_failed'',
     ''frames_forwarded'', ''frames_refused'', ''ack_timeouts'', ''contacts_added'', ''client_logins'',
     ''posts_added'', ''routes_reset'', ''adverts_echoed'']"

definition metric_text :: "string \<Rightarrow> string \<Rightarrow> nat \<Rightarrow> string" where
  "metric_text kind name v =
     ''# TYPE meshcore_'' @ name @ '' '' @ kind @ nl @ ''meshcore_'' @ name @ '' '' @ decimal v @ nl"

definition metric_line :: "string \<Rightarrow> string \<Rightarrow> nat \<Rightarrow> string" where
  "metric_line kind name v = snprintf 160 (metric_text kind name v)"

definition prometheusText :: "Counters \<Rightarrow> string" where
  "prometheusText c =
     concat (map (\<lambda>i. metric_line ''counter'' (kNames ! i) (unat (byType c ! i))) [0..<event_index Count])
       @ metric_line ''gauge'' ''tx_queue_depth'' (unat (txQueueDepth c))
       @ metric_line ''gauge'' ''duty_cycle_permille'' (unat (dutyCyclePermille c))
       @ metric_line ''counter'' ''events_dropped'' (unat (cnt_dropped c))"

section \<open>Bounded queues\<close>

text \<open>
  An interleaving of publishing and polling, and what the polls return: on a list that holds at most
  \<open>n\<close> elements and ignores what does not fit, and on a queue given by its two operations.
\<close>

datatype 'e queue_op = Publish 'e | Poll

fun fifo_results :: "nat \<Rightarrow> 'e queue_op list \<Rightarrow> 'e list \<Rightarrow> 'e option list" where
  "fifo_results n [] xs = []"
| "fifo_results n (Publish x # ops) xs = fifo_results n ops (if length xs < n then xs @ [x] else xs)"
| "fifo_results n (Poll # ops) [] = None # fifo_results n ops []"
| "fifo_results n (Poll # ops) (x # xs) = Some x # fifo_results n ops xs"

fun queue_results :: "('e \<Rightarrow> 'q \<Rightarrow> 'q) \<Rightarrow> ('q \<Rightarrow> ('e \<times> 'q) option) \<Rightarrow> 'e queue_op list \<Rightarrow> 'q \<Rightarrow> 'e option list" where
  "queue_results enq deq [] q = []"
| "queue_results enq deq (Publish x # ops) q = queue_results enq deq ops (enq x q)"
| "queue_results enq deq (Poll # ops) q =
     (case deq q of None \<Rightarrow> None # queue_results enq deq ops q
      | Some (x, q') \<Rightarrow> Some x # queue_results enq deq ops q')"

locale bounded_fifo =
  fixes enq :: "'e \<Rightarrow> 'q \<Rightarrow> 'q"
    and deq :: "'q \<Rightarrow> ('e \<times> 'q) option"
    and ok :: "'q \<Rightarrow> bool"
    and contents :: "'q \<Rightarrow> 'e list"
    and room :: "'q \<Rightarrow> nat"
  assumes enq_ok: "ok q \<Longrightarrow> ok (enq x q)"
    and enq_contents: "ok q \<Longrightarrow> contents (enq x q) = (if length (contents q) < room q then contents q @ [x] else contents q)"
    and enq_room: "ok q \<Longrightarrow> room (enq x q) = room q"
    and deq_empty: "ok q \<Longrightarrow> deq q = None \<longleftrightarrow> contents q = []"
    and deq_front: "ok q \<Longrightarrow> deq q = Some (x, q') \<Longrightarrow> ok q' \<and> contents q = x # contents q' \<and> room q' = room q"
    and bounded: "ok q \<Longrightarrow> length (contents q) \<le> room q"
begin

lemma enqs:
  "ok q \<Longrightarrow> ok (fold enq xs q) \<and> room (fold enq xs q) = room q
     \<and> contents (fold enq xs q) = contents q @ take (room q - length (contents q)) xs"
proof (induction xs arbitrary: q)
  case (Cons x xs)
  show ?case
    using Cons.IH [OF enq_ok [OF Cons.prems, of x]] enq_contents [OF Cons.prems, of x]
      enq_room [OF Cons.prems, of x] bounded [OF Cons.prems]
    by (auto simp: take_Cons' le_antisym)
qed simp

lemma interleaving:
  "ok q \<Longrightarrow> fifo_results (room q) ops (contents q) = queue_results enq deq ops q"
proof (induction ops arbitrary: q)
  case (Cons op ops)
  show ?case
  proof (cases op)
    case (Publish x)
    then show ?thesis
      using Cons.IH [OF enq_ok [OF Cons.prems, of x]] enq_contents [OF Cons.prems, of x] enq_room [OF Cons.prems, of x]
      by simp
  next
    case Poll
    show ?thesis
    proof (cases "deq q")
      case None
      then show ?thesis using Cons.IH [OF Cons.prems] Cons.prems Poll deq_empty [of q] by simp
    next
      case (Some r)
      then show ?thesis using Cons.IH [of "snd r"] Cons.prems Poll deq_front [of q "fst r" "snd r"] by (cases r) auto
    qed
  qed
qed simp

lemma consumer:
  assumes step: "\<And>s q. loop s q = (case deq q of None \<Rightarrow> (s, q) | Some (x, q') \<Rightarrow> loop (f x s) q')"
  shows "ok q \<Longrightarrow> \<exists>q'. loop s q = (fold f (contents q) s, q') \<and> contents q' = [] \<and> ok q' \<and> room q' = room q"
proof (induction "contents q" arbitrary: q s)
  case Nil
  then show ?case using deq_empty [of q] by (subst step) simp
next
  case (Cons x xs)
  then obtain y q' where deq: "deq q = Some (y, q')"
    using deq_empty [of q] by (cases "deq q") auto
  from deq_front [OF Cons.prems deq] Cons.hyps(2) have "y = x" "contents q' = xs" "ok q'" "room q' = room q"
    by auto
  then obtain r where "loop (f x s) q' = (fold f xs (f x s), r) \<and> contents r = [] \<and> ok r \<and> room r = room q'"
    using Cons.hyps(1) [of q' "f x s"] by auto
  moreover have "loop s q = loop (f x s) q'" using deq \<open>y = x\<close> by (simp add: step [of s q])
  ultimately show ?case
    using Cons.hyps(2) [symmetric] \<open>room q' = room q\<close> by simp
qed

end

section \<open>The ring is one\<close>

definition bus_ok :: "Bus \<Rightarrow> bool" where
  "bus_ok b \<longleftrightarrow> bus_head b < length (ring b) \<and> bus_count b \<le> length (ring b)"

definition bus_events :: "Bus \<Rightarrow> Event list" where
  "bus_events b = map (\<lambda>i. ring b ! ((bus_head b + i) mod length (ring b))) [0..<bus_count b]"

definition publish_event :: "Event \<Rightarrow> Bus \<Rightarrow> Bus" where
  "publish_event e = publish (ev_type e) (ev_at e) (ev_detail e)"

lemma event_eta [simp]: "\<lparr>ev_type = ev_type e, ev_at = ev_at e, ev_detail = ev_detail e\<rparr> = e"
  by simp

lemma ring_slot_free:
  assumes "i < (n :: nat)" and "n < r" shows "(h + i) mod r \<noteq> (h + n) mod r"
proof
  assume "(h + i) mod r = (h + n) mod r"
  then have "i mod r = n mod r" by (simp add: mod_add_cong mod_add_left_eq nat_mod_eq_iff)
  with assms show False by simp
qed

lemma bus_events_publish:
  assumes "bus_ok b"
  shows "bus_events (publish_event e b) =
     (if length (bus_events b) < length (ring b) then bus_events b @ [e] else bus_events b)"
proof (cases "bus_count b = length (ring b)")
  case True
  then show ?thesis by (simp add: bus_events_def publish_event_def publish_def)
next
  case False
  let ?r = "length (ring b)" let ?t = "(bus_head b + bus_count b) mod ?r"
  have n: "bus_count b < ?r" using assms False by (simp add: bus_ok_def)
  then have t: "?t < ?r" by (intro mod_less_divisor) linarith
  have "i < bus_count b \<Longrightarrow> (ring b)[?t := e] ! ((bus_head b + i) mod ?r) = ring b ! ((bus_head b + i) mod ?r)" for i
    using ring_slot_free [of i "bus_count b" ?r "bus_head b"] n by (simp add: nth_list_update)
  then show ?thesis
    using n t by (simp add: bus_events_def publish_event_def publish_def Let_def)
qed

lemma bus_ok_publish: "bus_ok b \<Longrightarrow> bus_ok (publish_event e b) \<and> length (ring (publish_event e b)) = length (ring b)"
  by (auto simp: bus_ok_def publish_event_def publish_def Let_def)

lemma poll_front:
  assumes "bus_ok b" and "poll b = Some (e, b')"
  shows "bus_ok b' \<and> bus_events b = e # bus_events b' \<and> length (ring b') = length (ring b)"
proof -
  obtain n where n: "bus_count b = Suc n" and e: "e = ring b ! bus_head b"
    and b': "b' = b\<lparr>bus_head := (bus_head b + 1) mod length (ring b), bus_count := n\<rparr>"
    using assms(2) by (cases "bus_count b") (auto simp: poll_def)
  have "bus_events b = e # bus_events b'"
    using assms(1) n e b'
    by (simp add: bus_events_def bus_ok_def upt_conv_Cons map_Suc_upt [symmetric] mod_simps
        del: upt_Suc)
  moreover have "(bus_head b + 1) mod length (ring b) < length (ring b)"
    using assms(1) by (intro mod_less_divisor) (auto simp: bus_ok_def)
  ultimately show ?thesis using assms(1) n b' by (auto simp: bus_ok_def)
qed

interpretation bus: bounded_fifo publish_event poll bus_ok bus_events "\<lambda>b. length (ring b)"
proof
  show "bus_ok q \<Longrightarrow> (poll q = None) = (bus_events q = [])" for q
    by (auto simp: poll_def bus_events_def)
  show "bus_ok q \<Longrightarrow> length (bus_events q) \<le> length (ring q)" for q
    by (simp add: bus_ok_def bus_events_def)
qed (auto simp: bus_ok_publish bus_events_publish dest: poll_front)

section \<open>Properties\<close>

lemma bus_new_ok: "bus_ok (bus_new n)" "bus_events (bus_new n) = []" "length (ring (bus_new n)) = max 1 n"
  by (auto simp: bus_ok_def bus_events_def bus_new_def)

text \<open>
  C35. The ring is a bounded first-in first-out queue: under every interleaving of publishing and polling, from a
  freshly built bus of any capacity (zero is taken as one), every poll returns what a list of that capacity
  returns which drops whatever does not fit. In particular the oldest events survive, the newest are lost.
\<close>

theorem bus_refines_fifo:
  "queue_results publish_event poll ops (bus_new n) = fifo_results (max 1 n) ops []"
  using bus.interleaving [OF bus_new_ok(1), of n ops] by (simp add: bus_new_ok)

lemma dropped_publish:
  "bus_ok b \<Longrightarrow> bus_dropped (fold publish_event es b) =
     bus_dropped b + of_nat (length es - (length (ring b) - length (bus_events b)))"
proof (induction es arbitrary: b)
  case (Cons e es)
  have c: "length (bus_events b) \<le> length (ring b)" using bus.bounded [OF Cons.prems] .
  have d: "bus_dropped (publish_event e b) =
      (if length (bus_events b) < length (ring b) then bus_dropped b else bus_dropped b + 1)"
    using c by (auto simp: publish_event_def publish_def Let_def bus_events_def)
  show ?case
    using Cons.IH [of "publish_event e b"] bus_ok_publish [OF Cons.prems, of e]
      bus_events_publish [OF Cons.prems, of e] c d
    by (auto simp: Suc_diff_Suc)
qed simp

lemma dropped_drain_loop: "bus_dropped (snd (drain_loop c b)) = bus_dropped b"
proof (induction c b rule: drain_loop.induct)
  case (1 c b)
  show ?case
  proof (cases "poll b")
    case (Some r)
    then show ?thesis
      using "1.IH" [of r "fst r" "snd r"] by (cases r) (auto simp: drain_loop.simps [of c b] poll_def split: if_splits)
  qed (simp add: drain_loop.simps [of c b])
qed

lemma byType_fold:
  assumes "length (byType c) = 12" and "i < 12"
  shows "length (byType (fold count_event es c)) = 12
    \<and> byType (fold count_event es c) ! i
        = byType c ! i + of_nat (length (filter (\<lambda>e. event_index (ev_type e) = i) es))"
  using assms
proof (induction es arbitrary: c)
  case (Cons e es)
  then show ?case
    using Cons.IH [of "count_event e c"] by (auto simp: count_event_def Let_def nth_list_update)
qed simp

text \<open>
  What the collector counts: after any sequence of published events, one drain empties the bus,
  adds to each counter exactly the number of events of its type that found room, and reports as dropped exactly
  those that did not (all counters modulo their 64 bits).
\<close>

theorem drain_counts:
  assumes "bus_ok b" and "length (byType c) = 12" and "drain c (fold publish_event es b) = (c', b')"
  shows "bus_events b' = []
    \<and> (\<forall>i < 12. byType c' ! i = byType c ! i + of_nat (length (filter (\<lambda>e. event_index (ev_type e) = i)
           (bus_events b @ take (length (ring b) - length (bus_events b)) es))))
    \<and> cnt_dropped c' = bus_dropped b + of_nat (length es - (length (ring b) - length (bus_events b)))"
proof -
  let ?b = "fold publish_event es b"
  note E = bus.enqs [OF assms(1), of es]
  obtain q where q: "drain_loop c ?b = (fold count_event (bus_events ?b) c, q)" "bus_events q = []"
    using bus.consumer [of drain_loop count_event ?b c, OF drain_loop.simps] E by auto
  have "bus_dropped q = bus_dropped ?b" using dropped_drain_loop [of c ?b] q by simp
  moreover have "c' = (fold count_event (bus_events ?b) c)\<lparr>cnt_dropped := bus_dropped q\<rparr>" "b' = q"
    using assms(3) q by (auto simp: drain_def Let_def)
  moreover define kept where "kept = bus_events b @ take (length (ring b) - length (bus_events b)) es"
  moreover have "bus_events ?b = kept" using E by (simp add: kept_def)
  ultimately show ?thesis
    unfolding kept_def [symmetric]
    using q(2) byType_fold [OF assms(2)] dropped_publish [OF assms(1)] by simp
qed

theorem drain_counts_witness:
  "byType (fst (drain counters_init (fold publish_event
      [event_init, event_init, event_init\<lparr>ev_type := AckTimeout\<rparr>] (bus_new 2)))) ! 0 = 2"
  using drain_counts [OF bus_new_ok(1) _ prod.collapse [symmetric], of counters_init
      "[event_init, event_init, event_init\<lparr>ev_type := AckTimeout\<rparr>]" 2]
  by (simp add: counters_init_def bus_new_ok event_init_def)

text \<open>
  The metrics page is never cut: whatever the counters hold, every line fits the 160-byte
  buffer it is formatted in, so the page is the twelve named counters, the two gauges and the
  drop counter with their full decimal values.
\<close>

theorem prometheusText_complete:
  "prometheusText c =
     concat (map (\<lambda>i. metric_text ''counter'' (kNames ! i) (unat (byType c ! i))) [0..<12])
     @ metric_text ''gauge'' ''tx_queue_depth'' (unat (txQueueDepth c))
     @ metric_text ''gauge'' ''duty_cycle_permille'' (unat (dutyCyclePermille c))
     @ metric_text ''counter'' ''events_dropped'' (unat (cnt_dropped c))"
proof -
  have fits: "length kind \<le> 7 \<Longrightarrow> length name \<le> 20 \<Longrightarrow> v < 10 ^ 20 \<Longrightarrow>
      metric_line kind name v = metric_text kind name v" for kind name v
    using length_decimal [of v 20] unfolding metric_line_def
    by (intro snprintf_fits) (simp add: metric_text_def nl_def)
  have v64: "unat (v :: u64) < 10 ^ 20" for v using unat_u64_less [of v] by simp
  have v32: "unat (v :: u32) < 10 ^ 20" for v using unat_u32_less [of v] by simp
  have "i < 12 \<Longrightarrow> length (kNames ! i) \<le> 20" for i
    by (auto simp: kNames_def less_Suc_eq numeral_eq_Suc)
  then have "map (\<lambda>i. metric_line ''counter'' (kNames ! i) (unat (byType c ! i))) [0..<12]
      = map (\<lambda>i. metric_text ''counter'' (kNames ! i) (unat (byType c ! i))) [0..<12]"
    by (intro map_cong refl fits v64) simp_all
  moreover have "metric_line ''gauge'' ''tx_queue_depth'' (unat (txQueueDepth c))
      = metric_text ''gauge'' ''tx_queue_depth'' (unat (txQueueDepth c))" by (intro fits v32) simp_all
  moreover have "metric_line ''gauge'' ''duty_cycle_permille'' (unat (dutyCyclePermille c))
      = metric_text ''gauge'' ''duty_cycle_permille'' (unat (dutyCyclePermille c))" by (intro fits v32) simp_all
  moreover have "metric_line ''counter'' ''events_dropped'' (unat (cnt_dropped c))
      = metric_text ''counter'' ''events_dropped'' (unat (cnt_dropped c))" by (intro fits v64) simp_all
  ultimately show ?thesis unfolding prometheusText_def event_index.simps by (simp only:)
qed

end
