(* ===== verification/Transit_Policy.thy ===== *)
theory Transit_Policy
  imports Packet_Codec
begin

text \<open>
  \<^verbatim>\<open>src/src/repeater\<close>: whether somebody else's packet is carried on. The policy keeps its
  configuration, one rate bucket per previous hop and five counters; time and load are arguments.
\<close>

unbundle bit_operations_syntax

section \<open>State\<close>

abbreviation (input) REPEATER_SOURCE_BUCKETS :: nat where "REPEATER_SOURCE_BUCKETS \<equiv> 257"
abbreviation (input) REPEATER_DIRECT_BUCKET :: nat where "REPEATER_DIRECT_BUCKET \<equiv> 256"
abbreviation (input) REPEATER_RATE_WINDOW_MS :: Millis where "REPEATER_RATE_WINDOW_MS \<equiv> 60000"

record Repeater_Config =
  rc_enabled :: bool
  rc_maxHops :: byte
  rc_floodPerMinute :: u32
  rc_dutyCeilingPermille :: u32
  rc_blocked :: bytes

definition repeater_config_default :: Repeater_Config where
  "repeater_config_default =
     \<lparr>rc_enabled = True, rc_maxHops = 12, rc_floodPerMinute = 30, rc_dutyCeilingPermille = 80, rc_blocked = []\<rparr>"

record Repeater_Stats =
  st_forwarded :: u32
  st_hopLimit :: u32
  st_blocked :: u32
  st_rateLimited :: u32
  st_budget :: u32

definition repeater_stats_init :: Repeater_Stats where
  "repeater_stats_init = \<lparr>st_forwarded = 0, st_hopLimit = 0, st_blocked = 0, st_rateLimited = 0, st_budget = 0\<rparr>"

record Rate_Bucket =
  windowStart :: Millis
  window_count :: u32

record Policy =
  pol_config :: Repeater_Config
  pol_stats :: Repeater_Stats
  pol_buckets :: "Rate_Bucket list"

section \<open>Operations\<close>

definition setMaxHops :: "byte \<Rightarrow> Policy \<Rightarrow> Policy" where
  "setMaxHops hops pol =
     pol\<lparr>pol_config := (pol_config pol)\<lparr>rc_maxHops := (if hops < 1 then 1 else if hops > 63 then 63 else hops)\<rparr>\<rparr>"

definition policy_new :: "Repeater_Config \<Rightarrow> Policy" where
  "policy_new config =
     setMaxHops (rc_maxHops config)
       \<lparr>pol_config = config, pol_stats = repeater_stats_init,
        pol_buckets = replicate REPEATER_SOURCE_BUCKETS \<lparr>windowStart = 0, window_count = 0\<rparr>\<rparr>"

definition setEnabled :: "bool \<Rightarrow> Policy \<Rightarrow> Policy" where
  "setEnabled on pol = pol\<lparr>pol_config := (pol_config pol)\<lparr>rc_enabled := on\<rparr>\<rparr>"

definition clearStats :: "Policy \<Rightarrow> Policy" where
  "clearStats pol = pol\<lparr>pol_stats := repeater_stats_init\<rparr>"

definition bucketOf :: "Packet \<Rightarrow> nat" where
  "bucketOf p =
     (let hops = pathSize p in if hops = 0 then REPEATER_DIRECT_BUCKET else unat (path p ! (hops - 1)))"

definition isBlocked :: "Repeater_Config \<Rightarrow> Packet \<Rightarrow> bool" where
  "isBlocked config p =
     (if rc_blocked config = [] then False
      else list_ex (\<lambda>i. List.member (rc_blocked config) (path p ! i)) [0..<pathSize p])"

definition admit :: "u32 \<Rightarrow> Millis \<Rightarrow> Rate_Bucket \<Rightarrow> bool \<times> Rate_Bucket" where
  "admit limit now slot =
     (let slot = (if now < windowStart slot \<or> now - windowStart slot \<ge> REPEATER_RATE_WINDOW_MS
                  then \<lparr>windowStart = now, window_count = 0\<rparr> else slot)
      in if window_count slot \<ge> limit then (False, slot)
         else (True, slot\<lparr>window_count := window_count slot + 1\<rparr>))"

definition withinRate :: "nat \<Rightarrow> Millis \<Rightarrow> Policy \<Rightarrow> bool \<times> Policy" where
  "withinRate bucket now pol =
     (if rc_floodPerMinute (pol_config pol) = 0 then (True, pol) else
      let (ok, slot) = admit (rc_floodPerMinute (pol_config pol)) now (pol_buckets pol ! bucket)
      in (ok, pol\<lparr>pol_buckets := (pol_buckets pol)[bucket := slot]\<rparr>))"

definition is_flood :: "Packet \<Rightarrow> bool" where
  "is_flood p \<longleftrightarrow> routeType p = FLOOD \<or> routeType p = TRANSPORT_FLOOD"

definition shouldForward :: "Packet \<Rightarrow> Millis \<Rightarrow> u32 \<Rightarrow> Policy \<Rightarrow> bool \<times> Policy" where
  "shouldForward p now usedPermille pol =
     (let config = pol_config pol; stats = pol_stats pol in
      if \<not> rc_enabled config then (False, pol)
      else if hopCount p \<ge> rc_maxHops config then (False, pol\<lparr>pol_stats := stats\<lparr>st_hopLimit := st_hopLimit stats + 1\<rparr>\<rparr>)
      else if isBlocked config p then (False, pol\<lparr>pol_stats := stats\<lparr>st_blocked := st_blocked stats + 1\<rparr>\<rparr>)
      else if rc_dutyCeilingPermille config \<noteq> 0 \<and> usedPermille \<ge> rc_dutyCeilingPermille config
      then (False, pol\<lparr>pol_stats := stats\<lparr>st_budget := st_budget stats + 1\<rparr>\<rparr>)
      else let (ok, pol) = (if is_flood p then withinRate (bucketOf p) now pol else (True, pol)) in
        if \<not> ok then (False, pol\<lparr>pol_stats := stats\<lparr>st_rateLimited := st_rateLimited stats + 1\<rparr>\<rparr>)
        else (True, pol\<lparr>pol_stats := stats\<lparr>st_forwarded := st_forwarded stats + 1\<rparr>\<rparr>))"

section \<open>Lemmas\<close>

definition policy_ok :: "Policy \<Rightarrow> bool" where
  "policy_ok pol \<longleftrightarrow> length (pol_buckets pol) = REPEATER_SOURCE_BUCKETS
     \<and> 1 \<le> unat (rc_maxHops (pol_config pol)) \<and> unat (rc_maxHops (pol_config pol)) \<le> MAX_HOP_COUNT"

lemma bucketOf_less: "bucketOf p < REPEATER_SOURCE_BUCKETS"
  using byte_less_256 [of "path p ! (pathSize p - 1)"] by (simp add: bucketOf_def Let_def del: byte_less_256)

lemma isBlocked_iff:
  assumes "wf_packet p"
  shows "isBlocked config p \<longleftrightarrow> (\<exists>h \<in> set (pathView p). h \<in> set (rc_blocked config))"
proof -
  have "pathView p = map (\<lambda>i. path p ! i) [0..<pathSize p]"
    using assms by (intro nth_equalityI) (auto simp: pathView_def wf_packet_def)
  then show ?thesis by (auto simp: isBlocked_def list_ex_iff)
qed

lemma policy_new_ok: "policy_ok (policy_new config)"
  by (auto simp: policy_ok_def policy_new_def setMaxHops_def word_less_nat_alt)

lemma withinRate_keeps:
  "withinRate b now pol = (ok, pol') \<Longrightarrow> pol_config pol' = pol_config pol \<and> pol_stats pol' = pol_stats pol
     \<and> length (pol_buckets pol') = length (pol_buckets pol)"
  by (auto simp: withinRate_def Let_def split: if_splits prod.splits)

lemma shouldForward_keeps:
  "shouldForward p now used pol = (ok, pol') \<Longrightarrow> pol_config pol' = pol_config pol
     \<and> length (pol_buckets pol') = length (pol_buckets pol)"
  by (auto simp: shouldForward_def Let_def split: if_splits prod.splits dest: withinRate_keeps)

section \<open>The rate limit over time\<close>

fun accepted_in :: "nat \<Rightarrow> nat \<Rightarrow> u32 \<Rightarrow> Millis list \<Rightarrow> Rate_Bucket \<Rightarrow> nat" where
  "accepted_in lo hi limit [] slot = 0"
| "accepted_in lo hi limit (t # ts) slot =
     (let (ok, slot') = admit limit t slot in
      (if ok \<and> lo \<le> unat t \<and> unat t < hi then 1 else 0) + accepted_in lo hi limit ts slot')"

abbreviation (input) ascending :: "Millis list \<Rightarrow> bool" where
  "ascending ts \<equiv> sorted (map unat ts)"

lemma unat_suc_less: "(c :: u32) < l \<Longrightarrow> unat (c + 1) = Suc (unat c)"
  using unat_u32_less [of l] by (simp add: word_less_nat_alt unat_word_ariths)

lemma admit_same_window:
  assumes "unat (windowStart slot) \<le> unat now" and "unat now < unat (windowStart slot) + 60000"
  shows "admit l now slot =
    (if window_count slot \<ge> l then (False, slot) else (True, slot\<lparr>window_count := window_count slot + 1\<rparr>))"
proof -
  have "windowStart slot \<le> now" using assms(1) by (simp add: word_le_nat_alt)
  then have "unat (now - windowStart slot) < 60000" using assms(2) by (simp add: unat_sub)
  then show ?thesis using assms(1) by (simp add: admit_def Let_def word_less_nat_alt word_le_nat_alt)
qed

lemma admit_cases:
  obtains (same) "unat (windowStart slot) \<le> unat now" "unat now < unat (windowStart slot) + 60000"
  | (fresh) "admit l now slot =
      (if l = 0 then (False, \<lparr>windowStart = now, window_count = 0\<rparr>)
       else (True, \<lparr>windowStart = now, window_count = 1\<rparr>))"
proof (cases "now < windowStart slot \<or> now - windowStart slot \<ge> REPEATER_RATE_WINDOW_MS")
  case True
  then show thesis by (intro fresh) (auto simp: admit_def Let_def)
next
  case False
  then show thesis
    by (intro same) (auto simp: word_less_nat_alt word_le_nat_alt unat_sub_if' split: if_splits)
qed

lemma accepted_late: "\<forall>t \<in> set ts. hi \<le> unat t \<Longrightarrow> accepted_in lo hi l ts slot = 0"
  by (induction ts arbitrary: slot) (auto split: prod.split)

lemma accepted_one_window:
  assumes "hi \<le> unat (windowStart slot) + 60000" and "\<forall>t \<in> set ts. unat (windowStart slot) \<le> unat t"
    and "ascending ts"
  shows "accepted_in lo hi l ts slot \<le> unat l - unat (window_count slot)"
  using assms
proof (induction ts arbitrary: slot)
  case (Cons t ts)
  show ?case
  proof (cases "unat t < hi")
    case True
    then have a: "admit l t slot =
      (if window_count slot \<ge> l then (False, slot) else (True, slot\<lparr>window_count := window_count slot + 1\<rparr>))"
      using Cons.prems by (intro admit_same_window) auto
    show ?thesis
      using Cons.IH [of slot] Cons.IH [of "slot\<lparr>window_count := window_count slot + 1\<rparr>"] Cons.prems
      by (auto simp: a unat_suc_less not_le word_less_nat_alt)
  next
    case False
    then have "\<forall>x \<in> set (t # ts). hi \<le> unat x" using Cons.prems by fastforce
    then show ?thesis using accepted_late [of "t # ts" hi lo l slot] by simp
  qed
qed simp

lemma accepted_from_lo:
  assumes "hi \<le> lo + 60000" and "\<forall>t \<in> set ts. lo \<le> unat t" and "ascending ts"
  shows "accepted_in lo hi l ts slot \<le> (unat l - unat (window_count slot)) + unat l"
  using assms
proof (induction ts arbitrary: slot)
  case (Cons t ts)
  show ?case
  proof (cases "unat t < hi")
    case True
    show ?thesis
    proof (rule admit_cases [where slot = slot and now = t and l = l])
      assume same: "unat (windowStart slot) \<le> unat t" "unat t < unat (windowStart slot) + 60000"
      show ?thesis
        using Cons.IH [of slot] Cons.IH [of "slot\<lparr>window_count := window_count slot + 1\<rparr>"] Cons.prems
        by (auto simp: admit_same_window [OF same] unat_suc_less not_le word_less_nat_alt)
    next
      assume fresh: "admit l t slot = (if l = 0 then (False, \<lparr>windowStart = t, window_count = 0\<rparr>)
         else (True, \<lparr>windowStart = t, window_count = 1\<rparr>))"
      have w: "accepted_in lo hi l ts \<lparr>windowStart = t, window_count = c\<rparr> \<le> unat l - unat c" for c
        using Cons.prems by (intro order_trans [OF accepted_one_window]) auto
      have pos: "l \<noteq> 0 \<Longrightarrow> 0 < unat l" by (simp add: unat_gt_0)
      show ?thesis using pos fresh w [of 0] w [of 1] by (cases "l = 0") auto
    qed
  next
    case False
    then have "\<forall>x \<in> set (t # ts). hi \<le> unat x" using Cons.prems by fastforce
    then show ?thesis using accepted_late [of "t # ts" hi lo l slot] by simp
  qed
qed simp

lemma accepted_any_window:
  assumes "hi \<le> lo + 60000" and "ascending ts"
  shows "accepted_in lo hi l ts slot \<le> 2 * unat l"
  using assms
proof (induction ts arbitrary: slot)
  case (Cons t ts)
  show ?case
  proof (cases "lo \<le> unat t")
    case True
    then have "\<forall>t \<in> set (t # ts). lo \<le> unat t" using Cons.prems by auto
    from accepted_from_lo [OF Cons.prems(1) this Cons.prems(2), of l slot] show ?thesis by linarith
  next
    case False
    then show ?thesis using Cons.IH Cons.prems by (auto split: prod.split)
  qed
qed simp

text \<open>The requests a policy sees: a packet, the time and the share of the airtime budget used.\<close>

type_synonym transit_request = "Packet \<times> Millis \<times> u32"

text \<open>How many floods of one previous hop are carried at times from \<open>lo\<close> up to \<open>hi\<close>.\<close>

fun carried :: "nat \<Rightarrow> nat \<Rightarrow> nat \<Rightarrow> transit_request list \<Rightarrow> Policy \<Rightarrow> nat" where
  "carried b lo hi [] pol = 0"
| "carried b lo hi ((p, now, used) # reqs) pol =
     (let (ok, pol') = shouldForward p now used pol in
      (if ok \<and> is_flood p \<and> bucketOf p = b \<and> lo \<le> unat now \<and> unat now < hi then 1 else 0)
        + carried b lo hi reqs pol')"

definition reaches_bucket :: "Repeater_Config \<Rightarrow> nat \<Rightarrow> transit_request \<Rightarrow> bool" where
  "reaches_bucket config b req = (case req of (p, now, used) \<Rightarrow>
     rc_enabled config \<and> hopCount p < rc_maxHops config \<and> \<not> isBlocked config p
     \<and> (rc_dutyCeilingPermille config = 0 \<or> used < rc_dutyCeilingPermille config)
     \<and> is_flood p \<and> bucketOf p = b)"

lemma shouldForward_reaches:
  assumes "reaches_bucket (pol_config pol) b (p, now, used)" and "rc_floodPerMinute (pol_config pol) \<noteq> 0"
    and "policy_ok pol" and "shouldForward p now used pol = (ok, pol')"
  shows "admit (rc_floodPerMinute (pol_config pol)) now (pol_buckets pol ! b) = (ok, pol_buckets pol' ! b)"
  using assms bucketOf_less [of p]
  by (auto simp: shouldForward_def reaches_bucket_def withinRate_def policy_ok_def Let_def not_le split: if_splits prod.splits)

lemma shouldForward_elsewhere:
  assumes "\<not> reaches_bucket (pol_config pol) b (p, now, used)" and "shouldForward p now used pol = (ok, pol')"
  shows "pol_buckets pol' ! b = pol_buckets pol ! b" and "ok \<Longrightarrow> is_flood p \<Longrightarrow> bucketOf p \<noteq> b"
  using assms
  by (auto simp: shouldForward_def reaches_bucket_def withinRate_def Let_def not_le split: if_splits prod.splits)

lemma carried_accepted:
  assumes "policy_ok pol" and "rc_floodPerMinute (pol_config pol) \<noteq> 0"
  shows "carried b lo hi reqs pol =
    accepted_in lo hi (rc_floodPerMinute (pol_config pol))
      (map (fst \<circ> snd) (filter (reaches_bucket (pol_config pol) b) reqs)) (pol_buckets pol ! b)"
  using assms
proof (induction reqs arbitrary: pol)
  case (Cons req reqs)
  obtain p now used where req: "req = (p, now, used)" by (cases req)
  obtain ok pol' where f: "shouldForward p now used pol = (ok, pol')" by fastforce
  have keep: "pol_config pol' = pol_config pol" "policy_ok pol'"
    using shouldForward_keeps [OF f] Cons.prems(1) by (auto simp: policy_ok_def)
  show ?case
  proof (cases "reaches_bucket (pol_config pol) b req")
    case True
    then show ?thesis
      using shouldForward_reaches [OF _ Cons.prems(2,1) f] Cons.IH [of pol'] Cons.prems keep f req
      by (auto simp: reaches_bucket_def)
  next
    case False
    then show ?thesis
      using shouldForward_elsewhere [OF _ f] Cons.IH [of pol'] Cons.prems keep f req by auto
  qed
qed simp

lemma shouldForward_result:
  "fst (shouldForward p now used pol) \<longleftrightarrow>
     rc_enabled (pol_config pol) \<and> hopCount p < rc_maxHops (pol_config pol) \<and> \<not> isBlocked (pol_config pol) p
     \<and> (rc_dutyCeilingPermille (pol_config pol) = 0 \<or> used < rc_dutyCeilingPermille (pol_config pol))
     \<and> (is_flood p \<and> rc_floodPerMinute (pol_config pol) \<noteq> 0
          \<longrightarrow> fst (admit (rc_floodPerMinute (pol_config pol)) now (pol_buckets pol ! bucketOf p)))"
proof -
  obtain okr pr where r: "(if is_flood p then withinRate (bucketOf p) now pol else (True, pol)) = (okr, pr)" by fastforce
  then have "okr \<longleftrightarrow> (is_flood p \<and> rc_floodPerMinute (pol_config pol) \<noteq> 0
      \<longrightarrow> fst (admit (rc_floodPerMinute (pol_config pol)) now (pol_buckets pol ! bucketOf p)))"
    by (auto simp: withinRate_def Let_def split: if_splits prod.splits)
  then show ?thesis
    unfolding shouldForward_def Let_def r by (auto simp: not_le)
qed

definition decisions_made :: "Repeater_Stats \<Rightarrow> u32" where
  "decisions_made s = st_forwarded s + st_hopLimit s + st_blocked s + st_rateLimited s + st_budget s"

lemma shouldForward_stats:
  assumes "shouldForward p now used pol = (ok, pol')" and "rc_enabled (pol_config pol)"
  shows "st_forwarded (pol_stats pol') = st_forwarded (pol_stats pol) + (if ok then 1 else 0)
    \<and> decisions_made (pol_stats pol') = decisions_made (pol_stats pol) + 1"
proof -
  obtain okr pr where r: "(if is_flood p then withinRate (bucketOf p) now pol else (True, pol)) = (okr, pr)" by fastforce
  then have "pol_stats pr = pol_stats pol" using withinRate_keeps by (auto split: if_splits)
  with assms show ?thesis
    unfolding shouldForward_def Let_def r by (auto simp: decisions_made_def split: if_splits)
qed

section \<open>Properties\<close>

text \<open>
  The decision, on every branch: a packet is carried exactly when transit is enabled, it
  has fewer hops than the limit, no hash of its path is blocked, the budget used is below the ceiling (zero
  switches that off) and, for floods only, the window of its previous hop admits it. While enabled every
  decision moves exactly one of the five counters, the one for forwarding exactly when the answer is yes;
  while disabled nothing moves.
\<close>

theorem transit_decision:
  assumes "policy_ok pol" and "wf_packet p" and "shouldForward p now used pol = (ok, pol')"
  shows "policy_ok pol' \<and> pol_config pol' = pol_config pol
    \<and> (ok \<longleftrightarrow> rc_enabled (pol_config pol) \<and> hopCount p < rc_maxHops (pol_config pol)
         \<and> \<not> (\<exists>h \<in> set (pathView p). h \<in> set (rc_blocked (pol_config pol)))
         \<and> (rc_dutyCeilingPermille (pol_config pol) = 0 \<or> used < rc_dutyCeilingPermille (pol_config pol))
         \<and> (is_flood p \<and> rc_floodPerMinute (pol_config pol) \<noteq> 0
              \<longrightarrow> fst (admit (rc_floodPerMinute (pol_config pol)) now (pol_buckets pol ! bucketOf p))))
    \<and> (if rc_enabled (pol_config pol) then
         st_forwarded (pol_stats pol') = st_forwarded (pol_stats pol) + (if ok then 1 else 0)
         \<and> decisions_made (pol_stats pol') = decisions_made (pol_stats pol) + 1
       else pol' = pol)"
proof -
  have "policy_ok pol' \<and> pol_config pol' = pol_config pol"
    using shouldForward_keeps [OF assms(3)] assms(1) by (auto simp: policy_ok_def)
  moreover have "\<not> rc_enabled (pol_config pol) \<longrightarrow> pol' = pol"
    using assms(3) by (auto simp: shouldForward_def)
  ultimately show ?thesis
    using shouldForward_result [of p now used pol] shouldForward_stats [OF assms(3)] assms(3)
    unfolding isBlocked_iff [OF assms(2)] by simp
qed

lemma packet_init_wf: "wf_packet packet_init"
  by (simp add: wf_packet_def packet_init_def pathSize_def)

theorem transit_decision_witness:
  "fst (shouldForward packet_init 1000 0 (policy_new repeater_config_default))"
  using transit_decision [OF policy_new_ok packet_init_wf prod.collapse [symmetric],
      of 1000 0 repeater_config_default]
  by (simp add: policy_new_def setMaxHops_def repeater_config_default_def packet_init_def pathView_def pathSize_def
      bucketOf_def admit_def)

text \<open>
  C17. One loud neighbour cannot flood the node: whatever the policy has seen before, and
  whatever packets arrive at times that do not go back, in every interval shorter than a minute the floods carried
  for one previous hop are at most twice the configured number per minute (windows start with the
  first packet, so an interval can meet two of them).
\<close>

theorem flood_rate_bound:
  assumes "policy_ok pol" and "rc_floodPerMinute (pol_config pol) \<noteq> 0"
    and "sorted (map (\<lambda>(p, now, used). unat now) reqs)"
  shows "carried b lo (lo + 60000) reqs pol \<le> 2 * unat (rc_floodPerMinute (pol_config pol))"
proof -
  have "(\<lambda>(p :: Packet, now :: Millis, used :: u32). unat now) = unat \<circ> (fst \<circ> snd)" by auto
  then have "ascending (map (fst \<circ> snd) (filter (reaches_bucket (pol_config pol) b) reqs))"
    using assms(3) sorted_filter [of "unat \<circ> (fst \<circ> snd)" reqs] by simp
  then show ?thesis
    unfolding carried_accepted [OF assms(1,2)] by (rule accepted_any_window [OF order_refl])
qed

theorem flood_rate_bound_witness:
  "carried 256 0 60000 (map (\<lambda>i. (packet_init, of_nat i, 0)) [0..<1000]) (policy_new repeater_config_default) \<le> 60"
proof -
  have "map (\<lambda>(p, now, used). unat now) (map (\<lambda>i. (packet_init, of_nat i :: Millis, 0 :: u32)) [0..<1000]) = [0..<1000]"
    by (rule nth_equalityI) (auto simp: unat_of_nat)
  then have "sorted (map (\<lambda>(p, now, used). unat now) (map (\<lambda>i. (packet_init, of_nat i :: Millis, 0 :: u32)) [0..<1000]))"
    by (simp only: sorted_upt)
  from flood_rate_bound [OF policy_new_ok _ this, of repeater_config_default 256 0]
  show ?thesis by (simp add: policy_new_def setMaxHops_def repeater_config_default_def)
qed

end
