(* ===== verification/Identity_Store.thy ===== *)
theory Identity_Store
  imports Crypto_Protocol "HOL-Library.Multiset"
begin

text \<open>
  \<^verbatim>\<open>src/src/identity\<close>: who the node is and whom it knows. The store keeps the contacts in
  a vector whose capacity is reserved once, an index of 256 buckets of pointers into that vector (here: positions),
  and a cache of derived secrets that evicts the least recently used entry. Files are the \<open>file_system\<close> of
  \<open>Crypto_Protocol\<close>; what the operating system may refuse is an argument. When \<open>loadOrCreate\<close> answers
  false the node does not start, so the store it leaves then is not used.
\<close>

unbundle bit_operations_syntax

section \<open>Contacts\<close>

text \<open>The enum class has \<^verbatim>\<open>uint8_t\<close> as its type, and both casts to it keep values it does not name.\<close>

type_synonym NodeType = byte

abbreviation (input) UNKNOWN :: NodeType where "UNKNOWN \<equiv> 0"
abbreviation (input) CHAT :: NodeType where "CHAT \<equiv> 1"
abbreviation (input) REPEATER :: NodeType where "REPEATER \<equiv> 2"
abbreviation (input) ROOM_SERVER :: NodeType where "ROOM_SERVER \<equiv> 3"
abbreviation (input) SENSOR :: NodeType where "SENSOR \<equiv> 4"

datatype Update = ADDED | UPDATED | STALE | REJECTED

text \<open>The signed fields are kept as their two's complement words.\<close>

record Contact =
  con_pk :: public_key
  con_timestamp :: u32
  con_type :: NodeType
  con_hasLocation :: bool
  con_latitude :: u32
  con_longitude :: u32
  con_name :: bytes
  con_lastHeard :: u32
  con_snr :: u16
  con_hops :: byte

definition contact_init :: Contact where
  "contact_init =
     \<lparr>con_pk = replicate 32 0, con_timestamp = 0, con_type = UNKNOWN, con_hasLocation = False,
      con_latitude = 0, con_longitude = 0, con_name = [], con_lastHeard = 0, con_snr = 0, con_hops = 0\<rparr>"

definition contact_hash :: "Contact \<Rightarrow> byte" where
  "contact_hash c = con_pk c ! 0"

definition isNeighbour :: "Contact \<Rightarrow> bool" where
  "isNeighbour c \<longleftrightarrow> con_lastHeard c \<noteq> 0 \<and> con_hops c = 0"

definition applyAppdata :: "Contact \<Rightarrow> bytes \<Rightarrow> Contact" where
  "applyAppdata contact appdata =
     (let contact = contact\<lparr>con_type := UNKNOWN, con_hasLocation := False, con_latitude := 0,
                            con_longitude := 0, con_name := []\<rparr> in
      if appdata = [] then contact else
      let flags = appdata ! 0; contact = contact\<lparr>con_type := flags AND 0x0F\<rparr>; offset = 1 in
      if flags AND 0x10 \<noteq> 0 \<and> length appdata < offset + 8 then contact else
      let contact = (if flags AND 0x10 \<noteq> 0
            then contact\<lparr>con_latitude := readUint32 appdata offset,
                         con_longitude := readUint32 appdata (offset + 4), con_hasLocation := True\<rparr>
            else contact);
          offset = (if flags AND 0x10 \<noteq> 0 then offset + 8 else offset) in
      if flags AND 0x20 \<noteq> 0 \<and> length appdata < offset + 2 then contact else
      let offset = (if flags AND 0x20 \<noteq> 0 then offset + 2 else offset) in
      if flags AND 0x40 \<noteq> 0 \<and> length appdata < offset + 2 then contact else
      let offset = (if flags AND 0x40 \<noteq> 0 then offset + 2 else offset) in
      if flags AND 0x80 \<noteq> 0
      then contact\<lparr>con_name := subspan appdata offset (min (length appdata - offset) MAX_CONTACT_NAME)\<rparr>
      else contact)"

section \<open>The store\<close>

record CachedSecret =
  cs_pk :: public_key
  cs_secret :: shared_secret
  cs_usedAt :: u64

record Store =
  store_self :: KeyPair
  store_selfHash :: byte
  store_dir :: string
  contacts :: "Contact list"
  buckets :: "nat list list"
  secrets :: "CachedSecret list"
  store_clock :: u64

definition store_new :: Store where
  "store_new =
     \<lparr>store_self = \<lparr>kp_pk = replicate 32 0, kp_sk = replicate 64 0\<rparr>, store_selfHash = 0, store_dir = [],
      contacts = [], buckets = replicate 256 [], secrets = [], store_clock = 0\<rparr>"

definition find :: "Store \<Rightarrow> public_key \<Rightarrow> nat option" where
  "find st pk = List.find (\<lambda>i. con_pk (contacts st ! i) = pk) (buckets st ! unat (pk ! 0))"

definition findByHash :: "Store \<Rightarrow> byte \<Rightarrow> nat list" where
  "findByHash st hash = buckets st ! unat hash"

definition indexContact :: "nat \<Rightarrow> Store \<Rightarrow> Store" where
  "indexContact i st =
     (let h = unat (contact_hash (contacts st ! i)) in
      st\<lparr>buckets := (buckets st)[h := (buckets st ! h) @ [i]]\<rparr>)"

definition reindex :: "Store \<Rightarrow> Store" where
  "reindex st = fold indexContact [0..<length (contacts st)] (st\<lparr>buckets := replicate (length (buckets st)) []\<rparr>)"

definition allocateSlot :: "Store \<Rightarrow> nat \<times> Store" where
  "allocateSlot st =
     (if length (contacts st) < MAX_CONTACTS
      then (length (contacts st), st\<lparr>contacts := contacts st @ [contact_init]\<rparr>)
      else let oldest = least_index (\<lambda>i. con_timestamp (contacts st ! i)) [1..<length (contacts st)] 0
           in (oldest, st\<lparr>contacts := (contacts st)[oldest := contact_init]\<rparr>))"

definition update_contact :: "nat \<Rightarrow> (Contact \<Rightarrow> Contact) \<Rightarrow> Store \<Rightarrow> Store" where
  "update_contact i f st = st\<lparr>contacts := (contacts st)[i := f (contacts st ! i)]\<rparr>"

definition remember :: "Advert \<Rightarrow> Store \<Rightarrow> Update \<times> Store" where
  "remember advert st =
     (if length (adv_publicKey advert) \<noteq> PACKET_PUBLIC_KEY_SIZE then (REJECTED, st) else
      let pk = adv_publicKey advert in
      case find st pk of
        Some known \<Rightarrow>
          if adv_timestamp advert \<le> con_timestamp (contacts st ! known) then (STALE, st)
          else (UPDATED, update_contact known
                  (\<lambda>c. applyAppdata (c\<lparr>con_timestamp := adv_timestamp advert\<rparr>) (adv_appdata advert)) st)
      | None \<Rightarrow>
          let evicting = length (contacts st) \<ge> MAX_CONTACTS;
              (fresh, st) = allocateSlot st;
              st = update_contact fresh
                     (\<lambda>c. applyAppdata (c\<lparr>con_pk := pk, con_timestamp := adv_timestamp advert\<rparr>) (adv_appdata advert)) st
          in (ADDED, if evicting then reindex st else indexContact fresh st))"

definition noteHeard :: "public_key \<Rightarrow> u32 \<Rightarrow> u16 \<Rightarrow> byte \<Rightarrow> Store \<Rightarrow> Store" where
  "noteHeard pk at snr hops st =
     (case find st pk of None \<Rightarrow> st
      | Some i \<Rightarrow> update_contact i (\<lambda>c. c\<lparr>con_lastHeard := at, con_snr := snr, con_hops := hops\<rparr>) st)"

text \<open>\<^verbatim>\<open>std::sort\<close> leaves the order of contacts heard in the same second open; here it is the store's.\<close>

definition neighbours :: "nat \<Rightarrow> Store \<Rightarrow> Contact list" where
  "neighbours limit st =
     (if limit = 0 then []
      else take limit (sort_key (\<lambda>c. - uint (con_lastHeard c)) (filter isNeighbour (contacts st))))"

definition secretFor :: "sodium \<Rightarrow> public_key \<Rightarrow> Store \<Rightarrow> shared_secret option \<times> Store" where
  "secretFor S pk st =
     (let st = st\<lparr>store_clock := store_clock st + 1\<rparr> in
      case find_index (\<lambda>e. cs_pk e = pk) (secrets st) of
        Some i \<Rightarrow> (Some (cs_secret (secrets st ! i)),
                   st\<lparr>secrets := (secrets st)[i := (secrets st ! i)\<lparr>cs_usedAt := store_clock st\<rparr>]\<rparr>)
      | None \<Rightarrow>
          (case deriveShared S (kp_sk (store_self st)) pk of None \<Rightarrow> (None, st)
           | Some derived \<Rightarrow>
             let entry = \<lparr>cs_pk = pk, cs_secret = derived, cs_usedAt = store_clock st\<rparr> in
             if length (secrets st) < MAX_SECRET_CACHE
             then (Some derived, st\<lparr>secrets := secrets st @ [entry]\<rparr>)
             else let slot = least_index (\<lambda>i. cs_usedAt (secrets st ! i)) [0..<length (secrets st)] 0
                  in (Some derived, st\<lparr>secrets := (secrets st)[slot := entry]\<rparr>)))"

section \<open>The contact file\<close>

abbreviation (input) CONTACTS_FORMAT_VERSION :: byte where "CONTACTS_FORMAT_VERSION \<equiv> 2"
abbreviation (input) CONTACTS_FORMAT_MIN_VERSION :: byte where "CONTACTS_FORMAT_MIN_VERSION \<equiv> 1"
abbreviation (input) kContactFixedSize :: nat where "kContactFixedSize \<equiv> 47"
abbreviation (input) kContactHeardSize :: nat where "kContactHeardSize \<equiv> 7"

text \<open>One record, and the bytes after it.\<close>

definition parseContact :: "byte \<Rightarrow> bytes \<Rightarrow> (Contact \<times> bytes) option" where
  "parseContact version view =
     (if length view < kContactFixedSize then None else
      let contact = contact_init\<lparr>con_pk := take 32 view, con_timestamp := readUint32 view 32,
            con_type := view ! 36, con_hasLocation := (view ! 37 \<noteq> 0),
            con_latitude := readUint32 view 38, con_longitude := readUint32 view 42\<rparr>;
          nameLength = unat (view ! 46); view = drop 47 view in
      if nameLength > MAX_CONTACT_NAME \<or> length view < nameLength then None else
      let contact = contact\<lparr>con_name := take nameLength view\<rparr>; view = drop nameLength view in
      if version \<ge> 2 then
        if length view < kContactHeardSize then None else
        Some (contact\<lparr>con_lastHeard := readUint32 view 0, con_snr := readUint16 view 4, con_hops := view ! 6\<rparr>,
              drop 7 view)
      else Some (contact, view))"

lemma parseContact_shorter: "parseContact version view = Some (c, rest) \<Longrightarrow> length rest < length view"
  by (auto simp: parseContact_def Let_def split: if_splits)

function parseContacts :: "byte \<Rightarrow> nat \<Rightarrow> bytes \<Rightarrow> Contact list option" where
  "parseContacts version n view =
     (if view = [] then Some [] else
      if length view < kContactFixedSize then None else
      if n \<ge> MAX_CONTACTS then None else
      case parseContact version view of None \<Rightarrow> None
      | Some (contact, rest) \<Rightarrow>
        (case parseContacts version (n + 1) rest of None \<Rightarrow> None | Some cs \<Rightarrow> Some (contact # cs)))"
  by pat_completeness auto
termination
  by (relation "measure (\<lambda>(v, n, view). length view)") (auto dest: parseContact_shorter)

declare parseContacts.simps [simp del]

definition loadContacts :: "string \<Rightarrow> file_system \<Rightarrow> Store \<Rightarrow> bool \<times> Store" where
  "loadContacts file fs st =
     (case fs file of None \<Rightarrow> (False, st)
      | Some info \<Rightarrow>
        if \<not> kf_regular info then (False, st) else
        let blob = kf_content info in
        if blob = [] \<or> blob ! 0 > CONTACTS_FORMAT_VERSION \<or> blob ! 0 < CONTACTS_FORMAT_MIN_VERSION then (False, st) else
        (case parseContacts (blob ! 0) 0 (drop 1 blob) of None \<Rightarrow> (False, st)
         | Some parsed \<Rightarrow> (True, reindex (st\<lparr>contacts := parsed\<rparr>))))"

definition contactRecord :: "Contact \<Rightarrow> bytes" where
  "contactRecord c =
     (let nameLength = min (length (con_name c)) MAX_CONTACT_NAME in
      con_pk c @ writeUint32 (con_timestamp c) @ [con_type c, if con_hasLocation c then 1 else 0]
        @ writeUint32 (con_latitude c) @ writeUint32 (con_longitude c)
        @ [of_nat nameLength] @ take nameLength (con_name c)
        @ writeUint32 (con_lastHeard c) @ writeUint16 (con_snr c) @ [con_hops c])"

definition writeContacts :: "bool \<Rightarrow> string \<Rightarrow> Store \<Rightarrow> file_system \<Rightarrow> bool \<times> file_system" where
  "writeContacts written file st fs =
     (if written
      then (True, fs(file \<mapsto> \<lparr>kf_regular = True, kf_mode = 0x180,
              kf_content = CONTACTS_FORMAT_VERSION # concat (map contactRecord (contacts st))\<rparr>))
      else (False, fs))"

definition flush :: "bool \<Rightarrow> bool \<Rightarrow> Store \<Rightarrow> file_system \<Rightarrow> bool \<times> file_system" where
  "flush written renamed st fs =
     (if store_dir st = [] then (False, fs) else
      let target = store_dir st @ ''/contacts.dat''; temporary = target @ ''.tmp'';
          (ok, fs) = writeContacts written temporary st fs in
      if \<not> ok then (False, fs(temporary := None)) else
      if \<not> renamed then (False, fs(temporary := None)) else
      (True, fs(target := fs temporary, temporary := None)))"

definition loadOrCreate ::
  "sodium \<Rightarrow> random_source \<Rightarrow> bool \<Rightarrow> bool \<Rightarrow> bool \<Rightarrow> string \<Rightarrow> nat \<Rightarrow> file_system \<Rightarrow> Store
     \<Rightarrow> bool \<times> Store \<times> file_system \<times> nat" where
  "loadOrCreate S src madeDir written closed dir pos fs st =
     (if \<not> madeDir then (False, st, fs, pos) else
      let st = st\<lparr>store_dir := dir\<rparr>; keyPath = dir @ ''/identity.key'';
          (kp, fs, pos) =
            (if fs keyPath \<noteq> None then (loadKeypair S keyPath fs, fs, pos)
             else let (kp, pos) = generateKeypair S src pos;
                      (ok, fs) = saveKeypair (\<lambda>_. True) written closed kp keyPath fs
                  in (if ok then Some kp else None, fs, pos)) in
      case kp of None \<Rightarrow> (False, st, fs, pos)
      | Some self \<Rightarrow>
        let st = st\<lparr>store_self := self, store_selfHash := kp_pk self ! 0\<rparr>;
            contactsPath = dir @ ''/contacts.dat'' in
        if fs contactsPath \<noteq> None then
          let (ok, st) = loadContacts contactsPath fs st in (ok, st, fs, pos)
        else (True, st, fs, pos))"

section \<open>Invariant\<close>

definition index_hashes :: "byte list \<Rightarrow> nat list list" where
  "index_hashes hs = map (\<lambda>h. filter (\<lambda>i. unat (hs ! i) = h) [0..<length hs]) [0..<256]"

definition contact_ok :: "Contact \<Rightarrow> bool" where
  "contact_ok c \<longleftrightarrow> length (con_pk c) = PACKET_PUBLIC_KEY_SIZE \<and> length (con_name c) \<le> MAX_CONTACT_NAME"

definition contacts_ok :: "Store \<Rightarrow> bool" where
  "contacts_ok st \<longleftrightarrow> length (contacts st) \<le> MAX_CONTACTS \<and> list_all contact_ok (contacts st)
     \<and> distinct (map con_pk (contacts st)) \<and> buckets st = index_hashes (map contact_hash (contacts st))"

definition secrets_ok :: "sodium \<Rightarrow> Store \<Rightarrow> bool" where
  "secrets_ok S st \<longleftrightarrow> length (secrets st) \<le> MAX_SECRET_CACHE \<and> distinct (map cs_pk (secrets st))
     \<and> list_all (\<lambda>e. deriveShared S (kp_sk (store_self st)) (cs_pk e) = Some (cs_secret e)) (secrets st)"

text \<open>What the contacts mean: a finite map from keys to contacts.\<close>

definition contact_map :: "Store \<Rightarrow> public_key \<Rightarrow> Contact option" where
  "contact_map st = map_of (map (\<lambda>c. (con_pk c, c)) (contacts st))"

section \<open>Lemmas\<close>

lemma length_index_hashes [simp]: "length (index_hashes hs) = 256"
  by (simp add: index_hashes_def)

lemma index_hashes_nth:
  "h < 256 \<Longrightarrow> index_hashes hs ! h = filter (\<lambda>i. unat (hs ! i) = h) [0..<length hs]"
  by (simp add: index_hashes_def)

lemma index_hashes_append:
  "index_hashes (hs @ [x]) = (index_hashes hs)[unat x := (index_hashes hs ! unat x) @ [length hs]]"
proof (rule nth_equalityI)
  fix h assume "h < length (index_hashes (hs @ [x]))"
  then have h: "h < 256" by simp
  have "filter (\<lambda>i. unat ((hs @ [x]) ! i) = h) [0..<length hs] = filter (\<lambda>i. unat (hs ! i) = h) [0..<length hs]"
    by (rule filter_cong) (auto simp: nth_append)
  with h show "index_hashes (hs @ [x]) ! h = (index_hashes hs)[unat x := (index_hashes hs ! unat x) @ [length hs]] ! h"
    by (simp add: index_hashes_nth nth_list_update nth_append)
qed simp

lemma reindex_prefix:
  assumes "k \<le> length (contacts st)" and "length (buckets st) = 256"
  shows "fold indexContact [0..<k] (st\<lparr>buckets := replicate (length (buckets st)) []\<rparr>)
    = st\<lparr>buckets := index_hashes (map contact_hash (take k (contacts st)))\<rparr>"
  using assms
proof (induction k)
  case 0
  then show ?case by (simp add: index_hashes_def map_replicate_const)
next
  case (Suc k)
  then show ?case
    by (simp add: indexContact_def Let_def take_Suc_conv_app_nth index_hashes_append min_def)
qed

lemma reindex_eq:
  "length (buckets st) = 256 \<Longrightarrow> reindex st = st\<lparr>buckets := index_hashes (map contact_hash (contacts st))\<rparr>"
  using reindex_prefix [of "length (contacts st)" st] by (simp add: reindex_def)

lemma find_in_index:
  assumes "buckets st = index_hashes (map contact_hash (contacts st))"
  shows "find st pk = List.find (\<lambda>i. con_pk (contacts st ! i) = pk) [0..<length (contacts st)]"
proof -
  have f: "List.find P (filter Q xs) = List.find P xs" if "\<And>x. x \<in> set xs \<Longrightarrow> P x \<Longrightarrow> Q x" for P Q and xs :: "nat list"
    using that by (induction xs) auto
  show ?thesis
    unfolding find_def assms
    by (subst index_hashes_nth) (auto simp: contact_hash_def intro!: f)
qed

lemma find_None:
  "contacts_ok st \<Longrightarrow> find st pk = None \<longleftrightarrow> pk \<notin> con_pk ` set (contacts st)"
  by (auto simp: contacts_ok_def find_in_index find_None_iff in_set_conv_nth image_iff Ball_def)

lemma find_Some:
  assumes "contacts_ok st"
  shows "find st pk = Some i \<longleftrightarrow> i < length (contacts st) \<and> con_pk (contacts st ! i) = pk"
proof
  assume "find st pk = Some i"
  then show "i < length (contacts st) \<and> con_pk (contacts st ! i) = pk"
    using assms by (auto simp: contacts_ok_def find_in_index find_Some_iff)
next
  assume i: "i < length (contacts st) \<and> con_pk (contacts st ! i) = pk"
  then obtain j where "find st pk = Some j" using find_None [OF assms] by fastforce
  moreover from this have "j < length (contacts st) \<and> con_pk (contacts st ! j) = pk"
    using assms by (auto simp: contacts_ok_def find_in_index find_Some_iff)
  ultimately show "find st pk = Some i"
    using i assms by (auto simp: contacts_ok_def distinct_conv_nth)
qed

lemma contact_map_find:
  assumes "contacts_ok st"
  shows "contact_map st pk = map_option (\<lambda>i. contacts st ! i) (find st pk)"
proof (cases "find st pk")
  case None
  then show ?thesis using find_None [OF assms, of pk] by (simp add: contact_map_def map_of_eq_None_iff image_image)
next
  case (Some i)
  then have "i < length (contacts st)" "con_pk (contacts st ! i) = pk" using find_Some [OF assms] by auto
  moreover have "distinct (map fst (map (\<lambda>c. (con_pk c, c)) (contacts st)))"
    using assms by (simp add: contacts_ok_def comp_def)
  ultimately show ?thesis
    using Some nth_mem [of i "contacts st"] by (auto simp: contact_map_def intro!: map_of_is_SomeI)
qed

lemma applyAppdata_pk [simp]: "con_pk (applyAppdata c d) = con_pk c"
  by (simp add: applyAppdata_def Let_def)
lemma applyAppdata_timestamp [simp]: "con_timestamp (applyAppdata c d) = con_timestamp c"
  by (simp add: applyAppdata_def Let_def)
lemma applyAppdata_heard [simp]: "con_lastHeard (applyAppdata c d) = con_lastHeard c"
  by (simp add: applyAppdata_def Let_def)
lemma applyAppdata_name: "length (con_name (applyAppdata c d)) \<le> MAX_CONTACT_NAME"
  by (auto simp: applyAppdata_def Let_def subspan_def)

lemma map_of_list_update:
  assumes "distinct (map f xs)" and "i < length xs" and "f y = f (xs ! i)"
  shows "map_of (map (\<lambda>c. (f c, c)) (xs[i := y])) = (map_of (map (\<lambda>c. (f c, c)) xs))(f y \<mapsto> y)"
  using assms
proof (induction xs arbitrary: i)
  case (Cons x xs)
  then show ?case by (cases i) (auto simp: fun_eq_iff image_iff)
qed simp

lemma map_of_append_new:
  "f y \<notin> f ` set xs \<Longrightarrow> map_of (map (\<lambda>c. (f c, c)) (xs @ [y])) = (map_of (map (\<lambda>c. (f c, c)) xs))(f y \<mapsto> y)"
  by (induction xs) (auto simp: fun_upd_twist)

lemma map_of_replace:
  assumes "distinct (map f xs)" and "i < length xs" and "f y \<notin> f ` set xs"
  shows "map_of (map (\<lambda>c. (f c, c)) (xs[i := y])) = (map_of (map (\<lambda>c. (f c, c)) xs))(f (xs ! i) := None, f y \<mapsto> y)"
  using assms
proof (induction xs arbitrary: i)
  case (Cons x xs)
  show ?case
  proof (cases i)
    case 0
    have "map_of (map (\<lambda>c. (f c, c)) xs) (f x) = None" using Cons.prems by (auto simp: map_of_eq_None_iff image_image)
    then show ?thesis using 0 by (auto simp: fun_upd_idem)
  next
    case (Suc k)
    have "xs ! k \<in> set xs" using Cons.prems Suc by simp
    then have "f (xs ! k) \<noteq> f x" using Cons.prems(1) by simp (metis imageI)
    then show ?thesis using Suc Cons.IH [of k] Cons.prems by (auto simp: fun_eq_iff)
  qed
qed simp


lemma contacts_ok_update:
  assumes "contacts_ok st" and "i < length (contacts st)"
    and "con_pk (f (contacts st ! i)) = con_pk (contacts st ! i)"
    and "length (con_name (f (contacts st ! i))) \<le> MAX_CONTACT_NAME"
  shows "contacts_ok (update_contact i f st)"
    and "contact_map (update_contact i f st) = (contact_map st)(con_pk (contacts st ! i) \<mapsto> f (contacts st ! i))"
proof -
  have pks: "map con_pk ((contacts st)[i := f (contacts st ! i)]) = map con_pk (contacts st)"
    using assms(2,3) by (simp add: map_update list_update_same_conv)
  have hs: "map contact_hash ((contacts st)[i := f (contacts st ! i)]) = map contact_hash (contacts st)"
    using assms(2,3) by (simp add: map_update list_update_same_conv contact_hash_def)
  have "contact_ok (f (contacts st ! i))"
    using assms by (auto simp: contact_ok_def contacts_ok_def list_all_length)
  then show "contacts_ok (update_contact i f st)"
    using assms(1,2) pks hs by (auto simp: contacts_ok_def update_contact_def list_all_length nth_list_update)
  show "contact_map (update_contact i f st) = (contact_map st)(con_pk (contacts st ! i) \<mapsto> f (contacts st ! i))"
    using map_of_list_update [of con_pk "contacts st" i "f (contacts st ! i)"] assms
    by (simp add: contact_map_def update_contact_def contacts_ok_def)
qed

lemma contacts_ok_append:
  assumes "contacts_ok st" and "contact_ok c" and "con_pk c \<notin> con_pk ` set (contacts st)"
    and "length (contacts st) < MAX_CONTACTS"
  shows "contacts_ok (indexContact (length (contacts st)) (st\<lparr>contacts := contacts st @ [c]\<rparr>))"
  using assms
  by (simp add: contacts_ok_def indexContact_def Let_def nth_append index_hashes_append image_iff)

lemma contacts_ok_replace:
  assumes "contacts_ok st" and "contact_ok c" and "con_pk c \<notin> con_pk ` set (contacts st)"
    and "i < length (contacts st)"
  shows "contacts_ok (reindex (st\<lparr>contacts := (contacts st)[i := c]\<rparr>))"
proof -
  have "distinct (map con_pk ((contacts st)[i := c]))"
    using assms by (simp add: map_update contacts_ok_def distinct_list_update)
  then show ?thesis
    using assms by (auto simp: contacts_ok_def reindex_eq list_all_length nth_list_update)
qed

text \<open>The contact that \<^verbatim>\<open>remember\<close> makes of an advert, from what was stored under its key.\<close>

definition contact_of :: "Contact \<Rightarrow> Advert \<Rightarrow> Contact" where
  "contact_of c a =
     applyAppdata (c\<lparr>con_pk := adv_publicKey a, con_timestamp := adv_timestamp a\<rparr>) (adv_appdata a)"

lemma contact_of_simps [simp]:
  "con_pk (contact_of c a) = adv_publicKey a" "con_timestamp (contact_of c a) = adv_timestamp a"
  "length (con_name (contact_of c a)) \<le> MAX_CONTACT_NAME"
  by (simp_all add: contact_of_def applyAppdata_name)

lemma remember_known:
  assumes "contacts_ok st" and "contact_map st (adv_publicKey a) = Some c"
  shows "adv_timestamp a \<le> con_timestamp c \<Longrightarrow> remember a st = (STALE, st)"
    and "con_timestamp c < adv_timestamp a \<Longrightarrow> \<exists>st'. remember a st = (UPDATED, st') \<and> contacts_ok st'
           \<and> contact_map st' = (contact_map st)(adv_publicKey a \<mapsto> contact_of c a)
           \<and> length (contacts st') = length (contacts st)"
proof -
  obtain i where i: "find st (adv_publicKey a) = Some i" "contacts st ! i = c"
    using assms contact_map_find [OF assms(1), of "adv_publicKey a"] by auto
  then have i': "i < length (contacts st)" "con_pk c = adv_publicKey a" using find_Some [OF assms(1)] by auto
  then have len: "length (adv_publicKey a) = PACKET_PUBLIC_KEY_SIZE"
    using assms(1) i(2) by (auto simp: contacts_ok_def contact_ok_def list_all_length)
  show "adv_timestamp a \<le> con_timestamp c \<Longrightarrow> remember a st = (STALE, st)"
    using i len by (simp add: remember_def)
  assume newer: "con_timestamp c < adv_timestamp a"
  have co: "applyAppdata (c\<lparr>con_timestamp := adv_timestamp a\<rparr>) (adv_appdata a) = contact_of c a"
    using i'(2) by (simp add: contact_of_def) (metis Contact.surjective Contact.update_convs(1))
  show "\<exists>st'. remember a st = (UPDATED, st') \<and> contacts_ok st'
           \<and> contact_map st' = (contact_map st)(adv_publicKey a \<mapsto> contact_of c a)
           \<and> length (contacts st') = length (contacts st)"
    using contacts_ok_update [OF assms(1) i'(1), of "\<lambda>c. applyAppdata (c\<lparr>con_timestamp := adv_timestamp a\<rparr>) (adv_appdata a)"]
      i i' len newer co applyAppdata_name by (simp add: remember_def not_le) (simp add: update_contact_def)
qed

lemma remember_unknown:
  assumes "contacts_ok st" and "contact_map st (adv_publicKey a) = None"
    and "length (adv_publicKey a) = PACKET_PUBLIC_KEY_SIZE"
  shows "length (contacts st) < MAX_CONTACTS \<Longrightarrow> \<exists>st'. remember a st = (ADDED, st') \<and> contacts_ok st'
           \<and> contact_map st' = (contact_map st)(adv_publicKey a \<mapsto> contact_of contact_init a)
           \<and> length (contacts st') = length (contacts st) + 1"
    and "length (contacts st) = MAX_CONTACTS \<Longrightarrow> \<exists>st' old. remember a st = (ADDED, st') \<and> contacts_ok st'
           \<and> old \<in> set (contacts st) \<and> (\<forall>c \<in> set (contacts st). con_timestamp old \<le> con_timestamp c)
           \<and> contact_map st' = (contact_map st)(con_pk old := None, adv_publicKey a \<mapsto> contact_of contact_init a)
           \<and> length (contacts st') = length (contacts st)"
proof -
  have none: "find st (adv_publicKey a) = None" using assms contact_map_find by auto
  have new: "con_pk (contact_of contact_init a) \<notin> con_pk ` set (contacts st)"
    using none find_None [OF assms(1)] by simp
  have cok: "contact_ok (contact_of contact_init a)" using assms(3) by (simp add: contact_ok_def)
  {
    assume room: "length (contacts st) < MAX_CONTACTS"
    let ?st = "indexContact (length (contacts st)) (st\<lparr>contacts := contacts st @ [contact_of contact_init a]\<rparr>)"
    have "remember a st = (ADDED, ?st)"
      using assms(3) none room
      by (simp add: remember_def allocateSlot_def update_contact_def contact_of_def)
    moreover have "contact_map ?st = (contact_map st)(adv_publicKey a \<mapsto> contact_of contact_init a)"
      using map_of_append_new [OF new] by (simp add: contact_map_def indexContact_def Let_def)
    ultimately show "\<exists>st'. remember a st = (ADDED, st') \<and> contacts_ok st'
           \<and> contact_map st' = (contact_map st)(adv_publicKey a \<mapsto> contact_of contact_init a)
           \<and> length (contacts st') = length (contacts st) + 1"
      using contacts_ok_append [OF assms(1) cok new room] by (simp add: indexContact_def Let_def)
  }
  assume full: "length (contacts st) = MAX_CONTACTS"
  let ?i = "least_index (\<lambda>i. con_timestamp (contacts st ! i)) [1..<length (contacts st)] 0"
  let ?st = "reindex (st\<lparr>contacts := (contacts st)[?i := contact_of contact_init a]\<rparr>)"
  have i: "?i < length (contacts st)" "\<forall>j < length (contacts st). con_timestamp (contacts st ! ?i) \<le> con_timestamp (contacts st ! j)"
    using least_index_less [of 1 "length (contacts st)" "\<lambda>i. con_timestamp (contacts st ! i)"] full by auto
  have "remember a st = (ADDED, ?st)"
    using assms(3) none full i(1)
    by (simp add: remember_def allocateSlot_def update_contact_def contact_of_def Let_def)
  moreover have "contacts ?st = (contacts st)[?i := contact_of contact_init a]"
    using assms(1) by (simp add: reindex_eq contacts_ok_def)
  moreover have "contact_map ?st = (contact_map st)(con_pk (contacts st ! ?i) := None, adv_publicKey a \<mapsto> contact_of contact_init a)"
    using map_of_replace [of con_pk "contacts st" ?i, OF _ i(1) new] assms(1)
    by (simp add: contact_map_def reindex_eq contacts_ok_def)
  moreover have "contacts st ! ?i \<in> set (contacts st)" "\<forall>c \<in> set (contacts st). con_timestamp (contacts st ! ?i) \<le> con_timestamp c"
    using i by (auto simp: in_set_conv_nth)
  ultimately show "\<exists>st' old. remember a st = (ADDED, st') \<and> contacts_ok st'
           \<and> old \<in> set (contacts st) \<and> (\<forall>c \<in> set (contacts st). con_timestamp old \<le> con_timestamp c)
           \<and> contact_map st' = (contact_map st)(con_pk old := None, adv_publicKey a \<mapsto> contact_of contact_init a)
           \<and> length (contacts st') = length (contacts st)"
    using contacts_ok_replace [OF assms(1) cok new i(1)] by (metis length_list_update)
qed

lemma secretFor_spec:
  assumes "secrets_ok S st" and "secretFor S pk st = (r, st')"
  shows "r = deriveShared S (kp_sk (store_self st)) pk" and "secrets_ok S st'"
    and "st' = st\<lparr>secrets := secrets st', store_clock := store_clock st'\<rparr>"
proof -
  let ?clk = "store_clock st + 1"
  note ok = assms(1) [unfolded secrets_ok_def]
  have "r = deriveShared S (kp_sk (store_self st)) pk \<and> secrets_ok S st'
      \<and> (st' = st\<lparr>secrets := secrets st', store_clock := store_clock st'\<rparr>)"
  proof (cases "find_index (\<lambda>e. cs_pk e = pk) (secrets st)")
    case (Some i)
    note i = find_index_Some [OF Some]
    have "map cs_pk ((secrets st)[i := (secrets st ! i)\<lparr>cs_usedAt := ?clk\<rparr>]) = map cs_pk (secrets st)"
      using i by (simp add: map_update list_update_same_conv)
    then show ?thesis
      using assms(2) Some i ok by (auto simp: secretFor_def Let_def secrets_ok_def list_all_length nth_list_update)
  next
    case None
    then have new: "pk \<notin> cs_pk ` set (secrets st)" by (auto simp: find_index_None)
    show ?thesis
    proof (cases "deriveShared S (kp_sk (store_self st)) pk")
      case None
      then show ?thesis
        using assms \<open>find_index _ _ = None\<close> by (auto simp: secretFor_def Let_def secrets_ok_def)
    next
      case (Some s)
      let ?e = "\<lparr>cs_pk = pk, cs_secret = s, cs_usedAt = ?clk\<rparr>"
      let ?i = "least_index (\<lambda>i. cs_usedAt (secrets st ! i)) [0..<length (secrets st)] 0"
      show ?thesis
      proof (cases "length (secrets st) < MAX_SECRET_CACHE")
        case True
        then show ?thesis
          using assms(2) \<open>find_index _ _ = None\<close> Some new ok
          by (auto simp: secretFor_def Let_def secrets_ok_def)
      next
        case False
        then have "0 < length (secrets st)" by linarith
        then have i: "?i < length (secrets st)"
          using least_index_less [of 0 "length (secrets st)" "\<lambda>i. cs_usedAt (secrets st ! i)"] by blast
        have "distinct (map cs_pk ((secrets st)[?i := ?e]))"
          using ok new by (simp add: map_update distinct_list_update)
        then show ?thesis
          using assms(2) \<open>find_index _ _ = None\<close> Some False ok i
          by (auto simp: secretFor_def Let_def secrets_ok_def list_all_length nth_list_update)
      qed
    qed
  qed
  then show "r = deriveShared S (kp_sk (store_self st)) pk" and "secrets_ok S st'"
    and "st' = st\<lparr>secrets := secrets st', store_clock := store_clock st'\<rparr>" by blast+
qed

lemma length_contactRecord: "contact_ok c \<Longrightarrow> length (contactRecord c) = 54 + length (con_name c)"
  by (simp add: contactRecord_def contact_ok_def Let_def)

lemma parseContact_record:
  assumes "contact_ok c" shows "parseContact 2 (contactRecord c @ rest) = Some (c, rest)"
proof -
  let ?n = "length (con_name c)"
  have n: "unat (of_nat ?n :: byte) = ?n" "?n \<le> 64" and pk: "length (con_pk c) = 32"
    using assms by (auto simp: contact_ok_def unat_of_nat)
  let ?tail = "con_name c @ writeUint32 (con_lastHeard c) @ writeUint16 (con_snr c) @ con_hops c # rest"
  have rec: "contactRecord c @ rest = con_pk c @ writeUint32 (con_timestamp c)
     @ con_type c # (if con_hasLocation c then 1 else 0) # writeUint32 (con_latitude c) @ writeUint32 (con_longitude c)
     @ of_nat ?n # ?tail"
    using n by (simp add: contactRecord_def Let_def min_def)
  show ?thesis
    unfolding rec
    by (simp add: parseContact_def Let_def pk n nth_append readUint32_skip readUint32_skip1 readUint16_skip contact_init_def not_less)
qed

lemma parseContacts_records:
  "list_all contact_ok cs \<Longrightarrow> n + length cs \<le> MAX_CONTACTS \<Longrightarrow> parseContacts 2 n (concat (map contactRecord cs)) = Some cs"
proof (induction cs arbitrary: n)
  case (Cons c cs)
  then show ?case
    using length_contactRecord [of c] parseContact_record [of c "concat (map contactRecord cs)"]
    by (subst parseContacts.simps) auto
qed (simp add: parseContacts.simps)

section \<open>Interfaces\<close>

text \<open>A cache in front of a derivation: what is fetched is what would be derived, whatever was fetched before.\<close>

fun fetch_all :: "('k \<Rightarrow> 'st \<Rightarrow> 's option \<times> 'st) \<Rightarrow> 'k list \<Rightarrow> 'st \<Rightarrow> 's option list \<times> 'st" where
  "fetch_all get [] st = ([], st)"
| "fetch_all get (k # ks) st =
     (let (r, st) = get k st; (rs, st) = fetch_all get ks st in (r # rs, st))"

locale keyring =
  fixes get :: "'k \<Rightarrow> 'st \<Rightarrow> 's option \<times> 'st"
    and derive :: "'st \<Rightarrow> 'k \<Rightarrow> 's option"
    and ok :: "'st \<Rightarrow> bool"
  assumes get_value: "ok st \<Longrightarrow> fst (get k st) = derive st k"
    and get_ok: "ok st \<Longrightarrow> ok (snd (get k st))"
    and get_frame: "ok st \<Longrightarrow> derive (snd (get k st)) = derive st"
begin

lemma fetch_all_derives:
  "ok st \<Longrightarrow> fst (fetch_all get ks st) = map (derive st) ks \<and> ok (snd (fetch_all get ks st))"
proof (induction ks arbitrary: st)
  case (Cons k ks)
  show ?case
    using Cons.IH [OF get_ok [OF Cons.prems, of k]] get_value [OF Cons.prems, of k] get_frame [OF Cons.prems, of k]
    by (simp add: case_prod_beta Let_def)
qed simp

end

text \<open>A book of signed announcements: an older one never displaces what a newer one left.\<close>

locale announcement_book =
  fixes announce :: "'a \<Rightarrow> 'st \<Rightarrow> Update \<times> 'st"
    and lookup :: "'st \<Rightarrow> 'k \<Rightarrow> 'c option"
    and key :: "'a \<Rightarrow> 'k" and time :: "'a \<Rightarrow> 't::linorder" and stamp :: "'c \<Rightarrow> 't"
    and valid :: "'a \<Rightarrow> bool" and ok :: "'st \<Rightarrow> bool"
    and used :: "'st \<Rightarrow> nat" and cap :: nat
  assumes stale: "ok st \<Longrightarrow> lookup st (key a) = Some c \<Longrightarrow> time a \<le> stamp c \<Longrightarrow> announce a st = (STALE, st)"
    and kept: "ok st \<Longrightarrow> used st < cap \<Longrightarrow> lookup st k \<noteq> None \<Longrightarrow> lookup (snd (announce a st)) k \<noteq> None"
    and newer: "ok st \<Longrightarrow> lookup st k = Some c \<Longrightarrow> lookup (snd (announce a st)) k = Some c' \<Longrightarrow> stamp c \<le> stamp c'"
    and entered: "ok st \<Longrightarrow> valid a \<Longrightarrow> \<exists>c. lookup (snd (announce a st)) (key a) = Some c \<and> time a \<le> stamp c"
    and announce_ok: "ok st \<Longrightarrow> ok (snd (announce a st)) \<and> used (snd (announce a st)) \<le> Suc (used st)"
begin

lemma kept_all:
  "ok st \<Longrightarrow> used st + length as \<le> cap \<Longrightarrow> lookup st k \<noteq> None \<Longrightarrow> n \<le> length as
     \<Longrightarrow> lookup (fold (\<lambda>a st. snd (announce a st)) (take n as) st) k \<noteq> None"
proof (induction as arbitrary: st n)
  case (Cons a as)
  show ?case
  proof (cases n)
    case (Suc m)
    have "used st < cap" using Cons.prems(2) by simp
    from kept [OF Cons.prems(1) this Cons.prems(3), of a] show ?thesis
      using Cons.IH [of "snd (announce a st)" m] announce_ok [OF Cons.prems(1), of a] Cons.prems(2,4) Suc by fastforce
  qed (use Cons.prems in simp)
qed simp

lemma newer_all:
  "ok st \<Longrightarrow> lookup st k = Some c \<Longrightarrow> \<forall>n \<le> length as. lookup (fold (\<lambda>a st. snd (announce a st)) (take n as) st) k \<noteq> None
     \<Longrightarrow> let st' = fold (\<lambda>a st. snd (announce a st)) as st in ok st' \<and> (\<exists>c'. lookup st' k = Some c' \<and> stamp c \<le> stamp c')"
proof (induction as arbitrary: st c)
  case (Cons a as)
  have stays: "lookup (fold (\<lambda>a st. snd (announce a st)) (take n as) (snd (announce a st))) k \<noteq> None" if "n \<le> length as" for n
    using spec [OF Cons.prems(3), of "Suc n"] that by simp
  then obtain c' where c': "lookup (snd (announce a st)) k = Some c'" using stays [of 0] by auto
  have "stamp c \<le> stamp c'" using newer [OF Cons.prems(1,2) c'] .
  then show ?case
    using Cons.IH [OF _ c'] announce_ok [OF Cons.prems(1), of a] stays by (fastforce simp: Let_def intro: order_trans)
qed simp

lemma no_replay:
  assumes "ok st" and "valid a" and "key b = key a" and "time b \<le> time a"
    and "used st + length as < cap
      \<or> (\<forall>n \<le> length as. lookup (fold (\<lambda>a st. snd (announce a st)) (take n as) (snd (announce a st))) (key a) \<noteq> None)"
  defines "st' \<equiv> fold (\<lambda>a st. snd (announce a st)) as (snd (announce a st))"
  shows "announce b st' = (STALE, st')"
proof -
  obtain c where c: "lookup (snd (announce a st)) (key a) = Some c" "time a \<le> stamp c"
    using entered [OF assms(1,2)] by blast
  note ok = announce_ok [OF assms(1), of a]
  have "\<forall>n \<le> length as. lookup (fold (\<lambda>a st. snd (announce a st)) (take n as) (snd (announce a st))) (key a) \<noteq> None"
    using assms(5) kept_all [of "snd (announce a st)" as "key a"] ok c(1) by fastforce
  from newer_all [OF _ c(1) this] ok obtain c' where "ok st'" "lookup st' (key b) = Some c'" "stamp c \<le> stamp c'"
    using assms(3) by (auto simp: Let_def st'_def)
  then show ?thesis using stale c(2) assms(4) by (meson order_trans)
qed

end

interpretation store_secrets: keyring "secretFor S" "\<lambda>st. deriveShared S (kp_sk (store_self st))" "secrets_ok S"
proof
  fix st k assume ok: "secrets_ok S st"
  obtain r st' where g: "secretFor S k st = (r, st')" by fastforce
  note spec = secretFor_spec [OF ok g]
  show "fst (secretFor S k st) = deriveShared S (kp_sk (store_self st)) k" using g spec(1) by simp
  show "secrets_ok S (snd (secretFor S k st))" using g spec(2) by simp
  show "deriveShared S (kp_sk (store_self (snd (secretFor S k st)))) = deriveShared S (kp_sk (store_self st))"
    using g spec(3) by (metis Store.simps(1) Store.surjective Store.update_convs(6,7) snd_conv)
qed

lemma remember_invalid: "length (adv_publicKey a) \<noteq> PACKET_PUBLIC_KEY_SIZE \<Longrightarrow> remember a st = (REJECTED, st)"
  by (simp add: remember_def)

lemma remember_cases:
  assumes "contacts_ok st"
  obtains (rejected) "length (adv_publicKey a) \<noteq> PACKET_PUBLIC_KEY_SIZE" "remember a st = (REJECTED, st)"
  | (stale) c where "contact_map st (adv_publicKey a) = Some c" "adv_timestamp a \<le> con_timestamp c"
      "remember a st = (STALE, st)"
  | (updated) c st' where "contact_map st (adv_publicKey a) = Some c" "con_timestamp c < adv_timestamp a"
      "remember a st = (UPDATED, st')" "contacts_ok st'" "length (contacts st') = length (contacts st)"
      "contact_map st' = (contact_map st)(adv_publicKey a \<mapsto> contact_of c a)"
  | (added) st' where "contact_map st (adv_publicKey a) = None" "length (contacts st) < MAX_CONTACTS"
      "remember a st = (ADDED, st')" "contacts_ok st'" "length (contacts st') = length (contacts st) + 1"
      "contact_map st' = (contact_map st)(adv_publicKey a \<mapsto> contact_of contact_init a)"
  | (evicted) st' old where "contact_map st (adv_publicKey a) = None" "length (contacts st) = MAX_CONTACTS"
      "remember a st = (ADDED, st')" "contacts_ok st'" "length (contacts st') = length (contacts st)"
      "old \<in> set (contacts st)" "\<forall>c \<in> set (contacts st). con_timestamp old \<le> con_timestamp c"
      "contact_map st' = (contact_map st)(con_pk old := None, adv_publicKey a \<mapsto> contact_of contact_init a)"
proof -
  have cap: "length (contacts st) < MAX_CONTACTS \<or> length (contacts st) = MAX_CONTACTS"
    using assms by (auto simp: contacts_ok_def)
  show thesis
  proof (cases "length (adv_publicKey a) = PACKET_PUBLIC_KEY_SIZE")
    case False
    then show thesis using remember_invalid rejected by blast
  next
    case True
    show thesis
    proof (cases "contact_map st (adv_publicKey a)")
      case None
      then show thesis using remember_unknown [OF assms None True] cap added evicted by metis
    next
      case (Some c)
      then show thesis using remember_known [OF assms Some] stale updated by (metis not_le)
    qed
  qed
qed

interpretation store_book: announcement_book remember contact_map adv_publicKey adv_timestamp con_timestamp
  "\<lambda>a. length (adv_publicKey a) = PACKET_PUBLIC_KEY_SIZE" contacts_ok "\<lambda>st. length (contacts st)" MAX_CONTACTS
proof
  fix st :: Store assume ok: "contacts_ok st"
  show "contact_map st (adv_publicKey a) = Some c \<Longrightarrow> adv_timestamp a \<le> con_timestamp c \<Longrightarrow> remember a st = (STALE, st)" for a c
    using remember_known(1) [OF ok] .
  show "length (contacts st) < MAX_CONTACTS \<Longrightarrow> contact_map st k \<noteq> None \<Longrightarrow> contact_map (snd (remember a st)) k \<noteq> None" for k a
    by (rule remember_cases [OF ok, of a]) auto
  show "contact_map st k = Some c \<Longrightarrow> contact_map (snd (remember a st)) k = Some c' \<Longrightarrow> con_timestamp c \<le> con_timestamp c'" for k c c' a
    by (rule remember_cases [OF ok, of a]) (auto split: if_splits)
  show "length (adv_publicKey a) = PACKET_PUBLIC_KEY_SIZE \<Longrightarrow>
      \<exists>c. contact_map (snd (remember a st)) (adv_publicKey a) = Some c \<and> adv_timestamp a \<le> con_timestamp c" for a
    by (rule remember_cases [OF ok, of a]) auto
  show "contacts_ok (snd (remember a st)) \<and> length (contacts (snd (remember a st))) \<le> Suc (length (contacts st))" for a
    by (rule remember_cases [OF ok, of a]) (use ok in auto)
qed

section \<open>Properties\<close>

lemma store_new_ok: "contacts_ok store_new" "secrets_ok S store_new"
  by (auto simp: contacts_ok_def secrets_ok_def store_new_def index_hashes_def map_replicate_const)

lemma noteHeard_ok:
  assumes "contacts_ok st"
  shows "contacts_ok (noteHeard pk at snr hops st)"
    and "contact_map (noteHeard pk at snr hops st) =
      (case contact_map st pk of None \<Rightarrow> contact_map st
       | Some c \<Rightarrow> (contact_map st)(pk \<mapsto> c\<lparr>con_lastHeard := at, con_snr := snr, con_hops := hops\<rparr>))"
proof -
  let ?f = "\<lambda>c. c\<lparr>con_lastHeard := at, con_snr := snr, con_hops := hops\<rparr>"
  have "contacts_ok (noteHeard pk at snr hops st) \<and> contact_map (noteHeard pk at snr hops st) =
      (case contact_map st pk of None \<Rightarrow> contact_map st | Some c \<Rightarrow> (contact_map st)(pk \<mapsto> ?f c))"
  proof (cases "find st pk")
    case None
    then show ?thesis using assms contact_map_find [OF assms, of pk] by (simp add: noteHeard_def)
  next
    case (Some i)
    then have i: "i < length (contacts st)" "con_pk (contacts st ! i) = pk" using find_Some [OF assms] by auto
    then have "length (con_name (contacts st ! i)) \<le> MAX_CONTACT_NAME"
      using assms by (auto simp: contacts_ok_def contact_ok_def list_all_length)
    then show ?thesis
      using contacts_ok_update [OF assms i(1), of ?f] contact_map_find [OF assms, of pk] Some i(2)
      by (simp add: noteHeard_def)
  qed
  then show "contacts_ok (noteHeard pk at snr hops st)"
    and "contact_map (noteHeard pk at snr hops st) =
      (case contact_map st pk of None \<Rightarrow> contact_map st | Some c \<Rightarrow> (contact_map st)(pk \<mapsto> ?f c))" by blast+
qed

lemma secretFor_contacts:
  "secretFor S pk st = (r, st') \<Longrightarrow> contacts st' = contacts st \<and> buckets st' = buckets st
     \<and> store_self st' = store_self st \<and> store_selfHash st' = store_selfHash st"
  by (auto simp: secretFor_def Let_def split: option.splits if_splits)

text \<open>What a contact file can bring in.\<close>

lemma parseContact_ok: "parseContact version view = Some (c, rest) \<Longrightarrow> contact_ok c"
  by (auto simp: parseContact_def Let_def contact_ok_def split: if_splits)

lemma parseContacts_ok:
  "parseContacts version n view = Some cs \<Longrightarrow> n \<le> MAX_CONTACTS \<Longrightarrow> n + length cs \<le> MAX_CONTACTS \<and> list_all contact_ok cs"
proof (induction version n view arbitrary: cs rule: parseContacts.induct)
  case (1 version n view)
  show ?case
  proof (cases "view = []")
    case False
    then have g: "\<not> length view < kContactFixedSize" "\<not> n \<ge> MAX_CONTACTS"
      using "1.prems"(1) by (auto simp: parseContacts.simps [of version n view] split: if_splits)
    then obtain c rest cs' where c: "parseContact version view = Some (c, rest)" "parseContacts version (n + 1) rest = Some cs'" "cs = c # cs'"
      using "1.prems"(1) False by (auto simp: parseContacts.simps [of version n view] split: option.splits)
    then show ?thesis using "1.IH" [OF False g c(1) refl c(2)] g parseContact_ok [OF c(1)] by simp
  qed (use "1.prems" in \<open>simp add: parseContacts.simps\<close>)
qed

lemma loadContacts_ok:
  assumes "loadContacts file fs st = (ok, st')" and "length (buckets st) = 256"
  shows "if ok then length (contacts st') \<le> MAX_CONTACTS \<and> list_all contact_ok (contacts st')
      \<and> buckets st' = index_hashes (map contact_hash (contacts st')) else st' = st"
  using assms parseContacts_ok [of _ 0] by (auto simp: loadContacts_def Let_def reindex_eq split: option.splits if_splits)

text \<open>
  C24. The index is exact: from the empty store on, every advert, every note of what was heard and every secret fetched
  keeps at most 512 contacts with distinct keys and a bucket index with exactly their positions. So looking a key up
  finds its contact and nothing else, and the candidates for a one-byte hash are all the contacts that have it, each
  once. A contact file that loads gives at most 512 well-formed contacts and the exact index; whether their keys are
  distinct is up to the file (\<^verbatim>\<open>loadContacts\<close> does not check it), one that does not load changes nothing.
\<close>

theorem contact_index_exact:
  assumes "contacts_ok st"
  shows "contacts_ok (snd (remember a st)) \<and> contacts_ok (noteHeard pk at snr hops st)
    \<and> contacts_ok (snd (secretFor S pk st))
    \<and> (\<forall>k i. find st k = Some i \<longleftrightarrow> i < length (contacts st) \<and> con_pk (contacts st ! i) = k)
    \<and> (\<forall>h. set (findByHash st h) = {i. i < length (contacts st) \<and> contact_hash (contacts st ! i) = h}
           \<and> distinct (findByHash st h))
    \<and> (let (ok, st') = loadContacts file fs st in
       if ok then length (contacts st') \<le> MAX_CONTACTS \<and> buckets st' = index_hashes (map contact_hash (contacts st'))
         \<and> (contacts_ok st' \<longleftrightarrow> distinct (map con_pk (contacts st'))) else st' = st)"
proof -
  have "contacts_ok (snd (secretFor S pk st))"
    using assms secretFor_contacts [of S pk st "fst (secretFor S pk st)" "snd (secretFor S pk st)"]
    by (simp add: contacts_ok_def)
  moreover have "set (findByHash st h) = {i. i < length (contacts st) \<and> contact_hash (contacts st ! i) = h}
      \<and> distinct (findByHash st h)" for h
    using assms by (auto simp: findByHash_def contacts_ok_def index_hashes_nth word_unat_eq_iff)
  moreover have "length (buckets st) = 256" using assms by (simp add: contacts_ok_def index_hashes_def)
  then have "let (ok, st') = loadContacts file fs st in
       if ok then length (contacts st') \<le> MAX_CONTACTS \<and> buckets st' = index_hashes (map contact_hash (contacts st'))
         \<and> (contacts_ok st' \<longleftrightarrow> distinct (map con_pk (contacts st'))) else st' = st"
    using loadContacts_ok [of "file" fs st] by (cases "loadContacts file fs st") (auto simp: contacts_ok_def split: if_splits)
  ultimately show ?thesis
    using store_book.announce_ok [OF assms] noteHeard_ok(1) [OF assms] find_Some [OF assms] by blast
qed

theorem contact_index_exact_witness:
  "contacts_ok (snd (remember \<lparr>adv_publicKey = replicate 32 9, adv_timestamp = 5, adv_signature = [], adv_appdata = []\<rparr> store_new))"
  using contact_index_exact [OF store_new_ok(1)] by blast

text \<open>
  C22. What an advert does, on every branch, read off the map from keys to contacts: a malformed key is rejected and
  an advert no newer than the stored one is stale, both without any change; a newer one replaces exactly its own contact;
  an unknown key is added, and when the store is full that costs exactly one contact, one that advertised longest ago.
  The contact entered carries the key and time of the advert.
\<close>

theorem remember_refines_map:
  assumes "contacts_ok st" and "remember a st = (u, st')"
  shows "case u of
      REJECTED \<Rightarrow> length (adv_publicKey a) \<noteq> PACKET_PUBLIC_KEY_SIZE \<and> st' = st
    | STALE \<Rightarrow> (\<exists>c. contact_map st (adv_publicKey a) = Some c \<and> adv_timestamp a \<le> con_timestamp c) \<and> st' = st
    | UPDATED \<Rightarrow> (\<exists>c. contact_map st (adv_publicKey a) = Some c \<and> con_timestamp c < adv_timestamp a
        \<and> contact_map st' = (contact_map st)(adv_publicKey a \<mapsto>
            applyAppdata (c\<lparr>con_pk := adv_publicKey a, con_timestamp := adv_timestamp a\<rparr>) (adv_appdata a)))
    | ADDED \<Rightarrow> contact_map st (adv_publicKey a) = None
        \<and> (let new = applyAppdata (contact_init\<lparr>con_pk := adv_publicKey a, con_timestamp := adv_timestamp a\<rparr>) (adv_appdata a) in
           if length (contacts st) < MAX_CONTACTS
           then contact_map st' = (contact_map st)(adv_publicKey a \<mapsto> new)
           else \<exists>old \<in> set (contacts st). (\<forall>c \<in> set (contacts st). con_timestamp old \<le> con_timestamp c)
                \<and> contact_map st' = (contact_map st)(con_pk old := None, adv_publicKey a \<mapsto> new))"
  by (rule remember_cases [OF assms(1), of a]) (use assms(2) in \<open>auto simp: contact_of_def Let_def\<close>)

theorem remember_refines_map_witness:
  "contact_map (snd (remember \<lparr>adv_publicKey = replicate 32 9, adv_timestamp = 5, adv_signature = [], adv_appdata = []\<rparr> store_new))
     (replicate 32 9) \<noteq> None"
proof -
  let ?a = "\<lparr>adv_publicKey = replicate 32 9, adv_timestamp = 5, adv_signature = [], adv_appdata = []\<rparr>"
  have f: "find store_new (replicate 32 9) = None" by (simp add: find_def store_new_def)
  then have u: "fst (remember ?a store_new) = ADDED" by (simp add: remember_def Let_def split: prod.split)
  have "length (contacts store_new) < MAX_CONTACTS" by (simp add: store_new_def)
  with remember_refines_map [OF store_new_ok(1) prod.collapse [symmetric], of ?a] u
  show ?thesis by (simp add: Let_def)
qed

text \<open>
  C8. Replays do not roll the records back: once an advert was taken in, whatever adverts follow, an advert for the same key
  that is not newer is stale and changes nothing, as long as the contact has been in the store all the time. It is while the
  store does not overflow; one that was displaced from a full store is forgotten, and an old advert enters it again.
\<close>

theorem adverts_do_not_replay:
  assumes "contacts_ok st" and "length (adv_publicKey a) = PACKET_PUBLIC_KEY_SIZE"
    and "adv_publicKey b = adv_publicKey a" and "adv_timestamp b \<le> adv_timestamp a"
    and "length (contacts st) + length as < MAX_CONTACTS
      \<or> (\<forall>n \<le> length as. contact_map (fold (\<lambda>a st. snd (remember a st)) (take n as) (snd (remember a st))) (adv_publicKey a) \<noteq> None)"
    and "st' = fold (\<lambda>a st. snd (remember a st)) as (snd (remember a st))"
  shows "remember b st' = (STALE, st')"
  using store_book.no_replay [OF assms(1-5)] assms(6) by simp

theorem adverts_do_not_replay_witness:
  "fst (remember \<lparr>adv_publicKey = replicate 32 9, adv_timestamp = 5, adv_signature = [], adv_appdata = []\<rparr>
     (snd (remember \<lparr>adv_publicKey = replicate 32 9, adv_timestamp = 6, adv_signature = [], adv_appdata = []\<rparr> store_new))) = STALE"
  using adverts_do_not_replay [OF store_new_ok(1), of
      "\<lparr>adv_publicKey = replicate 32 9, adv_timestamp = 6, adv_signature = [], adv_appdata = []\<rparr>"
      "\<lparr>adv_publicKey = replicate 32 9, adv_timestamp = 5, adv_signature = [], adv_appdata = []\<rparr>" "[]"]
  by (simp add: store_new_def)

text \<open>
  The secret cache is invisible: any sequence of fetches, with whatever hits and evictions of the
  256 slots on the way, returns for each key exactly what the key exchange derives for it, degenerate keys included.
\<close>

theorem secret_cache_transparent:
  assumes "secrets_ok S st"
  shows "fst (fetch_all (secretFor S) pks st) = map (deriveShared S (kp_sk (store_self st))) pks
    \<and> length (secrets (snd (fetch_all (secretFor S) pks st))) \<le> MAX_SECRET_CACHE"
  using store_secrets.fetch_all_derives [OF assms, of pks] by (auto simp: secrets_ok_def)

theorem secret_cache_transparent_witness:
  "fst (fetch_all (secretFor test_sodium) [replicate 32 1, replicate 32 1] store_new)
     = [deriveShared test_sodium (replicate 64 0) (replicate 32 1), deriveShared test_sodium (replicate 64 0) (replicate 32 1)]"
  using secret_cache_transparent [OF store_new_ok(2), of test_sodium "[replicate 32 1, replicate 32 1]"]
  by (simp add: store_new_def)

text \<open>
  Contacts survive a restart: what \<^verbatim>\<open>flush\<close> leaves on disk loads back as the same contacts
  with a rebuilt index, and a flush that fails at any point leaves the previous file as it was.
\<close>

theorem contacts_file_roundtrip:
  assumes "contacts_ok st" and "flush written renamed st fs = (ok, fs')"
  shows "(ok \<longrightarrow> (\<forall>st0. length (buckets st0) = 256 \<longrightarrow>
             loadContacts (store_dir st @ ''/contacts.dat'') fs' st0
               = (True, st0\<lparr>contacts := contacts st, buckets := buckets st\<rparr>)))
    \<and> (\<not> ok \<longrightarrow> fs' (store_dir st @ ''/contacts.dat'') = fs (store_dir st @ ''/contacts.dat''))"
proof -
  let ?t = "store_dir st @ ''/contacts.dat''"
  have p: "parseContacts 2 0 (concat (map contactRecord (contacts st))) = Some (contacts st)"
    using assms(1) by (intro parseContacts_records) (auto simp: contacts_ok_def)
  have b: "buckets st = index_hashes (map contact_hash (contacts st))" using assms(1) by (simp add: contacts_ok_def)
  have "ok \<Longrightarrow> kf_regular (the (fs' ?t)) \<and> fs' ?t \<noteq> None
      \<and> kf_content (the (fs' ?t)) = 2 # concat (map contactRecord (contacts st))"
    using assms(2) by (auto simp: flush_def writeContacts_def Let_def split: if_splits)
  moreover have "\<not> ok \<Longrightarrow> fs' ?t = fs ?t"
    using assms(2) by (auto simp: flush_def writeContacts_def Let_def split: if_splits)
  ultimately show ?thesis using p b by (auto simp: loadContacts_def reindex_eq)
qed

theorem contacts_file_roundtrip_witness:
  "let st = store_new\<lparr>store_dir := ''d''\<rparr> in
   fst (loadContacts ''d/contacts.dat'' (snd (flush True True st (\<lambda>_. None))) store_new)"
proof -
  have ok: "contacts_ok (store_new\<lparr>store_dir := ''d''\<rparr>)" using store_new_ok(1) by (simp add: contacts_ok_def)
  have f: "flush True True (store_new\<lparr>store_dir := ''d''\<rparr>) (\<lambda>_. None)
      = (True, snd (flush True True (store_new\<lparr>store_dir := ''d''\<rparr>) (\<lambda>_. None)))"
    by (simp add: flush_def writeContacts_def)
  have "length (buckets store_new) = 256" by (simp add: store_new_def)
  then show ?thesis using contacts_file_roundtrip [OF ok f] by (simp add: Let_def)
qed

text \<open>
  The neighbour list holds only contacts heard directly, most recently heard first, at most
  as many as asked for, and leaves none out that was heard more recently than one it names.
\<close>

theorem neighbours_most_recent:
  "length (neighbours n st) \<le> n
   \<and> sorted (map (\<lambda>c. - uint (con_lastHeard c)) (neighbours n st))
   \<and> (\<exists>rest. mset (neighbours n st @ rest) = mset (filter isNeighbour (contacts st))
        \<and> (rest = [] \<or> length (neighbours n st) = n)
        \<and> (\<forall>c \<in> set rest. \<forall>d \<in> set (neighbours n st). con_lastHeard c \<le> con_lastHeard d))"
proof (cases "n = 0")
  case True
  then show ?thesis
    by (auto simp: neighbours_def intro: exI [of _ "filter isNeighbour (contacts st)"])
next
  case False
  let ?key = "\<lambda>c. - uint (con_lastHeard c)"
  let ?all = "sort_key ?key (filter isNeighbour (contacts st))"
  let ?rest = "drop n ?all"
  have n: "neighbours n st = take n ?all" using False by (simp add: neighbours_def)
  have "sorted (map ?key (take n ?all @ ?rest))" by simp
  then have s: "sorted (map ?key (take n ?all))" "\<forall>d \<in> set (take n ?all). \<forall>c \<in> set ?rest. ?key d \<le> ?key c"
    by (auto simp only: map_append sorted_append set_map ball_simps image_iff)
  have "mset (take n ?all @ ?rest) = mset (filter isNeighbour (contacts st))" by simp
  moreover have "?rest = [] \<or> length (take n ?all) = n" by auto
  ultimately show ?thesis using s unfolding n by (intro conjI exI [of _ ?rest]) (auto simp: word_le_def)
qed

theorem neighbours_most_recent_witness:
  "let st = store_new\<lparr>contacts := [contact_init\<lparr>con_lastHeard := 3\<rparr>, contact_init\<lparr>con_lastHeard := 8\<rparr>]\<rparr> in
   length (neighbours 1 st) \<le> 1 \<and> neighbours 1 st = [contact_init\<lparr>con_lastHeard := 8\<rparr>]"
  unfolding Let_def
  by (rule conjI [OF neighbours_most_recent [THEN conjunct1]])
    (simp add: neighbours_def isNeighbour_def contact_init_def)

end
