(* ===== verification/Float_Round.thy ===== *)
theory Float_Round
  imports Complex_Main "HOL-Library.Log_Nat"
begin

text \<open>
  The floating-point arithmetic of the radio code. A \<^verbatim>\<open>float\<close> or \<^verbatim>\<open>double\<close> is the rational number it stands for,
  and every operation on it is the exact operation followed by \<open>fround\<close>, IEEE rounding to nearest with ties to even at the
  precision of the type: 24 bits for \<^verbatim>\<open>float\<close>, 53 for \<^verbatim>\<open>double\<close>. The numbers the code works with are far inside the
  range of both, so exponents are not bounded.
\<close>

section \<open>Rounding\<close>

text \<open>The exponent of a positive number.\<close>

definition ilog2 :: "rat \<Rightarrow> int" where
  "ilog2 x = (if 1 \<le> x then bitlen \<lfloor>x\<rfloor> - 1 else - bitlen (\<lceil>1 / x\<rceil> - 1))"

definition round_even :: "rat \<Rightarrow> int" where
  "round_even n = (let f = \<lfloor>n\<rfloor>; r = n - of_int f in if r < 1 / 2 \<or> (r = 1 / 2 \<and> even f) then f else f + 1)"

definition fround :: "nat \<Rightarrow> rat \<Rightarrow> rat" where
  "fround p x = (if x = 0 then 0 else let u = 2 powi (ilog2 \<bar>x\<bar> - int p + 1) in of_int (round_even (x / u)) * u)"

abbreviation float32 :: "rat \<Rightarrow> rat" where "float32 \<equiv> fround 24"
abbreviation float64 :: "rat \<Rightarrow> rat" where "float64 \<equiv> fround 53"

text \<open>Conversion to an integer type drops the fraction; \<^verbatim>\<open>lround\<close> rounds halves away from zero.\<close>

definition ftrunc :: "rat \<Rightarrow> int" where
  "ftrunc x = (if x < 0 then \<lceil>x\<rceil> else \<lfloor>x\<rfloor>)"

definition lround :: "rat \<Rightarrow> int" where
  "lround x = (if x < 0 then - \<lfloor>1 / 2 - x\<rfloor> else \<lfloor>x + 1 / 2\<rfloor>)"

section \<open>Its error\<close>

lemma bitlen_at_least: "0 < n \<Longrightarrow> 0 < bitlen n"
  using bitlen_bounds [of n] bitlen_nonneg [of n] by (cases "bitlen n = 0") auto

lemma bitlen_floor:
  assumes "1 \<le> (x :: rat)"
  shows "2 powi (bitlen \<lfloor>x\<rfloor> - 1) \<le> x" and "x < 2 powi bitlen \<lfloor>x\<rfloor>"
proof -
  have p: "0 < \<lfloor>x\<rfloor>" using assms by linarith
  have b: "2 ^ nat (bitlen \<lfloor>x\<rfloor> - 1) \<le> \<lfloor>x\<rfloor>" "\<lfloor>x\<rfloor> < 2 ^ nat (bitlen \<lfloor>x\<rfloor>)"
    using bitlen_bounds [OF p] by auto
  have n: "0 < bitlen \<lfloor>x\<rfloor>" using bitlen_at_least [OF p] .
  have "(2 :: rat) ^ nat (bitlen \<lfloor>x\<rfloor> - 1) \<le> of_int \<lfloor>x\<rfloor>" using b(1) by (metis of_int_le_iff of_int_numeral of_int_power)
  then have "(2 :: rat) ^ nat (bitlen \<lfloor>x\<rfloor> - 1) \<le> x" by (rule order_trans) (rule of_int_floor_le)
  then show "2 powi (bitlen \<lfloor>x\<rfloor> - 1) \<le> x" using n by (simp add: power_int_def)
  have "of_int (\<lfloor>x\<rfloor> + 1) \<le> (2 :: rat) ^ nat (bitlen \<lfloor>x\<rfloor>)"
    using b(2) by (metis of_int_le_iff of_int_numeral of_int_power zless_imp_add1_zle)
  moreover have "x < of_int (\<lfloor>x\<rfloor> + 1)" by linarith
  ultimately show "x < 2 powi bitlen \<lfloor>x\<rfloor>" using n unfolding power_int_def by simp
qed

lemma ilog2_bounds:
  assumes "0 < x"
  shows "2 powi ilog2 x \<le> x" and "x < 2 powi (ilog2 x + 1)"
proof -
  have "2 powi ilog2 x \<le> x \<and> x < 2 powi (ilog2 x + 1)"
  proof (cases "1 \<le> x")
    case True
    then show ?thesis using bitlen_floor [OF True] by (simp add: ilog2_def)
  next
    case False
    define k where "k = bitlen (\<lceil>1 / x\<rceil> - 1)"
    have "1 < 1 / x" using False assms by simp
    then have p: "0 < \<lceil>1 / x\<rceil> - 1" by linarith
    have b: "2 ^ nat (k - 1) \<le> \<lceil>1 / x\<rceil> - 1" "\<lceil>1 / x\<rceil> - 1 < 2 ^ nat k" "0 < k"
      using bitlen_bounds [OF p] bitlen_at_least [OF p] by (auto simp: k_def)
    have "1 / x \<le> of_int \<lceil>1 / x\<rceil>" by simp
    also have "\<lceil>1 / x\<rceil> \<le> 2 ^ nat k" using b(2) by linarith
    then have "of_int \<lceil>1 / x\<rceil> \<le> (2 :: rat) ^ nat k" by (metis of_int_le_iff of_int_numeral of_int_power)
    finally have "1 / 2 ^ nat k \<le> x" using assms by (simp add: field_simps)
    moreover have "of_int (2 ^ nat (k - 1)) < 1 / x" using b(1) less_ceiling_iff [of "2 ^ nat (k - 1)" "1 / x"] by linarith
    then have "x < 1 / 2 ^ nat (k - 1)" using assms by (simp add: field_simps)
    moreover have "(2 :: rat) powi (- k) = 1 / 2 ^ nat k" "(2 :: rat) powi (- (k - 1)) = 1 / 2 ^ nat (k - 1)"
      using b(3) unfolding power_int_minus by (simp_all add: power_int_def inverse_eq_divide)
    ultimately show ?thesis using False by (simp add: ilog2_def k_def [symmetric] algebra_simps)
  qed
  then show "2 powi ilog2 x \<le> x" "x < 2 powi (ilog2 x + 1)" by auto
qed

lemma round_even_error: "\<bar>of_int (round_even n) - n\<bar> \<le> 1 / 2"
proof -
  have "of_int \<lfloor>n\<rfloor> \<le> n" "n < of_int \<lfloor>n\<rfloor> + 1" by linarith+
  then show ?thesis unfolding round_even_def Let_def by (cases "even \<lfloor>n\<rfloor>") (simp_all add: abs_if; linarith)+
qed

lemma powi_mono: "i \<le> j \<Longrightarrow> (2 :: rat) powi i \<le> 2 powi j"
  by (rule power_int_increasing) auto

lemma ilog2_less:
  assumes "0 < x" "x < 2 powi k"
  shows "ilog2 x < k"
proof (rule ccontr)
  assume "\<not> ?thesis"
  then have "2 powi k \<le> x" using ilog2_bounds(1) [OF assms(1)] powi_mono [of k "ilog2 x"] by linarith
  then show False using assms(2) by simp
qed

lemma ilog2_ge:
  assumes "2 powi k \<le> x"
  shows "k \<le> ilog2 x"
proof (rule ccontr)
  assume "\<not> ?thesis"
  then have "(2 :: rat) powi (ilog2 x + 1) \<le> 2 powi k" by (intro powi_mono) simp
  moreover have "0 < x" using assms zero_less_power_int [of "2 :: rat" k] by linarith
  ultimately show False using ilog2_bounds(2) assms by (metis leD order_trans)
qed

lemma fround_error:
  assumes "\<bar>x\<bar> < 2 powi k"
  shows "\<bar>fround p x - x\<bar> \<le> 2 powi (k - 1 - int p)"
proof (cases "x = 0")
  case False
  define u :: rat where "u = 2 powi (ilog2 \<bar>x\<bar> - int p + 1)"
  have u: "0 < u" by (simp add: u_def)
  have "fround p x - x = (of_int (round_even (x / u)) - x / u) * u"
    using False u by (simp add: fround_def Let_def u_def [symmetric] left_diff_distrib)
  then have "\<bar>fround p x - x\<bar> \<le> 1 / 2 * u"
    using round_even_error [of "x / u"] u by (simp add: abs_mult mult_right_mono)
  also have "1 / 2 * u = 2 powi (ilog2 \<bar>x\<bar> - int p)" by (simp add: u_def power_int_add power_int_diff)
  also have "\<dots> \<le> 2 powi (k - 1 - int p)" using ilog2_less [of "\<bar>x\<bar>" k] assms False by (intro powi_mono) auto
  finally show ?thesis .
qed (simp add: fround_def)

text \<open>A rounded number is a whole multiple of the unit in its last place.\<close>

lemma fround_whole:
  assumes "2 powi k \<le> x"
  shows "\<exists>m. fround p x * 2 powi (int p - 1 - k) = of_int m"
proof -
  have x: "0 < x" using assms zero_less_power_int [of "2 :: rat" k] by linarith
  obtain n where n: "ilog2 x = k + int n" using ilog2_ge [OF assms] zle_iff_zadd by auto
  have "fround p x * 2 powi (int p - 1 - k)
      = of_int (round_even (x / 2 powi (ilog2 x - int p + 1))) * (2 powi (ilog2 x - int p + 1) * 2 powi (int p - 1 - k))"
    using x by (simp add: fround_def Let_def)
  also have "(2 :: rat) powi (ilog2 x - int p + 1) * 2 powi (int p - 1 - k) = 2 powi int n"
    by (simp add: power_int_add [symmetric] n)
  also have "\<dots> = of_int (2 ^ n)" by (simp add: power_int_def)
  finally show ?thesis by (metis of_int_mult)
qed

lemma scaled_less: "\<bar>x\<bar> < 2 powi (int p + j) \<Longrightarrow> \<bar>x / 2 powi j\<bar> < (2 :: rat) ^ p"
  by (simp add: power_int_add abs_divide divide_less_eq)

text \<open>A number whose mantissa fits is not changed, and a rounded number is one.\<close>

definition fits :: "nat \<Rightarrow> rat \<Rightarrow> bool" where
  "fits p x \<longleftrightarrow> (\<exists>m j. x = of_int m * 2 powi j \<and> \<bar>m\<bar> < 2 ^ p)"

lemma round_even_whole [simp]: "round_even (of_int n) = n"
  by (simp add: round_even_def)

lemma fround_exact:
  assumes "fits p x"
  shows "fround p x = x"
proof (cases "x = 0")
  case False
  obtain m j where m: "x = of_int m * 2 powi j" "\<bar>m\<bar> < 2 ^ p" using assms by (auto simp: fits_def)
  define e where "e = ilog2 \<bar>x\<bar>"
  have "of_int \<bar>m\<bar> < (2 :: rat) ^ p" using m(2) by (metis of_int_less_iff of_int_numeral of_int_power)
  then have "of_int \<bar>m\<bar> * 2 powi j < (2 :: rat) ^ p * 2 powi j" by (rule mult_strict_right_mono) simp
  moreover have "\<bar>x\<bar> = of_int \<bar>m\<bar> * 2 powi j" using m(1) by (simp add: abs_mult)
  ultimately have "\<bar>x\<bar> < 2 powi (int p + j)" by (simp add: power_int_add)
  then have "e < int p + j" using ilog2_less [of "\<bar>x\<bar>"] False by (simp add: e_def)
  then obtain i where i: "j - (e - int p + 1) = int i" using nonneg_int_cases [of "j - (e - int p + 1)"] by auto
  have "x / 2 powi (e - int p + 1) = of_int m * 2 powi (j - (e - int p + 1))" by (simp add: m(1) power_int_diff)
  also have "\<dots> = of_int (m * 2 ^ i)" unfolding i by simp
  finally have "x / 2 powi (e - int p + 1) = of_int (m * 2 ^ i)" .
  then have "fround p x = x / 2 powi (e - int p + 1) * 2 powi (e - int p + 1)"
    using False by (simp add: fround_def Let_def e_def [symmetric] del: of_int_mult)
  then show ?thesis by simp
qed (simp add: fround_def)

lemma fround_fits:
  assumes "0 < p"
  shows "fits p (fround p x)"
proof (cases "x = 0")
  case True
  then show ?thesis unfolding fits_def by (intro exI [of _ 0]) (simp add: fround_def)
next
  case False
  define e where "e = ilog2 \<bar>x\<bar>"
  define j where "j = e - int p + 1"
  define m where "m = round_even (x / 2 powi j)"
  have r: "fround p x = of_int m * 2 powi j" using False by (simp add: fround_def Let_def m_def j_def e_def)
  have "\<bar>x\<bar> < 2 powi (int p + j)" using ilog2_bounds(2) [of "\<bar>x\<bar>"] False by (simp add: j_def e_def)
  then have "\<bar>x / 2 powi j\<bar> < 2 ^ p" by (rule scaled_less)
  then have "\<bar>of_int m\<bar> < (2 :: rat) ^ p + 1" using round_even_error [of "x / 2 powi j"] unfolding m_def by linarith
  then have "of_int \<bar>m\<bar> < (of_int (2 ^ p + 1) :: rat)" by simp
  then have le: "\<bar>m\<bar> \<le> 2 ^ p" unfolding of_int_less_iff by linarith
  show ?thesis
  proof (cases "\<bar>m\<bar> < 2 ^ p")
    case True
    then show ?thesis using r unfolding fits_def by blast
  next
    case False
    obtain q where q: "p = Suc q" using assms by (cases p) auto
    define t where "t = sgn m * 2 ^ q"
    have t: "m = t * 2" using False le q by (auto simp: t_def sgn_if abs_if split: if_splits)
    have "of_int m * (2 :: rat) powi j = of_int t * 2 powi (j + 1)" by (simp add: t power_int_add)
    moreover have "\<bar>t\<bar> < 2 ^ p" using q by (simp add: t_def abs_mult sgn_if)
    ultimately show ?thesis using r unfolding fits_def by metis
  qed
qed

lemma fits_scaled:
  assumes "fits p x"
  shows "fits p (x * 2 powi i)"
proof -
  obtain m j where "x = of_int m * 2 powi j" "\<bar>m\<bar> < 2 ^ p" using assms by (auto simp: fits_def)
  then show ?thesis unfolding fits_def by (intro exI [of _ m] exI [of _ "j + i"]) (simp add: power_int_add)
qed

lemma fits_whole: "\<bar>m\<bar> < 2 ^ p \<Longrightarrow> fits p (of_int m)"
  unfolding fits_def by (intro exI [of _ m] exI [of _ 0]) simp

lemma fits_quarters: "\<bar>m\<bar> < 2 ^ p \<Longrightarrow> fits p (of_int m / 4)"
  using fits_scaled [OF fits_whole, of m p "- 2"] by (simp add: power_int_def power2_eq_square)

lemma float_quarters: "\<bar>m\<bar> < 2 ^ 24 \<Longrightarrow> float32 (of_int m / 4) = of_int m / 4"
  "\<bar>m\<bar> < 2 ^ 53 \<Longrightarrow> float64 (of_int m / 4) = of_int m / 4"
  using fround_exact [OF fits_quarters, of m 24] fround_exact [OF fits_quarters, of m 53] by auto

lemma float_whole: "\<bar>m\<bar> < 2 ^ 53 \<Longrightarrow> float64 (of_int m) = of_int m"
  by (intro fround_exact fits_whole)

text \<open>A quotient of small integers keeps its ceiling when it is rounded to a \<^verbatim>\<open>double\<close>.\<close>

lemma ceiling_float_quotient:
  assumes "0 < (d :: int)" "d < 2 ^ 8" "\<bar>n\<bar> < 2 ^ 20"
  shows "\<lceil>float64 (of_int n / of_int d)\<rceil> = \<lceil>of_int n / (of_int d :: rat)\<rceil>"
proof (cases "d dvd n")
  case True
  then obtain k where k: "n = d * k" by blast
  have "1 * \<bar>k\<bar> \<le> d * \<bar>k\<bar>" using assms(1) by (intro mult_right_mono) auto
  then have "\<bar>k\<bar> < 2 ^ 53" using assms(1,3) k by (simp add: abs_mult)
  then show ?thesis using k assms(1) float_whole [of k] by simp
next
  case False
  let ?x = "of_int n / (of_int d :: rat)"
  define c where "c = \<lceil>?x\<rceil>"
  have d: "(0 :: rat) < of_int d" "of_int d < (256 :: rat)" using assms(1,2) by simp_all
  have "c * d - n \<noteq> 0" "(c - 1) * d - n \<noteq> 0" using False by (metis dvd_triv_right eq_iff_diff_eq_0)+
  moreover have "?x \<le> of_int c" "of_int c - 1 < ?x" unfolding c_def by linarith+
  then have "of_int n \<le> (of_int (c * d) :: rat)" "of_int ((c - 1) * d) < (of_int n :: rat)" using d(1) by (simp_all add: field_simps)
  then have "n \<le> c * d" "(c - 1) * d < n" by (simp_all only: of_int_le_iff of_int_less_iff)
  ultimately have "n + 1 \<le> c * d" "(c - 1) * d + 1 \<le> n" by linarith+
  then have "(of_int (n + 1) :: rat) \<le> of_int (c * d)" "(of_int ((c - 1) * d + 1) :: rat) \<le> of_int n" by (simp_all only: of_int_le_iff)
  then have "of_int (n + 1) / of_int d \<le> (of_int (c * d) / of_int d :: rat)" "of_int ((c - 1) * d + 1) / of_int d \<le> ?x"
    using d(1) by (simp_all only: divide_right_mono less_imp_le)
  then have b: "?x + 1 / of_int d \<le> of_int c" "of_int c - 1 + 1 / of_int d \<le> ?x" using d(1) by (simp_all add: add_divide_distrib)
  have i: "1 / 256 < 1 / (of_int d :: rat)" using d by (simp add: field_simps)
  have "\<bar>?x\<bar> < 2 powi 20"
  proof -
    have "(1 :: rat) \<le> of_int d" using assms(1) by simp
    have "\<bar>of_int n\<bar> < (of_int (2 ^ 20) :: rat)" using assms(3) by (metis of_int_abs of_int_less_iff)
    also have "\<dots> \<le> of_int (2 ^ 20) * of_int d" using \<open>1 \<le> of_int d\<close> by simp
    finally show ?thesis using d(1) by (simp add: abs_divide field_simps power_int_def)
  qed
  from fround_error [OF this, of 53] have "\<bar>float64 ?x - ?x\<bar> \<le> 1 / 256" by (simp add: power_int_def power_divide)
  then show ?thesis using b i unfolding c_def [symmetric] by (intro ceiling_unique) linarith+
qed

end
