(* ===== verification/Radio_Driver.thy ===== *)
theory Radio_Driver
  imports Float_Round MC_Prelude "HOL-Library.Multiset" "HOL-Library.Product_Lexorder"
begin

text \<open>
  \<^verbatim>\<open>src/src/radio\<close>: airtime, the duty-cycle budget, the transmit queue, the in-process medium, and
  the drivers built from them. The queue is shown to be a stable priority queue through the locale
  \<open>stable_pq\<close>. A tick returns the frames it put on the air with their time and airtime; the
  statements about the budget are about that log. The queue's 64-bit sequence counter is a natural number
  (one step per frame ever sent). The drivers a node runs with, datagrams and chip, are in \<open>Chip_Radio\<close>.
\<close>

section \<open>Frames, priorities, parameters\<close>

record RxMeta =
  rssi :: int
  snr :: int
  meta_at :: Millis
  meta_airtimeUs :: u32

definition rxmeta_init :: RxMeta where
  "rxmeta_init = \<lparr>rssi = 0, snr = 0, meta_at = 0, meta_airtimeUs = 0\<rparr>"

datatype Priority = HIGH | NORMAL | LOW

fun priority_code :: "Priority \<Rightarrow> nat" where
  "priority_code HIGH = 0"
| "priority_code NORMAL = 1"
| "priority_code LOW = 2"

lemma priority_code_inj: "priority_code p = priority_code q \<Longrightarrow> p = q"
  by (cases p; cases q) simp_all

instantiation Priority :: linorder
begin

definition less_eq_Priority :: "Priority \<Rightarrow> Priority \<Rightarrow> bool" where
  "less_eq_Priority p q \<longleftrightarrow> priority_code p \<le> priority_code q"

definition less_Priority :: "Priority \<Rightarrow> Priority \<Rightarrow> bool" where
  "less_Priority p q \<longleftrightarrow> priority_code p < priority_code q"

instance
  by standard (auto simp: less_eq_Priority_def less_Priority_def intro: priority_code_inj)

end

record Params =
  frequencyHz :: u32
  spreadingFactor :: byte
  bandwidthHz :: u32
  codingRate :: byte
  preambleSymbols :: byte
  syncWord :: byte
  dutyCyclePercent :: byte
  dutyWindowMs :: Millis
  queueDepth :: nat

definition params_default :: Params where
  "params_default = \<lparr>frequencyHz = 869525000, spreadingFactor = 11, bandwidthHz = 62500, codingRate = 5,
     preambleSymbols = 16, syncWord = 0x12, dutyCyclePercent = 10, dutyWindowMs = 3600000, queueDepth = 16\<rparr>"

section \<open>Airtime\<close>

text \<open>
  Every operation on doubles is the exact one followed by rounding (\<open>Float_Round\<close>); the shift is one of a 32-bit
  \<^verbatim>\<open>unsigned\<close>, and the cast at the end drops the fraction.
\<close>

definition symbolUs :: "Params \<Rightarrow> rat" where
  "symbolUs params =
     float64 (float64 (of_int (uint (push_bit (unat (spreadingFactor params)) 1 :: u32)) * 1000000) / of_int (uint (bandwidthHz params)))"

definition airtimeUsFor :: "Params \<Rightarrow> nat \<Rightarrow> u32" where
  "airtimeUsFor params payloadLength =
     (let sf = of_int (uint (spreadingFactor params)) :: rat;
          lowRateOptimise = (if symbolUs params > 16000 then 1 else 0);
          numerator = float64 (float64 (float64 (float64 (8 * float64 (of_nat payloadLength)) - float64 (4 * sf)) + 28) + 16);
          denominator = float64 (4 * float64 (sf - float64 (2 * lowRateOptimise)));
          payloadSymbols = float64 (of_int \<lceil>float64 (numerator / denominator)\<rceil> * of_int (uint (codingRate params)));
          payloadSymbols = (if payloadSymbols < 0 then 0 else payloadSymbols);
          payloadSymbols = float64 (payloadSymbols + 8);
          preambleUs = float64 (float64 (of_int (uint (preambleSymbols params)) + 17 / 4) * symbolUs params)
      in of_int (ftrunc (float64 (preambleUs + float64 (payloadSymbols * symbolUs params)))))"

section \<open>Duty cycle\<close>

record Slot =
  slot_at :: Millis
  slot_airtimeUs :: u32

record DutyCycle =
  duty_percent :: byte
  duty_window :: Millis
  slots :: "Slot list"
  usedUs :: u64

definition duty_new :: "byte \<Rightarrow> Millis \<Rightarrow> DutyCycle" where
  "duty_new percent window = \<lparr>duty_percent = percent, duty_window = window, slots = [], usedUs = 0\<rparr>"

fun expire_loop :: "Millis \<Rightarrow> Millis \<Rightarrow> Slot list \<Rightarrow> u64 \<Rightarrow> Slot list \<times> u64" where
  "expire_loop window now [] used = ([], used)"
| "expire_loop window now (s # ss) used =
     (if slot_at s + window \<le> now then expire_loop window now ss (used - ucast (slot_airtimeUs s))
      else (s # ss, used))"

definition expire :: "Millis \<Rightarrow> DutyCycle \<Rightarrow> DutyCycle" where
  "expire now d =
     (let (ss, used) = expire_loop (duty_window d) now (slots d) (usedUs d) in d\<lparr>slots := ss, usedUs := used\<rparr>)"

definition duty_record :: "Millis \<Rightarrow> u32 \<Rightarrow> DutyCycle \<Rightarrow> DutyCycle" where
  "duty_record instant airtime d =
     (let d = expire instant d in
      d\<lparr>slots := slots d @ [\<lparr>slot_at = instant, slot_airtimeUs = airtime\<rparr>], usedUs := usedUs d + ucast airtime\<rparr>)"

definition allows :: "Millis \<Rightarrow> u32 \<Rightarrow> DutyCycle \<Rightarrow> bool \<times> DutyCycle" where
  "allows now airtime d =
     (if duty_percent d \<ge> 100 then (True, d) else
      let d = expire now d; budgetUs = duty_window d * 1000 * ucast (duty_percent d) div 100 in
      (usedUs d + ucast airtime \<le> budgetUs, d))"

definition usedPermille :: "Millis \<Rightarrow> DutyCycle \<Rightarrow> u32 \<times> DutyCycle" where
  "usedPermille now d =
     (let d = expire now d; windowUs = duty_window d * 1000 in
      (if windowUs = 0 then 0 else ucast (usedUs d * 1000 div windowUs), d))"

section \<open>Transmit queue\<close>

record Entry =
  entry_priority :: Priority
  entry_sequence :: nat
  entry_frame :: bytes

record TxQueue =
  tx_depth :: nat
  tx_sequence :: nat
  entries :: "Entry list"

definition txqueue_new :: "nat \<Rightarrow> TxQueue" where
  "txqueue_new depth = \<lparr>tx_depth = depth, tx_sequence = 0, entries = []\<rparr>"

definition push :: "bytes \<Rightarrow> Priority \<Rightarrow> TxQueue \<Rightarrow> bool \<times> TxQueue" where
  "push frame priority q =
     (if length (entries q) \<ge> tx_depth q then (False, q) else
      (True, q\<lparr>tx_sequence := tx_sequence q + 1,
               entries := entries q @ [\<lparr>entry_priority = priority, entry_sequence = tx_sequence q, entry_frame = frame\<rparr>]\<rparr>))"

definition goes_before :: "Entry \<Rightarrow> Entry \<Rightarrow> bool" where
  "goes_before candidate current \<longleftrightarrow>
     entry_priority candidate < entry_priority current
     \<or> (entry_priority candidate = entry_priority current \<and> entry_sequence candidate < entry_sequence current)"

definition best_entry :: "Entry list \<Rightarrow> nat" where
  "best_entry es = fold (\<lambda>i best. if goes_before (es ! i) (es ! best) then i else best) [1..<length es] 0"

definition pop :: "TxQueue \<Rightarrow> ((Priority \<times> bytes) \<times> TxQueue) option" where
  "pop q =
     (if entries q = [] then None else
      let best = best_entry (entries q); e = entries q ! best in
      Some ((entry_priority e, entry_frame e),
            q\<lparr>entries := take best (entries q) @ drop (best + 1) (entries q)\<rparr>))"

lemma best_entry_less: "es \<noteq> [] \<Longrightarrow> best_entry es < length es"
proof -
  have "fold (\<lambda>i best. if goes_before (es ! i) (es ! best) then i else best) is b \<in> set (b # is)" for "is" b
    by (induction "is" arbitrary: b) auto
  from this [of "[1..<length es]" 0] show "es \<noteq> [] \<Longrightarrow> best_entry es < length es"
    by (auto simp: best_entry_def)
qed

lemma pop_length: "pop q = Some (x, q') \<Longrightarrow> length (entries q') < length (entries q)"
  using best_entry_less [of "entries q"] by (auto simp: pop_def Let_def split: if_splits)

section \<open>Medium\<close>

record Medium =
  nodes :: nat
  visible :: "bool list list"

definition resize_list :: "nat \<Rightarrow> 'a \<Rightarrow> 'a list \<Rightarrow> 'a list" where
  "resize_list n x xs = take n xs @ replicate (n - length xs) x"

definition attach :: "Medium \<Rightarrow> nat \<times> Medium" where
  "attach m =
     (let n = nodes m + 1 in
      (n - 1, m\<lparr>nodes := n, visible := map (resize_list n False) (resize_list n [] (visible m))\<rparr>))"

definition set_visible :: "nat \<Rightarrow> nat \<Rightarrow> bool \<Rightarrow> Medium \<Rightarrow> Medium" where
  "set_visible a b v m = m\<lparr>visible := (visible m)[a := (visible m ! a)[b := v]]\<rparr>"

definition link :: "nat \<Rightarrow> nat \<Rightarrow> Medium \<Rightarrow> Medium" where
  "link a b m = set_visible b a True (set_visible a b True m)"

definition unlink :: "nat \<Rightarrow> nat \<Rightarrow> Medium \<Rightarrow> Medium" where
  "unlink a b m = set_visible b a False (set_visible a b False m)"

definition hears :: "nat \<Rightarrow> nat \<Rightarrow> Medium \<Rightarrow> bool" where
  "hears listener speaker m = visible m ! speaker ! listener"

text \<open>The nodes a broadcast is delivered to, in order.\<close>

definition broadcast_targets :: "nat \<Rightarrow> Medium \<Rightarrow> nat list" where
  "broadcast_targets from m = filter (\<lambda>target. \<not> (target = from \<or> \<not> visible m ! from ! target)) [0..<nodes m]"

section \<open>Virtual radio\<close>

record VirtualRadio =
  vr_params :: Params
  vr_duty :: DutyCycle
  vr_queue :: TxQueue
  vr_now :: Millis
  vr_powered :: bool

definition virtual_new :: "Params \<Rightarrow> VirtualRadio" where
  "virtual_new params =
     \<lparr>vr_params = params, vr_duty = duty_new (dutyCyclePercent params) (dutyWindowMs params),
      vr_queue = txqueue_new (queueDepth params), vr_now = 0, vr_powered = True\<rparr>"

definition virtual_send :: "bytes \<Rightarrow> Priority \<Rightarrow> VirtualRadio \<Rightarrow> bool \<times> VirtualRadio" where
  "virtual_send frame priority r = (let (ok, q) = push frame priority (vr_queue r) in (ok, r\<lparr>vr_queue := q\<rparr>))"

definition canTransmitNow :: "VirtualRadio \<Rightarrow> bool \<times> VirtualRadio" where
  "canTransmitNow r =
     (if \<not> vr_powered r then (False, r) else
      let (ok, d) = allows (vr_now r) (airtimeUsFor (vr_params r) MAX_PACKET_FRAME) (vr_duty r) in (ok, r\<lparr>vr_duty := d\<rparr>))"

text \<open>The transmit loop both drivers share: what goes on the air, in order, each with time and airtime.\<close>

function transmit_loop ::
  "(nat \<Rightarrow> u32) \<Rightarrow> Millis \<Rightarrow> DutyCycle \<Rightarrow> TxQueue \<Rightarrow> (bytes \<times> RxMeta) list \<times> DutyCycle \<times> TxQueue" where
  "transmit_loop airtimeUs now duty q =
     (case pop q of None \<Rightarrow> ([], duty, q)
      | Some ((priority, frame), q') \<Rightarrow>
        let airtime = airtimeUs (length frame); (ok, duty) = allows now airtime duty in
        if \<not> ok then ([], duty, snd (push frame priority q')) else
        let (air, duty, q'') = transmit_loop airtimeUs now (duty_record now airtime duty) q' in
        ((frame, \<lparr>rssi = -60, snr = 8, meta_at = now, meta_airtimeUs = airtime\<rparr>) # air, duty, q''))"
  by pat_completeness auto
termination
  by (relation "measure (\<lambda>(f, now, duty, q). length (entries q))") (auto dest: pop_length)

declare transmit_loop.simps [simp del]

definition virtual_tick :: "Millis \<Rightarrow> VirtualRadio \<Rightarrow> (bytes \<times> RxMeta) list \<times> VirtualRadio" where
  "virtual_tick now r =
     (let r = r\<lparr>vr_now := now\<rparr> in
      if \<not> vr_powered r then ([], r) else
      let (air, duty, q) = transmit_loop (airtimeUsFor (vr_params r)) now (vr_duty r) (vr_queue r) in
      (air, r\<lparr>vr_duty := duty, vr_queue := q\<rparr>))"

definition setPowered :: "bool \<Rightarrow> VirtualRadio \<Rightarrow> VirtualRadio" where
  "setPowered powered r = r\<lparr>vr_powered := powered\<rparr>"

section \<open>Replay radio\<close>

record Capture =
  cap_at :: Millis
  cap_frame :: bytes
  cap_meta :: RxMeta

record ReplayRadio =
  captures :: "Capture list"
  replay_next :: nat
  replay_transmitted :: "bytes list"

definition replay_new :: "Capture list \<Rightarrow> ReplayRadio" where
  "replay_new cs = \<lparr>captures = sort_key cap_at cs, replay_next = 0, replay_transmitted = []\<rparr>"

definition replay_send :: "bytes \<Rightarrow> Priority \<Rightarrow> ReplayRadio \<Rightarrow> bool \<times> ReplayRadio" where
  "replay_send frame priority r = (True, r\<lparr>replay_transmitted := replay_transmitted r @ [frame]\<rparr>)"

function replay_tick :: "Millis \<Rightarrow> ReplayRadio \<Rightarrow> (bytes \<times> RxMeta) list \<times> ReplayRadio" where
  "replay_tick now r =
     (if replay_next r < length (captures r) \<and> cap_at (captures r ! replay_next r) \<le> now then
        let capture = captures r ! replay_next r;
            (delivered, r') = replay_tick now (r\<lparr>replay_next := replay_next r + 1\<rparr>) in
        ((cap_frame capture, cap_meta capture) # delivered, r')
      else ([], r))"
  by pat_completeness auto
termination
  by (relation "measure (\<lambda>(now, r). length (captures r) - replay_next r)") auto

declare replay_tick.simps [simp del]

definition finished :: "ReplayRadio \<Rightarrow> bool" where
  "finished r \<longleftrightarrow> replay_next r \<ge> length (captures r)"

section \<open>Stable priority queues\<close>

locale stable_pq =
  fixes enq :: "'e \<Rightarrow> 'p::linorder \<Rightarrow> 'q \<Rightarrow> bool \<times> 'q"
    and deq :: "'q \<Rightarrow> (('p \<times> 'e) \<times> 'q) option"
    and ok :: "'q \<Rightarrow> bool"
    and contents :: "'q \<Rightarrow> ('p \<times> 'e) list"
    and cap :: "'q \<Rightarrow> nat"
  assumes enq_law: "ok q \<Longrightarrow> enq x p q = (b, q') \<Longrightarrow> ok q' \<and> cap q' = cap q \<and> b = (length (contents q) < cap q)
      \<and> contents q' = (if b then contents q @ [(p, x)] else contents q)"
    and deq_empty: "ok q \<Longrightarrow> deq q = None \<longleftrightarrow> contents q = []"
    and deq_law: "ok q \<Longrightarrow> deq q = Some (y, q') \<Longrightarrow> ok q' \<and> cap q' = cap q \<and>
      (\<exists>pre post. contents q = pre @ y # post \<and> contents q' = pre @ post
         \<and> (\<forall>z \<in> set pre. fst y < fst z) \<and> (\<forall>z \<in> set post. fst y \<le> fst z))"
begin

lemma sort_key_front:
  fixes pre :: "('p \<times> 'e) list"
  assumes "\<forall>z \<in> set pre. fst y < fst z" and "\<forall>z \<in> set post. fst y \<le> fst z"
  shows "sort_key fst (pre @ y # post) = y # sort_key fst (pre @ post)"
proof (rule properties_for_sort_key)
  have stable: "filter (\<lambda>x. fst k = fst x) (sort_key fst zs) = filter (\<lambda>x. fst k = fst x) zs"
    for k and zs :: "('p \<times> 'e) list"
    using sort_key_stable [of fst "fst k" zs] by (simp add: eq_commute [of "fst k"])
  show "mset (y # sort_key fst (pre @ post)) = mset (pre @ y # post)" by simp
  show "filter (\<lambda>x. fst k = fst x) (y # sort_key fst (pre @ post)) = filter (\<lambda>x. fst k = fst x) (pre @ y # post)" for k
  proof (cases "fst k = fst y")
    case True
    then have "filter (\<lambda>x. fst k = fst x) pre = []" using assms(1) by (auto simp: filter_empty_conv)
    then show ?thesis using True by (simp add: stable)
  qed (simp add: stable)
  show "sorted (map fst (y # sort_key fst (pre @ post)))"
    using assms by (auto intro: less_imp_le)
qed

lemma deq_sorted:
  "ok q \<Longrightarrow> deq q = Some (y, q') \<Longrightarrow> sort_key fst (contents q) = y # sort_key fst (contents q')"
proof -
  assume "ok q" "deq q = Some (y, q')"
  then obtain pre post where "contents q = pre @ y # post" "contents q' = pre @ post"
    "\<forall>z \<in> set pre. fst y < fst z" "\<forall>z \<in> set post. fst y \<le> fst z" using deq_law by blast
  then show ?thesis using sort_key_front [of pre y post] by simp
qed

lemma deq_all:
  assumes step: "\<And>q. loop q = (case deq q of None \<Rightarrow> [] | Some (y, q') \<Rightarrow> y # loop q')"
  shows "ok q \<Longrightarrow> loop q = sort_key fst (contents q)"
proof (induction "length (contents q)" arbitrary: q rule: less_induct)
  case less
  show ?case
  proof (cases "deq q")
    case None
    then show ?thesis using deq_empty [OF less.prems] step [of q] by simp
  next
    case (Some yq)
    obtain y q' where yq: "yq = (y, q')" by (cases yq)
    note law = deq_law [OF less.prems Some [unfolded yq]]
    then have "length (contents q') < length (contents q)" by auto
    with less.hyps [of q'] law have "loop q' = sort_key fst (contents q')" by blast
    then show ?thesis using deq_sorted [OF less.prems Some [unfolded yq]] step [of q] Some yq by simp
  qed
qed

lemma enqs:
  "ok q \<Longrightarrow> ok (fold (\<lambda>(p, x) q. snd (enq x p q)) xs q)
     \<and> contents (fold (\<lambda>(p, x) q. snd (enq x p q)) xs q) = contents q @ take (cap q - length (contents q)) xs"
proof (induction xs arbitrary: q)
  case (Cons px xs)
  obtain p x where px: "px = (p, x)" by (cases px)
  obtain b q' where e: "enq x p q = (b, q')" by fastforce
  note law = enq_law [OF Cons.prems e]
  show ?case
    using Cons.IH [of q'] law e px by (auto simp: take_Cons')
qed simp

end

section \<open>The transmit queue is one\<close>

definition tx_ok :: "TxQueue \<Rightarrow> bool" where
  "tx_ok q \<longleftrightarrow> sorted_wrt (<) (map entry_sequence (entries q)) \<and> (\<forall>e \<in> set (entries q). entry_sequence e < tx_sequence q)
     \<and> length (entries q) \<le> tx_depth q"

definition tx_contents :: "TxQueue \<Rightarrow> (Priority \<times> bytes) list" where
  "tx_contents q = map (\<lambda>e. (entry_priority e, entry_frame e)) (entries q)"

lemma goes_before_key:
  "goes_before a b \<longleftrightarrow> (entry_priority a, entry_sequence a) < (entry_priority b, entry_sequence b)"
  by (auto simp: goes_before_def)

lemma best_entry_least:
  "best_entry es = least_index (\<lambda>i. (entry_priority (es ! i), entry_sequence (es ! i))) [1..<length es] 0"
  by (simp add: best_entry_def least_index_def goes_before_key del: less_prod_simp)

lemma best_entry_spec:
  assumes "sorted_wrt (<) (map entry_sequence es)" and "es \<noteq> []"
  shows "best_entry es < length es"
    and "j < best_entry es \<Longrightarrow> entry_priority (es ! best_entry es) < entry_priority (es ! j)"
    and "j < length es \<Longrightarrow> entry_priority (es ! best_entry es) \<le> entry_priority (es ! j)"
proof -
  let ?b = "best_entry es"
  have l: "?b < length es \<and> (\<forall>i < length es. (entry_priority (es ! ?b), entry_sequence (es ! ?b))
      \<le> (entry_priority (es ! i), entry_sequence (es ! i)))"
    unfolding best_entry_least using assms(2) by (intro least_index_less) auto
  then show "?b < length es" by blast
  show "j < length es \<Longrightarrow> entry_priority (es ! ?b) \<le> entry_priority (es ! j)" using l by fastforce
  assume j: "j < ?b"
  then have "entry_sequence (es ! j) < entry_sequence (es ! ?b)"
    using assms(1) l by (simp add: sorted_wrt_iff_nth_less)
  moreover have "(entry_priority (es ! ?b), entry_sequence (es ! ?b)) \<le> (entry_priority (es ! j), entry_sequence (es ! j))"
    using l j by (meson less_trans)
  ultimately show "entry_priority (es ! ?b) < entry_priority (es ! j)" by auto
qed

lemma pop_law:
  assumes "tx_ok q" and "pop q = Some (y, q')"
  shows "tx_ok q' \<and> tx_depth q' = tx_depth q \<and> (\<exists>pre post. tx_contents q = pre @ y # post
     \<and> tx_contents q' = pre @ post \<and> (\<forall>z \<in> set pre. fst y < fst z) \<and> (\<forall>z \<in> set post. fst y \<le> fst z))"
proof -
  let ?es = "entries q" let ?b = "best_entry ?es"
  have ne: "?es \<noteq> []" using assms(2) by (auto simp: pop_def)
  have s: "sorted_wrt (<) (map entry_sequence ?es)" using assms(1) by (simp add: tx_ok_def)
  note b = best_entry_spec [OF s ne]
  have split: "?es = take ?b ?es @ ?es ! ?b # drop (Suc ?b) ?es" using b(1) by (simp add: id_take_nth_drop)
  have y: "y = (entry_priority (?es ! ?b), entry_frame (?es ! ?b))"
    and q': "q' = q\<lparr>entries := take ?b ?es @ drop (Suc ?b) ?es\<rparr>"
    using assms(2) ne by (auto simp: pop_def Let_def)
  have "tx_ok q'"
    using assms(1) b(1) unfolding q' tx_ok_def
    by (subst (asm) split) (auto simp: sorted_wrt_append dest: in_set_takeD in_set_dropD)
  moreover let ?f = "\<lambda>e. (entry_priority e, entry_frame e)"
  have "tx_contents q = map ?f (take ?b ?es) @ y # map ?f (drop (Suc ?b) ?es)"
    unfolding tx_contents_def by (subst split) (simp add: y)
  moreover have "tx_contents q' = map ?f (take ?b ?es) @ map ?f (drop (Suc ?b) ?es)"
    by (simp add: tx_contents_def q')
  moreover have "\<forall>z \<in> set (map ?f (take ?b ?es)). fst y < fst z"
    using b(1,2) y by (auto simp: in_set_conv_nth)
  moreover have "\<forall>z \<in> set (map ?f (drop (Suc ?b) ?es)). fst y \<le> fst z"
    using b(3) y by (auto simp: in_set_conv_nth)
  moreover have "tx_depth q' = tx_depth q" by (simp add: q')
  ultimately show ?thesis by blast
qed

interpretation tx: stable_pq push pop tx_ok tx_contents tx_depth
proof
  show "tx_ok q \<Longrightarrow> push x p q = (b, q') \<Longrightarrow> tx_ok q' \<and> tx_depth q' = tx_depth q
      \<and> b = (length (tx_contents q) < tx_depth q)
      \<and> tx_contents q' = (if b then tx_contents q @ [(p, x)] else tx_contents q)" for q x p b q'
    by (auto simp: push_def tx_ok_def tx_contents_def sorted_wrt_append less_Suc_eq split: if_splits)
  show "tx_ok q \<Longrightarrow> (pop q = None) = (tx_contents q = [])" for q
    by (simp add: pop_def tx_contents_def Let_def)
  show "tx_ok q \<Longrightarrow> pop q = Some (y, q') \<Longrightarrow> tx_ok q' \<and> tx_depth q' = tx_depth q \<and>
      (\<exists>pre post. tx_contents q = pre @ y # post \<and> tx_contents q' = pre @ post
         \<and> (\<forall>z \<in> set pre. fst y < fst z) \<and> (\<forall>z \<in> set post. fst y \<le> fst z))" for q y q'
    by (rule pop_law)
qed

lemma txqueue_new_ok: "tx_ok (txqueue_new n)" "tx_contents (txqueue_new n) = []" "tx_depth (txqueue_new n) = n"
  by (auto simp: tx_ok_def tx_contents_def txqueue_new_def)

section \<open>The budget over time\<close>

definition total_us :: "Slot list \<Rightarrow> nat" where
  "total_us ss = sum_list (map (\<lambda>s. unat (slot_airtimeUs s)) ss)"

text \<open>The airtime of a log that falls into the window of length \<open>w\<close> that ends at \<open>t\<close>.\<close>

definition airtime_in_window :: "nat \<Rightarrow> nat \<Rightarrow> Slot list \<Rightarrow> nat" where
  "airtime_in_window w t lg = total_us (filter (\<lambda>s. unat (slot_at s) \<le> t \<and> t < unat (slot_at s) + w) lg)"

definition budget_us :: "DutyCycle \<Rightarrow> nat" where
  "budget_us d = unat (duty_window d) * 1000 * unat (duty_percent d) div 100"

text \<open>Parameters in range: a percentage below 100 and a window whose budget fits 64 bits.\<close>

definition duty_sane :: "DutyCycle \<Rightarrow> bool" where
  "duty_sane d \<longleftrightarrow> unat (duty_percent d) < 100 \<and> unat (duty_window d) * 100000 < 2 ^ 63"

definition duty_inv :: "DutyCycle \<Rightarrow> Slot list \<Rightarrow> nat \<Rightarrow> bool" where
  "duty_inv d lg now \<longleftrightarrow>
     sorted (map (\<lambda>s. unat (slot_at s)) lg) \<and> (\<forall>s \<in> set lg. unat (slot_at s) \<le> now)
   \<and> (\<exists>old. lg = old @ slots d \<and> (\<forall>s \<in> set old. unat (slot_at s) + unat (duty_window d) \<le> now))
   \<and> unat (usedUs d) = total_us (slots d) \<and> total_us (slots d) \<le> budget_us d
   \<and> (\<forall>t. airtime_in_window (unat (duty_window d)) t lg \<le> budget_us d)"

lemma total_us_simps [simp]:
  "total_us [] = 0" "total_us (s # ss) = unat (slot_airtimeUs s) + total_us ss"
  "total_us (ss @ ss') = total_us ss + total_us ss'"
  by (simp_all add: total_us_def)

lemma total_us_filter: "total_us (filter P ss) \<le> total_us ss"
  by (induction ss) auto

lemma budget_bound: "duty_sane d \<Longrightarrow> unat (duty_window d) * 1000 * unat (duty_percent d) < 2 ^ 63"
proof -
  assume d: "duty_sane d"
  then have "unat (duty_window d) * 1000 * unat (duty_percent d) \<le> unat (duty_window d) * 1000 * 100"
    by (intro mult_le_mono2) (simp add: duty_sane_def)
  also have "\<dots> < 2 ^ 63" using d by (simp add: duty_sane_def)
  finally show ?thesis .
qed

lemma budget_small: "duty_sane d \<Longrightarrow> budget_us d < 2 ^ 63"
  using budget_bound [of d] div_le_dividend [of "unat (duty_window d) * 1000 * unat (duty_percent d)" 100]
  unfolding budget_us_def by linarith

lemma expire_loop_spec:
  assumes "expire_loop w now ss used = (ss', used')" and "unat used = total_us ss"
    and "\<forall>s \<in> set ss. unat (slot_at s) + unat w < 2 ^ 64"
  shows "\<exists>dropped. ss = dropped @ ss' \<and> (\<forall>s \<in> set dropped. unat (slot_at s) + unat w \<le> unat now)
    \<and> unat used' = total_us ss' \<and> (ss' \<noteq> [] \<longrightarrow> unat now < unat (slot_at (hd ss')) + unat w)"
  using assms
proof (induction w now ss used arbitrary: ss' used' rule: expire_loop.induct)
  case (2 w now s ss used)
  have at: "unat (slot_at s + w) = unat (slot_at s) + unat w"
    using "2.prems"(3) by (simp add: unat_word_ariths)
  show ?case
  proof (cases "slot_at s + w \<le> now")
    case True
    have "unat (used - ucast (slot_airtimeUs s)) = total_us ss"
      using "2.prems"(2) by (subst unat_sub) (simp_all add: word_le_nat_alt)
    with "2.IH" [OF True _ this] "2.prems" True obtain dropped
      where "ss = dropped @ ss'" "\<forall>s \<in> set dropped. unat (slot_at s) + unat w \<le> unat now"
        "unat used' = total_us ss'" "ss' \<noteq> [] \<longrightarrow> unat now < unat (slot_at (hd ss')) + unat w" by auto
    then show ?thesis using True at by (intro exI [of _ "s # dropped"]) (auto simp: word_le_nat_alt)
  next
    case False
    then show ?thesis using "2.prems" at by (auto simp: word_le_nat_alt)
  qed
qed simp

lemma expire_inv:
  assumes "duty_inv d lg t" and "duty_sane d" and "t \<le> unat now" and "unat now < 2 ^ 63"
  shows "duty_inv (expire now d) lg (unat now)"
    and "\<forall>s \<in> set (slots (expire now d)). unat now < unat (slot_at s) + unat (duty_window d)"
    and "duty_window (expire now d) = duty_window d" "duty_percent (expire now d) = duty_percent d"
proof -
  let ?w = "unat (duty_window d)"
  obtain ss used where l: "expire_loop (duty_window d) now (slots d) (usedUs d) = (ss, used)" by fastforce
  have e: "expire now d = d\<lparr>slots := ss, usedUs := used\<rparr>" by (simp add: expire_def l)
  show "duty_window (expire now d) = duty_window d" "duty_percent (expire now d) = duty_percent d"
    by (simp_all add: e)
  obtain old where old: "lg = old @ slots d" "\<forall>s \<in> set old. unat (slot_at s) + ?w \<le> t"
    using assms(1) by (auto simp: duty_inv_def)
  have "?w < 2 ^ 63" using assms(2) by (simp add: duty_sane_def)
  moreover have "\<forall>s \<in> set (slots d). unat (slot_at s) \<le> t" using assms(1) old(1) by (auto simp: duty_inv_def)
  ultimately have "\<forall>s \<in> set (slots d). unat (slot_at s) + ?w < 2 ^ 64"
    using assms(3,4) by fastforce
  then obtain dropped where dr: "slots d = dropped @ ss" "\<forall>s \<in> set dropped. unat (slot_at s) + ?w \<le> unat now"
      "unat used = total_us ss" "ss \<noteq> [] \<longrightarrow> unat now < unat (slot_at (hd ss)) + ?w"
    using expire_loop_spec [OF l] assms(1) by (auto simp: duty_inv_def)
  have "sorted (map (\<lambda>s. unat (slot_at s)) ss)"
    using assms(1) old(1) dr(1) by (simp add: duty_inv_def sorted_append)
  then have "s \<in> set ss \<Longrightarrow> unat (slot_at (hd ss)) \<le> unat (slot_at s)" for s by (cases ss) auto
  then show "\<forall>s \<in> set (slots (expire now d)). unat now < unat (slot_at s) + ?w"
    using dr(4) by (fastforce simp: e)
  have "\<exists>old'. lg = old' @ ss \<and> (\<forall>s \<in> set old'. unat (slot_at s) + ?w \<le> unat now)"
    using old dr(1,2) assms(3) by (intro exI [of _ "old @ dropped"]) auto
  then show "duty_inv (expire now d) lg (unat now)"
    using assms(1,3) dr(1,3) by (auto simp: duty_inv_def e budget_us_def intro: order_trans)
qed

lemma allows_inv:
  assumes "duty_inv d lg t" and "duty_sane d" and "t \<le> unat now" and "unat now < 2 ^ 63"
    and "allows now a d = (ok, d')"
  shows "duty_inv d' lg (unat now)" and "duty_sane d'" and "budget_us d' = budget_us d" "duty_window d' = duty_window d"
    and "ok \<longleftrightarrow> total_us (slots d') + unat a \<le> budget_us d"
    and "\<forall>s \<in> set (slots d'). unat now < unat (slot_at s) + unat (duty_window d)"
proof -
  note ex = expire_inv [OF assms(1-4)]
  have p: "\<not> duty_percent d \<ge> 100" using assms(2) by (simp add: duty_sane_def word_le_nat_alt)
  then have d': "d' = expire now d" using assms(5) by (auto simp: allows_def Let_def)
  show "duty_inv d' lg (unat now)" "\<forall>s \<in> set (slots d'). unat now < unat (slot_at s) + unat (duty_window d)"
    using ex d' by auto
  show w: "duty_window d' = duty_window d" using ex(3) d' by simp
  show "duty_sane d'" and b: "budget_us d' = budget_us d"
    using ex(3,4) d' assms(2) by (auto simp: duty_sane_def budget_us_def)
  have "unat (duty_window d) * 1000 < 2 ^ 63" using assms(2) by (simp add: duty_sane_def)
  with budget_bound [OF assms(2)] have "unat (duty_window d * 1000 * ucast (duty_percent d) div 100) = budget_us d"
    by (simp add: budget_us_def unat_word_ariths unat_div)
  moreover have "unat (usedUs d' + ucast a) = total_us (slots d') + unat a"
  proof -
    have "total_us (slots d') \<le> budget_us d" "unat (usedUs d') = total_us (slots d')"
      using ex(1) d' b by (auto simp: duty_inv_def)
    then show ?thesis using budget_small [OF assms(2)] unat_u32_less [of a] by (simp add: unat_word_ariths)
  qed
  ultimately show "ok \<longleftrightarrow> total_us (slots d') + unat a \<le> budget_us d"
    using assms(5) p ex(3,4) d' by (auto simp: allows_def Let_def word_le_nat_alt)
qed

lemma window_sum_restrict:
  assumes "\<forall>s \<in> set lg. unat (slot_at s) \<le> now" and "now \<le> t"
  shows "airtime_in_window w t lg \<le> airtime_in_window w now lg"
proof -
  have "filter (\<lambda>s. unat (slot_at s) \<le> t \<and> t < unat (slot_at s) + w) lg
      = filter (\<lambda>s. t < unat (slot_at s) + w) (filter (\<lambda>s. unat (slot_at s) \<le> now \<and> now < unat (slot_at s) + w) lg)"
    using assms by (simp only: filter_filter) (rule filter_cong, auto)
  then show ?thesis unfolding airtime_in_window_def by (simp only: total_us_filter)
qed

lemma record_inv:
  assumes "duty_inv d lg (unat now)" and "duty_sane d" and "unat now < 2 ^ 63"
    and "\<forall>s \<in> set (slots d). unat now < unat (slot_at s) + unat (duty_window d)"
    and "total_us (slots d) + unat a \<le> budget_us d"
  shows "duty_inv (duty_record now a d) (lg @ [\<lparr>slot_at = now, slot_airtimeUs = a\<rparr>]) (unat now)"
    and "duty_sane (duty_record now a d)" and "budget_us (duty_record now a d) = budget_us d"
    and "duty_window (duty_record now a d) = duty_window d"
proof -
  let ?w = "unat (duty_window d)" let ?s = "\<lparr>slot_at = now, slot_airtimeUs = a\<rparr>" let ?lg = "lg @ [?s]"
  obtain old where old: "lg = old @ slots d" "\<forall>s \<in> set old. unat (slot_at s) + ?w \<le> unat now"
    using assms(1) by (auto simp: duty_inv_def)
  have w: "?w < 2 ^ 63" using assms(2) by (simp add: duty_sane_def)
  have "unat (slot_at s + duty_window d) = unat (slot_at s) + ?w" if "s \<in> set (slots d)" for s
  proof -
    have "unat (slot_at s) \<le> unat now" using that assms(1) old(1) by (auto simp: duty_inv_def)
    then show ?thesis using assms(3) w by (simp add: unat_word_ariths)
  qed
  then have e: "expire now d = d"
    using assms(4) by (cases "slots d") (auto simp: expire_def word_le_nat_alt)
  have used: "unat (usedUs d + ucast a) = total_us (slots d) + unat a"
    using assms(1,5) budget_small [OF assms(2)] by (simp add: duty_inv_def unat_word_ariths)
  have now: "airtime_in_window ?w (unat now) ?lg \<le> budget_us d"
  proof -
    have "airtime_in_window ?w (unat now) ?lg \<le> total_us (slots d @ [?s])"
    proof -
      have "filter (\<lambda>s. unat (slot_at s) \<le> unat now \<and> unat now < unat (slot_at s) + ?w) old = []"
        using old(2) by (auto simp: filter_empty_conv)
      then show ?thesis
        using total_us_filter [of _ "slots d @ [?s]"] by (simp add: airtime_in_window_def old(1) del: total_us_simps filter.simps)
    qed
    then show ?thesis using assms(5) by simp
  qed
  have "airtime_in_window ?w t ?lg \<le> budget_us d" for t
  proof (cases "unat now \<le> t")
    case True
    then show ?thesis
      using window_sum_restrict [of ?lg "unat now" t ?w] now assms(1) by (force simp: duty_inv_def)
  next
    case False
    then show ?thesis using assms(1) by (simp add: airtime_in_window_def duty_inv_def)
  qed
  then show "duty_inv (duty_record now a d) ?lg (unat now)"
    using assms(1,5) used old
    by (auto simp: duty_inv_def duty_record_def e sorted_append budget_us_def)
  show "duty_sane (duty_record now a d)" "budget_us (duty_record now a d) = budget_us d"
    "duty_window (duty_record now a d) = duty_window d"
    using assms(2) by (auto simp: duty_record_def e duty_sane_def budget_us_def)
qed

text \<open>What was put on the air, as a log of the budget.\<close>

definition air_slots :: "(bytes \<times> RxMeta) list \<Rightarrow> Slot list" where
  "air_slots air = map (\<lambda>(f, m). \<lparr>slot_at = meta_at m, slot_airtimeUs = meta_airtimeUs m\<rparr>) air"

lemma transmit_loop_inv:
  assumes "transmit_loop f now d q = (air, d', q')"
    and "duty_inv d lg t" and "duty_sane d" and "t \<le> unat now" and "unat now < 2 ^ 63"
  shows "duty_inv d' (lg @ air_slots air) (unat now) \<or> (air = [] \<and> d' = d)"
    and "duty_sane d'" and "budget_us d' = budget_us d" and "duty_window d' = duty_window d"
proof -
  have "(duty_inv d' (lg @ air_slots air) (unat now) \<or> (air = [] \<and> d' = d))
     \<and> duty_sane d' \<and> budget_us d' = budget_us d \<and> duty_window d' = duty_window d"
    using assms
  proof (induction "length (entries q)" arbitrary: d q air d' q' lg t rule: less_induct)
    case less
    note prems = less.prems
    show ?case
    proof (cases "pop q")
      case None
      then show ?thesis using prems(1,3) by (simp add: transmit_loop.simps [of f now d q])
    next
      case (Some r)
      obtain priority frame q1 where r: "r = ((priority, frame), q1)" by (metis prod.collapse)
      let ?a = "f (length frame)"
      obtain ok d1 where al: "allows now ?a d = (ok, d1)" by fastforce
      note ai = allows_inv [OF prems(2-5) al]
      show ?thesis
      proof (cases ok)
        case False
        then show ?thesis
          using prems(1) Some r al ai by (simp add: transmit_loop.simps [of f now d q] air_slots_def)
      next
        case True
        obtain air2 d2 q2 where rest: "transmit_loop f now (duty_record now ?a d1) q1 = (air2, d2, q2)"
          by (metis prod.collapse)
        have res: "air = (frame, \<lparr>rssi = -60, snr = 8, meta_at = now, meta_airtimeUs = ?a\<rparr>) # air2" "d' = d2"
          using prems(1) Some r al True rest by (auto simp: transmit_loop.simps [of f now d q])
        have fits: "total_us (slots d1) + unat ?a \<le> budget_us d1" using ai(3,5) True by simp
        note ri = record_inv [OF ai(1,2) prems(5) ai(6) [folded ai(4)] fits]
        have IH: "(duty_inv d2 ((lg @ [\<lparr>slot_at = now, slot_airtimeUs = ?a\<rparr>]) @ air_slots air2) (unat now)
              \<or> (air2 = [] \<and> d2 = duty_record now ?a d1))
            \<and> duty_sane d2 \<and> budget_us d2 = budget_us (duty_record now ?a d1)
            \<and> duty_window d2 = duty_window (duty_record now ?a d1)"
          by (rule less.hyps [OF pop_length [OF Some [unfolded r]] rest ri(1,2) order_refl prems(5)])
        then show ?thesis using res ri ai(3,4) by (auto simp: air_slots_def)
      qed
    qed
  qed
  then show "duty_inv d' (lg @ air_slots air) (unat now) \<or> (air = [] \<and> d' = d)"
    and "duty_sane d'" and "budget_us d' = budget_us d" and "duty_window d' = duty_window d" by blast+
qed

text \<open>A life of the radio: frames handed in, ticks, power switched.\<close>

datatype radio_event = Send bytes Priority | Tick Millis | Power bool

fun radio_run :: "radio_event list \<Rightarrow> VirtualRadio \<Rightarrow> (bytes \<times> RxMeta) list \<times> VirtualRadio" where
  "radio_run [] r = ([], r)"
| "radio_run (Send frame priority # es) r = radio_run es (snd (virtual_send frame priority r))"
| "radio_run (Power on # es) r = radio_run es (setPowered on r)"
| "radio_run (Tick now # es) r =
     (let (air, r) = virtual_tick now r; (later, r) = radio_run es r in (air @ later, r))"

fun tick_times :: "radio_event list \<Rightarrow> nat list" where
  "tick_times [] = []"
| "tick_times (Tick now # es) = unat now # tick_times es"
| "tick_times (_ # es) = tick_times es"

lemma duty_inv_later: "duty_inv d lg t \<Longrightarrow> t \<le> t' \<Longrightarrow> duty_inv d lg t'"
  unfolding duty_inv_def by (fastforce intro: order_trans)

lemma air_slots_append [simp]: "air_slots (a @ b) = air_slots a @ air_slots b"
  by (simp add: air_slots_def)

lemma radio_run_inv:
  assumes "radio_run es r = (air, r')" and "duty_inv (vr_duty r) lg t" and "duty_sane (vr_duty r)"
    and "sorted (t # tick_times es)" and "\<forall>n \<in> set (tick_times es). n < 2 ^ 63"
  shows "\<exists>t'. duty_inv (vr_duty r') (lg @ air_slots air) t' \<and> budget_us (vr_duty r') = budget_us (vr_duty r)
    \<and> duty_window (vr_duty r') = duty_window (vr_duty r)"
  using assms
proof (induction es r arbitrary: air r' lg t rule: radio_run.induct)
  case (1 r)
  then show ?case by (auto simp: air_slots_def)
next
  case (2 frame priority es r)
  have "vr_duty (snd (virtual_send frame priority r)) = vr_duty r"
    by (simp add: virtual_send_def Let_def case_prod_beta)
  then show ?case using "2.IH" [of air r' lg t] "2.prems" by simp
next
  case (3 on es r)
  then show ?case using "3.IH" [of air r' lg t] by (simp add: setPowered_def)
next
  case (4 now es r)
  obtain air1 r1 where tick: "virtual_tick now r = (air1, r1)" by fastforce
  obtain air2 r2 where rest: "radio_run es r1 = (air2, r2)" by fastforce
  have res: "air = air1 @ air2" "r' = r2" using "4.prems"(1) tick rest by auto
  have inv: "duty_inv (vr_duty r1) (lg @ air_slots air1) (unat now) \<and> duty_sane (vr_duty r1)
      \<and> budget_us (vr_duty r1) = budget_us (vr_duty r) \<and> duty_window (vr_duty r1) = duty_window (vr_duty r)"
  proof (cases "vr_powered r")
    case True
    then obtain q where "transmit_loop (airtimeUsFor (vr_params r)) now (vr_duty r) (vr_queue r) = (air1, vr_duty r1, q)"
      using tick by (auto simp: virtual_tick_def Let_def split: prod.splits)
    from transmit_loop_inv [OF this "4.prems"(2,3)] "4.prems"(2,4,5) show ?thesis
      using duty_inv_later [of "vr_duty r" lg t "unat now"] by (auto simp: air_slots_def)
  next
    case False
    then show ?thesis
      using tick "4.prems" duty_inv_later [of "vr_duty r" lg t "unat now"]
      by (auto simp: virtual_tick_def Let_def air_slots_def)
  qed
  then show ?case
    using "4.IH" [OF tick [symmetric] refl rest, of "lg @ air_slots air1" "unat now"] "4.prems"(4,5) res by auto
qed

lemma duty_new_inv: "duty_inv (duty_new p w) [] 0"
  by (simp add: duty_inv_def duty_new_def airtime_in_window_def)

text \<open>
  The regulatory limit holds in every window: whatever is handed in, whenever the loop ticks (times not
  going back) and however the power is switched, the airtime of everything the radio ever put on the air within any
  sliding window of the configured length stays within the configured percentage of it.
\<close>

theorem duty_cycle_never_exceeded:
  assumes "radio_run es (virtual_new params) = (air, r)"
    and "unat (dutyCyclePercent params) < 100" and "unat (dutyWindowMs params) * 100000 < 2 ^ 63"
    and "sorted (tick_times es)" and "\<forall>n \<in> set (tick_times es). n < 2 ^ 63"
  shows "airtime_in_window (unat (dutyWindowMs params)) t (air_slots air)
           \<le> unat (dutyWindowMs params) * 1000 * unat (dutyCyclePercent params) div 100"
proof -
  let ?r = "virtual_new params"
  have "duty_sane (vr_duty ?r)" using assms(2,3) by (simp add: duty_sane_def virtual_new_def duty_new_def)
  moreover have "duty_inv (vr_duty ?r) [] 0" by (simp add: virtual_new_def duty_new_inv)
  ultimately obtain t' where "duty_inv (vr_duty r) (air_slots air) t'" "budget_us (vr_duty r) = budget_us (vr_duty ?r)"
      "duty_window (vr_duty r) = duty_window (vr_duty ?r)"
    using radio_run_inv [OF assms(1), of "[]" 0] assms(4,5) by auto
  then show ?thesis by (auto simp: duty_inv_def budget_us_def virtual_new_def duty_new_def)
qed

theorem duty_cycle_never_exceeded_witness:
  "airtime_in_window 3600000 5 (air_slots (fst (radio_run [Send [1] HIGH, Tick 5] (virtual_new params_default)))) \<le> 360000000"
  using duty_cycle_never_exceeded [OF prod.collapse [symmetric], of params_default "[Send [1] HIGH, Tick 5]" 5]
  by (simp add: params_default_def)

function pop_all :: "TxQueue \<Rightarrow> (Priority \<times> bytes) list" where
  "pop_all q = (case pop q of None \<Rightarrow> [] | Some (y, q') \<Rightarrow> y # pop_all q')"
  by pat_completeness auto
termination
  by (relation "measure (\<lambda>q. length (entries q))") (auto dest: pop_length)

declare pop_all.simps [simp del]

text \<open>
  The queue is a stable priority queue: frames come out highest priority first and within a priority
  in the order they were handed in, and those that do not fit the depth are the latest ones.
\<close>

theorem tx_queue_order:
  "pop_all (fold (\<lambda>(priority, frame) q. snd (push frame priority q)) frames (txqueue_new depth))
     = sort_key fst (take depth frames)"
  using tx.deq_all [of pop_all, OF pop_all.simps] tx.enqs [OF txqueue_new_ok(1), of frames depth]
  by (simp add: txqueue_new_ok)

lemma expire_loop_again:
  "expire_loop w now ss used = (ss', used') \<Longrightarrow> expire_loop w now ss' used'' = (ss', used'')"
  by (induction w now ss used rule: expire_loop.induct) (auto split: if_splits)

lemma expire_again: "expire now (expire now d) = expire now d"
proof -
  obtain ss used where l: "expire_loop (duty_window d) now (slots d) (usedUs d) = (ss, used)" by fastforce
  then show ?thesis using expire_loop_again [OF l] by (simp add: expire_def)
qed

lemma expire_frame [simp]: "duty_percent (expire now d) = duty_percent d" "duty_window (expire now d) = duty_window d"
  by (simp_all add: expire_def case_prod_beta)

lemma allows_again: "allows now a d = (ok, d') \<Longrightarrow> allows now a d' = (ok, d')"
  by (auto simp: allows_def Let_def expire_again split: if_splits)

lemma transmit_loop_order:
  assumes "transmit_loop f now d q = (air, d', q')" and "tx_ok q"
  shows "\<exists>rest. map snd (sort_key fst (tx_contents q)) = map fst air @ rest
    \<and> mset (map snd (tx_contents q')) = mset rest \<and> tx_ok q'
    \<and> (rest = [] \<or> \<not> fst (allows now (f (length (hd rest))) d'))"
  using assms
proof (induction "length (entries q)" arbitrary: d q air d' q' rule: less_induct)
  case less
  show ?case
  proof (cases "pop q")
    case None
    then show ?thesis
      using less.prems tx.deq_empty [of q] by (simp add: transmit_loop.simps [of f now d q])
  next
    case (Some r)
    obtain priority frame q1 where r: "r = ((priority, frame), q1)" by (metis prod.collapse)
    note pop = Some [unfolded r]
    have sorted: "sort_key fst (tx_contents q) = (priority, frame) # sort_key fst (tx_contents q1)"
      using tx.deq_sorted [OF less.prems(2) pop] .
    have ok1: "tx_ok q1" "tx_depth q1 = tx_depth q" using tx.deq_law [OF less.prems(2) pop] by auto
    obtain ok d1 where al: "allows now (f (length frame)) d = (ok, d1)" by fastforce
    show ?thesis
    proof (cases ok)
      case False
      obtain b q2 where p: "push frame priority q1 = (b, q2)" by fastforce
      have "length (tx_contents q1) < tx_depth q1"
        using pop_length [OF pop] less.prems(2) ok1(2) by (simp add: tx_contents_def tx_ok_def)
      then have q2: "tx_ok q2" "tx_contents q2 = tx_contents q1 @ [(priority, frame)]"
        using tx.enq_law [OF ok1(1) p] by auto
      have "air = []" "d' = d1" "q' = q2"
        using less.prems(1) Some r al False p by (auto simp: transmit_loop.simps [of f now d q])
      then show ?thesis
        using q2 sorted allows_again [OF al] False
        by (intro exI [of _ "map snd (sort_key fst (tx_contents q))"]) simp
    next
      case True
      obtain air2 d2 q2 where rest: "transmit_loop f now (duty_record now (f (length frame)) d1) q1 = (air2, d2, q2)"
        by (metis prod.collapse)
      have "map fst air = frame # map fst air2" "d' = d2" "q' = q2"
        using less.prems(1) Some r al True rest by (auto simp: transmit_loop.simps [of f now d q])
      then show ?thesis
        using less.hyps [OF pop_length [OF pop] rest ok1(1)] sorted by auto
    qed
  qed
qed

text \<open>
  A tick of a powered radio loses nothing and reorders nothing: it puts on the air, in queue order,
  an initial part of what was queued; exactly the rest stays queued, and something stays only if the duty cycle refuses the
  next frame at that time.
\<close>

theorem tick_transmits_in_order:
  assumes "tx_ok (vr_queue r)" and "vr_powered r" and "virtual_tick now r = (air, r')"
  shows "\<exists>rest. map snd (sort_key fst (tx_contents (vr_queue r))) = map fst air @ rest
    \<and> mset (map snd (tx_contents (vr_queue r'))) = mset rest \<and> tx_ok (vr_queue r')
    \<and> (rest = [] \<or> \<not> fst (allows now (airtimeUsFor (vr_params r) (length (hd rest))) (vr_duty r')))"
proof -
  have "transmit_loop (airtimeUsFor (vr_params r)) now (vr_duty r) (vr_queue r) = (air, vr_duty r', vr_queue r')"
    using assms(2,3) by (auto simp: virtual_tick_def Let_def split: prod.splits)
  from transmit_loop_order [OF this assms(1)] show ?thesis .
qed

theorem tick_transmits_in_order_witness:
  "\<exists>rest. [[2], [1]] = map fst (fst (virtual_tick 5
      (virtual_new params_default\<lparr>vr_queue := snd (push [2] HIGH (snd (push [1] LOW (txqueue_new 16))))\<rparr>))) @ rest"
proof -
  let ?q = "snd (push [2] HIGH (snd (push [1] LOW (txqueue_new 16))))"
  let ?r = "virtual_new params_default\<lparr>vr_queue := ?q\<rparr>"
  have "tx_ok ?q" "tx_contents ?q = [(LOW, [1]), (HIGH, [2])]"
    by (simp_all add: push_def txqueue_new_def tx_ok_def tx_contents_def)
  moreover have "sort_key fst [(LOW, [1]), (HIGH, [2 :: byte])] = [(HIGH, [2]), (LOW, [1])]"
    by (simp add: less_eq_Priority_def)
  ultimately show ?thesis
    using tick_transmits_in_order [of ?r 5, OF _ _ prod.collapse [symmetric]] by (auto simp: virtual_new_def)
qed

text \<open>
  A frame the duty cycle refused does not keep its place: it is put back with a fresh sequence number, so
  any frame of its own priority that was queued behind it goes out first. (The queue's comment says it
  belongs where it was.)
\<close>

theorem refused_frame_goes_last:
  assumes "tx_ok q" and "pop q = Some ((priority, frame), q1)" and "push frame priority q1 = (ok, q2)"
    and "priority \<in> fst ` set (tx_contents q1)"
  shows "ok \<and> (\<exists>q3. pop q2 = Some (hd (sort_key fst (tx_contents q1)), q3)
       \<and> (priority, frame) \<in> set (tx_contents q3))"
proof -
  obtain pre post where c: "tx_contents q = pre @ (priority, frame) # post" "tx_contents q1 = pre @ post"
      "\<forall>z \<in> set pre. priority < fst z" "\<forall>z \<in> set post. priority \<le> fst z"
    and ok1: "tx_ok q1" "tx_depth q1 = tx_depth q" using tx.deq_law [OF assms(1,2)] by auto
  have "length (tx_contents q1) < tx_depth q1"
    using pop_length [OF assms(2)] assms(1) ok1(2) by (simp add: tx_contents_def tx_ok_def)
  then have q2: ok "tx_ok q2" "tx_contents q2 = tx_contents q1 @ [(priority, frame)]"
    using tx.enq_law [OF ok1(1) assms(3)] by auto
  obtain y q3 where y: "pop q2 = Some (y, q3)" using tx.deq_empty [OF q2(2)] q2(3) by (cases "pop q2") auto
  obtain pre2 post2 where d: "tx_contents q2 = pre2 @ y # post2" "tx_contents q3 = pre2 @ post2"
      "\<forall>z \<in> set pre2. fst y < fst z" "\<forall>z \<in> set post2. fst y \<le> fst z" using tx.deq_law [OF q2(2) y] by auto
  obtain z where z: "z \<in> set (tx_contents q1)" "fst z = priority" using assms(4) by auto
  have last: "post2 \<noteq> []"
  proof
    assume "post2 = []"
    then have "pre2 = tx_contents q1" "y = (priority, frame)" using d(1) q2(3) by auto
    then show False using d(3) z by auto
  qed
  then have p2: "post2 = butlast post2 @ [(priority, frame)]"
    using d(1) q2(3) by (metis append_butlast_last_id last_appendR last.simps last_snoc list.discI)
  then have "tx_contents q1 = pre2 @ y # butlast post2"
    using d(1) q2(3) by (metis append.assoc append_Cons append_same_eq)
  moreover from this have "sort_key fst (tx_contents q1) = y # sort_key fst (pre2 @ butlast post2)"
    using d(3,4) p2 by (auto intro!: tx.sort_key_front dest: in_set_butlastD)
  moreover have "(priority, frame) \<in> set (tx_contents q3)" using p2 d(2) by (metis UnCI in_set_conv_decomp set_append)
  ultimately show ?thesis using q2(1) y by simp
qed

theorem refused_frame_goes_last_witness:
  "\<exists>q3. pop (snd (push [1] NORMAL (the (map_option snd (pop
      (snd (push [2] NORMAL (snd (push [1] NORMAL (txqueue_new 16))))))))))
     = Some ((NORMAL, [2]), q3)"
proof -
  let ?q = "snd (push [2] NORMAL (snd (push [1] NORMAL (txqueue_new 16))))"
  let ?q1 = "\<lparr>tx_depth = 16, tx_sequence = 2, entries = [\<lparr>entry_priority = NORMAL, entry_sequence = 1, entry_frame = [2]\<rparr>]\<rparr>"
  have ok: "tx_ok ?q" by (simp add: push_def txqueue_new_def tx_ok_def)
  have pop: "pop ?q = Some ((NORMAL, [1]), ?q1)"
    by (simp add: pop_def push_def txqueue_new_def best_entry_def goes_before_def)
  have "NORMAL \<in> fst ` set (tx_contents ?q1)" by (simp add: tx_contents_def)
  from refused_frame_goes_last [OF ok pop prod.collapse [symmetric] this] show ?thesis
    using pop by (auto simp: tx_contents_def)
qed


section \<open>The medium\<close>

definition medium_new :: Medium where
  "medium_new = \<lparr>nodes = 0, visible = []\<rparr>"

definition medium_ok :: "Medium \<Rightarrow> bool" where
  "medium_ok m \<longleftrightarrow> length (visible m) = nodes m \<and> (\<forall>row \<in> set (visible m). length row = nodes m)
     \<and> (\<forall>a < nodes m. \<forall>b < nodes m. visible m ! a ! b = visible m ! b ! a)"

lemma set_visible_nth:
  assumes "length (visible m) = nodes m" and "\<forall>row \<in> set (visible m). length row = nodes m"
    and "a < nodes m" "b < nodes m" "i < nodes m" "j < nodes m"
  shows "visible (set_visible a b v m) ! i ! j = (if i = a \<and> j = b then v else visible m ! i ! j)"
proof -
  have "length (visible m ! a) = nodes m" using assms by simp
  then show ?thesis using assms by (simp add: set_visible_def nth_list_update)
qed

lemma set_visible_shape:
  assumes "length (visible m) = nodes m" and "\<forall>row \<in> set (visible m). length row = nodes m" and "a < nodes m"
  shows "length (visible (set_visible a b v m)) = nodes m" and "nodes (set_visible a b v m) = nodes m"
    and "\<forall>row \<in> set (visible (set_visible a b v m)). length row = nodes m"
  using assms by (auto simp: set_visible_def dest!: set_update_subset_insert [THEN subsetD])

lemma link_ok:
  assumes "medium_ok m" and "a < nodes m" and "b < nodes m" and "m' = set_visible b a v (set_visible a b v m)"
  shows "medium_ok m' \<and> nodes m' = nodes m \<and> (\<forall>i < nodes m. \<forall>j < nodes m.
     visible m' ! i ! j = (if {i, j} = {a, b} then v else visible m ! i ! j))"
proof -
  have ok: "length (visible m) = nodes m" "\<forall>row \<in> set (visible m). length row = nodes m"
    and sym: "\<And>i j. i < nodes m \<Longrightarrow> j < nodes m \<Longrightarrow> visible m ! i ! j = visible m ! j ! i"
    using assms(1) unfolding medium_ok_def by blast+
  let ?m1 = "set_visible a b v m"
  have s1: "length (visible ?m1) = nodes ?m1" "\<forall>row \<in> set (visible ?m1). length row = nodes ?m1" "nodes ?m1 = nodes m"
    using set_visible_shape [OF ok assms(2), of b v] by (simp_all only:)
  have shape: "length (visible m') = nodes m" "nodes m' = nodes m" "\<forall>row \<in> set (visible m'). length row = nodes m"
    using set_visible_shape [OF s1(1,2), of b a v, unfolded s1(3), OF assms(3)] unfolding assms(4) by blast+
  have new: "visible m' ! i ! j = (if {i, j} = {a, b} then v else visible m ! i ! j)" if "i < nodes m" "j < nodes m" for i j
  proof -
    have "visible ?m1 ! i ! j = (if i = a \<and> j = b then v else visible m ! i ! j)"
      by (rule set_visible_nth [OF ok assms(2,3) that])
    moreover have "visible m' ! i ! j = (if i = b \<and> j = a then v else visible ?m1 ! i ! j)"
      using set_visible_nth [OF s1(1,2), unfolded s1(3), OF assms(3,2) that, of v] unfolding assms(4) .
    moreover have "{i, j} = {a, b} \<longleftrightarrow> i = a \<and> j = b \<or> i = b \<and> j = a" by (simp add: doubleton_eq_iff)
    ultimately show ?thesis by presburger
  qed
  have "visible m' ! i ! j = visible m' ! j ! i" if "i < nodes m" "j < nodes m" for i j
    using new [OF that] new [OF that(2,1)] sym [OF that] by (simp add: insert_commute)
  then show ?thesis using shape new by (simp add: medium_ok_def)
qed

lemma attach_ok:
  assumes "medium_ok m" and "attach m = (i, m')"
  shows "medium_ok m' \<and> i = nodes m \<and> nodes m' = Suc (nodes m) \<and> (\<forall>a \<le> nodes m. \<forall>b \<le> nodes m.
     visible m' ! a ! b = (if a < nodes m \<and> b < nodes m then visible m ! a ! b else False))"
proof -
  have ok: "length (visible m) = nodes m" "\<forall>row \<in> set (visible m). length row = nodes m"
    and sym: "\<And>i j. i < nodes m \<Longrightarrow> j < nodes m \<Longrightarrow> visible m ! i ! j = visible m ! j ! i"
    using assms(1) unfolding medium_ok_def by blast+
  have v: "visible m' = map (\<lambda>row. row @ [False]) (visible m) @ [replicate (Suc (nodes m)) False]"
    and n: "nodes m' = Suc (nodes m)" "i = nodes m"
    using assms(2) ok by (auto simp: attach_def resize_list_def Let_def)
  have new: "visible m' ! a ! b = (if a < nodes m \<and> b < nodes m then visible m ! a ! b else False)"
    if "a \<le> nodes m" "b \<le> nodes m" for a b
  proof (cases "a < nodes m")
    case True
    then have "visible m ! a \<in> set (visible m)" using ok(1) by simp
    then have "length (visible m ! a) = nodes m" using ok(2) by blast
    then show ?thesis using True ok(1) that by (simp add: v nth_append)
  next
    case False
    then show ?thesis using ok(1) that by (simp add: v nth_append del: replicate.simps)
  qed
  have "visible m' ! a ! b = visible m' ! b ! a" if "a \<le> nodes m" "b \<le> nodes m" for a b
    using new [OF that] new [OF that(2,1)] sym [of a b] by auto
  then have "medium_ok m'" using ok v n by (auto simp: medium_ok_def less_Suc_eq_le)
  then show ?thesis using new n by blast
qed

text \<open>
  The shared air is symmetric and exact: attaching a node (which nobody hears yet), linking and
  unlinking keep a square symmetric matrix, change only the pair they name, and a broadcast reaches exactly the other
  nodes that hear the speaker.
\<close>

theorem medium_symmetric:
  assumes "medium_ok m" and "a < nodes m" and "b < nodes m"
  shows "medium_ok (snd (attach m)) \<and> medium_ok (link a b m) \<and> medium_ok (unlink a b m)
    \<and> hears a b (link a b m) \<and> hears b a (link a b m) \<and> \<not> hears a b (unlink a b m) \<and> \<not> hears b a (unlink a b m)
    \<and> (\<forall>i < nodes m. \<forall>j < nodes m. {i, j} \<noteq> {a, b} \<longrightarrow>
          hears i j (link a b m) = hears i j m \<and> hears i j (unlink a b m) = hears i j m)
    \<and> hears a b m = hears b a m
    \<and> set (broadcast_targets a m) = {t. t < nodes m \<and> t \<noteq> a \<and> hears t a m}"
proof -
  have "medium_ok (snd (attach m))" using attach_ok [OF assms(1) prod.collapse [symmetric]] by blast
  moreover have "hears a b m = hears b a m" using assms unfolding medium_ok_def hears_def by blast
  moreover have "set (broadcast_targets a m) = {t. t < nodes m \<and> t \<noteq> a \<and> hears t a m}"
    by (auto simp: broadcast_targets_def hears_def)
  moreover have L: "medium_ok (link a b m)" "\<forall>i < nodes m. \<forall>j < nodes m.
      visible (link a b m) ! i ! j = (if {i, j} = {a, b} then True else visible m ! i ! j)"
    using link_ok [OF assms link_def] by blast+
  moreover have U: "medium_ok (unlink a b m)" "\<forall>i < nodes m. \<forall>j < nodes m.
      visible (unlink a b m) ! i ! j = (if {i, j} = {a, b} then False else visible m ! i ! j)"
    using link_ok [OF assms unlink_def] by blast+
  moreover have "hears a b (link a b m)" "hears b a (link a b m)" "\<not> hears a b (unlink a b m)" "\<not> hears b a (unlink a b m)"
    using L(2) U(2) assms(2,3) by (simp_all add: hears_def insert_commute)
  moreover have "\<forall>i < nodes m. \<forall>j < nodes m. {i, j} \<noteq> {a, b} \<longrightarrow>
          hears i j (link a b m) = hears i j m \<and> hears i j (unlink a b m) = hears i j m"
    using L(2) U(2) by (simp add: hears_def insert_commute)
  ultimately show ?thesis by blast
qed

theorem medium_symmetric_witness:
  "hears 1 0 (link 0 1 (snd (attach (snd (attach medium_new)))))"
proof -
  have "medium_ok medium_new" by (simp add: medium_ok_def medium_new_def)
  then have "medium_ok (snd (attach (snd (attach medium_new))))" "nodes (snd (attach (snd (attach medium_new)))) = 2"
    using attach_ok [OF _ prod.collapse [symmetric]] by (metis, simp add: attach_def Let_def medium_new_def)
  then show ?thesis using medium_symmetric [of "snd (attach (snd (attach medium_new)))" 0 1] by simp
qed

section \<open>Replay\<close>

lemma replay_tick_spec:
  "replay_tick now r = (ds, r') \<Longrightarrow>
     ds = map (\<lambda>c. (cap_frame c, cap_meta c)) (takeWhile (\<lambda>c. cap_at c \<le> now) (drop (replay_next r) (captures r)))
     \<and> r' = r\<lparr>replay_next := replay_next r + length ds\<rparr>"
proof (induction now r arbitrary: ds r' rule: replay_tick.induct)
  case (1 now r)
  show ?case
  proof (cases "replay_next r < length (captures r)")
    case True
    then have d: "drop (replay_next r) (captures r) = captures r ! replay_next r # drop (Suc (replay_next r)) (captures r)"
      by (simp add: Cons_nth_drop_Suc)
    obtain ds2 r2 where t: "replay_tick now (r\<lparr>replay_next := replay_next r + 1\<rparr>) = (ds2, r2)" by fastforce
    show ?thesis
    proof (cases "cap_at (captures r ! replay_next r) \<le> now")
      case True
      note IH = "1.IH" [OF _ refl t]
      show ?thesis
        using IH "1.prems" True \<open>replay_next r < length (captures r)\<close> t
        by (auto simp: replay_tick.simps [of now r] d Let_def)
    next
      case False
      then show ?thesis using "1.prems" d by (auto simp: replay_tick.simps [of now r])
    qed
  qed (use "1.prems" in \<open>simp add: replay_tick.simps [of now r]\<close>)
qed

fun replay_run :: "Millis list \<Rightarrow> ReplayRadio \<Rightarrow> (bytes \<times> RxMeta) list \<times> ReplayRadio" where
  "replay_run [] r = ([], r)"
| "replay_run (now # ts) r =
     (let (ds, r) = replay_tick now r; (later, r) = replay_run ts r in (ds @ later, r))"


lemma takeWhile_later:
  "(\<And>x. P x \<Longrightarrow> Q x) \<Longrightarrow> takeWhile P xs @ takeWhile Q (drop (length (takeWhile P xs)) xs) = takeWhile Q xs"
  by (induction xs) auto

lemma replay_run_spec:
  assumes "replay_run ts r = (ds, r')" and "sorted ts" and "ts \<noteq> []"
  shows "ds = map (\<lambda>c. (cap_frame c, cap_meta c)) (takeWhile (\<lambda>c. cap_at c \<le> last ts) (drop (replay_next r) (captures r)))
     \<and> r' = r\<lparr>replay_next := replay_next r + length ds\<rparr>"
  using assms
proof (induction ts arbitrary: r ds r')
  case (Cons now ts)
  obtain ds1 r1 where t: "replay_tick now r = (ds1, r1)" by fastforce
  obtain ds2 r2 where u: "replay_run ts r1 = (ds2, r2)" by fastforce
  note spec = replay_tick_spec [OF t]
  have res: "ds = ds1 @ ds2" "r' = r2" using Cons.prems(1) t u by auto
  show ?case
  proof (cases "ts = []")
    case True
    then show ?thesis using spec res u by simp
  next
    case False
    then have now: "now \<le> last ts" using Cons.prems(2) by simp
    let ?rest = "drop (replay_next r) (captures r)"
    have "takeWhile (\<lambda>c. cap_at c \<le> now) ?rest
        @ takeWhile (\<lambda>c. cap_at c \<le> last ts) (drop (length (takeWhile (\<lambda>c. cap_at c \<le> now) ?rest)) ?rest)
      = takeWhile (\<lambda>c. cap_at c \<le> last ts) ?rest"
      using now by (intro takeWhile_later) (rule order_trans)
    moreover define n where "n = length (takeWhile (\<lambda>c. cap_at c \<le> now) ?rest)"
    ultimately have tw: "takeWhile (\<lambda>c. cap_at c \<le> now) ?rest @ takeWhile (\<lambda>c. cap_at c \<le> last ts) (drop n ?rest)
      = takeWhile (\<lambda>c. cap_at c \<le> last ts) ?rest" by blast
    have "r1 = r\<lparr>replay_next := replay_next r + n\<rparr>" using spec by (simp add: n_def)
    moreover have "ds2 = map (\<lambda>c. (cap_frame c, cap_meta c)) (takeWhile (\<lambda>c. cap_at c \<le> last ts) (drop n ?rest))"
      "r2 = r1\<lparr>replay_next := replay_next r1 + length ds2\<rparr>"
      using Cons.IH [OF u _ False] Cons.prems(2) calculation by (simp_all add: add.commute)
    moreover from this(1) have ds: "ds = map (\<lambda>c. (cap_frame c, cap_meta c)) (takeWhile (\<lambda>c. cap_at c \<le> last ts) ?rest)"
      using res(1) spec by (simp flip: tw)
    moreover have "length ds = n + length ds2" using res(1) spec by (simp add: n_def)
    ultimately show ?thesis using res(2) False by simp
  qed
qed simp

text \<open>
  A replay is faithful: however the clock ticks forward, what reached the sink up to then is exactly the
  captures due by the last tick, each once, in the order of their times (ties in capture order).
\<close>

theorem replay_delivers_due:
  assumes "replay_run ts (replay_new cs) = (ds, r)" and "sorted ts" and "ts \<noteq> []"
  shows "ds = map (\<lambda>c. (cap_frame c, cap_meta c)) (sort_key cap_at (filter (\<lambda>c. cap_at c \<le> last ts) cs))
    \<and> (finished r \<longleftrightarrow> (\<forall>c \<in> set cs. cap_at c \<le> last ts))"
proof -
  have tw: "takeWhile (\<lambda>c. cap_at c \<le> t) xs = filter (\<lambda>c. cap_at c \<le> t) xs" if "sorted (map cap_at xs)"
    for t and xs :: "Capture list"
    using that by (induction xs) (auto intro!: filter_False [symmetric] intro: order_trans)
  have f: "takeWhile (\<lambda>c. cap_at c \<le> last ts) (sort_key cap_at cs) = sort_key cap_at (filter (\<lambda>c. cap_at c \<le> last ts) cs)"
    by (simp add: tw filter_sort)
  have "length (filter (\<lambda>c. cap_at c \<le> last ts) cs) \<ge> length cs \<longleftrightarrow> (\<forall>c \<in> set cs. cap_at c \<le> last ts)"
    by (metis (mono_tags, lifting) filter_id_conv length_filter_less linorder_not_less order_refl)
  then show ?thesis
    using replay_run_spec [OF assms] f by (auto simp: replay_new_def finished_def)
qed

theorem replay_delivers_due_witness:
  "fst (replay_run [3, 9] (replay_new [\<lparr>cap_at = 8, cap_frame = [2], cap_meta = rxmeta_init\<rparr>,
       \<lparr>cap_at = 1, cap_frame = [1], cap_meta = rxmeta_init\<rparr>]))
     = [([1], rxmeta_init), ([2], rxmeta_init)]"
proof -
  have "sorted [3, 9 :: Millis]" by simp
  moreover have "\<not> (8 :: Millis) \<le> 1" by (simp add: word_le_nat_alt)
  ultimately show ?thesis
    using replay_delivers_due [OF prod.collapse [symmetric], of "[3, 9]"] by (simp del: replay_run.simps)
qed

section \<open>Airtime in whole symbols\<close>

text \<open>Rounding a quotient up as the code does, and in integers.\<close>

lemma ceiling_quotient:
  assumes "0 < (d :: int)" "- d < n"
  shows "(if \<lceil>of_int n / (of_int d :: rat)\<rceil> < 0 then 0 else \<lceil>of_int n / (of_int d :: rat)\<rceil>) = ((if n < 0 then 0 else n) + (d - 1)) div d"
proof -
  have c: "\<lceil>of_int n / (of_int d :: rat)\<rceil> = - ((- n) div d)" by (simp add: ceiling_divide_eq_div)
  show ?thesis
  proof (cases "n < 0")
    case True
    then have "(- n) div d = 0" using assms by (intro div_pos_pos_trivial) auto
    then show ?thesis using True assms(1) c by simp
  next
    case False
    have r: "0 \<le> n mod d" "n mod d < d" using assms(1) by simp_all
    have e: "(n + (d - 1)) div d = n div d + (n mod d + (d - 1)) div d"
    proof -
      have "(d - 1) mod d = d - 1" by (rule mod_pos_pos_trivial) (use assms(1) in simp_all)
      moreover have "(d - 1) div d = 0" by (rule div_pos_pos_trivial) (use assms(1) in simp_all)
      ultimately show ?thesis using div_add1_eq [of n "d - 1" d] by (simp only: add_0_right)
    qed
    have "(x + (d - 1)) div d = (if x = 0 then 0 else 1)" if "0 \<le> x" "x < d" for x
    proof (cases "x = 0")
      case True
      then show ?thesis using assms(1) by (simp add: div_pos_pos_trivial)
    next
      case False
      then show ?thesis using that by (intro trans [OF int_div_pos_eq [of _ d 1 "x - 1"]]) auto
    qed
    from this [OF r] have "- ((- n) div d) = (n + (d - 1)) div d" unfolding e using assms(1) by (simp add: zdiv_zminus1_eq_if)
    moreover have "0 \<le> (n + (d - 1)) div d" using False assms(1) by (simp add: pos_imp_zdiv_nonneg_iff)
    ultimately show ?thesis using False c by simp
  qed
qed

text \<open>Symbols of the coded payload, and quarters of a symbol of a frame.\<close>

definition coded_symbols :: "int \<Rightarrow> bool \<Rightarrow> int \<Rightarrow> int" where
  "coded_symbols sf low len =
     (let n = 8 * len - 4 * sf + 44; d = 4 * (sf - (if low then 2 else 0)) in ((if n < 0 then 0 else n) + (d - 1)) div d)"

definition symbols_x4 :: "int \<Rightarrow> bool \<Rightarrow> int \<Rightarrow> int \<Rightarrow> int \<Rightarrow> int" where
  "symbols_x4 sf low pre cr len = (pre + 8) * 4 + 17 + coded_symbols sf low len * cr * 4"

lemma coded_symbols_bounds:
  assumes "5 \<le> sf" "sf \<le> 12" "0 \<le> len" "len \<le> 255"
  shows "0 \<le> coded_symbols sf low len" "coded_symbols sf low len \<le> 175"
proof -
  define n where "n = (if 8 * len - 4 * sf + 44 < 0 then 0 else 8 * len - 4 * sf + 44)"
  define d where "d = 4 * (sf - (if low then 2 else 0))"
  have d: "12 \<le> d" "d \<le> 48" using assms(1,2) by (auto simp: d_def)
  have n: "0 \<le> n" "n \<le> 2064" using assms by (auto simp: n_def)
  have c: "coded_symbols sf low len = (n + (d - 1)) div d" unfolding coded_symbols_def Let_def n_def d_def by (rule refl)
  show "0 \<le> coded_symbols sf low len" unfolding c using n d by (simp add: pos_imp_zdiv_nonneg_iff)
  have "(n + (d - 1)) div d \<le> (n + (d - 1)) div 12" by (rule zdiv_mono2) (use n d in auto)
  also have "\<dots> \<le> 2111 div 12" by (rule zdiv_mono1) (use n d in auto)
  finally show "coded_symbols sf low len \<le> 175" unfolding c by simp
qed

text \<open>
  Where a symbol is a whole number of microseconds every step of the computation is exact but the quotient, and that keeps its
  ceiling: the result is the number of quarter symbols times the length of one.
\<close>

lemma airtime_whole_symbols:
  assumes "symbolUs params = of_int K" "0 \<le> K" "K < 2 ^ 20" "5 \<le> uint (spreadingFactor params)" "uint (spreadingFactor params) \<le> 12" "len \<le> 255"
  shows "airtimeUsFor params len = of_int (K * symbols_x4 (uint (spreadingFactor params)) (K > 16000) (uint (preambleSymbols params))
    (uint (codingRate params)) (int len) div 4)"
proof -
  define S L P C where "S = uint (spreadingFactor params)" and "L \<longleftrightarrow> K > 16000" and "P = uint (preambleSymbols params)"
    and "C = uint (codingRate params)"
  define n d X where "n = 8 * int len - 4 * S + 44" and "d = 4 * (S - (if L then 2 else 0))" and "X = coded_symbols S L (int len)"
  have b: "0 \<le> P" "P < 256" "0 \<le> C" "C < 256" "5 \<le> S" "S \<le> 12"
    using uint_bounded [of "preambleSymbols params"] uint_bounded [of "codingRate params"] assms(4,5)
    by (simp_all add: P_def C_def S_def)
  have X: "0 \<le> X" "X \<le> 175" using coded_symbols_bounds [of S "int len" L] b assms(6) by (simp_all add: X_def)
  have low: "(of_int K :: rat) > 16000 \<longleftrightarrow> L" by (simp add: L_def)
  have l: "(if L then 1 else 0) = (of_int (if L then 1 else 0) :: rat)" by simp
  have fw: "float64 (of_int m) = of_int m" if "\<bar>m\<bar> < 2 ^ 50" for m using that by (intro float_whole) simp
  have num: "float64 (float64 (float64 (float64 (8 * float64 (of_nat len)) - float64 (4 * of_int S)) + 28) + 16) = (of_int n :: rat)"
    using fw [of "int len"] fw [of "8 * int len"] fw [of "4 * S"] fw [of "8 * int len - 4 * S"] fw [of "8 * int len - 4 * S + 28"] fw [of n] b assms(6)
    by (simp add: n_def add.assoc)
  have den: "float64 (4 * float64 (of_int S - float64 (2 * (if L then 1 else 0)))) = (of_int d :: rat)"
    using fw [of 2] fw [of 0] fw [of S] fw [of "S - 2"] fw [of "4 * S"] fw [of "4 * (S - 2)"] b by (cases L) (simp_all add: d_def)
  have nd: "0 < d" "- d < n" "d < 2 ^ 8" "\<bar>n\<bar> < 2 ^ 20" using b assms(6) by (auto simp: d_def n_def)
  let ?c = "\<lceil>of_int n / (of_int d :: rat)\<rceil>"
  have c: "(if ?c < 0 then 0 else ?c) = X" using ceiling_quotient [OF nd(1,2)] unfolding X_def coded_symbols_def Let_def n_def d_def .
  have "of_int (- d) < (of_int n :: rat)" using nd(2) by (simp only: of_int_less_iff)
  then have "-1 < of_int n / (of_int d :: rat)" using nd(1) by (simp add: field_simps)
  then have c0: "0 \<le> ?c" by linarith
  then have cX: "?c = X" using c by simp
  have XC: "0 \<le> X * C" "X * C \<le> 175 * 255" using X b mult_mono [OF X(2), of C 255] by simp_all
  have pay: "float64 (of_int \<lceil>float64 (of_int n / of_int d)\<rceil> * of_int C) = (of_int (X * C) :: rat)"
    unfolding ceiling_float_quotient [OF nd(1,3,4)] cX using fw [of "X * C"] XC by simp
  have nn: "(if of_int (X * C) < (0 :: rat) then 0 else of_int (X * C)) = (of_int (X * C) :: rat)" using XC(1) by (simp add: of_int_less_0_iff [of "X * C", where 'a = rat] del: of_int_mult)
  have pay8: "float64 (of_int (X * C) + 8) = (of_int (X * C + 8) :: rat)" using fw [of "X * C + 8"] XC by simp
  have fq: "float64 (of_int m / 4) = of_int m / 4" if "\<bar>m\<bar> < 2 ^ 50" for m using that by (intro float_quarters) simp
  have pre: "float64 (of_int P + 17 / 4) = (of_int (4 * P + 17) / 4 :: rat)" using fq [of "4 * P + 17"] b by (simp add: add_divide_distrib)
  have q1: "0 \<le> (4 * P + 17) * K" "(4 * P + 17) * K \<le> 1037 * 2 ^ 20" using b assms(2,3) mult_mono [of "4 * P + 17" 1037 K "2 ^ 20"] by simp_all
  have preU: "float64 (of_int (4 * P + 17) / 4 * of_int K) = (of_int ((4 * P + 17) * K) / 4 :: rat)" using fq [of "(4 * P + 17) * K"] q1 by simp
  have q2: "0 \<le> (X * C + 8) * K" "(X * C + 8) * K \<le> (175 * 255 + 8) * 2 ^ 20" using XC assms(2,3) mult_mono [of "X * C + 8" "175 * 255 + 8" K "2 ^ 20"] by simp_all
  have payU: "float64 (of_int (X * C + 8) * of_int K) = (of_int ((X * C + 8) * K) :: rat)" using fw [of "(X * C + 8) * K"] q2 by simp
  have e: "(4 * P + 17) * K + 4 * ((X * C + 8) * K) = K * symbols_x4 S L P C (int len)" by (simp add: symbols_x4_def X_def algebra_simps)
  have "of_int ((4 * P + 17) * K) / 4 + of_int ((X * C + 8) * K) = (of_int (K * symbols_x4 S L P C (int len)) / 4 :: rat)"
    unfolding e [symmetric] by (simp add: add_divide_distrib)
  moreover have "float64 (of_int (K * symbols_x4 S L P C (int len)) / 4) = (of_int (K * symbols_x4 S L P C (int len)) / 4 :: rat)"
    unfolding e [symmetric] using q1 q2 by (intro fq) simp
  ultimately have "airtimeUsFor params len = of_int (ftrunc (of_int (K * symbols_x4 S L P C (int len)) / 4))"
    unfolding airtimeUsFor_def Let_def assms(1) low S_def [symmetric] P_def [symmetric] C_def [symmetric] num den pay nn pay8 pre preU payU by (simp only:)
  also have "ftrunc (of_int (K * symbols_x4 S L P C (int len)) / 4) = K * symbols_x4 S L P C (int len) div 4"
  proof -
    have "0 \<le> K * symbols_x4 S L P C (int len)" using q1 q2 e by linarith
    then have "\<not> of_int (K * symbols_x4 S L P C (int len)) / 4 < (0 :: rat)" by (simp add: of_int_0_le_iff [where 'a = rat, symmetric] not_less del: of_int_mult of_int_0_le_iff)
    then show ?thesis using floor_divide_of_int_eq [of "K * symbols_x4 S L P C (int len)" 4, where 'a = rat] by (simp add: ftrunc_def)
  qed
  finally show ?thesis by (simp only: S_def L_def P_def C_def)
qed

lemma symbolUs_whole:
  assumes "of_int (uint (bandwidthHz params)) = (1000000 / of_int k :: rat)" "0 < k" "k \<le> 32" "unat (spreadingFactor params) \<le> 12"
  shows "symbolUs params = of_int (k * 2 ^ unat (spreadingFactor params))"
proof -
  let ?p = "(2 :: int) ^ unat (spreadingFactor params)"
  have p: "?p \<le> 2 ^ 12" "0 < ?p" using power_increasing [OF assms(4), of "2 :: int"] by simp_all
  have "push_bit (unat (spreadingFactor params)) 1 = (of_int ?p :: u32)" by (simp add: push_bit_eq_mult)
  then have u: "uint (push_bit (unat (spreadingFactor params)) 1 :: u32) = ?p" using p by (simp add: uint_word_of_int del: of_int_power)
  have k: "0 < k * ?p" "k * ?p \<le> 32 * 2 ^ 12" using assms(2) p(2) mult_mono [OF assms(3) p(1)] by simp_all
  have "float64 (of_int (?p * 1000000)) = of_int (?p * 1000000)" using p by (intro float_whole) simp
  moreover have "float64 (of_int (k * ?p)) = of_int (k * ?p)" using k by (intro float_whole) simp
  moreover have "of_int (?p * 1000000) / (1000000 / of_int k) = (of_int (k * ?p) :: rat)" using assms(2) by simp
  ultimately show ?thesis unfolding symbolUs_def assms(1) u by (simp only: of_int_mult of_int_numeral)
qed

end
