(* ===== verification/Mesh_Router.thy ===== *)
theory Mesh_Router
  imports Crypto_Protocol Identity_Store Telemetry_Bus Radio_Driver
begin

text \<open>
  \<^verbatim>\<open>src/src/routing\<close>: moving packets between the radio and the node above. The router and
  everything it holds references to (the contact store, the event bus, the radio, the delegate) form one
  \<open>world\<close>: its own fields, the store, the bus if one is attached, the log of frames handed to the radio with
  their priority, how far the random source was read, and the state \<open>'d\<close> of the layer above. The abstract class
  \<^verbatim>\<open>Delegate\<close> is a record of functions on the world, so a delegate may send from inside a
  callback as the room does. \<^verbatim>\<open>routing::Priority\<close> has the members of \<^verbatim>\<open>radio::Priority\<close>
  and shares its type.
\<close>

unbundle bit_operations_syntax

section \<open>State\<close>

record Router_RxMeta =
  rx_airtime :: Millis
  rx_snr :: int

record Router_Config =
  floodAckTimeout :: Millis
  directAckBase :: Millis
  directAckPerHop :: Millis
  maxAttempts :: byte
  forwardAirtimeFactor :: u32
  forwardJitter :: Millis
  maxPending :: nat
  maxRoutes :: nat
  seenSlots :: nat
  seenTtl :: Millis

definition router_config_default :: Router_Config where
  "router_config_default =
     \<lparr>floodAckTimeout = 12000, directAckBase = 4000, directAckPerHop = 2000, maxAttempts = 3,
      forwardAirtimeFactor = 2, forwardJitter = 400, maxPending = 32, maxRoutes = 128,
      seenSlots = 128, seenTtl = 300000\<rparr>"

record Delayed =
  del_notBefore :: Millis
  del_priority :: Priority
  del_frame :: bytes

record Pending =
  pend_id :: SendId
  pend_expectedAck :: u32
  pend_deadline :: Millis
  pend_attempts :: byte
  pend_viaFlood :: bool
  pend_to :: public_key
  pend_frame :: bytes

record Route =
  route_to :: public_key
  route_path :: bytes

record Seen =
  seen_shortHash :: u32
  seen_at :: Millis

record 'd world =
  rt_now :: Millis
  rt_nextId :: SendId
  rt_seen :: "Seen list"
  rt_seenNext :: nat
  rt_queue :: "Delayed list"
  rt_pending :: "Pending list"
  rt_routes :: "Route list"
  rt_store :: Store
  rt_bus :: "Bus option"
  rt_air :: "(bytes \<times> Priority) list"
  rt_drawn :: nat
  rt_delegate :: 'd

record 'd Delegate =
  onPayload :: "Contact \<Rightarrow> PayloadType \<Rightarrow> bytes \<Rightarrow> 'd world \<Rightarrow> 'd world"
  onAnon :: "public_key \<Rightarrow> bytes \<Rightarrow> 'd world \<Rightarrow> 'd world"
  keysMatching :: "byte \<Rightarrow> nat \<Rightarrow> 'd world \<Rightarrow> public_key list"
  onGroup :: "PayloadType \<Rightarrow> bytes \<Rightarrow> 'd world \<Rightarrow> 'd world"
  onTrace :: "Trace \<Rightarrow> bytes \<Rightarrow> 'd world \<Rightarrow> 'd world"
  onAck :: "SendId \<Rightarrow> 'd world \<Rightarrow> 'd world"
  onDeliveryFailed :: "SendId \<Rightarrow> 'd world \<Rightarrow> 'd world"
  shouldAck :: "PayloadType \<Rightarrow> bytes \<Rightarrow> 'd world \<Rightarrow> bool \<times> 'd world"
  delegate_shouldForward :: "Packet \<Rightarrow> 'd world \<Rightarrow> bool \<times> 'd world"

definition router_new :: "Router_Config \<Rightarrow> Store \<Rightarrow> Bus option \<Rightarrow> 'd \<Rightarrow> 'd world" where
  "router_new config store bus d =
     \<lparr>rt_now = 0, rt_nextId = 1,
      rt_seen = replicate (if seenSlots config = 0 then 1 else seenSlots config) \<lparr>seen_shortHash = 0, seen_at = 0\<rparr>,
      rt_seenNext = 0, rt_queue = [], rt_pending = [], rt_routes = [], rt_store = store, rt_bus = bus,
      rt_air = [], rt_drawn = 0, rt_delegate = d\<rparr>"

definition rt_publish :: "EventType \<Rightarrow> u32 \<Rightarrow> 'd world \<Rightarrow> 'd world" where
  "rt_publish type detail w =
     w\<lparr>rt_bus := map_option (publish type (ucast (rt_now w div 1000)) detail) (rt_bus w)\<rparr>"

section \<open>Deduplication\<close>

definition shortHashOf :: "sodium \<Rightarrow> bytes \<Rightarrow> u32" where
  "shortHashOf S frame = readUint32 (packetHash S frame) 0"

fun seen_scan :: "Millis \<Rightarrow> Millis \<Rightarrow> u32 \<Rightarrow> Seen list \<Rightarrow> bool" where
  "seen_scan ttl now key [] = False"
| "seen_scan ttl now key (entry # rest) =
     (if seen_at entry = 0 \<or> seen_shortHash entry \<noteq> key then seen_scan ttl now key rest
      else if ttl \<noteq> 0 \<and> (now + 1) - seen_at entry \<ge> ttl then False
      else True)"

definition alreadySeen :: "sodium \<Rightarrow> Router_Config \<Rightarrow> bytes \<Rightarrow> 'd world \<Rightarrow> bool" where
  "alreadySeen S config frame w = seen_scan (seenTtl config) (rt_now w) (shortHashOf S frame) (rt_seen w)"

definition rememberSeen :: "sodium \<Rightarrow> bytes \<Rightarrow> 'd world \<Rightarrow> 'd world" where
  "rememberSeen S frame w =
     w\<lparr>rt_seen := (rt_seen w)[rt_seenNext w := \<lparr>seen_shortHash = shortHashOf S frame, seen_at = rt_now w + 1\<rparr>],
       rt_seenNext := (rt_seenNext w + 1) mod length (rt_seen w)\<rparr>"

section \<open>Queueing\<close>

definition jitter :: "random_source \<Rightarrow> Router_Config \<Rightarrow> 'd world \<Rightarrow> Millis \<times> 'd world" where
  "jitter src config w =
     (if forwardJitter config = 0 then (0, w) else
      let (raw, drawn) = randomBytes src (rt_drawn w) 4
      in (ucast (readUint32 raw 0) mod forwardJitter config, w\<lparr>rt_drawn := drawn\<rparr>))"

definition queueFrame :: "bytes \<Rightarrow> Millis \<Rightarrow> Priority \<Rightarrow> 'd world \<Rightarrow> 'd world" where
  "queueFrame frame notBefore priority w =
     w\<lparr>rt_queue := rt_queue w @ [\<lparr>del_notBefore = notBefore, del_priority = priority, del_frame = frame\<rparr>]\<rparr>"

definition handToRadio :: "bytes \<Rightarrow> Priority \<Rightarrow> 'd world \<Rightarrow> 'd world" where
  "handToRadio frame priority w =
     (let w = rt_publish FrameTx (of_nat (length frame)) w in w\<lparr>rt_air := rt_air w @ [(frame, priority)]\<rparr>)"

definition transmitNow :: "sodium \<Rightarrow> bytes \<Rightarrow> Priority \<Rightarrow> 'd world \<Rightarrow> 'd world" where
  "transmitNow S frame priority w = handToRadio frame priority (rememberSeen S frame w)"

section \<open>Routes\<close>

definition findRoute :: "public_key \<Rightarrow> 'd world \<Rightarrow> nat option" where
  "findRoute dest w = find_index (\<lambda>r. route_to r = dest) (rt_routes w)"

definition route_view :: "public_key \<Rightarrow> 'd world \<Rightarrow> bytes option" where
  "route_view dest w = map_option (\<lambda>i. route_path (rt_routes w ! i)) (findRoute dest w)"

definition hasRoute :: "public_key \<Rightarrow> 'd world \<Rightarrow> bool" where
  "hasRoute dest w \<longleftrightarrow> findRoute dest w \<noteq> None"

definition erase :: "nat \<Rightarrow> 'a list \<Rightarrow> 'a list" where
  "erase i xs = take i xs @ drop (i + 1) xs"

definition forgetRoute :: "public_key \<Rightarrow> 'd world \<Rightarrow> 'd world" where
  "forgetRoute dest w =
     (case findRoute dest w of None \<Rightarrow> w | Some i \<Rightarrow> w\<lparr>rt_routes := erase i (rt_routes w)\<rparr>)"

text \<open>The bytes written to the output, none when the buffer is too small.\<close>

definition reversePath :: "bytes \<Rightarrow> nat \<Rightarrow> bytes" where
  "reversePath forward outSize =
     (if length forward > outSize then [] else map (\<lambda>i. forward ! (length forward - 1 - i)) [0..<length forward])"

definition installRoute :: "Router_Config \<Rightarrow> public_key \<Rightarrow> bytes \<Rightarrow> 'd world \<Rightarrow> 'd world" where
  "installRoute config dest p w =
     (case findRoute dest w of
        Some i \<Rightarrow> w\<lparr>rt_routes := (rt_routes w)[i := (rt_routes w ! i)\<lparr>route_path := p\<rparr>]\<rparr>
      | None \<Rightarrow>
          let rs = (if length (rt_routes w) \<ge> maxRoutes config then drop 1 (rt_routes w) else rt_routes w)
          in w\<lparr>rt_routes := rs @ [\<lparr>route_to = dest, route_path = p\<rparr>]\<rparr>)"

section \<open>Framing\<close>

definition buildFrame :: "PayloadType \<Rightarrow> bytes \<Rightarrow> bool \<Rightarrow> bytes \<Rightarrow> bytes" where
  "buildFrame type pl direct p =
     (let size = min (length pl) MAX_PACKET_PAYLOAD;
          pkt = packet_init\<lparr>
            header := push_bit 2 (payloadType_code type) OR routeType_code (if direct then DIRECT else FLOOD),
            hashSize := 1, hopCount := of_nat (length p), path := memcpy (path packet_init) 0 p,
            payloadSize := of_nat size, payload := memcpy (payload packet_init) 0 (take size pl)\<rparr>
      in case serialize pkt MAX_PACKET_FRAME of None \<Rightarrow> [] | Some frame \<Rightarrow> frame)"

definition frame_to :: "PayloadType \<Rightarrow> bytes \<Rightarrow> public_key \<Rightarrow> 'd world \<Rightarrow> bytes" where
  "frame_to type pl dest w =
     (case route_view dest w of None \<Rightarrow> buildFrame type pl False [] | Some p \<Rightarrow> buildFrame type pl True p)"

section \<open>Sending\<close>

text \<open>Sealing a plaintext for a peer into the payload of an addressed packet.\<close>

definition seal_wire :: "sodium \<Rightarrow> shared_secret \<Rightarrow> public_key \<Rightarrow> byte \<Rightarrow> bytes \<Rightarrow> bytes option" where
  "seal_wire S secret dest selfHash plain =
     (case seal S secret plain MAX_PACKET_PAYLOAD of None \<Rightarrow> None
      | Some sealed \<Rightarrow>
        encodeEnvelope \<lparr>env_destinationHash = dest ! 0, env_sourceHash = selfHash,
          env_cipherMac = sealed_mac sealed, env_ciphertext = sealed_ciphertext sealed\<rparr> MAX_PACKET_PAYLOAD)"

definition fetch_secret :: "sodium \<Rightarrow> public_key \<Rightarrow> 'd world \<Rightarrow> shared_secret option \<times> 'd world" where
  "fetch_secret S pk w = (let (secret, store) = secretFor S pk (rt_store w) in (secret, w\<lparr>rt_store := store\<rparr>))"

definition sendPathReturn :: "sodium \<Rightarrow> public_key \<Rightarrow> bytes \<Rightarrow> 'd world \<Rightarrow> 'd world" where
  "sendPathReturn S dest forward w =
     (let (secret, w) = fetch_secret S dest w in
      case secret of None \<Rightarrow> w
      | Some s \<Rightarrow>
        (case encodePath \<lparr>ret_path = forward, ret_extraType = 0, ret_extra = []\<rparr> MAX_PACKET_PAYLOAD of None \<Rightarrow> w
         | Some plain \<Rightarrow>
           (case seal_wire S s dest (store_selfHash (rt_store w)) plain of None \<Rightarrow> w
            | Some pl \<Rightarrow> transmitNow S (frame_to PATH pl dest w) HIGH w)))"

definition sendDirect ::
  "sodium \<Rightarrow> Router_Config \<Rightarrow> public_key \<Rightarrow> PayloadType \<Rightarrow> bytes \<Rightarrow> bool \<Rightarrow> 'd world \<Rightarrow> SendId \<times> 'd world" where
  "sendDirect S config dest type plain wantAck w =
     (let id = rt_nextId w; w = w\<lparr>rt_nextId := id + 1\<rparr>; (secret, w) = fetch_secret S dest w in
      case secret of None \<Rightarrow> (id, w)
      | Some s \<Rightarrow>
        (case seal_wire S s dest (store_selfHash (rt_store w)) plain of None \<Rightarrow> (id, w)
         | Some pl \<Rightarrow>
           let route = route_view dest w; frame = frame_to type pl dest w;
               w = (if wantAck \<and> length (rt_pending w) < maxPending config then
                      w\<lparr>rt_pending := rt_pending w @ [\<lparr>pend_id = id,
                          pend_expectedAck = expectedAck S plain (kp_pk (store_self (rt_store w))),
                          pend_deadline = rt_now w + (case route of None \<Rightarrow> floodAckTimeout config
                             | Some p \<Rightarrow> directAckBase config + directAckPerHop config * of_nat (length p)),
                          pend_attempts = 1, pend_viaFlood = (route = None), pend_to = dest, pend_frame = frame\<rparr>]\<rparr>
                    else w)
           in (id, transmitNow S frame NORMAL w)))"

definition sendFlood :: "sodium \<Rightarrow> PayloadType \<Rightarrow> bytes \<Rightarrow> 'd world \<Rightarrow> 'd world" where
  "sendFlood S type pl w = transmitNow S (buildFrame type pl False []) NORMAL w"

definition sendAck :: "sodium \<Rightarrow> public_key \<Rightarrow> u32 \<Rightarrow> bytes \<Rightarrow> 'd world \<Rightarrow> 'd world" where
  "sendAck S dest value extra w = transmitNow S (frame_to ACK (writeUint32 value @ extra) dest w) HIGH w"

section \<open>Receiving\<close>

definition learnRouteFrom :: "sodium \<Rightarrow> Router_Config \<Rightarrow> Packet \<Rightarrow> public_key \<Rightarrow> 'd world \<Rightarrow> 'd world" where
  "learnRouteFrom S config p sender w =
     (let w = installRoute config sender (reversePath (pathView p) MAX_PATH_SIZE) w
      in sendPathReturn S sender (pathView p) w)"

text \<open>The loop over candidates; it ends with the first whose tag checks out.\<close>

fun try_candidates ::
  "sodium \<Rightarrow> Router_Config \<Rightarrow> 'd Delegate \<Rightarrow> Packet \<Rightarrow> Envelope \<Rightarrow> Contact list \<Rightarrow> 'd world \<Rightarrow> 'd world" where
  "try_candidates S config D p envelope [] w = w"
| "try_candidates S config D p envelope (candidate # rest) w =
     (let (secret, w) = fetch_secret S (con_pk candidate) w in
      case secret of None \<Rightarrow> try_candidates S config D p envelope rest w
      | Some s \<Rightarrow>
        (case openSealed S s (env_cipherMac envelope) (env_ciphertext envelope) (length (env_ciphertext envelope)) of
           None \<Rightarrow> try_candidates S config D p envelope rest (rt_publish DecryptFailed 0 w)
         | Some plain \<Rightarrow>
           let w = (if routeType p = FLOOD then learnRouteFrom S config p (con_pk candidate) w else w) in
           if payloadType p = PATH then
             (case decodePath plain of None \<Rightarrow> w
              | Some returned \<Rightarrow> installRoute config (con_pk candidate) (ret_path returned) w)
           else
             let w = onPayload D candidate (payloadType p) plain w;
                 (ack, w) = shouldAck D (payloadType p) plain w in
             if \<not> ack then w
             else sendAck S (con_pk candidate) (expectedAck S plain (con_pk candidate)) [] w))"

definition deliverToSelf :: "sodium \<Rightarrow> Router_Config \<Rightarrow> 'd Delegate \<Rightarrow> Packet \<Rightarrow> bytes \<Rightarrow> 'd world \<Rightarrow> 'd world" where
  "deliverToSelf S config D p pl w =
     (case decodeEnvelope pl of None \<Rightarrow> w
      | Some envelope \<Rightarrow>
        if env_destinationHash envelope \<noteq> store_selfHash (rt_store w) then w else
        let known = map (\<lambda>i. contacts (rt_store w) ! i) (findByHash (rt_store w) (env_sourceHash envelope));
            loggedIn = keysMatching D (env_sourceHash envelope) MAX_LOGGED_IN_CANDIDATES w
        in try_candidates S config D p envelope (known @ map (\<lambda>k. contact_init\<lparr>con_pk := k\<rparr>) loggedIn) w)"

definition deliverAnon :: "sodium \<Rightarrow> Router_Config \<Rightarrow> 'd Delegate \<Rightarrow> Packet \<Rightarrow> bytes \<Rightarrow> 'd world \<Rightarrow> 'd world" where
  "deliverAnon S config D p pl w =
     (case decodeAnonReq pl of None \<Rightarrow> w
      | Some request \<Rightarrow>
        if anon_destinationHash request \<noteq> store_selfHash (rt_store w) then w else
        let sender = anon_publicKey request; (secret, w) = fetch_secret S sender w in
        (case secret of None \<Rightarrow> w
         | Some s \<Rightarrow>
           (case openSealed S s (anon_cipherMac request) (anon_ciphertext request) (length (anon_ciphertext request)) of
              None \<Rightarrow> w
            | Some plain \<Rightarrow>
              let w = (if routeType p = FLOOD
                       then installRoute config sender (reversePath (pathView p) MAX_PATH_SIZE) w else w)
              in onAnon D sender plain w)))"

definition handleAck :: "'d Delegate \<Rightarrow> bytes \<Rightarrow> 'd world \<Rightarrow> 'd world" where
  "handleAck D pl w =
     (if length pl < 4 then w else
      let v = readUint32 pl 0 in
      case find_index (\<lambda>e. pend_expectedAck e = v) (rt_pending w) of None \<Rightarrow> w
      | Some i \<Rightarrow>
        let id = pend_id (rt_pending w ! i) in
        onAck D id (w\<lparr>rt_pending := erase i (rt_pending w)\<rparr>))"

text \<open>The reading is an \<^verbatim>\<open>int16_t\<close> again after the multiplication.\<close>

definition considerForwarding ::
  "random_source \<Rightarrow> Router_Config \<Rightarrow> 'd Delegate \<Rightarrow> Packet \<Rightarrow> Router_RxMeta \<Rightarrow> 'd world \<Rightarrow> 'd world" where
  "considerForwarding src config D p meta w =
     (let (ok, w) = delegate_shouldForward D p w in
      if \<not> ok then w else
      let flood = (routeType p = FLOOD \<or> routeType p = TRANSPORT_FLOOD);
          selfHash = store_selfHash (rt_store w) in
      case (if flood then appendSelf p selfHash else stripSelf p selfHash) of None \<Rightarrow> w
      | Some copy \<Rightarrow>
        (case (if payloadType copy = TRACE
               then appendTraceHop copy (sint (word_of_int (rx_snr meta * 4) :: u16)) else Some copy) of None \<Rightarrow> w
         | Some copy \<Rightarrow>
           (case serialize copy MAX_PACKET_FRAME of None \<Rightarrow> w
            | Some frame \<Rightarrow>
              let w = rt_publish Forwarded 0 w; (j, w) = jitter src config w;
                  delay = rx_airtime meta * ucast (forwardAirtimeFactor config) + j
              in queueFrame frame (rt_now w + delay) LOW w)))"

definition dispatch :: "sodium \<Rightarrow> Router_Config \<Rightarrow> 'd Delegate \<Rightarrow> Packet \<Rightarrow> 'd world \<Rightarrow> 'd world" where
  "dispatch S config D p w =
     (case payloadType p of
        ACK \<Rightarrow> handleAck D (payloadView p) w
      | ANON_REQ \<Rightarrow> deliverAnon S config D p (payloadView p) w
      | ADVERT \<Rightarrow> w
      | TRACE \<Rightarrow> (case decodeTrace (payloadView p) of None \<Rightarrow> w | Some trace \<Rightarrow> onTrace D trace (pathView p) w)
      | GRP_TXT \<Rightarrow> onGroup D GRP_TXT (payloadView p) w
      | GRP_DATA \<Rightarrow> onGroup D GRP_DATA (payloadView p) w
      | _ \<Rightarrow> deliverToSelf S config D p (payloadView p) w)"

definition is_echo :: "Packet \<Rightarrow> byte \<Rightarrow> bool" where
  "is_echo p selfHash \<longleftrightarrow> (routeType p = FLOOD \<or> routeType p = TRANSPORT_FLOOD)
     \<and> list_ex (\<lambda>i. path p ! i = selfHash) [0..<pathSize p]"

definition onFrame ::
  "sodium \<Rightarrow> random_source \<Rightarrow> Router_Config \<Rightarrow> 'd Delegate \<Rightarrow> bytes \<Rightarrow> Router_RxMeta \<Rightarrow> 'd world \<Rightarrow> 'd world" where
  "onFrame S src config D frame meta w =
     (case parse frame of None \<Rightarrow> w
      | Some p \<Rightarrow>
        let w = rt_publish FrameRx (of_nat (length frame)) w in
        if alreadySeen S config frame w then rt_publish FrameDuplicate 0 w else
        let w = rememberSeen S frame w in
        if is_echo p (store_selfHash (rt_store w)) then w else
        considerForwarding src config D p meta (dispatch S config D p w))"

section \<open>Time\<close>

fun drain_queue :: "Delayed list \<Rightarrow> 'd world \<Rightarrow> Delayed list \<times> 'd world" where
  "drain_queue [] w = ([], w)"
| "drain_queue (d # ds) w =
     (if del_notBefore d > rt_now w then let (kept, w) = drain_queue ds w in (d # kept, w)
      else drain_queue ds (handToRadio (del_frame d) (del_priority d) w))"

text \<open>
  The loop over the waiting acknowledgements. A callback may send and so grow the vector the loop runs over, which
  is why it is an index into the state and why it need not end for every delegate.
\<close>

partial_function (option) tick_pending ::
  "Router_Config \<Rightarrow> 'd Delegate \<Rightarrow> nat \<Rightarrow> 'd world \<Rightarrow> 'd world option" where
  "tick_pending config D i w =
     (if i \<ge> length (rt_pending w) then Some w else
      let entry = rt_pending w ! i in
      if pend_deadline entry > rt_now w then tick_pending config D (i + 1) w
      else if pend_attempts entry \<ge> maxAttempts config then
        let id = pend_id entry; w = w\<lparr>rt_pending := erase i (rt_pending w)\<rparr>;
            w = rt_publish RouteReset 0 (rt_publish AckTimeout id w)
        in tick_pending config D i (onDeliveryFailed D id (forgetRoute (pend_to entry) w))
      else
        let entry = entry\<lparr>pend_attempts := pend_attempts entry + 1,
              pend_deadline := rt_now w + (if pend_viaFlood entry then floodAckTimeout config else directAckBase config)\<rparr>;
            w = w\<lparr>rt_pending := (rt_pending w)[i := entry]\<rparr>
        in tick_pending config D (i + 1) (handToRadio (pend_frame entry) NORMAL w))"

definition delayed_key :: "Delayed \<Rightarrow> Priority \<times> Millis" where
  "delayed_key d = (del_priority d, del_notBefore d)"

definition router_tick :: "Router_Config \<Rightarrow> 'd Delegate \<Rightarrow> Millis \<Rightarrow> 'd world \<Rightarrow> 'd world option" where
  "router_tick config D now w =
     (let w = w\<lparr>rt_now := now\<rparr>;
          (kept, w) = drain_queue (sort_key delayed_key (rt_queue w)) w;
          w = w\<lparr>rt_queue := kept\<rparr>
      in tick_pending config D 0 w)"

section \<open>Frames the router builds\<close>

text \<open>The payload types that exist on air: a code of four bits that the enum does not name twice.\<close>

definition type_ok :: "PayloadType \<Rightarrow> bool" where
  "type_ok t \<longleftrightarrow> payloadType_of (payloadType_code t) = t \<and> unat (payloadType_code t) \<le> 15"

definition built_packet :: "PayloadType \<Rightarrow> bytes \<Rightarrow> bool \<Rightarrow> bytes \<Rightarrow> Packet" where
  "built_packet type pl direct p =
     (let size = min (length pl) MAX_PACKET_PAYLOAD in
      packet_init\<lparr>
        header := push_bit 2 (payloadType_code type) OR routeType_code (if direct then DIRECT else FLOOD),
        hashSize := 1, hopCount := of_nat (length p), path := memcpy (path packet_init) 0 p,
        payloadSize := of_nat size, payload := memcpy (payload packet_init) 0 (take size pl)\<rparr>)"

lemma built_packet_fields:
  assumes "type_ok type" and "length p \<le> MAX_HOP_COUNT"
  shows "wf_packet (built_packet type pl direct p)" and "clean_packet (built_packet type pl direct p)"
    and "payloadType (built_packet type pl direct p) = type"
    and "routeType (built_packet type pl direct p) = (if direct then DIRECT else FLOOD)"
    and "pathView (built_packet type pl direct p) = p"
    and "payloadView (built_packet type pl direct p) = take MAX_PACKET_PAYLOAD pl"
proof -
  let ?q = "built_packet type pl direct p"
  have n: "unat (of_nat (length p) :: byte) = length p"
    and m: "unat (of_nat (min (length pl) 184) :: byte) = min (length pl) 184"
    using assms(2) by (auto simp: unat_of_nat)
  have size: "pathSize ?q = length p" using n by (simp add: built_packet_def pathSize_def Let_def)
  have h: "header ?q = push_bit 2 (payloadType_code type) OR routeType_code (if direct then DIRECT else FLOOD)"
    by (simp add: built_packet_def Let_def)
  have r: "unat (routeType_code (if direct then DIRECT else FLOOD)) \<le> 3" by simp
  have hr: "header ?q AND 3 = routeType_code (if direct then DIRECT else FLOOD)"
    unfolding h by (rule header_byte_route [OF r])
  have ht: "drop_bit 2 (header ?q AND 0x3C) = payloadType_code type"
    using assms(1) unfolding h type_ok_def by (intro header_byte_type [OF r]) simp
  show "payloadType ?q = type" unfolding payloadType_def ht using assms(1) by (simp add: type_ok_def)
  show route: "routeType ?q = (if direct then DIRECT else FLOOD)" by (simp add: routeType_def hr routeType_of_def)
  show "wf_packet ?q" using assms(2) n m size
    by (simp add: wf_packet_def built_packet_def Let_def packet_init_def memcpy_def)
  show "clean_packet ?q" using assms(2) n m size route
    by (simp add: clean_packet_def built_packet_def Let_def packet_init_def memcpy_def hasTransportCodes_def)
  show "pathView ?q = p" using size by (simp add: pathView_def built_packet_def Let_def memcpy_def)
  show "payloadView ?q = take MAX_PACKET_PAYLOAD pl" using m
    by (simp add: payloadView_def built_packet_def Let_def memcpy_def min_def)
qed

lemma buildFrame_parse:
  assumes "type_ok type" and "length p \<le> MAX_HOP_COUNT"
  shows "parse (buildFrame type pl direct p) = Some (built_packet type pl direct p)"
proof -
  let ?q = "built_packet type pl direct p"
  note q = built_packet_fields [OF assms, of pl direct]
  have "serialize ?q MAX_PACKET_FRAME = Some (frame_of ?q)"
    using q(1) length_frame_of [OF q(1)] by (simp add: serialize_wf wf_packet_def)
  then have "buildFrame type pl direct p = frame_of ?q" by (simp add: buildFrame_def built_packet_def Let_def)
  then show ?thesis using parse_frame_of [OF q(1,2)] by simp
qed


section \<open>Routes as a map\<close>

definition routes_ok :: "Router_Config \<Rightarrow> 'd world \<Rightarrow> bool" where
  "routes_ok config w \<longleftrightarrow> distinct (map route_to (rt_routes w)) \<and> length (rt_routes w) \<le> max 1 (maxRoutes config)"

lemma route_view_eq:
  "route_view k w = map_of (map (\<lambda>r. (route_to r, route_path r)) (rt_routes w)) k"
proof -
  have "map_option (\<lambda>i. route_path (rs ! i)) (find_index (\<lambda>r. route_to r = k) rs)
      = map_of (map (\<lambda>r. (route_to r, route_path r)) rs) k" for rs
    by (induction rs) (auto simp: option.map_comp comp_def)
  then show ?thesis by (simp add: route_view_def findRoute_def)
qed

lemma route_view_cong: "rt_routes w = rt_routes w' \<Longrightarrow> route_view k w = route_view k w'"
  by (simp add: route_view_eq)

lemma map_of_update_value:
  assumes "distinct (map fst ys)" and "i < length ys" and "k = fst (ys ! i)"
  shows "map_of (ys[i := (k, v)]) = (map_of ys)(k \<mapsto> v)"
  using assms
proof (induction ys arbitrary: i)
  case (Cons y ys)
  then show ?case by (cases i; cases y) (auto simp: fun_eq_iff)
qed simp

lemma installRoute_views:
  assumes "routes_ok config w"
  shows "routes_ok config (installRoute config dest p w)"
    and "route_view dest (installRoute config dest p w) = Some p"
    and "k \<noteq> dest \<Longrightarrow> route_view k (installRoute config dest p w) =
      (if \<not> hasRoute dest w \<and> length (rt_routes w) \<ge> maxRoutes config \<and> rt_routes w \<noteq> [] \<and> k = route_to (hd (rt_routes w))
       then None else route_view k w)"
proof -
  let ?w = "installRoute config dest p w" let ?f = "\<lambda>r. (route_to r, route_path r)"
  have "routes_ok config ?w \<and> route_view dest ?w = Some p \<and> (k \<noteq> dest \<longrightarrow> route_view k ?w =
      (if \<not> hasRoute dest w \<and> length (rt_routes w) \<ge> maxRoutes config \<and> rt_routes w \<noteq> [] \<and> k = route_to (hd (rt_routes w))
       then None else route_view k w))"
  proof (cases "findRoute dest w")
    case (Some i)
    then have i: "i < length (rt_routes w)" "route_to (rt_routes w ! i) = dest"
      using find_index_Some by (auto simp: findRoute_def)
    let ?rs = "(rt_routes w)[i := (rt_routes w ! i)\<lparr>route_path := p\<rparr>]"
    have "map route_to ?rs = map route_to (rt_routes w)" using i by (simp add: map_update list_update_same_conv)
    moreover have "map_of (map ?f ?rs) = (map_of (map ?f (rt_routes w)))(dest \<mapsto> p)"
      using map_of_update_value [of "map ?f (rt_routes w)" i dest p] i assms
      by (simp add: map_update routes_ok_def comp_def)
    ultimately show ?thesis
      using Some assms i by (auto simp: installRoute_def routes_ok_def route_view_eq hasRoute_def)
  next
    case None
    then have new: "dest \<notin> set (map route_to (rt_routes w))" by (auto simp: findRoute_def find_index_None)
    define rs where "rs = (if length (rt_routes w) \<ge> maxRoutes config then drop 1 (rt_routes w) else rt_routes w)"
    have w: "rt_routes ?w = rs @ [\<lparr>route_to = dest, route_path = p\<rparr>]"
      using None by (simp add: installRoute_def rs_def Let_def)
    have sub: "dest \<notin> set (map route_to rs)" "distinct (map route_to rs)" "length rs < max 1 (maxRoutes config)"
      using new assms by (auto simp: rs_def routes_ok_def distinct_drop drop_map [symmetric] dest: in_set_dropD split: if_splits)
    have "map_of (map ?f rs) dest = None" using sub(1) by (auto simp: map_of_eq_None_iff)
    moreover have "map_of (map ?f rs) k =
      (if length (rt_routes w) \<ge> maxRoutes config \<and> rt_routes w \<noteq> [] \<and> k = route_to (hd (rt_routes w))
       then None else map_of (map ?f (rt_routes w)) k)"
    proof (cases "rt_routes w")
      case (Cons r rest)
      moreover have "map_of (map ?f rest) (route_to r) = None"
        using assms Cons by (auto simp: routes_ok_def map_of_eq_None_iff image_image)
      ultimately show ?thesis by (simp add: rs_def)
    qed (simp add: rs_def)
    ultimately show ?thesis
      using None sub w by (auto simp: routes_ok_def route_view_eq hasRoute_def map_add_def split: option.splits)
  qed
  then show "routes_ok config ?w" "route_view dest ?w = Some p" "k \<noteq> dest \<Longrightarrow> route_view k ?w =
      (if \<not> hasRoute dest w \<and> length (rt_routes w) \<ge> maxRoutes config \<and> rt_routes w \<noteq> [] \<and> k = route_to (hd (rt_routes w))
       then None else route_view k w)" by blast+
qed

lemma erase_split: "i < length xs \<Longrightarrow> xs = take i xs @ xs ! i # drop (i + 1) xs"
  by (simp add: id_take_nth_drop)

lemma forgetRoute_views:
  assumes "routes_ok config w"
  shows "routes_ok config (forgetRoute dest w) \<and> route_view k (forgetRoute dest w) = (if k = dest then None else route_view k w)"
proof (cases "findRoute dest w")
  case None
  then show ?thesis using assms by (auto simp: forgetRoute_def route_view_def)
next
  case (Some i)
  then have i: "i < length (rt_routes w)" "route_to (rt_routes w ! i) = dest"
    using find_index_Some by (auto simp: findRoute_def)
  let ?f = "\<lambda>r. (route_to r, route_path r)"
  let ?a = "take i (rt_routes w)" let ?b = "drop (i + 1) (rt_routes w)"
  have s: "rt_routes w = ?a @ rt_routes w ! i # ?b" by (rule erase_split [OF i(1)])
  have d: "distinct (map route_to (?a @ rt_routes w ! i # ?b))" using assms s by (simp add: routes_ok_def)
  then have "map_of (map ?f ?a) dest = None" "map_of (map ?f ?b) dest = None"
    using i(2) by (auto simp: map_of_eq_None_iff image_image)
  moreover have "map_of (map ?f (rt_routes w)) k = map_of (map ?f (?a @ rt_routes w ! i # ?b)) k"
    using s by simp
  ultimately show ?thesis
    using Some d assms i(2) unfolding routes_ok_def
    by (auto simp: forgetRoute_def erase_def route_view_eq map_add_def split: option.splits)
qed

lemma reversePath_rev: "length p \<le> n \<Longrightarrow> reversePath p n = rev p"
  by (rule nth_equalityI) (auto simp: reversePath_def rev_nth)

section \<open>What leaves the rest alone\<close>

lemma rt_publish_frame [simp]:
  "rt_now (rt_publish t d w) = rt_now w" "rt_nextId (rt_publish t d w) = rt_nextId w"
  "rt_seen (rt_publish t d w) = rt_seen w" "rt_seenNext (rt_publish t d w) = rt_seenNext w"
  "rt_queue (rt_publish t d w) = rt_queue w" "rt_pending (rt_publish t d w) = rt_pending w"
  "rt_routes (rt_publish t d w) = rt_routes w" "rt_store (rt_publish t d w) = rt_store w"
  "rt_air (rt_publish t d w) = rt_air w" "rt_drawn (rt_publish t d w) = rt_drawn w"
  "rt_delegate (rt_publish t d w) = rt_delegate w"
  by (simp_all add: rt_publish_def)

lemma rememberSeen_frame [simp]:
  "rt_now (rememberSeen S f w) = rt_now w" "rt_nextId (rememberSeen S f w) = rt_nextId w"
  "rt_queue (rememberSeen S f w) = rt_queue w" "rt_pending (rememberSeen S f w) = rt_pending w"
  "rt_routes (rememberSeen S f w) = rt_routes w" "rt_store (rememberSeen S f w) = rt_store w"
  "rt_air (rememberSeen S f w) = rt_air w" "rt_drawn (rememberSeen S f w) = rt_drawn w"
  "rt_delegate (rememberSeen S f w) = rt_delegate w" "rt_bus (rememberSeen S f w) = rt_bus w"
  by (simp_all add: rememberSeen_def)

lemma transmitNow_frame [simp]:
  "rt_now (transmitNow S f p w) = rt_now w" "rt_nextId (transmitNow S f p w) = rt_nextId w"
  "rt_queue (transmitNow S f p w) = rt_queue w" "rt_pending (transmitNow S f p w) = rt_pending w"
  "rt_routes (transmitNow S f p w) = rt_routes w" "rt_store (transmitNow S f p w) = rt_store w"
  "rt_air (transmitNow S f p w) = rt_air w @ [(f, p)]" "rt_delegate (transmitNow S f p w) = rt_delegate w"
  by (simp_all add: transmitNow_def handToRadio_def Let_def)

lemma fetch_secret_spec:
  assumes "secrets_ok S (rt_store w)" and "fetch_secret S pk w = (r, w')"
  shows "r = deriveShared S (kp_sk (store_self (rt_store w))) pk" and "secrets_ok S (rt_store w')"
    and "w' = w\<lparr>rt_store := rt_store w'\<rparr>"
    and "contacts (rt_store w') = contacts (rt_store w)" "buckets (rt_store w') = buckets (rt_store w)"
    "store_self (rt_store w') = store_self (rt_store w)" "store_selfHash (rt_store w') = store_selfHash (rt_store w)"
proof -
  obtain st where st: "secretFor S pk (rt_store w) = (r, st)" and w': "w' = w\<lparr>rt_store := st\<rparr>"
    using assms(2) by (auto simp: fetch_secret_def split: prod.splits)
  show "r = deriveShared S (kp_sk (store_self (rt_store w))) pk" "secrets_ok S (rt_store w')"
    using secretFor_spec [OF assms(1) st] w' by auto
  show "w' = w\<lparr>rt_store := rt_store w'\<rparr>" using w' by simp
  show "contacts (rt_store w') = contacts (rt_store w)" "buckets (rt_store w') = buckets (rt_store w)"
    "store_self (rt_store w') = store_self (rt_store w)" "store_selfHash (rt_store w') = store_selfHash (rt_store w)"
    using secretFor_contacts [OF st] w' by auto
qed

section \<open>Deduplication\<close>

definition seen_matches :: "u32 \<Rightarrow> Seen \<Rightarrow> bool" where
  "seen_matches key e \<longleftrightarrow> seen_at e \<noteq> 0 \<and> seen_shortHash e = key"

definition seen_fresh :: "Millis \<Rightarrow> Millis \<Rightarrow> Seen \<Rightarrow> bool" where
  "seen_fresh ttl now e \<longleftrightarrow> ttl = 0 \<or> (now + 1) - seen_at e < ttl"

lemma seen_scan_first:
  "seen_scan ttl now key es \<longleftrightarrow> (case List.find (seen_matches key) es of None \<Rightarrow> False | Some e \<Rightarrow> seen_fresh ttl now e)"
  by (induction es) (auto simp: seen_matches_def seen_fresh_def)

lemma shortHashOf_cong:
  assumes "parse f = Some p" and "parse g = Some q" and "header q = header p" and "payloadView q = payloadView p"
  shows "shortHashOf S g = shortHashOf S f"
  using assms by (simp add: shortHashOf_def packetHash_def)


lemma parse_frame_of_wf:
  assumes "wf_packet q"
  shows "\<exists>q'. parse (frame_of q) = Some q' \<and> header q' = header q \<and> pathView q' = pathView q
    \<and> payloadView q' = payloadView q \<and> hopCount q' = hopCount q \<and> hashSize q' = hashSize q"
proof -
  define r where "r = q\<lparr>path := memcpy (replicate 64 0) 0 (pathView q), payload := memcpy (replicate 184 0) 0 (payloadView q),
      transportCode1 := (if hasTransportCodes q then transportCode1 q else 0),
      transportCode2 := (if hasTransportCodes q then transportCode2 q else 0)\<rparr>"
  have tc: "hasTransportCodes r = hasTransportCodes q" by (simp add: r_def hasTransportCodes_def routeType_def)
  have ps: "pathSize r = pathSize q" by (simp add: r_def pathSize_def)
  note len = views_wf [OF assms]
  have v: "pathView r = pathView q" "payloadView r = payloadView q"
    using len by (simp_all add: pathView_def [of r] payloadView_def [of r] ps) (simp_all add: r_def memcpy_def)
  have wf: "wf_packet r"
    using assms len unfolding wf_packet_def ps by (simp add: r_def memcpy_def)
  have "clean_packet r"
    unfolding clean_packet_def ps tc using assms len by (simp add: r_def memcpy_def wf_packet_def)
  then have "parse (frame_of r) = Some r" using wf parse_frame_of by blast
  moreover have "frame_of r = frame_of q"
    unfolding frame_of_def code_bytes_def v tc by (simp add: r_def)
  ultimately show ?thesis using v by (intro exI [of _ r]) (simp add: r_def)
qed

lemma serialize_parse:
  assumes "wf_packet q"
  obtains frame q' where "serialize q MAX_PACKET_FRAME = Some frame" "parse frame = Some q'" "header q' = header q"
    "pathView q' = pathView q" "payloadView q' = payloadView q" "hopCount q' = hopCount q" "hashSize q' = hashSize q"
proof -
  have "length (frame_of q) \<le> MAX_PACKET_FRAME" using length_frame_of [OF assms] assms by (simp add: wf_packet_def)
  then have "serialize q MAX_PACKET_FRAME = Some (frame_of q)" by (simp add: serialize_wf [OF assms])
  then show thesis using that parse_frame_of_wf [OF assms] by blast
qed

section \<open>Forwarding\<close>

text \<open>The frame a repeater passes on, against the one it heard.\<close>

definition carries_on :: "byte \<Rightarrow> int \<Rightarrow> Packet \<Rightarrow> Packet \<Rightarrow> bool" where
  "carries_on selfHash reading p q \<longleftrightarrow> header q = header p
     \<and> (if routeType p = FLOOD \<or> routeType p = TRANSPORT_FLOOD then pathView q = pathView p @ [selfHash]
        else pathView p = selfHash # pathView q)
     \<and> payloadView q = payloadView p @ (if payloadType p = TRACE then [word_of_int (max (-128) (min 127 reading))] else [])"

definition passes :: "byte \<Rightarrow> Packet \<Rightarrow> bool" where
  "passes selfHash p \<longleftrightarrow> hashSize p = 1
     \<and> (if routeType p = FLOOD \<or> routeType p = TRANSPORT_FLOOD then unat (hopCount p) < MAX_HOP_COUNT
        else \<exists>rest. pathView p = selfHash # rest)
     \<and> (payloadType p = TRACE \<longrightarrow> TRACE_PREFIX_SIZE \<le> length (payloadView p) \<and> length (payloadView p) < MAX_PACKET_PAYLOAD)"

lemma hop_edit:
  fixes h :: byte
  assumes "wf_packet p"
  defines "edit \<equiv> (if routeType p = FLOOD \<or> routeType p = TRANSPORT_FLOOD then appendSelf p h else stripSelf p h)"
  shows "edit = Some q \<Longrightarrow> wf_packet q \<and> header q = header p \<and> payloadView q = payloadView p
      \<and> (if routeType p = FLOOD \<or> routeType p = TRANSPORT_FLOOD then pathView q = pathView p @ [h] else pathView p = h # pathView q)"
    and "edit = None \<longleftrightarrow> \<not> (hashSize p = 1
      \<and> (if routeType p = FLOOD \<or> routeType p = TRANSPORT_FLOOD then unat (hopCount p) < MAX_HOP_COUNT else \<exists>rest. pathView p = h # rest))"
proof -
  let ?flood = "routeType p = FLOOD \<or> routeType p = TRANSPORT_FLOOD"
  show "edit = Some q \<Longrightarrow> wf_packet q \<and> header q = header p \<and> payloadView q = payloadView p
      \<and> (if ?flood then pathView q = pathView p @ [h] else pathView p = h # pathView q)"
    using appendSelf_SomeD [OF _ assms(1)] stripSelf_SomeD [OF _ assms(1)] by (auto simp: edit_def split: if_splits)
  have a: "appendSelf p h = None \<longleftrightarrow> \<not> (hashSize p = 1 \<and> unat (hopCount p) < MAX_HOP_COUNT)"
    using assms(1) by (auto simp: appendSelf_def wf_packet_def pathSize_def word_unat_eq_iff)
  have s: "stripSelf p h = None \<longleftrightarrow> \<not> (hashSize p = 1 \<and> (\<exists>rest. pathView p = h # rest))"
  proof (cases "stripSelf p h")
    case None
    then show ?thesis using stripSelf_None [OF None assms(1)] by blast
  next
    case (Some q)
    then have "unat (hashSize p) = 1" by (simp add: stripSelf_def split: if_splits)
    then show ?thesis using Some stripSelf_SomeD(2) [OF Some assms(1)] by (auto simp: word_unat_eq_iff)
  qed
  show "edit = None \<longleftrightarrow> \<not> (hashSize p = 1
      \<and> (if ?flood then unat (hopCount p) < MAX_HOP_COUNT else \<exists>rest. pathView p = h # rest))"
    using a s by (auto simp: edit_def)
qed

lemma trace_edit:
  fixes r :: int
  assumes "wf_packet q"
  defines "edit \<equiv> (if payloadType q = TRACE then appendTraceHop q r else Some q)"
  shows "edit = Some q2 \<Longrightarrow> wf_packet q2 \<and> header q2 = header q \<and> pathView q2 = pathView q
      \<and> payloadView q2 = payloadView q @ (if payloadType q = TRACE then [word_of_int (max (-128) (min 127 r))] else [])"
    and "edit = None \<longleftrightarrow> \<not> (payloadType q = TRACE \<longrightarrow>
           TRACE_PREFIX_SIZE \<le> length (payloadView q) \<and> length (payloadView q) < MAX_PACKET_PAYLOAD)"
proof -
  show "edit = Some q2 \<Longrightarrow> wf_packet q2 \<and> header q2 = header q \<and> pathView q2 = pathView q
      \<and> payloadView q2 = payloadView q @ (if payloadType q = TRACE then [word_of_int (max (-128) (min 127 r))] else [])"
    using appendTraceHop_SomeD [OF _ assms(1), of r q2] assms(1) unfolding edit_def by (cases "payloadType q = TRACE") simp_all
  have "payloadType q = TRACE \<Longrightarrow> appendTraceHop q r = None \<longleftrightarrow>
      \<not> (TRACE_PREFIX_SIZE \<le> length (payloadView q) \<and> length (payloadView q) < MAX_PACKET_PAYLOAD)"
    unfolding views_wf(2) [OF assms(1)] by (simp add: appendTraceHop_def Let_def not_less not_le del: split_paired_All)
  then show "edit = None \<longleftrightarrow> \<not> (payloadType q = TRACE \<longrightarrow>
           TRACE_PREFIX_SIZE \<le> length (payloadView q) \<and> length (payloadView q) < MAX_PACKET_PAYLOAD)"
    unfolding edit_def by simp
qed

lemma considerForwarding_refused:
  fixes meta :: Router_RxMeta and w1 :: "'d world"
  assumes "wf_packet p" and "delegate_shouldForward D p w = (ok, w1)"
  defines "h \<equiv> store_selfHash (rt_store w1)" and "r \<equiv> sint (word_of_int (rx_snr meta * 4) :: u16)"
  assumes no: "\<not> (ok \<and> passes h p)"
  shows "considerForwarding src config D p meta w = w1"
proof -
  let ?flood = "routeType p = FLOOD \<or> routeType p = TRANSPORT_FLOOD"
  let ?edit = "if ?flood then appendSelf p h else stripSelf p h"
  note he = hop_edit [OF assms(1), of h]
  show ?thesis
  proof (cases "ok \<and> ?edit \<noteq> None")
    case True
    then obtain q where q: "?edit = Some q" by blast
    from he(1) [OF q] have hq: "wf_packet q" "header q = header p" "payloadView q = payloadView p" by auto
    then have "payloadType q = payloadType p" by (simp add: payloadType_def)
    then have "(if payloadType q = TRACE then appendTraceHop q r else Some q) = None"
      using trace_edit(2) [OF hq(1), of r] no True he(2) hq(3) by (auto simp: passes_def)
    then show ?thesis using q assms(2) unfolding considerForwarding_def h_def r_def by (auto simp: Let_def)
  next
    case False
    then show ?thesis using assms(2) unfolding considerForwarding_def h_def r_def by (auto simp: Let_def)
  qed
qed

lemma considerForwarding_carried:
  fixes meta :: Router_RxMeta and w1 :: "'d world"
  assumes "wf_packet p" and "delegate_shouldForward D p w = (ok, w1)"
  defines "h \<equiv> store_selfHash (rt_store w1)" and "r \<equiv> sint (word_of_int (rx_snr meta * 4) :: u16)"
  assumes yes: "ok \<and> passes h p"
  shows "\<exists>frame q j drawn. parse frame = Some q \<and> carries_on h r p q
      \<and> (j < forwardJitter config \<or> j = 0)
      \<and> considerForwarding src config D p meta w =
          queueFrame frame (rt_now w1 + (rx_airtime meta * ucast (forwardAirtimeFactor config) + j)) LOW
            ((rt_publish Forwarded 0 w1)\<lparr>rt_drawn := drawn\<rparr>)"
proof -
  let ?flood = "routeType p = FLOOD \<or> routeType p = TRANSPORT_FLOOD"
  let ?edit = "if ?flood then appendSelf p h else stripSelf p h"
  note he = hop_edit [OF assms(1), of h]
  from yes obtain q where q: "?edit = Some q" using he(2) by (auto simp: passes_def)
  from he(1) [OF q] have hq: "wf_packet q" "header q = header p" "payloadView q = payloadView p"
    "if ?flood then pathView q = pathView p @ [h] else pathView p = h # pathView q" by auto
  then have t: "payloadType q = payloadType p" by (simp add: payloadType_def)
  then obtain q2 where q2: "(if payloadType q = TRACE then appendTraceHop q r else Some q) = Some q2"
    using trace_edit(2) [OF hq(1), of r] yes hq(3) by (auto simp: passes_def)
  note te = trace_edit(1) [OF hq(1) q2]
  then obtain frame q3 where f: "serialize q2 MAX_PACKET_FRAME = Some frame" "parse frame = Some q3" "header q3 = header q2"
    "pathView q3 = pathView q2" "payloadView q3 = payloadView q2" using serialize_parse by metis
  obtain j w2 where j: "jitter src config (rt_publish Forwarded 0 w1) = (j, w2)" by fastforce
  have "carries_on h r p q3" using te hq f t by (auto simp: carries_on_def)
  moreover have "w2 = (rt_publish Forwarded 0 w1)\<lparr>rt_drawn := rt_drawn w2\<rparr>" "j < forwardJitter config \<or> j = 0"
    using j by (auto simp: jitter_def randomBytes_def Let_def word_mod_less_divisor word_gt_0 split: if_splits)
  moreover have "considerForwarding src config D p meta w =
      queueFrame frame (rt_now w1 + (rx_airtime meta * ucast (forwardAirtimeFactor config) + j)) LOW w2"
    using assms(2) yes q q2 f(1) j calculation(2)
    unfolding considerForwarding_def h_def r_def by (simp add: Let_def) (metis rt_publish_frame(1) world.simps(1) world.surjective world.update_convs(11))
  ultimately show ?thesis using f(2) by metis
qed

lemmas considerForwarding_cases = considerForwarding_carried considerForwarding_refused

end
