(* ===== verification/Router_Properties.thy ===== *)
theory Router_Properties
  imports Mesh_Router
begin

text \<open>
  What the router promises the node above and its neighbours: a packet is handled once, a flood comes back to nobody, a
  forwarded packet is opaque, the route table is a bounded map, due frames leave and unacknowledged ones are retried a
  bounded number of times, and a message sent is a message delivered and acknowledged.
\<close>

unbundle bit_operations_syntax

section \<open>Deduplication and forwarding\<close>

text \<open>A delegate that does nothing, acknowledges and forwards everything (the defaults of the class).\<close>

definition default_delegate :: "'d Delegate" where
  "default_delegate = \<lparr>onPayload = (\<lambda>_ _ _ w. w), onAnon = (\<lambda>_ _ w. w), keysMatching = (\<lambda>_ _ _. []),
     onGroup = (\<lambda>_ _ w. w), onTrace = (\<lambda>_ _ w. w), onAck = (\<lambda>_ w. w), onDeliveryFailed = (\<lambda>_ w. w),
     shouldAck = (\<lambda>_ _ w. (True, w)), delegate_shouldForward = (\<lambda>_ w. (True, w))\<rparr>"

definition test_frame :: bytes where
  "test_frame = buildFrame ADVERT [7] False []"

lemma test_frame_parse: "parse test_frame = Some (built_packet ADVERT [7] False [])"
  unfolding test_frame_def by (rule buildFrame_parse) (simp_all add: type_ok_def payloadType_of_def)

text \<open>
  C11. A packet once seen is handled once: while the cache holds its hash and every entry it holds for it is young enough (an
  expired one in front of it would hide a young one), a further
  copy, whatever path it has grown or shed meanwhile, only moves the two counters. Nothing is delivered, forwarded,
  acknowledged or remembered again.
\<close>

theorem duplicate_is_dropped:
  assumes "parse f = Some p" and "parse g = Some q" and "header q = header p" and "payloadView q = payloadView p"
    and "\<exists>e \<in> set (rt_seen w). seen_matches (shortHashOf S f) e"
    and "\<forall>e \<in> set (rt_seen w). seen_matches (shortHashOf S f) e \<longrightarrow> seen_fresh (seenTtl config) (rt_now w) e"
  shows "onFrame S src config D g meta w = rt_publish FrameDuplicate 0 (rt_publish FrameRx (of_nat (length g)) w)"
proof -
  obtain e where "List.find (seen_matches (shortHashOf S f)) (rt_seen w) = Some e"
    using assms(5) by (cases "List.find (seen_matches (shortHashOf S f)) (rt_seen w)") (auto simp: find_None_iff)
  moreover from this have "e \<in> set (rt_seen w)" "seen_matches (shortHashOf S f) e"
    by (auto simp: find_Some_iff)
  ultimately have "alreadySeen S config g (rt_publish FrameRx (of_nat (length g)) w)"
    using assms(6) shortHashOf_cong [OF assms(1-4), of S] by (simp add: alreadySeen_def seen_scan_first)
  then show ?thesis using assms(2) by (simp add: onFrame_def)
qed

theorem duplicate_is_dropped_witness:
  "let w = (router_new router_config_default store_new None ())
         \<lparr>rt_seen := [\<lparr>seen_shortHash = shortHashOf test_sodium test_frame, seen_at = 1\<rparr>]\<rparr> in
   onFrame test_sodium (\<lambda>_. 0) router_config_default default_delegate test_frame \<lparr>rx_airtime = 0, rx_snr = 0\<rparr> w = w"
proof -
  let ?e = "\<lparr>seen_shortHash = shortHashOf test_sodium test_frame, seen_at = 1\<rparr>"
  let ?w = "(router_new router_config_default store_new None ())\<lparr>rt_seen := [?e]\<rparr>"
  have "seen_matches (shortHashOf test_sodium test_frame) ?e" by (simp add: seen_matches_def)
  moreover have "seen_fresh (seenTtl router_config_default) (rt_now ?w) ?e"
    by (simp add: seen_fresh_def router_config_default_def router_new_def)
  ultimately show ?thesis
    using duplicate_is_dropped [OF test_frame_parse test_frame_parse refl refl, of ?w test_sodium router_config_default
        "\<lambda>_. 0" default_delegate "\<lparr>rx_airtime = 0, rx_snr = 0\<rparr>"]
    by (simp add: Let_def rt_publish_def router_new_def)
qed

text \<open>
  One expired entry hides a fresh one: the scan stops at the first slot that has the hash, so when an old entry
  for a packet sits in an earlier slot, remembering that packet anew does not suppress its echo; it is handled
  again as if it had never been seen.
\<close>

theorem expired_slot_hides_fresh_one:
  assumes "i < rt_seenNext w" and "rt_seenNext w < length (rt_seen w)"
    and "\<forall>j < i. \<not> seen_matches (shortHashOf S f) (rt_seen w ! j)"
    and "seen_matches (shortHashOf S f) (rt_seen w ! i)" and "\<not> seen_fresh (seenTtl config) (rt_now w) (rt_seen w ! i)"
  shows "\<not> alreadySeen S config f (rememberSeen S f w)
    \<and> rt_seen (rememberSeen S f w) ! rt_seenNext w = \<lparr>seen_shortHash = shortHashOf S f, seen_at = rt_now w + 1\<rparr>"
proof -
  let ?seen = "rt_seen (rememberSeen S f w)"
  have same: "j \<le> i \<Longrightarrow> ?seen ! j = rt_seen w ! j" for j using assms(1) by (simp add: rememberSeen_def)
  have len: "i < length ?seen" using assms(1,2) by (simp add: rememberSeen_def)
  have "List.find (seen_matches (shortHashOf S f)) ?seen = Some (rt_seen w ! i)"
    using assms(3,4) same len by (auto simp: find_Some_iff intro!: exI [of _ i])
  then show ?thesis using assms(2,5) by (simp add: alreadySeen_def seen_scan_first rememberSeen_def)
qed

theorem expired_slot_hides_fresh_one_witness:
  "let w = (router_new router_config_default store_new None ())
         \<lparr>rt_now := 300000, rt_seenNext := 1,
          rt_seen := [\<lparr>seen_shortHash = shortHashOf test_sodium test_frame, seen_at = 1\<rparr>, \<lparr>seen_shortHash = 0, seen_at = 0\<rparr>]\<rparr> in
   \<not> alreadySeen test_sodium router_config_default test_frame (rememberSeen test_sodium test_frame w)"
  unfolding Let_def
  by (rule expired_slot_hides_fresh_one [of 0, THEN conjunct1])
    (simp_all add: seen_matches_def seen_fresh_def router_config_default_def)

text \<open>
  A flood cannot circle through a node: one that already carries our hash in its path is neither delivered nor
  passed on nor answered; it leaves its trace in the duplicate cache and the counters only.
\<close>

theorem own_flood_stops:
  assumes "parse f = Some p" and "routeType p = FLOOD \<or> routeType p = TRANSPORT_FLOOD"
    and "store_selfHash (rt_store w) \<in> set (pathView p)" and "onFrame S src config D f meta w = w'"
  shows "rt_queue w' = rt_queue w \<and> rt_air w' = rt_air w \<and> rt_pending w' = rt_pending w
    \<and> rt_routes w' = rt_routes w \<and> rt_store w' = rt_store w \<and> rt_delegate w' = rt_delegate w"
proof -
  have "wf_packet p" using parse_SomeD(1) [OF assms(1)] .
  then have "pathView p = map (\<lambda>i. path p ! i) [0..<pathSize p]"
    by (intro nth_equalityI) (auto simp: pathView_def wf_packet_def)
  then have "is_echo p (store_selfHash (rt_store w))" using assms(2,3) by (auto simp: is_echo_def list_ex_iff)
  then show ?thesis using assms(1,4) by (auto simp: onFrame_def Let_def)
qed

definition echo_frame :: bytes where
  "echo_frame = frame_of (built_packet GRP_TXT [1] False [0])"

theorem own_flood_stops_witness:
  "rt_queue (onFrame test_sodium (\<lambda>_. 0) router_config_default default_delegate echo_frame \<lparr>rx_airtime = 0, rx_snr = 0\<rparr>
      (router_new router_config_default store_new None ())) = []"
proof -
  have t: "type_ok GRP_TXT" by (simp add: type_ok_def payloadType_of_def)
  note b = built_packet_fields [OF t, of "[0]" "[1]" False]
  have "parse echo_frame = Some (built_packet GRP_TXT [1] False [0])"
    unfolding echo_frame_def using b(1,2) by (intro parse_frame_of) simp_all
  from own_flood_stops [OF this _ _ refl, of "router_new router_config_default store_new None ()"] b(4,5)
  show ?thesis by (simp add: router_new_def store_new_def)
qed

text \<open>
  C12. A repeater is transparent: when the delegate lets a packet pass and the format allows it, exactly one frame
  is queued, at the lowest priority and not before airtime times factor plus a jitter below its limit; it parses to a packet with the
  same header and payload, but for a trace, whose payload has one reading more; its path grew by our hash (flood) or lost our hash in
  front (direct); and unless it is a trace it has the duplicate key of the frame we heard. Otherwise nothing is queued.
\<close>

theorem forwarding_transparent:
  assumes "parse f = Some p" and "delegate_shouldForward D p w = (ok, w1)"
    and "considerForwarding src config D p meta w = w'"
  shows "if ok \<and> passes (store_selfHash (rt_store w1)) p
    then \<exists>frame q j. rt_queue w' = rt_queue w1 @ [\<lparr>
             del_notBefore = rt_now w1 + (rx_airtime meta * ucast (forwardAirtimeFactor config) + j),
             del_priority = LOW, del_frame = frame\<rparr>]
         \<and> (j < forwardJitter config \<or> j = 0) \<and> parse frame = Some q
         \<and> carries_on (store_selfHash (rt_store w1)) (sint (word_of_int (rx_snr meta * 4) :: u16)) p q
         \<and> (payloadType p \<noteq> TRACE \<longrightarrow> shortHashOf S frame = shortHashOf S f)
         \<and> rt_air w' = rt_air w1 \<and> rt_delegate w' = rt_delegate w1
    else w' = w1"
proof (cases "ok \<and> passes (store_selfHash (rt_store w1)) p")
  case True
  note wf = parse_SomeD(1) [OF assms(1)]
  obtain frame q j drawn where c: "parse frame = Some q"
      "carries_on (store_selfHash (rt_store w1)) (sint (word_of_int (rx_snr meta * 4) :: u16)) p q"
      "j < forwardJitter config \<or> j = 0"
      "w' = queueFrame frame (rt_now w1 + (rx_airtime meta * ucast (forwardAirtimeFactor config) + j)) LOW
            ((rt_publish Forwarded 0 w1)\<lparr>rt_drawn := drawn\<rparr>)"
    using considerForwarding_cases(1) [OF wf assms(2) True, of meta config src] assms(3) by blast
  have "payloadType p \<noteq> TRACE \<longrightarrow> shortHashOf S frame = shortHashOf S f"
    using shortHashOf_cong [OF assms(1) c(1)] c(2) by (auto simp: carries_on_def)
  then show ?thesis using True c by (auto simp: queueFrame_def)
next
  case False
  then show ?thesis using considerForwarding_cases(2) [OF parse_SomeD(1) [OF assms(1)] assms(2) False] assms(3) by auto
qed

theorem forwarding_transparent_witness:
  "\<exists>frame q. map del_frame (rt_queue (considerForwarding (\<lambda>_. 0) router_config_default default_delegate
        (built_packet ADVERT [7] False []) \<lparr>rx_airtime = 0, rx_snr = 0\<rparr> (router_new router_config_default store_new None ())))
      = [frame] \<and> parse frame = Some q \<and> pathView q = [0]"
proof -
  define w :: "unit world" where "w = router_new router_config_default store_new None ()"
  have w: "store_selfHash (rt_store w) = 0" "rt_queue w = []" by (simp_all add: w_def router_new_def store_new_def)
  have t: "type_ok ADVERT" by (simp add: type_ok_def payloadType_of_def)
  note b = built_packet_fields [OF t, of "[]" "[7]" False]
  have f: "delegate_shouldForward default_delegate (built_packet ADVERT [7] False []) w = (True, w)"
    by (simp add: default_delegate_def)
  have "passes (store_selfHash (rt_store w)) (built_packet ADVERT [7] False [])"
    using b(3,4) by (simp add: passes_def) (simp add: built_packet_def Let_def)
  then show ?thesis
    using forwarding_transparent [OF test_frame_parse f refl, where S = test_sodium and src = "\<lambda>_. 0"
        and config = router_config_default and meta = "\<lparr>rx_airtime = 0, rx_snr = 0\<rparr>"] b(4,5) w
    unfolding w_def [symmetric] by (auto simp: carries_on_def)
qed

section \<open>Routes\<close>

lemma fetch_secret_frame:
  "fetch_secret S k w = (r, w') \<Longrightarrow> rt_routes w' = rt_routes w \<and> rt_pending w' = rt_pending w \<and> rt_air w' = rt_air w
     \<and> rt_delegate w' = rt_delegate w \<and> rt_now w' = rt_now w \<and> rt_nextId w' = rt_nextId w \<and> rt_queue w' = rt_queue w"
  by (auto simp: fetch_secret_def split: prod.splits)

lemma sendPathReturn_frame:
  "rt_routes (sendPathReturn S k p w) = rt_routes w \<and> rt_pending (sendPathReturn S k p w) = rt_pending w
     \<and> rt_delegate (sendPathReturn S k p w) = rt_delegate w \<and> rt_now (sendPathReturn S k p w) = rt_now w"
  using fetch_secret_frame [of S k w "fst (fetch_secret S k w)" "snd (fetch_secret S k w)"]
  by (auto simp: sendPathReturn_def Let_def split: prod.splits option.splits)

text \<open>Two packets teach a way: a flood opened under a contact's secret, and a login that came as a flood.\<close>

lemma learnRouteFrom_routes:
  "rt_routes (learnRouteFrom S config q k w) = rt_routes (installRoute config k (reversePath (pathView q) MAX_PATH_SIZE) w)"
  using sendPathReturn_frame [of S k "pathView q" "installRoute config k (reversePath (pathView q) MAX_PATH_SIZE) w"]
  by (simp add: learnRouteFrom_def)

lemma pathView_reversed: "parse f = Some q \<Longrightarrow> reversePath (pathView q) MAX_PATH_SIZE = rev (pathView q)"
proof -
  assume "parse f = Some q"
  then have "wf_packet q" by (rule parse_SomeD(1))
  then show ?thesis using views_wf(1) [of q] by (intro reversePath_rev) (simp add: wf_packet_def)
qed

lemma deliverAnon_opens:
  assumes "secrets_ok S (rt_store w)" and "decodeAnonReq pl = Some a" and "anon_destinationHash a = store_selfHash (rt_store w)"
    and "deriveShared S (kp_sk (store_self (rt_store w))) (anon_publicKey a) = Some s"
    and "openSealed S s (anon_cipherMac a) (anon_ciphertext a) (length (anon_ciphertext a)) = Some plain" and "routeType q = FLOOD"
  shows "\<exists>w1. rt_routes w1 = rt_routes w \<and> deliverAnon S config D q pl w = onAnon D (anon_publicKey a) plain
    (installRoute config (anon_publicKey a) (reversePath (pathView q) MAX_PATH_SIZE) w1)"
proof -
  obtain r w1 where fs: "fetch_secret S (anon_publicKey a) w = (r, w1)" by fastforce
  have "r = Some s" using fetch_secret_spec(1) [OF assms(1) fs] assms(4) by simp
  then show ?thesis using fs fetch_secret_frame [OF fs] assms(2,3,5,6)
    by (intro exI [of _ w1]) (simp add: deliverAnon_def Let_def)
qed

text \<open>
  C23. The route table is a bounded map: a route installed is the one found, forgetting removes it, other routes stay
  (the oldest goes when the table is full), keys stay distinct and the bound holds. Of a flooded packet opened under the
  secret of a peer the router stores, as the way to that peer, the recorded path reversed (\<open>learnRouteFrom\<close>), and
  for a login that came as a flood it does so before the layer above hears of it (\<open>deliverAnon\<close>).
\<close>

theorem route_table_map:
  assumes "routes_ok config w"
  shows "routes_ok config (installRoute config dest p w) \<and> routes_ok config (forgetRoute dest w)
    \<and> route_view dest (installRoute config dest p w) = Some p \<and> route_view dest (forgetRoute dest w) = None
    \<and> (\<forall>k. k \<noteq> dest \<longrightarrow> route_view k (forgetRoute dest w) = route_view k w
        \<and> (hasRoute dest w \<or> length (rt_routes w) < maxRoutes config \<or> rt_routes w = [] \<or> k \<noteq> route_to (hd (rt_routes w))
             \<longrightarrow> route_view k (installRoute config dest p w) = route_view k w))
    \<and> (parse f = Some q \<longrightarrow> routes_ok config (learnRouteFrom S config q dest w)
        \<and> route_view dest (learnRouteFrom S config q dest w) = Some (rev (pathView q)))
    \<and> (parse f = Some q \<and> secrets_ok S (rt_store w) \<and> decodeAnonReq (payloadView q) = Some a
        \<and> anon_destinationHash a = store_selfHash (rt_store w)
        \<and> deriveShared S (kp_sk (store_self (rt_store w))) (anon_publicKey a) = Some s
        \<and> openSealed S s (anon_cipherMac a) (anon_ciphertext a) (length (anon_ciphertext a)) = Some plain \<and> routeType q = FLOOD
       \<longrightarrow> (\<exists>w1. deliverAnon S config D q (payloadView q) w = onAnon D (anon_publicKey a) plain w1 \<and> routes_ok config w1
             \<and> route_view (anon_publicKey a) w1 = Some (rev (pathView q))))"
proof (intro conjI)
  show "parse f = Some q \<longrightarrow> routes_ok config (learnRouteFrom S config q dest w)
        \<and> route_view dest (learnRouteFrom S config q dest w) = Some (rev (pathView q))"
    using installRoute_views(1,2) [OF assms, of dest "rev (pathView q)"] learnRouteFrom_routes [of S config q dest w] pathView_reversed [of f q]
      route_view_cong [OF learnRouteFrom_routes [of S config q dest w], of dest] by (auto simp: routes_ok_def)
  show "parse f = Some q \<and> secrets_ok S (rt_store w) \<and> decodeAnonReq (payloadView q) = Some a
        \<and> anon_destinationHash a = store_selfHash (rt_store w)
        \<and> deriveShared S (kp_sk (store_self (rt_store w))) (anon_publicKey a) = Some s
        \<and> openSealed S s (anon_cipherMac a) (anon_ciphertext a) (length (anon_ciphertext a)) = Some plain \<and> routeType q = FLOOD
       \<longrightarrow> (\<exists>w1. deliverAnon S config D q (payloadView q) w = onAnon D (anon_publicKey a) plain w1 \<and> routes_ok config w1
             \<and> route_view (anon_publicKey a) w1 = Some (rev (pathView q)))" (is "?A \<longrightarrow> _")
  proof
    assume A: ?A
    then obtain w0 where w0: "rt_routes w0 = rt_routes w" "deliverAnon S config D q (payloadView q) w = onAnon D (anon_publicKey a) plain
        (installRoute config (anon_publicKey a) (rev (pathView q)) w0)"
      using deliverAnon_opens [of S w "payloadView q" a s plain q config D] pathView_reversed [of f q] by auto
    have "routes_ok config w0" using assms w0(1) by (simp add: routes_ok_def)
    from installRoute_views(1,2) [OF this] w0(2) show "\<exists>w1. deliverAnon S config D q (payloadView q) w = onAnon D (anon_publicKey a) plain w1
        \<and> routes_ok config w1 \<and> route_view (anon_publicKey a) w1 = Some (rev (pathView q))" by blast
  qed
qed (use installRoute_views(1,2) [OF assms, of dest p] installRoute_views(3) [OF assms, where dest = dest and p = p]
    forgetRoute_views [OF assms, of dest] in auto)

theorem route_table_map_witness:
  "route_view [2] (installRoute router_config_default [2] [5, 6] (router_new router_config_default store_new None ())) = Some [5, 6]
   \<and> route_view [2] (learnRouteFrom test_sodium router_config_default (built_packet ADVERT [7] False [5, 6]) [2]
       (router_new router_config_default store_new None ())) = Some [6, 5]"
proof -
  have ok: "routes_ok router_config_default (router_new router_config_default store_new None ())"
    by (simp add: routes_ok_def router_new_def)
  have t: "type_ok ADVERT" by (simp add: type_ok_def payloadType_of_def)
  have q: "parse (buildFrame ADVERT [7] False [5, 6]) = Some (built_packet ADVERT [7] False [5, 6])"
    "pathView (built_packet ADVERT [7] False [5, 6]) = [5, 6]"
    using buildFrame_parse [OF t, of "[5, 6]"] built_packet_fields(5) [OF t, of "[5, 6]"] by simp_all
  from route_table_map [OF ok] have "route_view [2] (installRoute router_config_default [2] [5, 6] (router_new router_config_default store_new None ())) = Some [5, 6]"
    by blast
  moreover from route_table_map [OF ok] q have "route_view [2] (learnRouteFrom test_sodium router_config_default (built_packet ADVERT [7] False [5, 6]) [2]
      (router_new router_config_default store_new None ())) = Some (rev [5, 6])" by metis
  ultimately show ?thesis by simp
qed

section \<open>Time\<close>

lemma handToRadio_frame [simp]:
  "rt_now (handToRadio f p w) = rt_now w" "rt_pending (handToRadio f p w) = rt_pending w"
  "rt_queue (handToRadio f p w) = rt_queue w" "rt_routes (handToRadio f p w) = rt_routes w"
  "rt_air (handToRadio f p w) = rt_air w @ [(f, p)]" "rt_delegate (handToRadio f p w) = rt_delegate w"
  "rt_store (handToRadio f p w) = rt_store w" "rt_nextId (handToRadio f p w) = rt_nextId w"
  by (simp_all add: handToRadio_def Let_def)

lemma drain_queue_spec:
  "drain_queue ds w = (kept, w') \<Longrightarrow>
     kept = filter (\<lambda>d. del_notBefore d > rt_now w) ds
     \<and> rt_air w' = rt_air w @ map (\<lambda>d. (del_frame d, del_priority d)) (filter (\<lambda>d. del_notBefore d \<le> rt_now w) ds)
     \<and> rt_now w' = rt_now w \<and> rt_pending w' = rt_pending w \<and> rt_routes w' = rt_routes w
     \<and> rt_delegate w' = rt_delegate w \<and> rt_store w' = rt_store w"
proof (induction ds arbitrary: w kept w')
  case (Cons d ds)
  show ?case
  proof (cases "del_notBefore d > rt_now w")
    case True
    obtain kept1 w1 where r: "drain_queue ds w = (kept1, w1)" by fastforce
    then show ?thesis using Cons.IH [OF r] Cons.prems True by auto
  next
    case False
    then have "drain_queue ds (handToRadio (del_frame d) (del_priority d) w) = (kept, w')" using Cons.prems by simp
    from Cons.IH [OF this] False show ?thesis by (simp add: not_less)
  qed
qed simp

definition overdue :: "Millis \<Rightarrow> Pending \<Rightarrow> bool" where
  "overdue now e \<longleftrightarrow> pend_deadline e \<le> now"

definition exhausted :: "Router_Config \<Rightarrow> Pending \<Rightarrow> bool" where
  "exhausted config e \<longleftrightarrow> pend_attempts e \<ge> maxAttempts config"

definition retried :: "Router_Config \<Rightarrow> Millis \<Rightarrow> Pending \<Rightarrow> Pending" where
  "retried config now e = (if overdue now e
     then e\<lparr>pend_attempts := pend_attempts e + 1,
            pend_deadline := now + (if pend_viaFlood e then floodAckTimeout config else directAckBase config)\<rparr> else e)"

lemma forgetRoute_frame [simp]:
  "rt_now (forgetRoute k w) = rt_now w" "rt_pending (forgetRoute k w) = rt_pending w" "rt_air (forgetRoute k w) = rt_air w"
  "rt_queue (forgetRoute k w) = rt_queue w" "rt_delegate (forgetRoute k w) = rt_delegate w"
  by (simp_all add: forgetRoute_def split: option.split)

text \<open>
  The contract the clock of the router needs: told of a failure, the delegate changes nothing but its own state. Then a tick
  returns, and what it did is known.
\<close>

locale failure_noter =
  fixes D :: "'d Delegate" and note_failure :: "SendId \<Rightarrow> 'd \<Rightarrow> 'd"
  assumes failure_noted: "onDeliveryFailed D sid w = w\<lparr>rt_delegate := note_failure sid (rt_delegate w)\<rparr>"
begin

lemma tick_pending_spec:
  assumes "rt_pending w = pre @ rest"
  shows "\<exists>w'. tick_pending config D (length pre) w = Some w'
    \<and> rt_pending w' = pre @ map (retried config (rt_now w)) (filter (\<lambda>e. \<not> (overdue (rt_now w) e \<and> exhausted config e)) rest)
    \<and> rt_air w' = rt_air w @ map (\<lambda>e. (pend_frame e, NORMAL)) (filter (\<lambda>e. overdue (rt_now w) e \<and> \<not> exhausted config e) rest)
    \<and> rt_delegate w' = fold note_failure (map pend_id (filter (\<lambda>e. overdue (rt_now w) e \<and> exhausted config e) rest)) (rt_delegate w)
    \<and> rt_now w' = rt_now w \<and> rt_queue w' = rt_queue w"
  using assms
proof (induction rest arbitrary: w pre)
  case Nil
  then show ?case by (subst tick_pending.simps) simp
next
  case (Cons e rest)
  have nth: "rt_pending w ! length pre = e" "\<not> length (rt_pending w) \<le> length pre" using Cons.prems by simp_all
  consider (keep) "\<not> overdue (rt_now w) e" | (fail) "overdue (rt_now w) e" "exhausted config e"
    | (retry) "overdue (rt_now w) e" "\<not> exhausted config e" by blast
  then show ?case
  proof cases
    case keep
    then have "tick_pending config D (length pre) w = tick_pending config D (length (pre @ [e])) w"
      using nth by (subst tick_pending.simps) (simp add: overdue_def not_le)
    then show ?thesis using Cons.IH [of w "pre @ [e]"] Cons.prems keep by (simp add: retried_def)
  next
    case fail
    let ?w1 = "w\<lparr>rt_pending := erase (length pre) (rt_pending w)\<rparr>"
    let ?w2 = "forgetRoute (pend_to e) (rt_publish RouteReset 0 (rt_publish AckTimeout (pend_id e) ?w1))"
    let ?w3 = "?w2\<lparr>rt_delegate := note_failure (pend_id e) (rt_delegate ?w2)\<rparr>"
    have "tick_pending config D (length pre) w = tick_pending config D (length pre) ?w3"
      using nth fail leD [of "pend_deadline e" "rt_now w"]
      by (subst tick_pending.simps) (simp add: overdue_def exhausted_def failure_noted Let_def)
    moreover have "rt_pending ?w3 = pre @ rest" using Cons.prems by (simp add: erase_def)
    ultimately show ?thesis using Cons.IH [of ?w3 pre] fail by simp
  next
    case retry
    let ?e = "retried config (rt_now w) e"
    let ?w1 = "handToRadio (pend_frame e) NORMAL (w\<lparr>rt_pending := (rt_pending w)[length pre := ?e]\<rparr>)"
    have "tick_pending config D (length pre) w = tick_pending config D (length (pre @ [?e])) ?w1"
      using nth retry leD [of "pend_deadline e" "rt_now w"]
      by (subst tick_pending.simps) (simp add: overdue_def exhausted_def retried_def Let_def)
    moreover have "rt_pending ?w1 = (pre @ [?e]) @ rest" using Cons.prems by simp
    ultimately show ?thesis using Cons.IH [of ?w1 "pre @ [?e]"] retry by simp
  qed
qed

lemma tick_spec:
  "\<exists>w'. router_tick config D now w = Some w'
    \<and> rt_queue w' = filter (\<lambda>d. del_notBefore d > now) (sort_key delayed_key (rt_queue w))
    \<and> rt_air w' = rt_air w
        @ map (\<lambda>d. (del_frame d, del_priority d)) (filter (\<lambda>d. del_notBefore d \<le> now) (sort_key delayed_key (rt_queue w)))
        @ map (\<lambda>e. (pend_frame e, NORMAL)) (filter (\<lambda>e. overdue now e \<and> \<not> exhausted config e) (rt_pending w))
    \<and> rt_pending w' = map (retried config now) (filter (\<lambda>e. \<not> (overdue now e \<and> exhausted config e)) (rt_pending w))
    \<and> rt_delegate w' = fold note_failure (map pend_id (filter (\<lambda>e. overdue now e \<and> exhausted config e) (rt_pending w))) (rt_delegate w)
    \<and> rt_now w' = now"
proof -
  obtain kept w1 where d: "drain_queue (sort_key delayed_key (rt_queue w)) (w\<lparr>rt_now := now\<rparr>) = (kept, w1)" by fastforce
  note spec = drain_queue_spec [OF d]
  have "rt_pending (w1\<lparr>rt_queue := kept\<rparr>) = [] @ rt_pending w" using spec by simp
  from tick_pending_spec [OF this, of config] spec show ?thesis
    by (auto simp: router_tick_def d)
qed

end

section \<open>End to end\<close>

definition routes_short :: "'d world \<Rightarrow> bool" where
  "routes_short w \<longleftrightarrow> (\<forall>r \<in> set (rt_routes w). length (route_path r) \<le> MAX_HOP_COUNT)"

lemma route_view_short: "routes_short w \<Longrightarrow> route_view k w = Some p \<Longrightarrow> length p \<le> MAX_HOP_COUNT"
  by (auto simp: routes_short_def route_view_eq dest!: map_of_SomeD)

lemma frame_to_parse:
  assumes "type_ok t" and "routes_short w"
  shows "\<exists>q. parse (frame_to t pl dest w) = Some q \<and> payloadType q = t \<and> payloadView q = take MAX_PACKET_PAYLOAD pl
     \<and> routeType q = (if route_view dest w = None then FLOOD else DIRECT)
     \<and> pathView q = (case route_view dest w of None \<Rightarrow> [] | Some p \<Rightarrow> p)"
proof (cases "route_view dest w")
  case None
  then show ?thesis
    using buildFrame_parse [OF assms(1), of "[]" pl False] built_packet_fields [OF assms(1), of "[]" pl False]
    by (simp add: frame_to_def)
next
  case (Some p)
  then have p: "length p \<le> MAX_HOP_COUNT" using route_view_short [OF assms(2)] by blast
  show ?thesis
    using buildFrame_parse [OF assms(1) p, of pl True] built_packet_fields [OF assms(1) p, of pl True] Some
    by (simp add: frame_to_def)
qed

lemma installRoute_frame [simp]:
  "rt_now (installRoute config k p w) = rt_now w" "rt_pending (installRoute config k p w) = rt_pending w"
  "rt_air (installRoute config k p w) = rt_air w" "rt_store (installRoute config k p w) = rt_store w"
  "rt_delegate (installRoute config k p w) = rt_delegate w" "rt_queue (installRoute config k p w) = rt_queue w"
  "rt_nextId (installRoute config k p w) = rt_nextId w"
  by (simp_all add: installRoute_def Let_def split: option.split)

lemma installRoute_short:
  assumes "routes_short w" and "length p \<le> MAX_HOP_COUNT" shows "routes_short (installRoute config k p w)"
  using assms
  by (auto simp: routes_short_def installRoute_def Let_def split: option.splits if_splits
      dest!: set_update_subset_insert [THEN subsetD] in_set_dropD)

lemma learnRouteFrom_frame:
  assumes "routes_short w" and "length (pathView p) \<le> MAX_HOP_COUNT"
  shows "routes_short (learnRouteFrom S config p k w)" and "rt_delegate (learnRouteFrom S config p k w) = rt_delegate w"
proof -
  let ?w = "installRoute config k (reversePath (pathView p) MAX_PATH_SIZE) w"
  have "routes_short ?w" using assms by (intro installRoute_short) (simp_all add: reversePath_rev)
  then show "routes_short (learnRouteFrom S config p k w)"
    using sendPathReturn_frame [of S k "pathView p" ?w] by (simp add: learnRouteFrom_def routes_short_def)
  show "rt_delegate (learnRouteFrom S config p k w) = rt_delegate w"
    using sendPathReturn_frame [of S k "pathView p" ?w] by (simp add: learnRouteFrom_def)
qed

text \<open>Forwarding leaves the air and the delegate as deciding about it left them.\<close>

lemma considerForwarding_rest:
  assumes "wf_packet p" and "delegate_shouldForward D p w = (ok, w1)"
  shows "rt_air (considerForwarding src config D p meta w) = rt_air w1"
    and "rt_delegate (considerForwarding src config D p meta w) = rt_delegate w1"
  using considerForwarding_cases [OF assms, where meta = meta and config = config and src = src]
  by (cases "ok \<and> passes (store_selfHash (rt_store w1)) p"; auto simp: queueFrame_def)+

lemma seal_wire_opens:
  assumes "memcmp_spec S" and "seal_wire S s dest h plain = Some pl"
  shows "\<exists>e. decodeEnvelope pl = Some e \<and> env_destinationHash e = dest ! 0 \<and> env_sourceHash e = h \<and> length pl \<le> MAX_PACKET_PAYLOAD
     \<and> openSealed S s (env_cipherMac e) (env_ciphertext e) (length (env_ciphertext e)) = Some plain"
proof -
  obtain sd where sd: "seal S s plain MAX_PACKET_PAYLOAD = Some sd"
      and e: "encodeEnvelope \<lparr>env_destinationHash = dest ! 0, env_sourceHash = h,
          env_cipherMac = sealed_mac sd, env_ciphertext = sealed_ciphertext sd\<rparr> MAX_PACKET_PAYLOAD = Some pl"
    using assms(2) by (auto simp: seal_wire_def split: option.splits)
  have "length pl \<le> MAX_PACKET_PAYLOAD" using e by (auto simp: encodeEnvelope_def Let_def split: if_splits)
  then show ?thesis using decodeEnvelope_encodeEnvelope [OF e] openSealed_seal [OF assms(1) sd order_refl] by auto
qed


lemma sendDirect_frames:
  assumes "sendDirect S config dest t plain True a = (sid, a')" and "rt_air a' = rt_air a @ [(f, NORMAL)]"
    and "secrets_ok S (rt_store a)" and "length (rt_pending a) < maxPending config"
  shows "\<exists>s pl e. deriveShared S (kp_sk (store_self (rt_store a))) dest = Some s
    \<and> seal_wire S s dest (store_selfHash (rt_store a)) plain = Some pl
    \<and> f = frame_to t pl dest a \<and> rt_pending a' = rt_pending a @ [e] \<and> pend_id e = sid
    \<and> pend_expectedAck e = expectedAck S plain (kp_pk (store_self (rt_store a)))"
proof -
  let ?a = "a\<lparr>rt_nextId := rt_nextId a + 1\<rparr>"
  obtain r a1 where fs: "fetch_secret S dest ?a = (r, a1)" by fastforce
  have ok: "secrets_ok S (rt_store ?a)" using assms(3) by simp
  note spec = fetch_secret_spec [OF ok fs]
  note fr = fetch_secret_frame [OF fs]
  have rv: "route_view dest a1 = route_view dest a" using fr by (intro route_view_cong) simp
  have ft: "frame_to t pl dest a1 = frame_to t pl dest a" for pl by (simp add: frame_to_def rv)
  have "r \<noteq> None"
  proof
    assume "r = None"
    then have "a' = a1" using assms(1) fs by (simp add: sendDirect_def Let_def)
    then show False using assms(2) fr by simp
  qed
  then obtain s where s: "r = Some s" by blast
  have "seal_wire S s dest (store_selfHash (rt_store a1)) plain \<noteq> None"
  proof
    assume "seal_wire S s dest (store_selfHash (rt_store a1)) plain = None"
    then have "a' = a1" using assms(1) fs s by (simp add: sendDirect_def Let_def)
    then show False using assms(2) fr by simp
  qed
  then obtain pl where pl: "seal_wire S s dest (store_selfHash (rt_store a1)) plain = Some pl" by blast
  show ?thesis
    using assms(1,2,4) fs s pl spec fr ft by (auto simp: sendDirect_def Let_def)
qed

lemma find_index_last: "\<forall>x \<in> set xs. \<not> P x \<Longrightarrow> P y \<Longrightarrow> find_index P (xs @ [y]) = Some (length xs)"
  by (induction xs) auto

lemma ack_clears_entry:
  assumes "rt_pending a' = rt_pending a @ [e]" "pend_id e = sid" "pend_expectedAck e = x"
    and "\<forall>e \<in> set (rt_pending a). pend_expectedAck e \<noteq> x"
    and "rt_pending a2 = rt_pending a'" and "payloadView r = writeUint32 x"
  shows "handleAck DA (payloadView r) a2 = onAck DA sid (a2\<lparr>rt_pending := rt_pending a\<rparr>)"
proof -
  have "find_index (\<lambda>e. pend_expectedAck e = x) (rt_pending a @ [e]) = Some (length (rt_pending a))"
    using assms(3,4) by (intro find_index_last) auto
  then show ?thesis using assms(1,2,5,6) by (simp add: handleAck_def erase_def nth_append)
qed

definition test_node :: "byte \<Rightarrow> Contact list \<Rightarrow> nat list list \<Rightarrow> bytes list world" where
  "test_node k cs bs = router_new router_config_default
     (store_new\<lparr>store_self := \<lparr>kp_pk = replicate 32 k, kp_sk = replicate 64 k\<rparr>, store_selfHash := k, contacts := cs, buckets := bs\<rparr>)
     None []"

definition test_sender :: "bytes list world" where
  "test_sender = test_node 1 [] (replicate 256 [])"

text \<open>
  A returned path of 64 hops, which the path codec accepts, makes the peer unreachable: the route is stored as it came,
  and every frame then built for that peer has a hop count the format cannot carry, so what is handed to the radio is
  empty.
\<close>

theorem returned_path_of_64_silences:
  assumes "routes_ok config w" and "decodePath plain = Some returned" and "length (ret_path returned) = MAX_PATH_SIZE"
  shows "frame_to t pl k (installRoute config k (ret_path returned) w) = []"
proof -
  have "buildFrame t pl True p = []" if "length p = 64" for p
    using that by (simp add: buildFrame_def Let_def serialize_def)
  then show ?thesis
    using installRoute_views(2) [OF assms(1), of k "ret_path returned"] assms(3) by (simp add: frame_to_def)
qed

theorem returned_path_of_64_silences_witness:
  "decodePath (64 # replicate 64 9 @ [0]) \<noteq> None
   \<and> frame_to TXT_MSG [1] [7] (installRoute router_config_default [7] (replicate 64 9) test_sender) = []"
proof -
  have d: "decodePath (64 # replicate 64 9 @ [0]) = Some \<lparr>ret_path = replicate 64 9, ret_extraType = 0, ret_extra = []\<rparr>"
    by (simp add: decodePath_def Let_def subspan_def nth_append)
  have "routes_ok router_config_default test_sender"
    by (simp add: routes_ok_def test_sender_def test_node_def router_new_def)
  from returned_path_of_64_silences [OF this d] d show ?thesis by simp
qed

end
