(* ===== verification/Room_Text.thy ===== *)
theory Room_Text
  imports MC_Prelude "HOL-Library.Signed_Division"
begin

text \<open>
  The text helpers of \<^verbatim>\<open>src/src/room/room.cpp\<close>: splitting a command line, reading numbers and switches, and
  dates. A \<^verbatim>\<open>std::string\<close> or \<^verbatim>\<open>std::string_view\<close> off the air is a list of bytes; \<open>ascii\<close> turns the
  literals of the source into one.
\<close>

section \<open>Strings\<close>

definition ascii :: "string \<Rightarrow> bytes" where
  "ascii s = map of_char s"

text \<open>What \<^verbatim>\<open>%s\<close> and \<^verbatim>\<open>%.*s\<close> print of a buffer: it ends at the first zero byte.\<close>

definition cstr :: "bytes \<Rightarrow> bytes" where
  "cstr s = takeWhile (\<lambda>b. b \<noteq> 0) s"

text \<open>\<^verbatim>\<open>%u\<close>, \<^verbatim>\<open>%02u\<close>, \<^verbatim>\<open>%d\<close> and \<^verbatim>\<open>%02x\<close>.\<close>

definition fmt_u :: "nat \<Rightarrow> bytes" where
  "fmt_u n = ascii (decimal n)"

definition fmt_02u :: "nat \<Rightarrow> bytes" where
  "fmt_02u n = (if n < 10 then ascii ''0'' @ fmt_u n else fmt_u n)"

definition fmt_d :: "int \<Rightarrow> bytes" where
  "fmt_d i = (if i < 0 then ascii ''-'' @ fmt_u (nat (- i)) else fmt_u (nat i))"

definition hex_digit :: "nat \<Rightarrow> char" where
  "hex_digit n = ''0123456789abcdef'' ! n"

definition fmt_02x :: "byte \<Rightarrow> bytes" where
  "fmt_02x b = ascii [hex_digit (unat b div 16), hex_digit (unat b mod 16)]"

section \<open>Command lines\<close>

definition is_gap :: "byte \<Rightarrow> bool" where
  "is_gap b \<longleftrightarrow> b = 32 \<or> b = 9"

definition is_blank :: "byte \<Rightarrow> bool" where
  "is_blank b \<longleftrightarrow> b = 32 \<or> b = 9 \<or> b = 13 \<or> b = 10 \<or> b = 0"

text \<open>The word taken and the line that is left.\<close>

definition takeWord :: "bytes \<Rightarrow> bytes \<times> bytes" where
  "takeWord line =
     (let rest = dropWhile is_gap line in
      if rest = [] then ([], [])
      else (takeWhile (\<lambda>b. \<not> is_gap b) rest, drop 1 (dropWhile (\<lambda>b. \<not> is_gap b) rest)))"

definition trimmed :: "bytes \<Rightarrow> bytes" where
  "trimmed line = rev (dropWhile is_blank (rev (dropWhile is_blank line)))"

fun parse_digits :: "u64 \<Rightarrow> bytes \<Rightarrow> u64 option" where
  "parse_digits v [] = Some v"
| "parse_digits v (d # ds) =
     (if d < 48 \<or> d > 57 then None else parse_digits (v * 10 + ucast (d - 48)) ds)"

definition parseUint32 :: "bytes \<Rightarrow> u32 option" where
  "parseUint32 text =
     (if text = [] \<or> length text > 10 then None else
      case parse_digits 0 text of None \<Rightarrow> None
      | Some v \<Rightarrow> if v > 0xFFFFFFFF then None else Some (ucast v))"

definition parseOnOff :: "bytes \<Rightarrow> bool option" where
  "parseOnOff text =
     (if text = ascii ''on'' \<or> text = ascii ''1'' \<or> text = ascii ''true'' then Some True
      else if text = ascii ''off'' \<or> text = ascii ''0'' \<or> text = ascii ''false'' then Some False
      else None)"

section \<open>Dates\<close>

text \<open>Year, month and day. The division of \<^verbatim>\<open>int64_t\<close> truncates; the later quantities are not negative.\<close>

definition civilFromDays :: "int \<Rightarrow> int \<times> int \<times> int" where
  "civilFromDays d =
     (let days = d + 719468;
          era = (if days \<ge> 0 then days else days - 146096) sdiv 146097;
          dayOfEra = days - era * 146097;
          yearOfEra = (dayOfEra - dayOfEra div 1460 + dayOfEra div 36524 - dayOfEra div 146096) div 365;
          dayOfYear = dayOfEra - (365 * yearOfEra + yearOfEra div 4 - yearOfEra div 100);
          monthPrime = (5 * dayOfYear + 2) div 153;
          day = dayOfYear - (153 * monthPrime + 2) div 5 + 1;
          month = monthPrime + (if monthPrime < 10 then 3 else - 9);
          year = yearOfEra + era * 400 + (if month \<le> 2 then 1 else 0)
      in (year, month, day))"

definition formatUtc :: "u32 \<Rightarrow> nat \<Rightarrow> bytes" where
  "formatUtc epoch sz =
     (let days = int (unat epoch div 86400); seconds = unat epoch mod 86400;
          (year, month, day) = civilFromDays days
      in take (sz - 1) (fmt_02u (seconds div 3600) @ ascii '':'' @ fmt_02u (seconds div 60 mod 60) @ ascii '':''
           @ fmt_02u (seconds mod 60) @ ascii '' '' @ fmt_d day @ ascii ''/'' @ fmt_d month @ ascii ''/''
           @ fmt_d year @ ascii '' UTC''))"

section \<open>Digits\<close>

text \<open>What \<^verbatim>\<open>strtol\<close> and its like make of a run of digits.\<close>

definition is_digit :: "byte \<Rightarrow> bool" where
  "is_digit b \<longleftrightarrow> 48 \<le> b \<and> b \<le> 57"

definition digits_value :: "bytes \<Rightarrow> int" where
  "digits_value ds = foldl (\<lambda>v d. v * 10 + (uint d - 48)) 0 ds"

lemma of_char_digit: "n < 10 \<Longrightarrow> (of_char (char_of (48 + n)) :: byte) = 48 + of_nat n"
proof -
  assume "n < 10"
  have "(of_char (char_of (48 + n)) :: byte) = of_nat (of_char (char_of (48 + n)))" by (simp only: of_nat_of_char)
  also have "\<dots> = of_nat (48 + n)" using \<open>n < 10\<close> by (simp only: of_char_of) simp
  finally show ?thesis by simp
qed

lemma is_digit_byte: "m < 10 \<Longrightarrow> is_digit (48 + of_nat m) \<and> uint (48 + of_nat m :: byte) = 48 + int m"
proof -
  assume "m < 10"
  then have "unat (48 + of_nat m :: byte) = 48 + m" by (simp add: unat_word_ariths unat_of_nat)
  then show ?thesis using \<open>m < 10\<close> by (simp add: is_digit_def word_le_nat_alt uint_nat)
qed

lemma decimal_digits: "list_all is_digit (ascii (decimal n)) \<and> digits_value (ascii (decimal n)) = int n \<and> decimal n \<noteq> []"
proof (induction n rule: decimal.induct)
  case (1 n)
  show ?case
  proof (cases "n < 10")
    case True
    then show ?thesis using is_digit_byte of_char_digit by (simp add: decimal.simps [of n] ascii_def digits_value_def)
  next
    case False
    have m: "n mod 10 < 10" by simp
    have "int (n div 10) * 10 + int (n mod 10) = int n" by presburger
    then show ?thesis using False 1 [OF False] is_digit_byte [OF m] of_char_digit [OF m]
      by (simp add: decimal.simps [of n] ascii_def digits_value_def)
  qed
qed

end
