(* ===== verification/Room_State.thy ===== *)
theory Room_State
  imports Room_Text Mesh_Router Transit_Policy
begin

text \<open>
  The state of \<^verbatim>\<open>src/src/room/room.h\<close> and the operations of \<^verbatim>\<open>room.cpp\<close> that touch nothing but it: rights,
  failed logins, eviction, bookmarks and whose turn it is. Pointers to clients are positions in the vector.
  \<open>'h\<close> is the state behind the \<^verbatim>\<open>Admin\<close> interface, which the room reaches through a pointer only.
\<close>

section \<open>Data\<close>

abbreviation (input) MAX_POSTS :: nat where "MAX_POSTS \<equiv> 32"
abbreviation (input) MAX_POST_TEXT :: nat where "MAX_POST_TEXT \<equiv> 151"
abbreviation (input) POST_AUTHOR_PREFIX :: nat where "POST_AUTHOR_PREFIX \<equiv> 4"
abbreviation (input) MAX_ROOM_CLIENTS :: nat where "MAX_ROOM_CLIENTS \<equiv> 64"
abbreviation (input) MAX_PASSWORD :: nat where "MAX_PASSWORD \<equiv> 32"
abbreviation (input) MAX_POST_AUTHOR_NAME :: nat where "MAX_POST_AUTHOR_NAME \<equiv> 16"
abbreviation (input) MAX_PUSH_BODY :: nat where "MAX_PUSH_BODY \<equiv> 170"
abbreviation (input) MAX_LOGIN_FAILURES :: nat where "MAX_LOGIN_FAILURES \<equiv> 32"
abbreviation (input) MAX_NODE_NAME :: nat where "MAX_NODE_NAME \<equiv> 32"
abbreviation (input) MAX_CLI_REPLY :: nat where "MAX_CLI_REPLY \<equiv> 160"
abbreviation (input) LOGIN_REQUEST_PREFIX_SIZE :: nat where "LOGIN_REQUEST_PREFIX_SIZE \<equiv> 8"
abbreviation (input) REQUEST_PREFIX_SIZE :: nat where "REQUEST_PREFIX_SIZE \<equiv> 5"
abbreviation (input) KEEP_ALIVE_ACK_BYTES :: nat where "KEEP_ALIVE_ACK_BYTES \<equiv> 9"

text \<open>Enums over \<^verbatim>\<open>uint8_t\<close> that are cast from a byte of a packet or a file keep values they do not name.\<close>

type_synonym Access = byte

abbreviation (input) NONE :: Access where "NONE \<equiv> 0"
abbreviation (input) READ_ONLY :: Access where "READ_ONLY \<equiv> 1"
abbreviation (input) GUEST :: Access where "GUEST \<equiv> 2"
abbreviation (input) ADMIN :: Access where "ADMIN \<equiv> 3"

abbreviation (input) PLAIN :: byte where "PLAIN \<equiv> 0"
abbreviation (input) CLI :: byte where "CLI \<equiv> 1"
abbreviation (input) SIGNED :: byte where "SIGNED \<equiv> 2"

abbreviation (input) STATUS :: byte where "STATUS \<equiv> 1"
abbreviation (input) KEEP_ALIVE :: byte where "KEEP_ALIVE \<equiv> 2"

datatype Action = READ | POST | COMMAND

datatype Room_NodeType = ROOM | REPEATER_ONLY | ROOM_REPEATER

definition keepsBoard :: "Room_NodeType \<Rightarrow> bool" where
  "keepsBoard type \<longleftrightarrow> type \<noteq> REPEATER_ONLY"

definition repeats :: "Room_NodeType \<Rightarrow> bool" where
  "repeats type \<longleftrightarrow> type \<noteq> ROOM"

record Channel =
  ch_name :: bytes
  ch_secret :: shared_secret
  ch_hash :: byte

record Post =
  post_seq :: u32
  post_timestamp :: u32
  post_author :: bytes
  post_text :: bytes

record Client =
  cl_pk :: public_key
  cl_access :: Access
  cl_syncSeq :: u32
  cl_lastLogin :: u32
  cl_lastCommand :: u32
  cl_lastRequest :: u32
  cl_pending :: bool
  cl_pendingId :: SendId
  cl_pendingSeq :: u32
  cl_retryAfter :: Millis

definition client_init :: Client where
  "client_init = \<lparr>cl_pk = replicate 32 0, cl_access = NONE, cl_syncSeq = 0, cl_lastLogin = 0, cl_lastCommand = 0,
     cl_lastRequest = 0, cl_pending = False, cl_pendingId = 0, cl_pendingSeq = 0, cl_retryAfter = 0\<rparr>"

record Failure =
  fail_pk :: public_key
  fail_count :: byte
  fail_until :: Millis

record Room_Config =
  room_type :: Room_NodeType
  adminPassword :: bytes
  guestPassword :: bytes
  allowAnonymousRead :: bool
  clockWindow :: u32
  retryDelay :: Millis
  firmwareVersion :: u16
  maxLoginAttempts :: byte
  loginLockout :: Millis
  channels :: "Channel list"

definition room_config_default :: Room_Config where
  "room_config_default = \<lparr>room_type = ROOM, adminPassword = [], guestPassword = [], allowAnonymousRead = False,
     clockWindow = 3600, retryDelay = 5000, firmwareVersion = 1, maxLoginAttempts = 5, loginLockout = 60000,
     channels = []\<rparr>"

record 'h Room =
  room_config :: Room_Config
  forwarder :: "Policy option"
  room_now :: Millis
  serverTime :: u32
  radioLoad :: u32
  room_dir :: string
  posts :: "Post list"
  clients :: "Client list"
  failures :: "Failure list"
  nextClientIdx :: nat
  nextSeq :: u32
  host :: 'h

definition room_new :: "Room_Config \<Rightarrow> Policy option \<Rightarrow> 'h \<Rightarrow> 'h Room" where
  "room_new config policy h = \<lparr>room_config = config, forwarder = policy, room_now = 0, serverTime = 0, radioLoad = 0,
     room_dir = [], posts = [], clients = [], failures = [], nextClientIdx = 0, nextSeq = 1, host = h\<rparr>"

definition setServerTime :: "u32 \<Rightarrow> 'h Room \<Rightarrow> 'h Room" where
  "setServerTime unixSeconds r = r\<lparr>serverTime := unixSeconds\<rparr>"

definition setRadioLoad :: "u32 \<Rightarrow> 'h Room \<Rightarrow> 'h Room" where
  "setRadioLoad permille r = r\<lparr>radioLoad := permille\<rparr>"

definition update_client :: "nat \<Rightarrow> (Client \<Rightarrow> Client) \<Rightarrow> 'h Room \<Rightarrow> 'h Room" where
  "update_client i f r = r\<lparr>clients := (clients r)[i := f (clients r ! i)]\<rparr>"

section \<open>Rights\<close>

fun can :: "Room_NodeType \<Rightarrow> Client \<Rightarrow> Action \<Rightarrow> bool" where
  "can type client READ \<longleftrightarrow> cl_access client \<noteq> NONE"
| "can type client POST \<longleftrightarrow> keepsBoard type \<and> (cl_access client = GUEST \<or> cl_access client = ADMIN)"
| "can type client COMMAND \<longleftrightarrow> cl_access client = ADMIN"

definition findClient :: "public_key \<Rightarrow> 'h Room \<Rightarrow> nat option" where
  "findClient pk r = find_index (\<lambda>c. cl_pk c = pk) (clients r)"

section \<open>Posts\<close>

definition sanitiseTimestamp :: "u32 \<Rightarrow> 'h Room \<Rightarrow> u32" where
  "sanitiseTimestamp claimed r =
     (if serverTime r = 0 then claimed else
      let window = clockWindow (room_config r);
          low = (if serverTime r > window then serverTime r - window else 0);
          high = serverTime r + window
      in if claimed \<ge> low \<and> claimed \<le> high then claimed else serverTime r)"

definition store_post :: "public_key \<Rightarrow> u32 \<Rightarrow> bytes \<Rightarrow> 'h Room \<Rightarrow> 'h Room" where
  "store_post author timestamp text r =
     (let post = \<lparr>post_seq = nextSeq r, post_timestamp = sanitiseTimestamp timestamp r,
            post_author = take POST_AUTHOR_PREFIX author, post_text = take MAX_POST_TEXT text\<rparr>;
          kept = (if length (posts r) \<ge> MAX_POSTS then drop 1 (posts r) else posts r)
      in r\<lparr>nextSeq := nextSeq r + 1, posts := kept @ [post]\<rparr>)"

definition written_by :: "Client \<Rightarrow> Post \<Rightarrow> bool" where
  "written_by client post \<longleftrightarrow> post_author post = take POST_AUTHOR_PREFIX (cl_pk client)"

definition is_unread :: "Client \<Rightarrow> Post \<Rightarrow> bool" where
  "is_unread client post \<longleftrightarrow> \<not> post_seq post \<le> cl_syncSeq client \<and> \<not> written_by client post"

definition unreadFor :: "Client \<Rightarrow> 'h Room \<Rightarrow> nat" where
  "unreadFor client r = length (filter (is_unread client) (posts r))"

definition nextPostFor :: "Client \<Rightarrow> 'h Room \<Rightarrow> Post option" where
  "nextPostFor client r = List.find (is_unread client) (posts r)"

fun seq_scan :: "u32 \<Rightarrow> u32 \<Rightarrow> Post list \<Rightarrow> u32" where
  "seq_scan bookmark seq [] = seq"
| "seq_scan bookmark seq (post # rest) =
     (if post_timestamp post > bookmark then seq else seq_scan bookmark (post_seq post) rest)"

definition seqFromTimestamp :: "u32 \<Rightarrow> 'h Room \<Rightarrow> u32" where
  "seqFromTimestamp bookmark r = seq_scan bookmark 0 (posts r)"

section \<open>Login\<close>

definition lockedOut :: "public_key \<Rightarrow> 'h Room \<Rightarrow> bool \<times> 'h Room" where
  "lockedOut pk r =
     (case find_index (\<lambda>f. fail_pk f = pk) (failures r) of None \<Rightarrow> (False, r)
      | Some i \<Rightarrow>
        let until = fail_until (failures r ! i) in
        if until \<noteq> 0 \<and> until \<le> room_now r then (False, r\<lparr>failures := erase i (failures r)\<rparr>)
        else (until > room_now r, r))"

definition noteFailure :: "public_key \<Rightarrow> 'h Room \<Rightarrow> 'h Room" where
  "noteFailure pk r =
     (let limit = maxLoginAttempts (room_config r); lock = room_now r + loginLockout (room_config r) in
      case find_index (\<lambda>f. fail_pk f = pk) (failures r) of
        Some i \<Rightarrow>
          let f = failures r ! i;
              f = (if fail_count f < 255 then f\<lparr>fail_count := fail_count f + 1\<rparr> else f);
              f = (if fail_count f \<ge> limit then f\<lparr>fail_until := lock\<rparr> else f)
          in r\<lparr>failures := (failures r)[i := f]\<rparr>
      | None \<Rightarrow>
          let fs = (if length (failures r) \<ge> MAX_LOGIN_FAILURES
                    then erase (least_index (\<lambda>i. fail_until (failures r ! i)) [1..<length (failures r)] 0) (failures r)
                    else failures r);
              f = \<lparr>fail_pk = pk, fail_count = 1, fail_until = (if 1 \<ge> limit then lock else 0)\<rparr>
          in r\<lparr>failures := fs @ [f]\<rparr>)"

definition clearFailures :: "public_key \<Rightarrow> 'h Room \<Rightarrow> 'h Room" where
  "clearFailures pk r =
     (case find_index (\<lambda>f. fail_pk f = pk) (failures r) of None \<Rightarrow> r
      | Some i \<Rightarrow> r\<lparr>failures := erase i (failures r)\<rparr>)"

text \<open>One pass of the search for a victim: over the admins or over everybody else.\<close>

definition evict_pass :: "bool \<Rightarrow> Client list \<Rightarrow> nat \<Rightarrow> nat \<times> bool" where
  "evict_pass admins cs victim =
     fold (\<lambda>i (victim, found).
       if (cl_access (cs ! i) = ADMIN) \<noteq> admins then (victim, found)
       else if \<not> found \<or> cl_lastLogin (cs ! i) < cl_lastLogin (cs ! victim) then (i, True)
       else (victim, found)) [0..<length cs] (victim, False)"

definition evictClient :: "'h Room \<Rightarrow> 'h Room" where
  "evictClient r =
     (if clients r = [] then r else
      let (victim, found) = evict_pass False (clients r) 0;
          victim = (if found then victim else fst (evict_pass True (clients r) victim))
      in r\<lparr>clients := erase victim (clients r)\<rparr>)"

definition passwordMatches :: "sodium \<Rightarrow> bytes \<Rightarrow> bytes \<Rightarrow> bool" where
  "passwordMatches S candidate expected \<longleftrightarrow> expected \<noteq> [] \<and> constantTimeEqual S candidate expected"

text \<open>The last steps of a login that got this far: the client's row, new or old.\<close>

definition admit_client :: "public_key \<Rightarrow> nat option \<Rightarrow> Access \<Rightarrow> u32 \<Rightarrow> 'h Room \<Rightarrow> nat \<times> 'h Room" where
  "admit_client pk known access timestamp r =
     (let r = (if access \<noteq> READ_ONLY then clearFailures pk r else r);
          (i, r) = (case known of Some i \<Rightarrow> (i, r)
             | None \<Rightarrow>
               let r = (if length (clients r) \<ge> MAX_ROOM_CLIENTS then evictClient r else r)
               in (length (clients r), r\<lparr>clients := clients r @ [client_init\<lparr>cl_pk := pk\<rparr>]\<rparr>))
      in (i, update_client i (\<lambda>c. c\<lparr>cl_access := access, cl_lastLogin := timestamp\<rparr>) r))"

definition authenticate ::
  "sodium \<Rightarrow> public_key \<Rightarrow> bytes \<Rightarrow> u32 \<Rightarrow> 'h Room \<Rightarrow> nat option \<times> 'h Room" where
  "authenticate S pk password timestamp r =
     (let known = findClient pk r in
      if (case known of None \<Rightarrow> False | Some i \<Rightarrow> timestamp \<le> cl_lastLogin (clients r ! i)) then (None, r) else
      let (locked, r) = lockedOut pk r in
      if locked then (None, r) else
      if passwordMatches S password (adminPassword (room_config r)) then apfst Some (admit_client pk known ADMIN timestamp r)
      else if passwordMatches S password (guestPassword (room_config r)) then apfst Some (admit_client pk known GUEST timestamp r)
      else let r = (if password \<noteq> [] then noteFailure pk r else r) in
        if \<not> allowAnonymousRead (room_config r) then (None, r)
        else apfst Some (admit_client pk known READ_ONLY timestamp r))"

section \<open>Pushing\<close>

definition wants_push :: "'h Room \<Rightarrow> Client \<Rightarrow> bool" where
  "wants_push r client \<longleftrightarrow> \<not> cl_pending client \<and> \<not> cl_retryAfter client > room_now r
     \<and> can (room_type (room_config r)) client READ \<and> nextPostFor client r \<noteq> None"

definition nextClientToPush :: "'h Room \<Rightarrow> nat option \<times> 'h Room" where
  "nextClientToPush r =
     (let n = length (clients r) in
      if n = 0 then (None, r) else
      case List.find (\<lambda>i. wants_push r (clients r ! i)) (map (\<lambda>step. (nextClientIdx r + step) mod n) [0..<n]) of
        None \<Rightarrow> (None, r)
      | Some i \<Rightarrow> (Some i, r\<lparr>nextClientIdx := (i + 1) mod n\<rparr>))"

definition room_onAck :: "SendId \<Rightarrow> 'h Room \<Rightarrow> 'h Room" where
  "room_onAck sid r =
     (case find_index (\<lambda>c. cl_pending c \<and> cl_pendingId c = sid) (clients r) of None \<Rightarrow> r
      | Some i \<Rightarrow> update_client i (\<lambda>c. c\<lparr>cl_syncSeq := cl_pendingSeq c, cl_pending := False, cl_retryAfter := 0\<rparr>) r)"

definition room_onDeliveryFailed :: "SendId \<Rightarrow> 'h Room \<Rightarrow> 'h Room" where
  "room_onDeliveryFailed sid r =
     (case find_index (\<lambda>c. cl_pending c \<and> cl_pendingId c = sid) (clients r) of None \<Rightarrow> r
      | Some i \<Rightarrow> update_client i (\<lambda>c. c\<lparr>cl_pending := False,
          cl_retryAfter := room_now r + retryDelay (room_config r)\<rparr>) r)"

end
