(* ===== verification/Room_Server.thy ===== *)
theory Room_Server
  imports Room_State
begin

text \<open>
  \<^verbatim>\<open>src/src/room/room.cpp\<close>: what the room does with what the router hands it, on the world the router and the
  room share. \<open>Sender\<close> and \<open>Admin\<close> are the two abstract classes of \<^verbatim>\<open>room.h\<close>, as records of functions;
  \<open>Surroundings\<close> collects what a room is constructed with. \<open>router_sender\<close> is the class
  \<^verbatim>\<open>RouterSender\<close> of \<^verbatim>\<open>main.cpp\<close> after its router is attached, and \<open>room_delegate\<close> is the room as the
  router's delegate.
\<close>

unbundle bit_operations_syntax

section \<open>Interfaces\<close>

record 'w Sender =
  sender_sendDirect :: "public_key \<Rightarrow> PayloadType \<Rightarrow> bytes \<Rightarrow> bool \<Rightarrow> 'w \<Rightarrow> SendId \<times> 'w"
  sender_sendAck :: "public_key \<Rightarrow> u32 \<Rightarrow> bytes \<Rightarrow> 'w \<Rightarrow> 'w"
  sender_sendFlood :: "PayloadType \<Rightarrow> bytes \<Rightarrow> 'w \<Rightarrow> 'w"

text \<open>A call that changes something returns whether it did, or leaves by an exception: \<open>None\<close>.\<close>

record 'h Admin =
  admin_sendAdvert :: "'h \<Rightarrow> 'h"
  admin_setClock :: "u32 \<Rightarrow> 'h \<Rightarrow> bool option \<times> 'h"
  admin_nodeName :: "'h \<Rightarrow> bytes"
  admin_setNodeName :: "bytes \<Rightarrow> 'h \<Rightarrow> bool option \<times> 'h"
  admin_saveSetting :: "string \<Rightarrow> bytes \<Rightarrow> 'h \<Rightarrow> bool option \<times> 'h"
  admin_requestReboot :: "'h \<Rightarrow> 'h"
  admin_uptime :: "'h \<Rightarrow> u32"

record 'h Surroundings =
  sur_sodium :: sodium
  sur_random :: random_source
  sur_sender :: "'h Room world Sender"
  sur_admin :: "'h Admin option"

abbreviation room_of :: "'h Room world \<Rightarrow> 'h Room" where
  "room_of w \<equiv> rt_delegate w"

definition on_room :: "('h Room \<Rightarrow> 'h Room) \<Rightarrow> 'h Room world \<Rightarrow> 'h Room world" where
  "on_room f w = w\<lparr>rt_delegate := f (rt_delegate w)\<rparr>"

definition room_publish :: "EventType \<Rightarrow> 'h Room world \<Rightarrow> 'h Room world" where
  "room_publish type w = w\<lparr>rt_bus := map_option (publish type (serverTime (room_of w)) 0) (rt_bus w)\<rparr>"

definition room_nonce :: "'h Surroundings \<Rightarrow> 'h Room world \<Rightarrow> bytes \<times> 'h Room world" where
  "room_nonce H w =
     (let (nonce, drawn) = randomBytes (sur_random H) (rt_drawn w) LOGIN_RESPONSE_NONCE_SIZE
      in (nonce, w\<lparr>rt_drawn := drawn\<rparr>))"

section \<open>Posts and login\<close>

definition addPost :: "public_key \<Rightarrow> u32 \<Rightarrow> bytes \<Rightarrow> 'h Room world \<Rightarrow> 'h Room world" where
  "addPost author timestamp text w = room_publish PostAdded (on_room (store_post author timestamp text) w)"

definition low_high :: "u16 \<Rightarrow> bytes" where
  "low_high v = [ucast v, ucast (drop_bit 8 v)]"

definition byte_min :: "nat \<Rightarrow> byte" where
  "byte_min n = of_nat (min n 255)"

definition sendLoginResponse :: "'h Surroundings \<Rightarrow> public_key \<Rightarrow> Client \<Rightarrow> 'h Room world \<Rightarrow> 'h Room world" where
  "sendLoginResponse H dest client w =
     (let (nonce, w) = room_nonce H w;
          body = writeUint32 (serverTime (room_of w)) @ [0, 0, if cl_access client = ADMIN then 1 else 0, cl_access client]
            @ nonce @ low_high (firmwareVersion (room_config (room_of w)))
      in snd (sender_sendDirect (sur_sender H) dest RESPONSE body False w))"

definition room_onAnon :: "'h Surroundings \<Rightarrow> public_key \<Rightarrow> bytes \<Rightarrow> 'h Room world \<Rightarrow> 'h Room world" where
  "room_onAnon H from plain w =
     (if length plain < LOGIN_REQUEST_PREFIX_SIZE then w else
      let timestamp = readUint32 plain 0; syncSince = readUint32 plain 4;
          password = trimmed (take MAX_PASSWORD (drop LOGIN_REQUEST_PREFIX_SIZE plain));
          (client, r) = authenticate (sur_sodium H) from password timestamp (room_of w);
          w = w\<lparr>rt_delegate := r\<rparr> in
      case client of None \<Rightarrow> w
      | Some i \<Rightarrow>
        let w = on_room (update_client i (\<lambda>c. c\<lparr>cl_syncSeq := seqFromTimestamp syncSince (room_of w)\<rparr>)) w;
            w = room_publish ClientLogin w
        in sendLoginResponse H from (clients (room_of w) ! i) w)"

definition room_keysMatching :: "byte \<Rightarrow> nat \<Rightarrow> 'h Room world \<Rightarrow> public_key list" where
  "room_keysMatching hash n w = take n (filter (\<lambda>k. k ! 0 = hash) (map cl_pk (clients (room_of w))))"

section \<open>Requests\<close>

definition sendKeepAliveAck :: "'h Surroundings \<Rightarrow> Client \<Rightarrow> bytes \<Rightarrow> 'h Room world \<Rightarrow> 'h Room world" where
  "sendKeepAliveAck H client plain w =
     (let hashed = memcpy (replicate KEEP_ALIVE_ACK_BYTES 0) 0 (take KEEP_ALIVE_ACK_BYTES plain);
          unread = byte_min (unreadFor client (room_of w))
      in sender_sendAck (sur_sender H) (cl_pk client) (expectedAck (sur_sodium H) hashed (cl_pk client)) [unread] w)"

definition sendStatusResponse :: "'h Surroundings \<Rightarrow> Client \<Rightarrow> byte \<Rightarrow> 'h Room world \<Rightarrow> 'h Room world" where
  "sendStatusResponse H client type w =
     (let (nonce, w) = room_nonce H w; r = room_of w;
          body = writeUint32 (serverTime r) @ [0, type, cl_access client, byte_min (length (posts r)),
              byte_min (length (clients r)), byte_min (unreadFor client r)]
            @ nonce @ low_high (firmwareVersion (room_config r))
      in snd (sender_sendDirect (sur_sender H) (cl_pk client) RESPONSE body False w))"

definition handleRequest :: "'h Surroundings \<Rightarrow> nat \<Rightarrow> bytes \<Rightarrow> 'h Room world \<Rightarrow> bool \<times> 'h Room world" where
  "handleRequest H i plain w =
     (if length plain < REQUEST_PREFIX_SIZE then (False, w) else
      let timestamp = readUint32 plain 0; type = plain ! 4 in
      if timestamp < cl_lastRequest (clients (room_of w) ! i) then (False, w) else
      let w = on_room (update_client i (\<lambda>c. c\<lparr>cl_lastRequest := timestamp\<rparr>)) w in
      if \<not> can (room_type (room_config (room_of w))) (clients (room_of w) ! i) READ then (False, w) else
      if type = KEEP_ALIVE then
        let w = on_room (update_client i (\<lambda>c. c\<lparr>cl_retryAfter := 0\<rparr>)) w;
            since = (if length plain \<ge> KEEP_ALIVE_ACK_BYTES then readUint32 plain REQUEST_PREFIX_SIZE else 0);
            w = (if since > 0
                 then on_room (update_client i (\<lambda>c. c\<lparr>cl_syncSeq := seqFromTimestamp since (room_of w)\<rparr>)) w else w)
        in (True, sendKeepAliveAck H (clients (room_of w) ! i) plain w)
      else if type = STATUS then (True, sendStatusResponse H (clients (room_of w) ! i) type w)
      else (False, w))"

section \<open>Channels\<close>

definition channelHashOf :: "sodium \<Rightarrow> shared_secret \<Rightarrow> byte" where
  "channelHashOf S secret = sha256 S [secret] ! 0"

fun try_channels :: "sodium \<Rightarrow> GroupMsg \<Rightarrow> Channel list \<Rightarrow> 'h Room world \<Rightarrow> 'h Room world" where
  "try_channels S grp [] w = w"
| "try_channels S grp (channel # rest) w =
     (if ch_hash channel \<noteq> grp_channelHash grp then try_channels S grp rest w else
      case openSealed S (ch_secret channel) (grp_cipherMac grp) (grp_ciphertext grp) (length (grp_ciphertext grp)) of
        None \<Rightarrow> try_channels S grp rest w
      | Some plain \<Rightarrow>
        (case decodeText plain of None \<Rightarrow> w
         | Some message \<Rightarrow>
           if txtType message \<noteq> PLAIN then w
           else addPost (replicate 32 0) (txt_timestamp message) (txt_message message) w))"

definition room_onGroup :: "'h Surroundings \<Rightarrow> PayloadType \<Rightarrow> bytes \<Rightarrow> 'h Room world \<Rightarrow> 'h Room world" where
  "room_onGroup H type pl w =
     (if \<not> keepsBoard (room_type (room_config (room_of w))) then w
      else if type \<noteq> GRP_TXT then w
      else case decodeGroup pl of None \<Rightarrow> w
        | Some grp \<Rightarrow> try_channels (sur_sodium H) grp (channels (room_config (room_of w))) w)"

definition publish_one :: "'h Surroundings \<Rightarrow> bytes \<Rightarrow> Channel \<Rightarrow> 'h Room world \<Rightarrow> 'h Room world" where
  "publish_one H plain channel w =
     (case seal (sur_sodium H) (ch_secret channel) plain MAX_PACKET_PAYLOAD of None \<Rightarrow> w
      | Some sealed \<Rightarrow>
        (case encodeGroup \<lparr>grp_channelHash = ch_hash channel, grp_cipherMac = sealed_mac sealed,
             grp_ciphertext = sealed_ciphertext sealed\<rparr> MAX_PACKET_PAYLOAD of None \<Rightarrow> w
         | Some pl \<Rightarrow> sender_sendFlood (sur_sender H) GRP_TXT pl w))"

definition publishToChannels :: "'h Surroundings \<Rightarrow> Post \<Rightarrow> 'h Room world \<Rightarrow> 'h Room world" where
  "publishToChannels H post w =
     (let chs = channels (room_config (room_of w)) in
      if chs = [] then w else
      case encodeText \<lparr>txt_timestamp = post_timestamp post, txtType = PLAIN, attempt = 0,
          txt_message = post_text post\<rparr> MAX_PACKET_PAYLOAD of None \<Rightarrow> w
      | Some plain \<Rightarrow> fold (publish_one H plain) chs w)"

section \<open>Commands\<close>

definition sendCliReply :: "'h Surroundings \<Rightarrow> public_key \<Rightarrow> bytes \<Rightarrow> 'h Room world \<Rightarrow> 'h Room world" where
  "sendCliReply H dest text w =
     (case encodeText \<lparr>txt_timestamp = serverTime (room_of w), txtType = CLI, attempt = 0,
          txt_message = take MAX_CLI_REPLY text\<rparr> MAX_PACKET_PAYLOAD of None \<Rightarrow> w
      | Some pl \<Rightarrow> snd (sender_sendDirect (sur_sender H) dest TXT_MSG pl False w))"

text \<open>The text is what the format expands to; the buffer keeps its first \<^verbatim>\<open>MAX_CLI_REPLY\<close> bytes.\<close>

definition replyf :: "'h Surroundings \<Rightarrow> public_key \<Rightarrow> bytes \<Rightarrow> 'h Room world \<Rightarrow> 'h Room world" where
  "replyf H dest text w = sendCliReply H dest (take MAX_CLI_REPLY text) w"

text \<open>
  Asking the host, when there is one: its answer, or a refusal. When the call throws, nothing behind it in the command runs:
  every command below ends there, without a reply.
\<close>

definition ask_host ::
  "'h Surroundings \<Rightarrow> ('h Admin \<Rightarrow> 'h \<Rightarrow> bool option \<times> 'h) \<Rightarrow> 'h Room world \<Rightarrow> bool option \<times> 'h Room world" where
  "ask_host H f w =
     (case sur_admin H of None \<Rightarrow> (Some False, w)
      | Some a \<Rightarrow> let (ok, h) = f a (host (room_of w)) in (ok, on_room (\<lambda>r. r\<lparr>host := h\<rparr>) w))"

definition tell_host :: "'h Surroundings \<Rightarrow> ('h Admin \<Rightarrow> 'h \<Rightarrow> 'h) \<Rightarrow> 'h Room world \<Rightarrow> 'h Room world" where
  "tell_host H f w =
     (case sur_admin H of None \<Rightarrow> w
      | Some a \<Rightarrow> on_room (\<lambda>r. r\<lparr>host := f a (host r)\<rparr>) w)"

definition commandClock :: "'h Surroundings \<Rightarrow> public_key \<Rightarrow> bytes \<Rightarrow> 'h Room world \<Rightarrow> 'h Room world" where
  "commandClock H dest rest w =
     (let argument = fst (takeWord rest); now = serverTime (room_of w) in
      if argument = [] then
        if now = 0 then sendCliReply H dest (ascii ''ERR - clock not set'') w
        else replyf H dest (formatUtc now 48 @ ascii '' ('' @ fmt_u (unat now) @ ascii '')'') w
      else
      case parseUint32 argument of None \<Rightarrow> sendCliReply H dest (ascii ''ERR - expected a unix timestamp'') w
      | Some epoch \<Rightarrow>
        if epoch \<le> 1577836800 then sendCliReply H dest (ascii ''ERR - timestamp before 2020, refused'') w else
        let (ok, w) = ask_host H (\<lambda>a. admin_setClock a epoch) w in
        if ok = None then w else
        if ok = Some False then sendCliReply H dest (ascii ''ERR - host refused the clock change'') w
        else replyf H dest (ascii ''OK - clock set to '' @ formatUtc epoch 48) (on_room (setServerTime epoch) w))"

definition set_name :: "'h Surroundings \<Rightarrow> public_key \<Rightarrow> bytes \<Rightarrow> 'h Room world \<Rightarrow> 'h Room world" where
  "set_name H dest v w =
     (if v = [] \<or> length v > MAX_NODE_NAME
      then replyf H dest (ascii ''ERR - name must be 1..'' @ fmt_u MAX_NODE_NAME @ ascii '' characters'') w else
      let (ok, w) = ask_host H (\<lambda>a. admin_setNodeName a v) w in
      if ok = None then w else
      if ok = Some False then sendCliReply H dest (ascii ''ERR - host refused the name change'') w
      else replyf H dest (ascii ''OK - name is now '' @ cstr v) (tell_host H admin_sendAdvert w))"

definition set_password :: "'h Surroundings \<Rightarrow> public_key \<Rightarrow> bool \<Rightarrow> bytes \<Rightarrow> 'h Room world \<Rightarrow> 'h Room world" where
  "set_password H dest forAdmin v w =
     (if length v > MAX_PASSWORD
      then replyf H dest (ascii ''ERR - password longer than '' @ fmt_u MAX_PASSWORD @ ascii '' characters'') w else
      let (ok, w) = ask_host H (\<lambda>a. admin_saveSetting a
            (if forAdmin then ''room.admin_password'' else ''room.guest_password'') v) w in
      if ok = None then w else
      if ok = Some False then sendCliReply H dest (ascii ''ERR - could not store the new password'') w else
      let w = on_room (\<lambda>r. r\<lparr>room_config := (if forAdmin then (room_config r)\<lparr>adminPassword := v\<rparr>
            else (room_config r)\<lparr>guestPassword := v\<rparr>)\<rparr>) w
      in replyf H dest (ascii ''OK - '' @ ascii (if forAdmin then ''admin'' else ''guest'') @ ascii '' password ''
           @ ascii (if v = [] then ''cleared'' else ''set'')) w)"

definition set_anonymousRead :: "'h Surroundings \<Rightarrow> public_key \<Rightarrow> bytes \<Rightarrow> 'h Room world \<Rightarrow> 'h Room world" where
  "set_anonymousRead H dest v w =
     (case parseOnOff v of None \<Rightarrow> sendCliReply H dest (ascii ''ERR - expected on or off'') w
      | Some allow \<Rightarrow>
        let (ok, w) = ask_host H (\<lambda>a. admin_saveSetting a ''room.anonymous_read''
              (ascii (if allow then ''true'' else ''false''))) w in
        if ok = None then w else
        if ok = Some False then sendCliReply H dest (ascii ''ERR - could not store the setting'') w
        else replyf H dest (ascii ''OK - anonymous read '' @ ascii (if allow then ''on'' else ''off''))
          (on_room (\<lambda>r. r\<lparr>room_config := (room_config r)\<lparr>allowAnonymousRead := allow\<rparr>\<rparr>) w))"

definition set_repeat :: "'h Surroundings \<Rightarrow> public_key \<Rightarrow> bytes \<Rightarrow> 'h Room world \<Rightarrow> 'h Room world" where
  "set_repeat H dest v w =
     (case parseOnOff v of None \<Rightarrow> sendCliReply H dest (ascii ''ERR - expected on or off'') w
      | Some on \<Rightarrow>
        if forwarder (room_of w) = None then sendCliReply H dest (ascii ''ERR - no transit policy here'') w else
        let (ok, w) = ask_host H (\<lambda>a. admin_saveSetting a ''repeater.enabled''
              (ascii (if on then ''true'' else ''false''))) w in
        if ok = None then w else
        if ok = Some False then sendCliReply H dest (ascii ''ERR - could not store the setting'') w
        else replyf H dest (ascii ''OK - repeating '' @ ascii (if on then ''on'' else ''off''))
          (on_room (\<lambda>r. r\<lparr>forwarder := map_option (setEnabled on) (forwarder r)\<rparr>) w))"

definition transit_hops :: "'h Room \<Rightarrow> nat" where
  "transit_hops r = (case forwarder r of None \<Rightarrow> 0 | Some p \<Rightarrow> unat (rc_maxHops (pol_config p)))"

definition set_hopsMax :: "'h Surroundings \<Rightarrow> public_key \<Rightarrow> bytes \<Rightarrow> 'h Room world \<Rightarrow> 'h Room world" where
  "set_hopsMax H dest v w =
     (case parseUint32 v of
        None \<Rightarrow> replyf H dest (ascii ''ERR - hops must be 1..'' @ fmt_u MAX_HOP_COUNT) w
      | Some hops \<Rightarrow>
        if hops = 0 \<or> unat hops > MAX_HOP_COUNT
        then replyf H dest (ascii ''ERR - hops must be 1..'' @ fmt_u MAX_HOP_COUNT) w
        else if forwarder (room_of w) = None then sendCliReply H dest (ascii ''ERR - no transit policy here'') w else
        let (ok, w) = ask_host H (\<lambda>a. admin_saveSetting a ''repeater.max_hops'' (take 11 (fmt_u (unat hops)))) w in
        if ok = None then w else
        if ok = Some False then sendCliReply H dest (ascii ''ERR - could not store the setting'') w else
        let w = on_room (\<lambda>r. r\<lparr>forwarder := map_option (setMaxHops (ucast hops)) (forwarder r)\<rparr>) w
        in replyf H dest (ascii ''OK - carrying up to '' @ fmt_u (transit_hops (room_of w)) @ ascii '' hops'') w)"

definition commandSet :: "'h Surroundings \<Rightarrow> public_key \<Rightarrow> bytes \<Rightarrow> 'h Room world \<Rightarrow> 'h Room world" where
  "commandSet H dest rest w =
     (let (key, rest) = takeWord rest; v = trimmed rest in
      if key = ascii ''name'' then set_name H dest v w
      else if key = ascii ''password'' \<or> key = ascii ''guest.password''
      then set_password H dest (key = ascii ''password'') v w
      else if key = ascii ''anonymous.read'' then set_anonymousRead H dest v w
      else if key = ascii ''repeat'' then set_repeat H dest v w
      else if key = ascii ''hops.max'' then set_hopsMax H dest v w
      else sendCliReply H dest
        (ascii ''ERR - known keys: name, password, guest.password, anonymous.read, repeat, hops.max'') w)"

text \<open>
  The loop over the neighbours; \<open>out\<close> is the reply so far. The formatted entry has a buffer of 48 bytes, the age one
  of 12.
\<close>

definition neighbour_entry :: "u32 \<Rightarrow> bool \<Rightarrow> Contact \<Rightarrow> bytes" where
  "neighbour_entry now first contact =
     (let age = (if now \<noteq> 0 \<and> con_lastHeard contact \<noteq> 0 \<and> now \<ge> con_lastHeard contact
            then take 11 (fmt_u (unat ((now - con_lastHeard contact) div 60)) @ ascii ''m'') else ascii ''-'');
          name = (if con_name contact = [] then ascii ''?'' else take 12 (con_name contact))
      in take 47 ((if first then [] else ascii ''; '') @ fmt_02x (contact_hash contact) @ ascii '' '' @ cstr name @ ascii '' ''
           @ fmt_d (sint (con_snr contact)) @ ascii ''dB '' @ age))"

fun list_neighbours :: "u32 \<Rightarrow> bytes \<Rightarrow> Contact list \<Rightarrow> bytes" where
  "list_neighbours now out [] = out"
| "list_neighbours now out (contact # rest) =
     (let entry = neighbour_entry now (out = []) contact in
      if length out + length entry > MAX_CLI_REPLY then out else list_neighbours now (out @ entry) rest)"

definition neighbourList :: "'h Room world \<Rightarrow> bytes" where
  "neighbourList w =
     (let heard = neighbours (MAX_CLI_REPLY div 24) (rt_store w) in
      if heard = [] then ascii ''no neighbours heard yet''
      else list_neighbours (serverTime (room_of w)) [] heard)"

definition stats_text :: "'h Surroundings \<Rightarrow> 'h Room \<Rightarrow> bytes" where
  "stats_text H r =
     (let uptime = (case sur_admin H of None \<Rightarrow> 0 | Some a \<Rightarrow> unat (admin_uptime a (host r)));
          board = (if keepsBoard (room_type (room_config r))
            then take 31 (ascii ''posts '' @ fmt_u (length (posts r)) @ ascii ''/'' @ fmt_u MAX_POSTS @ ascii '', '') else []);
          head = board @ ascii ''clients '' @ fmt_u (length (clients r)) @ ascii ''/'' @ fmt_u MAX_ROOM_CLIENTS
            @ ascii '', up '' @ fmt_u (uptime div 3600) @ ascii ''h'' @ fmt_02u (uptime div 60 mod 60) @ ascii ''m''
      in case forwarder r of None \<Rightarrow> head
         | Some p \<Rightarrow>
           let transit = pol_stats p;
               refused = st_hopLimit transit + st_blocked transit + st_rateLimited transit + st_budget transit
           in head @ ascii '', fwd '' @ fmt_u (unat (st_forwarded transit)) @ ascii '', refused '' @ fmt_u (unat refused)
                @ ascii '', duty '' @ fmt_u (unat (radioLoad r) div 10) @ ascii ''.'' @ fmt_u (unat (radioLoad r) mod 10)
                @ ascii ''%'')"

definition transit_text :: "Policy \<Rightarrow> bytes" where
  "transit_text p =
     (let transit = pol_stats p in
      ascii ''repeat '' @ ascii (if rc_enabled (pol_config p) then ''on'' else ''off'')
        @ ascii '', max '' @ fmt_u (unat (rc_maxHops (pol_config p))) @ ascii '' hops, fwd '' @ fmt_u (unat (st_forwarded transit))
        @ ascii '', hops '' @ fmt_u (unat (st_hopLimit transit)) @ ascii '', blocked '' @ fmt_u (unat (st_blocked transit))
        @ ascii '', rate '' @ fmt_u (unat (st_rateLimited transit)) @ ascii '', budget '' @ fmt_u (unat (st_budget transit)))"

definition commandGet :: "'h Surroundings \<Rightarrow> public_key \<Rightarrow> bytes \<Rightarrow> 'h Room world \<Rightarrow> 'h Room world" where
  "commandGet H dest rest w =
     (let key = fst (takeWord rest) in
      if key = ascii ''stats'' then replyf H dest (stats_text H (room_of w)) w
      else if key = ascii ''transit'' then
        (case forwarder (room_of w) of None \<Rightarrow> sendCliReply H dest (ascii ''ERR - no transit policy here'') w
         | Some p \<Rightarrow> replyf H dest (transit_text p) w)
      else if key = ascii ''neighbors'' \<or> key = ascii ''neighbours'' then sendCliReply H dest (neighbourList w) w
      else if key = ascii ''name'' then
        let name = (case sur_admin H of None \<Rightarrow> [] | Some a \<Rightarrow> admin_nodeName a (host (room_of w)))
        in replyf H dest (ascii ''name '' @ (if name = [] then ascii ''(unknown)'' else cstr name)) w
      else if key = ascii ''time'' then commandClock H dest [] w
      else sendCliReply H dest (ascii ''ERR - known keys: stats, transit, neighbors, name, time'') w)"

definition commandClear :: "'h Surroundings \<Rightarrow> public_key \<Rightarrow> bytes \<Rightarrow> 'h Room world \<Rightarrow> 'h Room world" where
  "commandClear H dest rest w =
     (let key = fst (takeWord rest) in
      if key = ascii ''posts'' then
        if \<not> keepsBoard (room_type (room_config (room_of w)))
        then sendCliReply H dest (ascii ''ERR - no board on this node'') w else
        let removed = length (posts (room_of w)); w = on_room (\<lambda>r. r\<lparr>posts := []\<rparr>) w
        in replyf H dest (ascii ''OK - '' @ fmt_u removed @ ascii '' posts cleared'') w
      else if key = ascii ''stats'' then
        if forwarder (room_of w) = None then sendCliReply H dest (ascii ''ERR - no transit policy here'') w
        else sendCliReply H dest (ascii ''OK - transit counters cleared'')
          (on_room (\<lambda>r. r\<lparr>forwarder := map_option clearStats (forwarder r)\<rparr>) w)
      else sendCliReply H dest (ascii ''ERR - known keys: posts, stats'') w)"

text \<open>A command whose time is not before the last one, from an admin.\<close>

definition run_command :: "'h Surroundings \<Rightarrow> public_key \<Rightarrow> bytes \<Rightarrow> 'h Room world \<Rightarrow> bool \<times> 'h Room world" where
  "run_command H dest line w =
     (let (verb, rest) = takeWord (trimmed line) in
      if verb = ascii ''help'' then (True, sendCliReply H dest
        (ascii ''clock, time <epoch>, ver, advert, set, get, clear posts|stats, reboot'') w)
      else if verb = ascii ''ver'' then
        (True, replyf H dest (ascii ''MeshCore room v'' @ fmt_u (unat (firmwareVersion (room_config (room_of w))))) w)
      else if verb = ascii ''clock'' \<or> verb = ascii ''time'' then (True, commandClock H dest rest w)
      else if verb = ascii ''advert'' then
        if sur_admin H = None then (False, sendCliReply H dest (ascii ''ERR - no radio attached'') w)
        else (True, sendCliReply H dest (ascii ''OK - advert sent'') (tell_host H admin_sendAdvert w))
      else if verb = ascii ''set'' then (True, commandSet H dest rest w)
      else if verb = ascii ''get'' then (True, commandGet H dest rest w)
      else if verb = ascii ''clear'' then (True, commandClear H dest rest w)
      else if verb = ascii ''reboot'' then
        if sur_admin H = None then (False, sendCliReply H dest (ascii ''ERR - not supported here'') w)
        else (True, tell_host H admin_requestReboot (sendCliReply H dest (ascii ''OK - rebooting'') w))
      else (False, replyf H dest (ascii ''ERR - unknown command '' @ [39] @ cstr (take 24 verb) @ [39]) w))"

definition handleCommand ::
  "'h Surroundings \<Rightarrow> nat \<Rightarrow> u32 \<Rightarrow> bytes \<Rightarrow> 'h Room world \<Rightarrow> bool \<times> 'h Room world" where
  "handleCommand H i timestamp line w =
     (let client = clients (room_of w) ! i in
      if \<not> can (room_type (room_config (room_of w))) client COMMAND
      then (False, sendCliReply H (cl_pk client) (ascii ''ERR - admin rights required'') w)
      else if timestamp < cl_lastCommand client then (False, w)
      else run_command H (cl_pk client) line (on_room (update_client i (\<lambda>c. c\<lparr>cl_lastCommand := timestamp\<rparr>)) w))"

section \<open>Texts\<close>

definition handleText :: "'h Surroundings \<Rightarrow> public_key \<Rightarrow> bytes \<Rightarrow> 'h Room world \<Rightarrow> bool \<times> 'h Room world" where
  "handleText H from plain w =
     (case decodeText plain of None \<Rightarrow> (False, w)
      | Some message \<Rightarrow>
        (case findClient from (room_of w) of None \<Rightarrow> (False, w)
         | Some i \<Rightarrow>
           if txtType message = PLAIN then
             if \<not> can (room_type (room_config (room_of w))) (clients (room_of w) ! i) POST then (False, w)
             else let w = addPost from (txt_timestamp message) (txt_message message) w
                  in (True, publishToChannels H (last (posts (room_of w))) w)
           else if txtType message = CLI then handleCommand H i (txt_timestamp message) (txt_message message) w
           else (False, w)))"

definition room_onPayload ::
  "'h Surroundings \<Rightarrow> Contact \<Rightarrow> PayloadType \<Rightarrow> bytes \<Rightarrow> 'h Room world \<Rightarrow> 'h Room world" where
  "room_onPayload H from type plain w =
     (case type of
        TXT_MSG \<Rightarrow> snd (handleText H (con_pk from) plain w)
      | REQ \<Rightarrow>
          (case findClient (con_pk from) (room_of w) of None \<Rightarrow> w | Some i \<Rightarrow> snd (handleRequest H i plain w))
      | _ \<Rightarrow> w)"

definition room_shouldAck :: "PayloadType \<Rightarrow> bytes \<Rightarrow> bool" where
  "room_shouldAck type plain =
     (if type = REQ then False
      else if type \<noteq> TXT_MSG then True
      else case decodeText plain of None \<Rightarrow> True | Some message \<Rightarrow> txtType message \<noteq> CLI)"

definition room_shouldForward :: "Packet \<Rightarrow> 'h Room world \<Rightarrow> bool \<times> 'h Room world" where
  "room_shouldForward p w =
     (let r = room_of w in
      if \<not> repeats (room_type (room_config r)) then (False, w)
      else case forwarder r of None \<Rightarrow> (False, w)
        | Some pol \<Rightarrow>
          let (carry, pol) = shouldForward p (room_now r) (radioLoad r) pol;
              w = on_room (\<lambda>r. r\<lparr>forwarder := Some pol\<rparr>) w
          in (carry, if \<not> carry then room_publish ForwardRefused w else w))"

section \<open>Pushing posts\<close>

fun author_name :: "bytes \<Rightarrow> Contact list \<Rightarrow> bytes" where
  "author_name author [] = []"
| "author_name author (candidate # rest) =
     (if take POST_AUTHOR_PREFIX (con_pk candidate) \<noteq> author then author_name author rest
      else if con_name candidate = [] then []
      else take MAX_POST_AUTHOR_NAME (con_name candidate))"

definition authorNameOf :: "Post \<Rightarrow> Store \<Rightarrow> bytes" where
  "authorNameOf post st = author_name (post_author post) (map (\<lambda>i. contacts st ! i) (findByHash st (post_author post ! 0)))"

definition pushBodyFor :: "Post \<Rightarrow> Store \<Rightarrow> bytes" where
  "pushBodyFor post st =
     (let name = authorNameOf post st;
          who = (if name \<noteq> [] then name else ascii ''?'' @ concat (map (\<lambda>i. fmt_02x (post_author post ! i)) [0..<4]));
          prefix = (if post_author post \<noteq> replicate POST_AUTHOR_PREFIX 0 then who @ ascii '': '' else [])
      in take MAX_PUSH_BODY (prefix @ post_text post))"

definition pushNextPost :: "'h Surroundings \<Rightarrow> nat \<Rightarrow> 'h Room world \<Rightarrow> 'h Room world" where
  "pushNextPost H i w =
     (let client = clients (room_of w) ! i in
      case nextPostFor client (room_of w) of None \<Rightarrow> w
      | Some post \<Rightarrow>
        (case encodeText \<lparr>txt_timestamp = post_timestamp post, txtType = SIGNED, attempt = 0,
             txt_message = pushBodyFor post (rt_store w)\<rparr> MAX_PACKET_PAYLOAD of None \<Rightarrow> w
         | Some pl \<Rightarrow>
           let (sid, w) = sender_sendDirect (sur_sender H) (cl_pk client) TXT_MSG pl True w
           in on_room (update_client i (\<lambda>c. c\<lparr>cl_pendingId := sid, cl_pending := True, cl_pendingSeq := post_seq post\<rparr>)) w))"

definition room_tick :: "'h Surroundings \<Rightarrow> Millis \<Rightarrow> 'h Room world \<Rightarrow> 'h Room world" where
  "room_tick H now w =
     (let w = on_room (\<lambda>r. r\<lparr>room_now := now\<rparr>) w;
          (client, r) = nextClientToPush (room_of w); w = w\<lparr>rt_delegate := r\<rparr>
      in case client of None \<Rightarrow> w | Some i \<Rightarrow> pushNextPost H i w)"

section \<open>The room under the router\<close>

definition router_sender :: "sodium \<Rightarrow> Router_Config \<Rightarrow> 'h Room world Sender" where
  "router_sender S config = \<lparr>sender_sendDirect = sendDirect S config, sender_sendAck = sendAck S, sender_sendFlood = sendFlood S\<rparr>"

definition room_delegate :: "'h Surroundings \<Rightarrow> 'h Room Delegate" where
  "room_delegate H =
     \<lparr>onPayload = room_onPayload H, onAnon = room_onAnon H, keysMatching = room_keysMatching, onGroup = room_onGroup H,
      onTrace = (\<lambda>_ _ w. w), onAck = (\<lambda>sid. on_room (room_onAck sid)),
      onDeliveryFailed = (\<lambda>sid. on_room (room_onDeliveryFailed sid)),
      shouldAck = (\<lambda>type plain w. (room_shouldAck type plain, w)), delegate_shouldForward = room_shouldForward\<rparr>"

end
