(* ===== verification/Room_Invariant.thy ===== *)
theory Room_Invariant
  imports Room_State
begin

text \<open>
  What the room's state always satisfies, and that the operations of \<open>Room_State\<close> keep it: the board is bounded with
  consecutive numbers, clients and failed logins are bounded with one row per key.
\<close>

section \<open>Invariant\<close>

definition post_ok :: "Post \<Rightarrow> bool" where
  "post_ok p \<longleftrightarrow> length (post_author p) = POST_AUTHOR_PREFIX \<and> length (post_text p) \<le> MAX_POST_TEXT"

text \<open>
  The board is bounded and its numbers are consecutive up to the next one to hand out; clients and failures are
  bounded and have one row per key.
\<close>

definition room_ok :: "'h Room \<Rightarrow> bool" where
  "room_ok r \<longleftrightarrow> length (posts r) \<le> MAX_POSTS \<and> list_all post_ok (posts r)
     \<and> (\<forall>i < length (posts r). post_seq (posts r ! i) = nextSeq r - of_nat (length (posts r)) + of_nat i)
     \<and> length (clients r) \<le> MAX_ROOM_CLIENTS \<and> distinct (map cl_pk (clients r))
     \<and> list_all (\<lambda>c. length (cl_pk c) = PACKET_PUBLIC_KEY_SIZE) (clients r)
     \<and> length (failures r) \<le> MAX_LOGIN_FAILURES \<and> distinct (map fail_pk (failures r))"

lemma room_new_ok: "room_ok (room_new config policy h)"
  by (simp add: room_ok_def room_new_def)

lemma room_ok_cong:
  "room_ok r \<Longrightarrow> posts r' = posts r \<Longrightarrow> nextSeq r' = nextSeq r \<Longrightarrow> map cl_pk (clients r') = map cl_pk (clients r)
     \<Longrightarrow> failures r' = failures r \<Longrightarrow> room_ok r'"
proof -
  assume a: "room_ok r" "posts r' = posts r" "nextSeq r' = nextSeq r" "map cl_pk (clients r') = map cl_pk (clients r)"
    "failures r' = failures r"
  have "length (clients r') = length (clients r)" using arg_cong [OF a(4), of length] by simp
  moreover have "list_all (\<lambda>c. length (cl_pk c) = 32) (clients r') = list_all (\<lambda>k. length k = 32) (map cl_pk (clients r'))"
    by (simp add: list_all_iff)
  moreover have "list_all (\<lambda>c. length (cl_pk c) = 32) (clients r) = list_all (\<lambda>k. length k = 32) (map cl_pk (clients r))"
    by (simp add: list_all_iff)
  ultimately show ?thesis using a by (simp add: room_ok_def)
qed

lemma map_update_same:
  assumes "\<And>x. g (f x) = g x" shows "map g (xs[i := f (xs ! i)]) = map g xs"
  using assms by (cases "i < length xs") (simp_all add: map_update list_update_beyond list_update_same_conv)

lemma update_client_ok:
  "room_ok r \<Longrightarrow> (\<And>c. cl_pk (f c) = cl_pk c) \<Longrightarrow> room_ok (update_client i f r)"
  by (erule room_ok_cong) (simp_all add: update_client_def map_update_same)

lemma store_post_ok:
  assumes "room_ok r" and "length author = PACKET_PUBLIC_KEY_SIZE"
  shows "room_ok (store_post author timestamp text r)"
proof -
  let ?r = "store_post author timestamp text r"
  let ?k = "if length (posts r) \<ge> MAX_POSTS then drop 1 (posts r) else posts r"
  obtain p where p: "posts ?r = ?k @ [p]" "post_seq p = nextSeq r" "post_ok p" "nextSeq ?r = nextSeq r + 1"
    using assms(2) by (auto simp: store_post_def Let_def post_ok_def)
  have len: "length ?k < MAX_POSTS" using assms(1) by (auto simp: room_ok_def)
  have seq: "post_seq (?k ! i) = nextSeq r - of_nat (length ?k) + of_nat i" if "i < length ?k" for i
  proof (cases "length (posts r) \<ge> 32")
    case True
    then have "post_seq (?k ! i) = nextSeq r - of_nat (length (posts r)) + of_nat (Suc i)"
      using that assms(1) by (simp add: room_ok_def)
    moreover have "(of_nat (length (posts r)) :: u32) = 1 + of_nat (length ?k)"
      using True by (simp only: of_nat_Suc [symmetric]) simp
    ultimately show ?thesis by (simp only:) simp
  next
    case False
    then show ?thesis using that assms(1) by (simp add: room_ok_def)
  qed
  have "post_seq (posts ?r ! i) = nextSeq ?r - of_nat (length (posts ?r)) + of_nat i" if "i < length (posts ?r)" for i
    using that p seq [of i] by (cases "i < length ?k") (auto simp: nth_append less_Suc_eq)
  moreover have "list_all post_ok (posts ?r)"
    using assms(1) p(1,3) by (auto simp: room_ok_def list_all_iff dest: in_set_dropD)
  moreover have "clients ?r = clients r" "failures ?r = failures r" by (simp_all add: store_post_def Let_def)
  ultimately show ?thesis using assms(1) p(1) len by (simp add: room_ok_def)
qed

lemma distinct_erase: "distinct xs \<Longrightarrow> distinct (erase i xs)"
  using set_take_disj_set_drop_if_distinct [of xs i "i + 1"] by (auto simp: erase_def distinct_take distinct_drop)

lemma map_erase: "map f (erase i xs) = erase i (map f xs)"
  by (simp add: erase_def take_map drop_map)

lemma length_erase: "length (erase i xs) = (if i < length xs then length xs - 1 else length xs)"
  by (auto simp: erase_def min_def)

lemma set_erase: "set (erase i xs) \<subseteq> set xs"
  by (auto simp: erase_def dest: in_set_takeD in_set_dropD)

lemma evict_pass_spec:
  defines "eligible \<equiv> \<lambda>admins (cs :: Client list) i. i < length cs \<and> (cl_access (cs ! i) = ADMIN) = admins"
  assumes "evict_pass admins cs v = (v', found)"
  shows "(found \<longleftrightarrow> (\<exists>i. eligible admins cs i)) \<and> (found \<longrightarrow> eligible admins cs v'
    \<and> (\<forall>i. eligible admins cs i \<longrightarrow> cl_lastLogin (cs ! v') \<le> cl_lastLogin (cs ! i))) \<and> (\<not> found \<longrightarrow> v' = v)"
proof -
  let ?f = "\<lambda>i (victim, found). if (cl_access (cs ! i) = ADMIN) \<noteq> admins then (victim, found)
       else if \<not> found \<or> cl_lastLogin (cs ! i) < cl_lastLogin (cs ! victim) then (i, True) else (victim, found)"
  have "\<exists>v' found. fold ?f [0..<n] (v, False) = (v', found)
      \<and> (found \<longleftrightarrow> (\<exists>i<n. eligible admins cs i)) \<and> (found \<longrightarrow> v' < n \<and> eligible admins cs v'
      \<and> (\<forall>i<n. eligible admins cs i \<longrightarrow> cl_lastLogin (cs ! v') \<le> cl_lastLogin (cs ! i))) \<and> (\<not> found \<longrightarrow> v' = v)"
    if "n \<le> length cs" for n
    using that
  proof (induction n)
    case (Suc n)
    then obtain v' found where IH: "fold ?f [0..<n] (v, False) = (v', found)"
        "found \<longleftrightarrow> (\<exists>i<n. eligible admins cs i)" "\<not> found \<longrightarrow> v' = v"
        "found \<longrightarrow> v' < n \<and> eligible admins cs v' \<and> (\<forall>i<n. eligible admins cs i \<longrightarrow> cl_lastLogin (cs ! v') \<le> cl_lastLogin (cs ! i))"
      by auto
    show ?case
    proof (cases "eligible admins cs n")
      case True
      then show ?thesis using IH
        by (auto simp: eligible_def less_Suc_eq not_less intro: order_trans less_imp_le)
    next
      case False
      then have "(cl_access (cs ! n) = ADMIN) \<noteq> admins" using Suc.prems by (simp add: eligible_def)
      then show ?thesis using IH False by (auto simp: less_Suc_eq)
    qed
  qed auto
  from this [OF order_refl] show ?thesis using assms(2) by (auto simp: evict_pass_def eligible_def)
qed

lemma evictClient_cases:
  assumes "clients r \<noteq> []"
  shows "\<exists>v < length (clients r). evictClient r = r\<lparr>clients := erase v (clients r)\<rparr>
     \<and> (cl_access (clients r ! v) = ADMIN \<longrightarrow> (\<forall>c \<in> set (clients r). cl_access c = ADMIN))
     \<and> (\<forall>c \<in> set (clients r). (cl_access c = ADMIN) = (cl_access (clients r ! v) = ADMIN)
          \<longrightarrow> cl_lastLogin (clients r ! v) \<le> cl_lastLogin c)"
proof -
  obtain v found where p: "evict_pass False (clients r) 0 = (v, found)" by fastforce
  obtain v2 found2 where p2: "evict_pass True (clients r) v = (v2, found2)" by fastforce
  note s = evict_pass_spec [OF p] and s2 = evict_pass_spec [OF p2]
  show ?thesis
  proof (cases found)
    case True
    then have "evictClient r = r\<lparr>clients := erase v (clients r)\<rparr>" using assms p by (simp add: evictClient_def)
    then show ?thesis using s True by (intro exI [of _ v]) (auto simp: in_set_conv_nth)
  next
    case False
    then have all: "cl_access (clients r ! i) = ADMIN" if "i < length (clients r)" for i using s that by auto
    then have found2 using s2 assms by auto
    moreover have "evictClient r = r\<lparr>clients := erase v2 (clients r)\<rparr>" using assms p p2 False by (simp add: evictClient_def)
    ultimately show ?thesis using s2 all by (intro exI [of _ v2]) (auto simp: in_set_conv_nth)
  qed
qed

lemma room_ok_failures:
  "room_ok r \<Longrightarrow> length fs \<le> MAX_LOGIN_FAILURES \<Longrightarrow> distinct (map fail_pk fs) \<Longrightarrow> room_ok (r\<lparr>failures := fs\<rparr>)"
  by (simp add: room_ok_def)

lemma erase_failure_ok: "room_ok r \<Longrightarrow> room_ok (r\<lparr>failures := erase i (failures r)\<rparr>)"
  by (rule room_ok_failures) (auto simp: room_ok_def length_erase map_erase distinct_erase)

lemma lockedOut_ok: "room_ok r \<Longrightarrow> room_ok (snd (lockedOut pk r))"
  by (simp add: lockedOut_def Let_def erase_failure_ok split: option.split)

lemma clearFailures_ok: "room_ok r \<Longrightarrow> room_ok (clearFailures pk r)"
  by (simp add: clearFailures_def erase_failure_ok split: option.split)

lemma noteFailure_ok:
  assumes "room_ok r" shows "room_ok (noteFailure pk r)"
proof (cases "find_index (\<lambda>f. fail_pk f = pk) (failures r)")
  case (Some i)
  obtain g where g: "noteFailure pk r = r\<lparr>failures := (failures r)[i := g]\<rparr>" "fail_pk g = fail_pk (failures r ! i)"
    using Some by (auto simp: noteFailure_def Let_def)
  have "map fail_pk ((failures r)[i := g]) = map fail_pk (failures r)"
    using find_index_Some [OF Some] g(2) by (simp add: map_update list_update_same_conv)
  then show ?thesis using assms g(1) by (simp add: room_ok_def)
next
  case None
  let ?fs = "if length (failures r) \<ge> MAX_LOGIN_FAILURES
      then erase (least_index (\<lambda>i. fail_until (failures r ! i)) [1..<length (failures r)] 0) (failures r) else failures r"
  obtain g where g: "noteFailure pk r = r\<lparr>failures := ?fs @ [g]\<rparr>" "fail_pk g = pk"
    using None by (simp add: noteFailure_def Let_def)
  have "length ?fs < 32"
  proof (cases "length (failures r) \<ge> 32")
    case True
    then have "least_index (\<lambda>i. fail_until (failures r ! i)) [1..<length (failures r)] 0 < length (failures r)"
      by (intro least_index_less [THEN conjunct1]) auto
    then show ?thesis using True assms by (simp add: length_erase room_ok_def)
  qed simp
  moreover have "pk \<notin> set (map fail_pk ?fs)"
    using None set_erase [of _ "failures r"] by (auto simp: find_index_None)
  moreover have "distinct (map fail_pk ?fs)" using assms by (simp add: room_ok_def map_erase distinct_erase)
  ultimately show ?thesis unfolding g(1) using assms g(2) by (intro room_ok_failures) auto
qed

lemma same_clients [simp]:
  "clients (snd (lockedOut pk r)) = clients r" "clients (clearFailures pk r) = clients r" "clients (noteFailure pk r) = clients r"
  "posts (snd (lockedOut pk r)) = posts r" "posts (clearFailures pk r) = posts r" "posts (noteFailure pk r) = posts r"
  "room_config (snd (lockedOut pk r)) = room_config r" "room_config (clearFailures pk r) = room_config r"
  "room_config (noteFailure pk r) = room_config r" "room_now (noteFailure pk r) = room_now r"
  "room_now (snd (lockedOut pk r)) = room_now r"
  by (auto simp: lockedOut_def clearFailures_def noteFailure_def Let_def split: option.split)

lemma evictClient_ok: "room_ok r \<Longrightarrow> room_ok (evictClient r)"
proof (cases "clients r = []")
  case False
  assume ok: "room_ok r"
  obtain v where v: "evictClient r = r\<lparr>clients := erase v (clients r)\<rparr>" using evictClient_cases [OF False] by blast
  have "list_all (\<lambda>c. length (cl_pk c) = 32) (erase v (clients r))"
    using ok set_erase [of v "clients r"] by (auto simp: room_ok_def list_all_iff)
  then show ?thesis using ok by (auto simp: v room_ok_def length_erase map_erase distinct_erase)
qed (simp add: evictClient_def)

lemma evictClient_frame [simp]:
  "posts (evictClient r) = posts r" "nextSeq (evictClient r) = nextSeq r" "failures (evictClient r) = failures r"
  "room_config (evictClient r) = room_config r" "room_now (evictClient r) = room_now r"
  by (simp_all add: evictClient_def split: prod.split)

lemma evictClient_shrinks: "clients r \<noteq> [] \<Longrightarrow> length (clients (evictClient r)) < length (clients r)"
  using evictClient_cases [of r] by (auto simp: length_erase)

lemma evictClient_subset: "set (clients (evictClient r)) \<subseteq> set (clients r)"
proof (cases "clients r = []")
  case False
  obtain v where v: "evictClient r = r\<lparr>clients := erase v (clients r)\<rparr>" using evictClient_cases [OF False] by blast
  show ?thesis using set_erase by (simp add: v)
qed (simp add: evictClient_def)

lemma room_for_one:
  assumes "room_ok r" and "e = (if length (clients r) \<ge> MAX_ROOM_CLIENTS then evictClient r else r)"
  shows "room_ok e" and "length (clients e) < MAX_ROOM_CLIENTS" and "set (clients e) \<subseteq> set (clients r)"
proof -
  have "length (clients r) \<le> 64" using assms(1) by (simp add: room_ok_def)
  moreover have "clients r \<noteq> []" if "length (clients r) \<ge> 64" using that by auto
  ultimately show "length (clients e) < MAX_ROOM_CLIENTS" using evictClient_shrinks [of r] assms(2) by fastforce
qed (use assms evictClient_ok evictClient_subset in auto)

lemma add_client_ok:
  assumes "room_ok r" and "length (clients r) < MAX_ROOM_CLIENTS" and "pk \<notin> cl_pk ` set (clients r)" and "length pk = 32"
  shows "room_ok (r\<lparr>clients := clients r @ [client_init\<lparr>cl_pk := pk\<rparr>]\<rparr>)"
  using assms by (auto simp: room_ok_def)

lemma admit_client_ok:
  assumes "room_ok r" and "length pk = PACKET_PUBLIC_KEY_SIZE" and "known = findClient pk r"
    and "admit_client pk known access timestamp r = (i, r')"
  shows "room_ok r' \<and> i < length (clients r') \<and> cl_pk (clients r' ! i) = pk \<and> cl_access (clients r' ! i) = access
     \<and> cl_lastLogin (clients r' ! i) = timestamp"
proof -
  let ?r = "if access \<noteq> READ_ONLY then clearFailures pk r else r"
  have ok: "room_ok ?r" "clients ?r = clients r" using assms(1) by (simp_all add: clearFailures_ok)
  let ?e = "if length (clients ?r) \<ge> MAX_ROOM_CLIENTS then evictClient ?r else ?r"
  show ?thesis
  proof (cases known)
    case None
    then have new: "pk \<notin> cl_pk ` set (clients r)" using assms(3) by (auto simp: findClient_def find_index_None)
    have e: "room_ok ?e" "length (clients ?e) < 64" "set (clients ?e) \<subseteq> set (clients r)"
      using room_for_one [OF ok(1) refl] ok(2) by simp_all
    then have "room_ok (?e\<lparr>clients := clients ?e @ [client_init\<lparr>cl_pk := pk\<rparr>]\<rparr>)"
      using new assms(2) by (intro add_client_ok) auto
    note update_client_ok [OF this, of "\<lambda>c. c\<lparr>cl_access := access, cl_lastLogin := timestamp\<rparr>" "length (clients ?e)"]
    moreover have "i = length (clients ?e)"
      "r' = update_client (length (clients ?e)) (\<lambda>c. c\<lparr>cl_access := access, cl_lastLogin := timestamp\<rparr>)
         (?e\<lparr>clients := clients ?e @ [client_init\<lparr>cl_pk := pk\<rparr>]\<rparr>)"
      using assms(4) None by (auto simp: admit_client_def Let_def split: if_splits)
    ultimately show ?thesis by (simp add: update_client_def)
  next
    case (Some j)
    then have j: "j < length (clients r)" "cl_pk (clients r ! j) = pk"
      using assms(3) by (auto simp: findClient_def dest: find_index_Some)
    have "i = j" "r' = update_client j (\<lambda>c. c\<lparr>cl_access := access, cl_lastLogin := timestamp\<rparr>) ?r"
      using assms(4) Some by (auto simp: admit_client_def Let_def split: if_splits)
    then show ?thesis
      using j ok update_client_ok [OF ok(1), of "\<lambda>c. c\<lparr>cl_access := access, cl_lastLogin := timestamp\<rparr>" j]
      by (simp add: update_client_def)
  qed
qed

lemma findClient_cong: "clients r' = clients r \<Longrightarrow> findClient pk r' = findClient pk r"
  by (simp add: findClient_def)

lemma authenticate_ok:
  assumes "room_ok r" and "length pk = PACKET_PUBLIC_KEY_SIZE" and "authenticate S pk password timestamp r = (c, r')"
  shows "room_ok r' \<and> (case c of None \<Rightarrow> clients r' = clients r
    | Some i \<Rightarrow> i < length (clients r') \<and> cl_pk (clients r' ! i) = pk \<and> cl_lastLogin (clients r' ! i) = timestamp)"
proof -
  obtain locked r1 where l: "lockedOut pk r = (locked, r1)" by fastforce
  have r1: "room_ok r1" "clients r1 = clients r" using lockedOut_ok [OF assms(1), of pk] same_clients(1) [of pk r] l by auto
  have k: "findClient pk r = findClient pk r1" "findClient pk r = findClient pk (noteFailure pk r1)"
    using r1(2) by (simp_all add: findClient_def)
  note a = admit_client_ok [OF r1(1) assms(2) k(1)] admit_client_ok [OF noteFailure_ok [OF r1(1)] assms(2) k(2)]
  show ?thesis
    using assms(1,3) l r1 noteFailure_ok [OF r1(1), of pk] a
    by (auto simp: authenticate_def Let_def apfst_def map_prod_def split: if_splits prod.splits option.splits)
qed

section \<open>Numbers\<close>

text \<open>The numbers have not wrapped: the node has taken fewer than \<open>2 ^ 32\<close> posts.\<close>

definition seqs_fresh :: "'h Room \<Rightarrow> bool" where
  "seqs_fresh r \<longleftrightarrow> length (posts r) < unat (nextSeq r)"

lemma post_seq_nat:
  assumes "room_ok r" and "seqs_fresh r" and "i < length (posts r)"
  shows "unat (post_seq (posts r ! i)) = unat (nextSeq r) - length (posts r) + i"
proof -
  have "post_seq (posts r ! i) = of_nat (unat (nextSeq r) - length (posts r) + i)"
    using assms by (simp add: room_ok_def seqs_fresh_def of_nat_diff)
  moreover have "unat (nextSeq r) - length (posts r) + i < 4294967296"
    using assms(2,3) unat_u32_less [of "nextSeq r"] unfolding seqs_fresh_def by linarith
  ultimately show ?thesis by (simp add: unat_of_nat del: of_nat_add)
qed

lemma posts_ascending: "room_ok r \<Longrightarrow> seqs_fresh r \<Longrightarrow> sorted_wrt (\<lambda>p q. post_seq p < post_seq q) (posts r)"
  by (auto simp: sorted_wrt_iff_nth_less post_seq_nat word_less_nat_alt)

end
