(* ===== verification/Room_Login.thy ===== *)
theory Room_Login
  imports Room_Invariant
begin

text \<open>
  Logins (\<^verbatim>\<open>Room::authenticate\<close>): what a password buys, who is displaced from a full table, and how guessing is
  made to wait.
\<close>

section \<open>Wrong passwords\<close>

definition fail_entry :: "public_key \<Rightarrow> 'h Room \<Rightarrow> Failure option" where
  "fail_entry pk r = List.find (\<lambda>f. fail_pk f = pk) (failures r)"

lemma find_conv_index: "List.find P xs = map_option (\<lambda>i. xs ! i) (find_index P xs)"
  by (induction xs) (auto simp: option.map_comp comp_def)

lemma find_update_at:
  "find_index P xs = Some i \<Longrightarrow> P y \<Longrightarrow> List.find P (xs[i := y]) = Some y"
  by (induction xs arbitrary: i) (auto split: if_splits nat.splits)

lemma lockedOut_fresh:
  "fail_entry pk r = None \<or> (\<exists>f. fail_entry pk r = Some f \<and> fail_until f = 0) \<Longrightarrow> lockedOut pk r = (False, r)"
  by (auto simp: fail_entry_def find_conv_index lockedOut_def Let_def split: option.splits)

lemma lockedOut_held:
  "fail_entry pk r = Some f \<Longrightarrow> fail_until f > room_now r \<Longrightarrow> lockedOut pk r = (True, r)"
  by (auto simp: fail_entry_def find_conv_index lockedOut_def Let_def dest: leD split: option.splits)

definition counted :: "'h Room \<Rightarrow> public_key \<Rightarrow> byte \<Rightarrow> Failure" where
  "counted r pk n = \<lparr>fail_pk = pk, fail_count = n, fail_until =
     (if n \<ge> maxLoginAttempts (room_config r) then room_now r + loginLockout (room_config r) else 0)\<rparr>"

lemma noteFailure_first: "fail_entry pk r = None \<Longrightarrow> fail_entry pk (noteFailure pk r) = Some (counted r pk 1)"
proof -
  assume a: "fail_entry pk r = None"
  have n: "find_index (\<lambda>f. fail_pk f = pk) (failures r) = None" using a by (simp add: fail_entry_def find_conv_index)
  then have "\<forall>f \<in> set (failures r). fail_pk f \<noteq> pk" by (simp add: find_index_None)
  then have e: "\<forall>f \<in> set (erase i (failures r)). fail_pk f \<noteq> pk" for i using set_erase by fastforce
  have app: "List.find (\<lambda>f. fail_pk f = pk) (xs @ [y]) = Some y"
    if "\<forall>f \<in> set xs. fail_pk f \<noteq> pk" "fail_pk y = pk" for xs y using that by (induction xs) auto
  show ?thesis
    using n e \<open>\<forall>f \<in> set (failures r). fail_pk f \<noteq> pk\<close>
    by (simp add: noteFailure_def Let_def fail_entry_def app counted_def)
qed

lemma noteFailure_again:
  assumes "fail_entry pk r = Some f" and "fail_until f = 0" and "fail_count f < 255"
  shows "fail_entry pk (noteFailure pk r) = Some (counted r pk (fail_count f + 1))"
proof -
  obtain i where i: "find_index (\<lambda>f. fail_pk f = pk) (failures r) = Some i" "failures r ! i = f"
    using assms(1) by (auto simp: fail_entry_def find_conv_index)
  have pk: "fail_pk f = pk" using find_index_Some [OF i(1)] i(2) by simp
  let ?f = "f\<lparr>fail_count := fail_count f + 1\<rparr>"
  have "failures (noteFailure pk r) = (failures r)[i := counted r pk (fail_count f + 1)]"
    using i assms(2,3) pk by (cases f) (simp add: noteFailure_def Let_def counted_def)
  then show ?thesis
    using find_update_at [OF i(1), of "counted r pk (fail_count f + 1)"] by (simp add: fail_entry_def counted_def)
qed

lemma fail_entry_cong: "failures r' = failures r \<Longrightarrow> fail_entry pk r' = fail_entry pk r"
  by (simp add: fail_entry_def)

definition wrong_password :: "sodium \<Rightarrow> 'h Room \<Rightarrow> bytes \<Rightarrow> bool" where
  "wrong_password S r password \<longleftrightarrow> password \<noteq> [] \<and> \<not> passwordMatches S password (adminPassword (room_config r))
     \<and> \<not> passwordMatches S password (guestPassword (room_config r))"

definition newer_login :: "public_key \<Rightarrow> u32 \<Rightarrow> 'h Room \<Rightarrow> bool" where
  "newer_login pk timestamp r \<longleftrightarrow> (case findClient pk r of None \<Rightarrow> True | Some i \<Rightarrow> cl_lastLogin (clients r ! i) < timestamp)"

lemma admit_read_only:
  "admit_client pk known READ_ONLY timestamp r = (i, r') \<Longrightarrow> failures r' = failures r \<and> room_config r' = room_config r"
  by (auto simp: admit_client_def Let_def update_client_def split: option.splits if_splits)

lemma wrong_guess:
  assumes "wrong_password S r password" and "newer_login pk timestamp r" and "fst (lockedOut pk r) = False"
    and "authenticate S pk password timestamp r = (c, r')"
  shows "fail_entry pk r' = fail_entry pk (noteFailure pk (snd (lockedOut pk r))) \<and> room_config r' = room_config r"
proof -
  let ?n = "noteFailure pk (snd (lockedOut pk r))"
  obtain r1 where l: "lockedOut pk r = (False, r1)" using assms(3) by (cases "lockedOut pk r") auto
  have c: "room_config r1 = room_config r" using same_clients(7) [of pk r] l by simp
  have "authenticate S pk password timestamp r = (if \<not> allowAnonymousRead (room_config r) then (None, ?n)
     else apfst Some (admit_client pk (findClient pk r) READ_ONLY timestamp ?n))"
    using assms(1,2) l c
    by (auto simp: authenticate_def Let_def wrong_password_def newer_login_def dest: leD split: option.splits)
  then have "(\<not> allowAnonymousRead (room_config r) \<and> r' = ?n)
      \<or> (\<exists>i. admit_client pk (findClient pk r) READ_ONLY timestamp ?n = (i, r'))"
    using assms(4) by (cases "admit_client pk (findClient pk r) READ_ONLY timestamp ?n") (auto split: if_splits)
  then have "failures r' = failures ?n \<and> room_config r' = room_config ?n" using admit_read_only by blast
  then show ?thesis using l c by (simp add: fail_entry_def)
qed

lemma find_index_nth: "i < length xs \<Longrightarrow> distinct (map f xs) \<Longrightarrow> f (xs ! i) = k \<Longrightarrow> find_index (\<lambda>x. f x = k) xs = Some i"
proof (induction xs arbitrary: i)
  case (Cons x xs)
  then show ?case by (cases i) (auto simp: image_iff)
qed simp

lemma findClient_at: "room_ok r \<Longrightarrow> i < length (clients r) \<Longrightarrow> cl_pk (clients r ! i) = pk \<Longrightarrow> findClient pk r = Some i"
  unfolding findClient_def by (rule find_index_nth) (auto simp: room_ok_def)

lemma login_time_advances:
  assumes "room_ok r" and "length pk = PACKET_PUBLIC_KEY_SIZE" and "newer_login pk timestamp r"
    and "authenticate S pk password timestamp r = (c, r')" and "timestamp < later"
  shows "newer_login pk later r'"
proof (cases c)
  case None
  then have "clients r' = clients r" using authenticate_ok [OF assms(1,2,4)] by simp
  then show ?thesis using assms(3,5) by (auto simp: newer_login_def findClient_def split: option.splits)
next
  case (Some i)
  then have "findClient pk r' = Some i" "cl_lastLogin (clients r' ! i) = timestamp"
    using authenticate_ok [OF assms(1,2,4)] findClient_at [of r' i pk] by auto
  then show ?thesis using assms(5) by (simp add: newer_login_def)
qed

lemma admit_clients:
  assumes "admit_client pk known access timestamp r = (i, r')" and "known = findClient pk r" and "room_ok r"
  shows "(known = None \<longrightarrow> i = length (clients r') - 1 \<and> set (butlast (clients r')) \<subseteq> set (clients r)
       \<and> (\<forall>c \<in> set (clients r). cl_access c = ADMIN \<and> c \<notin> set (butlast (clients r')) \<longrightarrow>
            length (clients r) = MAX_ROOM_CLIENTS \<and> (\<forall>d \<in> set (clients r). cl_access d = ADMIN)))
     \<and> (known = Some j \<longrightarrow> i = j \<and> (\<forall>k. k \<noteq> j \<longrightarrow> clients r' ! k = clients r ! k) \<and> length (clients r') = length (clients r))"
proof -
  let ?r = "if access \<noteq> READ_ONLY then clearFailures pk r else r"
  let ?f = "\<lambda>c. c\<lparr>cl_access := access, cl_lastLogin := timestamp\<rparr>"
  define e where "e = (if length (clients ?r) \<ge> MAX_ROOM_CLIENTS then evictClient ?r else ?r)"
  have cl: "clients ?r = clients r" by simp
  have le: "length (clients r) \<le> 64" using assms(3) by (simp add: room_ok_def)
  show ?thesis
  proof (cases known)
    case None
    then have r': "r' = update_client (length (clients e)) ?f (e\<lparr>clients := clients e @ [client_init\<lparr>cl_pk := pk\<rparr>]\<rparr>)"
        "i = length (clients e)"
      using assms(1) by (auto simp: admit_client_def Let_def e_def split: if_splits)
    then have b: "butlast (clients r') = clients e" "length (clients r') = Suc (length (clients e))"
      by (simp_all add: update_client_def)
    have "c \<in> set (clients e) \<or> length (clients r) = 64 \<and> (\<forall>d \<in> set (clients r). cl_access d = ADMIN)"
      if c: "c \<in> set (clients r)" "cl_access c = ADMIN" for c
    proof (cases "length (clients r) \<ge> 64")
      case True
      then have "clients ?r \<noteq> []" by auto
      from evictClient_cases [OF this] obtain v where v: "v < length (clients r)"
          "evictClient ?r = ?r\<lparr>clients := erase v (clients r)\<rparr>"
          "cl_access (clients r ! v) = ADMIN \<longrightarrow> (\<forall>c \<in> set (clients r). cl_access c = ADMIN)"
        unfolding cl by blast
      have "c = clients r ! v \<or> c \<in> set (erase v (clients r))"
        using c(1) v(1) id_take_nth_drop [OF v(1)] unfolding erase_def
        by (metis Suc_eq_plus1 Un_iff insert_iff list.simps(15) set_append)
      moreover have "clients e = erase v (clients r)" using v(2) True unfolding e_def cl by simp
      ultimately show ?thesis using v(3) c(2) True le by auto
    qed (use c in \<open>simp add: e_def\<close>)
    moreover have "set (clients e) \<subseteq> set (clients r)" using evictClient_subset [of ?r] by (auto simp: e_def)
    ultimately show ?thesis using None b r'(2) by simp blast
  next
    case (Some l)
    then have "r' = update_client l ?f ?r" "i = l"
      using assms(1) by (auto simp: admit_client_def Let_def split: if_splits)
    then show ?thesis using Some by (simp add: update_client_def)
  qed
qed

lemma authenticate_admitted:
  assumes "authenticate S pk password timestamp r = (Some i, r')" "lockedOut pk r = (locked, r1)"
  shows "newer_login pk timestamp r" "\<not> locked"
    "if passwordMatches S password (adminPassword (room_config r1))
       then admit_client pk (findClient pk r) ADMIN timestamp r1 = (i, r')
     else if passwordMatches S password (guestPassword (room_config r1))
       then admit_client pk (findClient pk r) GUEST timestamp r1 = (i, r')
     else let q = (if password \<noteq> [] then noteFailure pk r1 else r1) in
       allowAnonymousRead (room_config q) \<and> admit_client pk (findClient pk r) READ_ONLY timestamp q = (i, r')"
proof -
  have ap: "apfst Some x = (Some i, r') \<longleftrightarrow> x = (i, r')" for x :: "nat \<times> 'a Room" by (cases x) auto
  show nl: "newer_login pk timestamp r"
    by (rule ccontr) (use assms(1) in \<open>auto simp: authenticate_def Let_def newer_login_def not_less split: option.splits\<close>)
  then have g: "\<not> (case findClient pk r of None \<Rightarrow> False | Some i \<Rightarrow> timestamp \<le> cl_lastLogin (clients r ! i))"
    by (auto simp: newer_login_def dest: leD split: option.splits)
  show nlk: "\<not> locked" using assms g by (auto simp: authenticate_def Let_def)
  show "if passwordMatches S password (adminPassword (room_config r1))
       then admit_client pk (findClient pk r) ADMIN timestamp r1 = (i, r')
     else if passwordMatches S password (guestPassword (room_config r1))
       then admit_client pk (findClient pk r) GUEST timestamp r1 = (i, r')
     else let q = (if password \<noteq> [] then noteFailure pk r1 else r1) in
       allowAnonymousRead (room_config q) \<and> admit_client pk (findClient pk r) READ_ONLY timestamp q = (i, r')"
    using assms g nlk by (auto simp: authenticate_def Let_def ap split: if_splits)
qed

lemma authenticate_cases:
  assumes "authenticate S pk password timestamp r = (Some i, r')" and "memcmp_spec S" and "room_ok r"
  shows "newer_login pk timestamp r \<and> fst (lockedOut pk r) = False \<and>
    (\<exists>access r1. admit_client pk (findClient pk r) access timestamp r1 = (i, r') \<and> room_ok r1
       \<and> clients r1 = clients r \<and> room_config r1 = room_config r
       \<and> (access = ADMIN \<and> password = adminPassword (room_config r) \<and> password \<noteq> []
        \<or> access = GUEST \<and> password = guestPassword (room_config r) \<and> password \<noteq> []
        \<or> access = READ_ONLY \<and> allowAnonymousRead (room_config r)))"
proof -
  obtain locked r1 where l: "lockedOut pk r = (locked, r1)" by fastforce
  have r1: "clients r1 = clients r" "room_config r1 = room_config r" "room_ok r1"
    using same_clients(1,7) [of pk r] lockedOut_ok [OF assms(3), of pk] l by auto
  let ?q = "if password \<noteq> [] then noteFailure pk r1 else r1"
  have q: "room_config ?q = room_config r" "clients ?q = clients r" "room_ok ?q" using r1 noteFailure_ok by auto
  have pm: "passwordMatches S password e \<longleftrightarrow> e \<noteq> [] \<and> password = e" for e
    using assms(2) by (simp add: passwordMatches_def constantTimeEqual_iff)
  note a = authenticate_admitted [OF assms(1) l]
  consider (admin) "adminPassword (room_config r) \<noteq> []" "password = adminPassword (room_config r)"
      "admit_client pk (findClient pk r) ADMIN timestamp r1 = (i, r')"
    | (guest) "guestPassword (room_config r) \<noteq> []" "password = guestPassword (room_config r)"
      "admit_client pk (findClient pk r) GUEST timestamp r1 = (i, r')"
    | (anon) "allowAnonymousRead (room_config r)" "admit_client pk (findClient pk r) READ_ONLY timestamp ?q = (i, r')"
    using a(3) q(1) unfolding pm r1(2) Let_def by (simp split: if_splits)
  then show ?thesis
  proof cases
    case admin
    then show ?thesis using a(1,2) l r1 by (auto intro!: exI [of _ ADMIN] exI [of _ r1])
  next
    case guest
    then show ?thesis using a(1,2) l r1 by (auto intro!: exI [of _ GUEST] exI [of _ r1])
  next
    case anon
    then show ?thesis using a(1,2) l q by (intro conjI exI [of _ READ_ONLY] exI [of _ ?q]) auto
  qed
qed

text \<open>
  C9. Rights are what the password bought: a login that succeeds is strictly newer than the last one of that key and
  not locked out; it leaves the key with admin or guest rights only when the password is the configured one and not
  empty, and otherwise with reading only, and that only where anonymous reading is on. No other row changes, except that
  a newcomer to a full table displaces one; an admin is displaced only when all sixty-four are admins. (A displaced key has no
  last login any more.)
\<close>

theorem login_grants_what_password_bought:
  assumes "memcmp_spec S" and "room_ok r" and "length pk = PACKET_PUBLIC_KEY_SIZE"
    and "authenticate S pk password timestamp r = (Some i, r')"
  shows "newer_login pk timestamp r \<and> fst (lockedOut pk r) = False \<and> cl_pk (clients r' ! i) = pk
    \<and> (cl_access (clients r' ! i) = ADMIN \<and> password = adminPassword (room_config r) \<and> password \<noteq> []
       \<or> cl_access (clients r' ! i) = GUEST \<and> password = guestPassword (room_config r) \<and> password \<noteq> []
       \<or> cl_access (clients r' ! i) = READ_ONLY \<and> allowAnonymousRead (room_config r))
    \<and> (\<forall>c \<in> set (clients r'). cl_pk c \<noteq> pk \<longrightarrow> c \<in> set (clients r))
    \<and> (\<forall>c \<in> set (clients r). cl_pk c \<noteq> pk \<and> cl_access c = ADMIN \<and> c \<notin> set (clients r') \<longrightarrow>
         length (clients r) = MAX_ROOM_CLIENTS \<and> (\<forall>d \<in> set (clients r). cl_access d = ADMIN))"
proof -
  note ac = authenticate_cases [OF assms(4,1,2)]
  obtain access r1 where r1: "admit_client pk (findClient pk r) access timestamp r1 = (i, r')" "room_ok r1" "clients r1 = clients r"
      and how: "access = ADMIN \<and> password = adminPassword (room_config r) \<and> password \<noteq> []
        \<or> access = GUEST \<and> password = guestPassword (room_config r) \<and> password \<noteq> []
        \<or> access = READ_ONLY \<and> allowAnonymousRead (room_config r)" using ac by blast
  have f: "findClient pk r = findClient pk r1" using r1(3) by (simp add: findClient_def)
  note row = admit_client_ok [OF r1(2) assms(3) f r1(1)]
  note rows = admit_clients [OF r1(1) f r1(2)]
  have "(\<forall>c \<in> set (clients r'). cl_pk c \<noteq> pk \<longrightarrow> c \<in> set (clients r)) \<and>
      (\<forall>c \<in> set (clients r). cl_pk c \<noteq> pk \<and> cl_access c = ADMIN \<and> c \<notin> set (clients r') \<longrightarrow>
         length (clients r) = MAX_ROOM_CLIENTS \<and> (\<forall>d \<in> set (clients r). cl_access d = ADMIN))"
  proof (cases "findClient pk r")
    case None
    have "clients r' \<noteq> []" and "i = length (clients r') - 1" using rows None row by auto
    then have "clients r' = butlast (clients r') @ [clients r' ! i]"
      using append_butlast_last_id [of "clients r'"] by (simp add: last_conv_nth)
    from arg_cong [OF this, of set]
    have s: "set (clients r') = insert (clients r' ! i) (set (butlast (clients r')))" by (simp only: set_append list.set) simp
    show ?thesis using rows None row s r1(3) by auto
  next
    case (Some j)
    then have same: "i = j" "\<forall>k. k \<noteq> j \<longrightarrow> clients r' ! k = clients r ! k" "length (clients r') = length (clients r)"
      using rows r1(3) by auto
    have "cl_pk (clients r ! j) = pk" using Some by (auto simp: findClient_def dest: find_index_Some)
    then show ?thesis using same row by (auto simp: in_set_conv_nth) metis+
  qed
  then show ?thesis using ac row how by auto
qed

definition test_room :: "unit Room" where
  "test_room = room_new (room_config_default\<lparr>adminPassword := [1, 2], guestPassword := [3]\<rparr>) None ()"

theorem login_grants_what_password_bought_witness:
  "\<exists>r'. authenticate test_sodium (replicate 32 9) [1, 2] 5 test_room = (Some 0, r') \<and> cl_access (clients r' ! 0) = ADMIN"
proof -
  obtain i r' where a: "authenticate test_sodium (replicate 32 9) [1, 2] 5 test_room = (Some i, r')" "i = 0"
    by (simp add: authenticate_def test_room_def room_new_def findClient_def lockedOut_def passwordMatches_def
        room_config_default_def constantTimeEqual_def test_sodium_def admit_client_def Let_def clearFailures_def)
  have ok: "room_ok test_room" unfolding test_room_def by (rule room_new_ok)
  from login_grants_what_password_bought [OF test_sodium_memcmp ok _ a(1)]
  show ?thesis using a by (auto simp: test_room_def room_new_def room_config_default_def)
qed

section \<open>Logins of other keys\<close>

lemma find_append: "List.find P (xs @ ys) = (case List.find P xs of None \<Rightarrow> List.find P ys | Some x \<Rightarrow> Some x)"
  by (induction xs) auto

lemma find_erase_other:
  assumes "i < length xs" "\<not> P (xs ! i)"
  shows "List.find P (erase i xs) = List.find P xs"
  using arg_cong [OF id_take_nth_drop [OF assms(1)], of "List.find P"] assms(2)
  by (simp add: erase_def find_append split: option.split)

lemma find_update_other: "\<not> P (xs ! i) \<Longrightarrow> \<not> P y \<Longrightarrow> List.find P (xs[i := y]) = List.find P xs"
proof (induction xs arbitrary: i)
  case (Cons x xs)
  then show ?case by (cases i) auto
qed simp

lemma other_key_failures:
  assumes "k \<noteq> pk"
  shows "fail_entry pk (snd (lockedOut k r)) = fail_entry pk r" and "fail_entry pk (clearFailures k r) = fail_entry pk r"
    and "length (failures r) < MAX_LOGIN_FAILURES \<Longrightarrow> fail_entry pk (noteFailure k r) = fail_entry pk r"
proof -
  have o: "i < length (failures r)" "fail_pk (failures r ! i) \<noteq> pk" if "find_index (\<lambda>f. fail_pk f = k) (failures r) = Some i" for i
    using find_index_Some [OF that] assms by auto
  show "fail_entry pk (snd (lockedOut k r)) = fail_entry pk r" "fail_entry pk (clearFailures k r) = fail_entry pk r"
    using o by (auto simp: lockedOut_def clearFailures_def fail_entry_def Let_def find_erase_other split: option.split)
  show "fail_entry pk (noteFailure k r) = fail_entry pk r" if "length (failures r) < MAX_LOGIN_FAILURES"
    using that o assms
    by (auto simp: noteFailure_def fail_entry_def Let_def find_append find_update_other split: option.split)
qed

lemma failures_grow:
  "length (failures (snd (lockedOut k r))) \<le> length (failures r)" "length (failures (clearFailures k r)) \<le> length (failures r)"
  "length (failures (noteFailure k r)) \<le> Suc (length (failures r))"
  by (auto simp: lockedOut_def clearFailures_def noteFailure_def Let_def erase_def split: option.split)

lemma admit_failures:
  "admit_client k known access t r = (i, r') \<Longrightarrow> failures r' = failures (if access \<noteq> READ_ONLY then clearFailures k r else r)
     \<and> room_config r' = room_config r"
  by (auto simp: admit_client_def Let_def update_client_def split: option.splits if_splits)

lemma admit_rows:
  assumes "admit_client k (findClient k r) access t r1 = (i, r')" "clients r1 = clients r" "c \<in> set (clients r')" "cl_pk c \<noteq> k"
  shows "c \<in> set (clients r)"
proof -
  let ?r = "if access \<noteq> READ_ONLY then clearFailures k r1 else r1"
  have cl: "clients ?r = clients r" using assms(2) by simp
  show ?thesis
  proof (cases "findClient k r")
    case None
    let ?e = "if length (clients ?r) \<ge> MAX_ROOM_CLIENTS then evictClient ?r else ?r"
    have "clients r' = clients ?e @ [(client_init\<lparr>cl_pk := k\<rparr>)\<lparr>cl_access := access, cl_lastLogin := t\<rparr>]"
      using assms(1) None by (auto simp: admit_client_def Let_def update_client_def split: if_splits)
    then have "c \<in> set (clients ?e)" using assms(3,4) by auto
    then show ?thesis using evictClient_subset [of ?r] cl by (auto split: if_splits)
  next
    case (Some j)
    have j: "cl_pk (clients r ! j) = k" using find_index_Some [OF Some [unfolded findClient_def]] by simp
    have "clients r' = (clients r)[j := (clients r ! j)\<lparr>cl_access := access, cl_lastLogin := t\<rparr>]"
      using assms(1) Some cl by (auto simp: admit_client_def Let_def update_client_def split: if_splits)
    then show ?thesis using assms(3,4) j set_update_subset_insert [of "clients r" j] by fastforce
  qed
qed

lemma authenticate_steps:
  assumes "authenticate S k password t r = (c, r')"
  shows "r' = r \<or> (\<exists>r1. (r1 = snd (lockedOut k r) \<or> r1 = noteFailure k (snd (lockedOut k r))) \<and>
    (r' = r1 \<or> (\<exists>i access. admit_client k (findClient k r) access t r1 = (i, r'))))"
proof -
  have ap: "apfst Some x = (c, r') \<Longrightarrow> \<exists>i. x = (i, r')" for x :: "nat \<times> 'a Room" by (cases x) auto
  obtain locked r1 where l: "lockedOut k r = (locked, r1)" by fastforce
  then show ?thesis
    using assms by (auto simp: authenticate_def Let_def dest!: ap split: if_splits option.splits)
qed

lemma other_login:
  assumes "authenticate S k password t r = (c, r')" "k \<noteq> pk" "length (failures r) < MAX_LOGIN_FAILURES"
  shows "fail_entry pk r' = fail_entry pk r" and "\<And>d. d \<in> set (clients r') \<Longrightarrow> cl_pk d = pk \<Longrightarrow> d \<in> set (clients r)"
proof -
  let ?l = "snd (lockedOut k r)"
  have l: "fail_entry pk ?l = fail_entry pk r" "fail_entry pk (noteFailure k ?l) = fail_entry pk r"
      "fail_entry pk (clearFailures k ?l) = fail_entry pk r" "fail_entry pk (clearFailures k (noteFailure k ?l)) = fail_entry pk r"
    using failures_grow(1) [of k r] assms(3) by (simp_all add: other_key_failures [OF assms(2)])
  have cl: "clients ?l = clients r" "clients (noteFailure k ?l) = clients r" using same_clients by simp_all
  show "fail_entry pk r' = fail_entry pk r"
    using authenticate_steps [OF assms(1)] l by (auto dest!: admit_failures simp: fail_entry_def split: if_splits)
  show "d \<in> set (clients r)" if "d \<in> set (clients r')" "cl_pk d = pk" for d
    using authenticate_steps [OF assms(1)] cl that assms(2) by (auto dest: admit_rows)
qed

lemma any_login:
  assumes "authenticate S k password t r = (c, r')"
  shows "room_config r' = room_config r" and "length (failures r') \<le> Suc (length (failures r))"
proof -
  let ?l = "snd (lockedOut k r)"
  have cf: "room_config ?l = room_config r" "room_config (noteFailure k ?l) = room_config r" using same_clients by simp_all
  show "room_config r' = room_config r"
    using authenticate_steps [OF assms] cf by (auto dest!: admit_failures)
  have "length (failures ?l) \<le> length (failures r)" "length (failures (noteFailure k ?l)) \<le> Suc (length (failures r))"
      "length (failures (clearFailures k ?l)) \<le> length (failures r)" "length (failures (clearFailures k (noteFailure k ?l))) \<le> Suc (length (failures r))"
    using failures_grow(1) [of k r] failures_grow(3) [of k ?l] failures_grow(2) [of k ?l] failures_grow(2) [of k "noteFailure k ?l"] by linarith+
  then show "length (failures r') \<le> Suc (length (failures r))"
    using authenticate_steps [OF assms] by (auto dest!: admit_failures split: if_splits)
qed

lemma newer_login_rows: "newer_login pk t r" if "\<forall>d \<in> set (clients r). cl_pk d = pk \<longrightarrow> cl_lastLogin d < t"
  using that by (auto simp: newer_login_def findClient_def dest!: find_index_Some split: option.split)

lemma newer_login_row: "room_ok r \<Longrightarrow> newer_login pk t r \<Longrightarrow> d \<in> set (clients r) \<Longrightarrow> cl_pk d = pk \<Longrightarrow> cl_lastLogin d < t"
  by (auto simp: in_set_conv_nth newer_login_def findClient_at)

section \<open>Lockout\<close>

text \<open>Logins as they come in, each at a time of the clock, from any keys.\<close>

fun logins :: "sodium \<Rightarrow> (Millis \<times> public_key \<times> bytes \<times> u32) list \<Rightarrow> 'h Room \<Rightarrow> 'h Room" where
  "logins S [] r = r"
| "logins S ((now, pk, password, timestamp) # es) r =
     logins S es (snd (authenticate S pk password timestamp (r\<lparr>room_now := now\<rparr>)))"

definition guesses_of :: "public_key \<Rightarrow> (Millis \<times> public_key \<times> bytes \<times> u32) list \<Rightarrow> (Millis \<times> bytes \<times> u32) list" where
  "guesses_of pk es = map (\<lambda>(now, k, rest). (now, rest)) (filter (\<lambda>(now, k, rest). k = pk) es)"

lemma guesses_of_simps [simp]:
  "guesses_of pk [] = []" "guesses_of pk ((now, k, rest) # es) = (if k = pk then (now, rest) # guesses_of pk es else guesses_of pk es)"
  by (simp_all add: guesses_of_def)

definition fails_so_far :: "public_key \<Rightarrow> nat \<Rightarrow> 'h Room \<Rightarrow> bool" where
  "fails_so_far pk n r \<longleftrightarrow> fail_entry pk r = (if n = 0 then None else Some \<lparr>fail_pk = pk, fail_count = of_nat n, fail_until = 0\<rparr>)"

text \<open>One more wrong password.\<close>

lemma guess_counted:
  assumes "room_ok r" and "length pk = PACKET_PUBLIC_KEY_SIZE" and "wrong_password S r password" and "newer_login pk t r"
    and "fails_so_far pk n r" and "Suc n \<le> unat (maxLoginAttempts (room_config r))"
    and "authenticate S pk password t r = (c, r')"
  shows "fail_entry pk r' = Some (counted r pk (of_nat (Suc n)))"
proof -
  have n: "Suc n < 256" using assms(6) byte_less_256 [of "maxLoginAttempts (room_config r)"] by linarith
  have lo: "lockedOut pk r = (False, r)"
    using assms(5) by (intro lockedOut_fresh) (auto simp: fails_so_far_def split: if_splits)
  have "fail_entry pk (noteFailure pk r) = Some (counted r pk (of_nat (Suc n)))"
  proof (cases "n = 0")
    case True
    then show ?thesis using noteFailure_first [of pk r] assms(5) by (simp add: fails_so_far_def)
  next
    case False
    have "(of_nat n :: byte) < 255" using n by (simp add: word_less_nat_alt unat_of_nat_byte)
    moreover have "fail_entry pk r = Some \<lparr>fail_pk = pk, fail_count = of_nat n, fail_until = 0\<rparr>"
      using False assms(5) by (simp add: fails_so_far_def)
    ultimately show ?thesis using noteFailure_again [of pk r] by (simp add: add.commute)
  qed
  then show ?thesis using wrong_guess [OF assms(3,4) _ assms(7)] lo by simp
qed

lemma counted_at_limit:
  "Suc n = unat (maxLoginAttempts (room_config r)) \<Longrightarrow> counted r pk (of_nat (Suc n))
     = \<lparr>fail_pk = pk, fail_count = maxLoginAttempts (room_config r), fail_until = room_now r + loginLockout (room_config r)\<rparr>"
  by (simp add: counted_def word_unat_eq_iff)

lemma counted_below:
  assumes "Suc n < unat (maxLoginAttempts (room_config r))"
  shows "counted r pk (of_nat (Suc n)) = \<lparr>fail_pk = pk, fail_count = of_nat (Suc n), fail_until = 0\<rparr>"
proof -
  have "Suc n < 256" using assms byte_less_256 [of "maxLoginAttempts (room_config r)"] by linarith
  then have "\<not> (of_nat (Suc n) :: byte) \<ge> maxLoginAttempts (room_config r)"
    using assms by (simp only: word_le_nat_alt unat_of_nat_byte)
  then show ?thesis by (simp add: counted_def)
qed

lemma others_keep_entry:
  "guesses_of pk es = [] \<Longrightarrow> length (failures r) + length es \<le> MAX_LOGIN_FAILURES \<Longrightarrow> fail_entry pk (logins S es r) = fail_entry pk r"
proof (induction es arbitrary: r)
  case (Cons e es)
  obtain now k password t where e: "e = (now, k, password, t)" by (metis prod.collapse)
  let ?r = "r\<lparr>room_now := now\<rparr>"
  obtain c r' where a: "authenticate S k password t ?r = (c, r')" by fastforce
  have k: "k \<noteq> pk" "guesses_of pk es = []" using Cons.prems(1) e by (auto split: if_splits)
  have "fail_entry pk r' = fail_entry pk ?r" using other_login(1) [OF a k(1)] Cons.prems(2) by simp
  moreover have "length (failures r') + length es \<le> MAX_LOGIN_FAILURES" using any_login(2) [OF a] Cons.prems(2) by simp
  ultimately show ?case using Cons.IH [OF k(2)] e a by (simp add: fail_entry_def)
qed simp

lemma guesses_count:
  assumes "room_ok r" and "length pk = PACKET_PUBLIC_KEY_SIZE"
    and "\<forall>(now, k, rest) \<in> set es. length k = PACKET_PUBLIC_KEY_SIZE"
    and "\<forall>(now, password, t) \<in> set (guesses_of pk es). wrong_password S r password \<and> newer_login pk t r"
    and "sorted_wrt (<) (map (\<lambda>(now, password, t). t) (guesses_of pk es))" and "guesses_of pk es \<noteq> []"
    and "fails_so_far pk n r" and "n + length (guesses_of pk es) = unat (maxLoginAttempts (room_config r))"
    and "length (failures r) + length es \<le> MAX_LOGIN_FAILURES"
  shows "fail_entry pk (logins S es r) = Some \<lparr>fail_pk = pk, fail_count = maxLoginAttempts (room_config r),
           fail_until = fst (last (guesses_of pk es)) + loginLockout (room_config r)\<rparr>"
  using assms
proof (induction es arbitrary: r n)
  case (Cons e es)
  obtain now k password t where e: "e = (now, k, password, t)" by (metis prod.collapse)
  let ?r = "r\<lparr>room_now := now\<rparr>"
  obtain c r' where a: "authenticate S k password t ?r = (c, r')" by fastforce
  have ok: "room_ok ?r" using Cons.prems(1) by (auto simp: room_ok_def)
  have k32: "length k = PACKET_PUBLIC_KEY_SIZE" using Cons.prems(3) e by simp
  have ok': "room_ok r'" using authenticate_ok [OF ok k32 a] by simp
  have cfg: "room_config r' = room_config r" using any_login(1) [OF a] by simp
  have len: "length (failures r') + length es \<le> MAX_LOGIN_FAILURES" using any_login(2) [OF a] Cons.prems(9) by simp
  have wp: "wrong_password S r' p \<longleftrightarrow> wrong_password S r p" for p using cfg by (simp add: wrong_password_def)
  have nl: "newer_login pk u ?r \<longleftrightarrow> newer_login pk u r" for u by (simp add: newer_login_def findClient_def split: option.split)
  show ?case
  proof (cases "k = pk")
    case False
    have "newer_login pk u r'" if "newer_login pk u r" for u
    proof (intro newer_login_rows ballI impI)
      fix d assume "d \<in> set (clients r')" "cl_pk d = pk"
      then have "d \<in> set (clients ?r)" using other_login(2) [OF a False] Cons.prems(9) by simp
      then show "cl_lastLogin d < u" using newer_login_row [OF ok] nl that \<open>cl_pk d = pk\<close> by blast
    qed
    moreover have "fails_so_far pk n r'"
      using other_login(1) [OF a False] Cons.prems(7,9) by (simp add: fails_so_far_def fail_entry_def)
    ultimately show ?thesis
      using Cons.IH [OF ok' Cons.prems(2), of n] Cons.prems(3-6,8) e False cfg len a wp by (auto simp: case_prod_beta)
  next
    case True
    have w: "wrong_password S ?r password" "newer_login pk t ?r" "fails_so_far pk n ?r"
      using Cons.prems(4,7) e True nl by (auto simp: wrong_password_def fails_so_far_def fail_entry_def)
    have "Suc n \<le> unat (maxLoginAttempts (room_config ?r))" using Cons.prems(8) e True by simp
    then have f: "fail_entry pk r' = Some (counted ?r pk (of_nat (Suc n)))"
      using guess_counted [OF ok Cons.prems(2) w] a True by blast
    show ?thesis
    proof (cases "guesses_of pk es = []")
      case last: True
      then have "Suc n = unat (maxLoginAttempts (room_config ?r))" using Cons.prems(8) e True by simp
      then show ?thesis using others_keep_entry [OF last len] f counted_at_limit [of n ?r pk] a e True last by simp
    next
      case False
      then have "Suc n < unat (maxLoginAttempts (room_config ?r))" using Cons.prems(8) e True by (cases "guesses_of pk es") auto
      then have "fails_so_far pk (Suc n) r'" using f counted_below [of n ?r pk] by (simp add: fails_so_far_def)
      moreover have "newer_login pk u r'" if "t < u" for u
        using login_time_advances [OF ok Cons.prems(2) w(2)] a True that by blast
      then have "\<forall>(now, password, u) \<in> set (guesses_of pk es). wrong_password S r' password \<and> newer_login pk u r'"
        using Cons.prems(4,5) e True wp by (fastforce simp: case_prod_beta)
      ultimately show ?thesis
        using Cons.IH [OF ok' Cons.prems(2) _ _ _ False, of "Suc n"] Cons.prems(3,5,8) e True cfg len a False by (simp add: case_prod_beta)
    qed
  qed
qed simp

text \<open>
  C19. Guessing is made to wait: when a key with no failure noted yet has offered as many wrong passwords, equal or different, as the setting allows,
  each under a later time than the one before, then whatever logins of other keys came in between and behind (as long as
  the list of failed logins has room for all of them) and whether or not anonymous readers are let in, every login from
  that key is refused until the lockout has passed, the right password included, and the refusal changes nothing.
  (A right password in between would clear the count.)
\<close>

theorem wrong_passwords_lock_out:
  assumes "room_ok r" and "length pk = PACKET_PUBLIC_KEY_SIZE"
    and "\<forall>(now, k, rest) \<in> set es. length k = PACKET_PUBLIC_KEY_SIZE"
    and "\<forall>(now, password, t) \<in> set (guesses_of pk es). wrong_password S r password \<and> newer_login pk t r"
    and "sorted_wrt (<) (map (\<lambda>(now, password, t). t) (guesses_of pk es))" and "fail_entry pk r = None"
    and "0 < length (guesses_of pk es)" and "length (guesses_of pk es) = unat (maxLoginAttempts (room_config r))"
    and "length (failures r) + length es \<le> MAX_LOGIN_FAILURES"
    and "r' = (logins S es r)\<lparr>room_now := now\<rparr>" and "now < fst (last (guesses_of pk es)) + loginLockout (room_config r)"
  shows "authenticate S pk any timestamp r' = (None, r')"
proof -
  have ne: "guesses_of pk es \<noteq> []" using assms(7) by auto
  have "fails_so_far pk 0 r" using assms(6) by (simp add: fails_so_far_def)
  then have "fail_entry pk (logins S es r) = Some \<lparr>fail_pk = pk, fail_count = maxLoginAttempts (room_config r),
           fail_until = fst (last (guesses_of pk es)) + loginLockout (room_config r)\<rparr>"
    using guesses_count [OF assms(1-5) ne _ _ assms(9), of 0] assms(8) by simp
  then have "lockedOut pk r' = (True, r')" using assms(10,11) by (intro lockedOut_held) (auto simp: fail_entry_def)
  then show ?thesis by (simp add: authenticate_def Let_def split: option.split)
qed

theorem wrong_passwords_lock_out_witness:
  "\<exists>r :: unit Room. room_now r = 60000 \<and> authenticate test_sodium (replicate 32 9) [1, 2] 99 r = (None, r)"
proof -
  let ?k = "replicate 32 9 :: bytes" and ?o = "replicate 32 8 :: bytes"
  let ?es = "[(10, ?k, [7], 1), (15, ?o, [7], 3), (20, ?k, [8], 2), (30, ?k, [7], 3), (35, ?o, [1, 2], 9), (40, ?k, [5, 5], 4), (50, ?k, [6], 5)]
    :: (Millis \<times> public_key \<times> bytes \<times> u32) list"
  have ok: "room_ok test_room" unfolding test_room_def by (rule room_new_ok)
  have "?o \<noteq> ?k" by (simp add: replicate_eq_replicate)
  then have g: "guesses_of ?k ?es = [(10, [7], 1), (20, [8], 2), (30, [7], 3), (40, [5, 5], 4), (50, [6], 5)]" by simp
  have w: "\<forall>(now, password, t) \<in> set (guesses_of ?k ?es). wrong_password test_sodium test_room password \<and> newer_login ?k t test_room"
    unfolding g by (simp add: wrong_password_def passwordMatches_def constantTimeEqual_def test_room_def room_new_def room_config_default_def
        test_sodium_def newer_login_def findClient_def)
  have c: "maxLoginAttempts (room_config test_room) = 5" "loginLockout (room_config test_room) = 60000" "failures test_room = []"
      "fail_entry ?k test_room = None"
    by (simp_all add: test_room_def room_new_def room_config_default_def fail_entry_def)
  have "authenticate test_sodium ?k [1, 2] 99 ((logins test_sodium ?es test_room)\<lparr>room_now := 60000\<rparr>)
      = (None, (logins test_sodium ?es test_room)\<lparr>room_now := 60000\<rparr>)"
    by (rule wrong_passwords_lock_out [OF ok _ _ w _ c(4) _ _ _ refl]) (simp_all only: g, simp_all add: c)
  then show ?thesis by (intro exI [of _ "(logins test_sodium ?es test_room)\<lparr>room_now := 60000\<rparr>"]) simp
qed

text \<open>
  A full list of failures forgets guesses: a wrong password under a new key drops the first row that is not locked, and with
  it the count of that row's key, which can start again.
\<close>

lemma new_key_forgets_guesses:
  assumes "length (failures r) = MAX_LOGIN_FAILURES" and "failures r = f # fs" and "fail_until f = 0" and "distinct (map fail_pk (failures r))"
    and "k \<notin> fail_pk ` set (failures r)"
  shows "fail_entry (fail_pk f) (noteFailure k r) = None"
proof -
  have "least_index (\<lambda>i. fail_until (failures r ! i)) xs 0 = 0" for xs
    by (induction xs) (use assms(2,3) in \<open>auto simp: least_index_def\<close>)
  then have "failures (noteFailure k r) = fs @ [\<lparr>fail_pk = k, fail_count = 1, fail_until =
      (if 1 \<ge> maxLoginAttempts (room_config r) then room_now r + loginLockout (room_config r) else 0)\<rparr>]"
    using assms(1,2,5) by (auto simp: noteFailure_def Let_def erase_def dest!: find_index_Some split: option.split)
  moreover have "\<forall>x \<in> set fs. fail_pk x \<noteq> fail_pk f" "k \<noteq> fail_pk f" using assms(2,4,5) by (auto simp: image_iff)
  ultimately show ?thesis by (auto simp: fail_entry_def find_None_iff)
qed

end
