(* ===== verification/Room_Commands.thy ===== *)
theory Room_Commands
  imports Room_Server Room_Login
begin

text \<open>
  Every admin command works on the room and on what is behind the host interface and then sends one reply: the lemmas that
  say so, verb by verb.
\<close>

section \<open>Commands\<close>

text \<open>
  A command works on the room and what is behind the host interface, then sends one reply; or the host interface throws, and
  the command ends there.
\<close>

definition same_board :: "'h Room \<Rightarrow> 'h Room \<Rightarrow> bool" where
  "same_board r r' \<longleftrightarrow> (posts r' = posts r \<or> posts r' = []) \<and> nextSeq r' = nextSeq r
     \<and> clients r' = clients r \<and> failures r' = failures r"

definition settles :: "'h Room world \<Rightarrow> 'h Room world \<Rightarrow> bool" where
  "settles w w' \<longleftrightarrow> w' = w\<lparr>rt_delegate := room_of w'\<rparr> \<and> same_board (room_of w) (room_of w')"

definition answers :: "'h Surroundings \<Rightarrow> public_key \<Rightarrow> 'h Room world \<Rightarrow> 'h Room world \<Rightarrow> bool" where
  "answers H dest w w' \<longleftrightarrow> (\<exists>w1 text. settles w w1 \<and> w' = sendCliReply H dest text w1)"

definition threw :: "'h Admin \<Rightarrow> 'h \<Rightarrow> 'h \<Rightarrow> bool" where
  "threw a h h' \<longleftrightarrow> (\<exists>t. admin_setClock a t h = (None, h')) \<or> (\<exists>v. admin_setNodeName a v h = (None, h'))
     \<or> (\<exists>k v. admin_saveSetting a k v h = (None, h'))"

definition breaks_off :: "'h Surroundings \<Rightarrow> 'h Room world \<Rightarrow> 'h Room world \<Rightarrow> bool" where
  "breaks_off H w w' \<longleftrightarrow> (\<exists>a h. sur_admin H = Some a \<and> threw a (host (room_of w)) h \<and> w' = on_room (\<lambda>r. r\<lparr>host := h\<rparr>) w)"

definition responds :: "'h Surroundings \<Rightarrow> public_key \<Rightarrow> 'h Room world \<Rightarrow> 'h Room world \<Rightarrow> bool" where
  "responds H dest w w' \<longleftrightarrow> answers H dest w w' \<or> breaks_off H w w'"

lemma settles_refl [simp]: "settles w w"
  by (simp add: settles_def same_board_def)

lemma settles_on_room: "settles w w1 \<Longrightarrow> same_board (room_of w1) (f (room_of w1)) \<Longrightarrow> settles w (on_room f w1)"
  by (cases w1) (auto simp: settles_def on_room_def same_board_def)

lemma settles_host: "settles w w1 \<Longrightarrow> settles w (on_room (\<lambda>r. r\<lparr>host := h r\<rparr>) w1)"
  by (rule settles_on_room) (simp_all add: same_board_def)

lemma settles_tell: "settles w w1 \<Longrightarrow> settles w (tell_host H f w1)"
  by (simp add: tell_host_def settles_host split: option.split)

lemma settles_ask: "settles w w1 \<Longrightarrow> settles w (snd (ask_host H f w1))"
  by (simp add: ask_host_def settles_host Let_def split: option.split prod.split)

lemma answers_reply: "settles w w1 \<Longrightarrow> answers H dest w (sendCliReply H dest text w1)"
  by (auto simp: answers_def)

lemma answers_replyf: "settles w w1 \<Longrightarrow> answers H dest w (replyf H dest text w1)"
  by (simp add: replyf_def answers_reply)

lemma answers_asked:
  assumes "\<And>w1. settles w w1 \<Longrightarrow> answers H dest w (B w1)"
    and "\<And>a h h'. sur_admin H = Some a \<Longrightarrow> f a h = (None, h') \<Longrightarrow> threw a h h'"
  shows "responds H dest w (case ask_host H f w of (ok, w1) \<Rightarrow>
     if ok = None then w1 else if ok = Some False then sendCliReply H dest reply w1 else B w1)"
proof (cases "fst (ask_host H f w)")
  case None
  then have "breaks_off H w (snd (ask_host H f w))"
    using assms(2) by (auto simp: ask_host_def breaks_off_def Let_def split: option.splits prod.splits)
  then show ?thesis using None by (simp add: responds_def case_prod_beta)
next
  case (Some ok)
  have "settles w (snd (ask_host H f w))" by (simp add: settles_ask)
  then show ?thesis using Some assms(1) by (cases ok) (auto simp: responds_def case_prod_beta intro: answers_reply)
qed

lemma answers_responds: "answers H dest w w' \<Longrightarrow> responds H dest w w'"
  by (simp add: responds_def)

lemma asked_threw [simp]:
  "admin_setClock a t h = (None, h') \<Longrightarrow> threw a h h'" "admin_setNodeName a v h = (None, h') \<Longrightarrow> threw a h h'"
  "admin_saveSetting a k v h = (None, h') \<Longrightarrow> threw a h h'"
  by (auto simp: threw_def)

lemmas answer_rules = answers_reply answers_replyf settles_refl settles_tell

lemma same_board_simps [simp]:
  "same_board r (r\<lparr>room_config := c\<rparr>)" "same_board r (r\<lparr>forwarder := p\<rparr>)" "same_board r (setServerTime t r)"
  "same_board r (r\<lparr>posts := []\<rparr>)"
  by (simp_all add: same_board_def setServerTime_def)

lemma commandClock_answers: "responds H dest w (commandClock H dest rest w)"
  unfolding commandClock_def Let_def
  by (auto simp: setServerTime_def same_board_def
      intro!: answer_rules answers_asked settles_on_room intro: answers_responds split: option.split)

lemma set_name_answers: "responds H dest w (set_name H dest v w)"
  unfolding set_name_def by (auto intro!: answer_rules answers_asked intro: answers_responds)

lemma set_password_answers: "responds H dest w (set_password H dest a v w)"
  unfolding set_password_def by (auto intro!: answer_rules answers_asked settles_on_room intro: answers_responds simp: Let_def)

lemma set_anonymousRead_answers: "responds H dest w (set_anonymousRead H dest v w)"
  unfolding set_anonymousRead_def
  by (auto intro!: answer_rules answers_asked settles_on_room intro: answers_responds split: option.split)

lemma set_repeat_answers: "responds H dest w (set_repeat H dest v w)"
  unfolding set_repeat_def
  by (auto intro!: answer_rules answers_asked settles_on_room intro: answers_responds split: option.split)

lemma set_hopsMax_answers: "responds H dest w (set_hopsMax H dest v w)"
  unfolding set_hopsMax_def
  by (auto intro!: answer_rules answers_asked settles_on_room intro: answers_responds simp: Let_def split: option.split)

lemma commandSet_answers: "responds H dest w (commandSet H dest rest w)"
  by (simp add: commandSet_def Let_def set_name_answers set_password_answers set_anonymousRead_answers set_repeat_answers
      set_hopsMax_answers answers_responds answers_reply split: prod.split)

lemma commandGet_answers: "responds H dest w (commandGet H dest rest w)"
  by (simp add: commandGet_def Let_def answers_responds answers_reply answers_replyf commandClock_answers split: option.split)

lemma commandClear_answers: "answers H dest w (commandClear H dest rest w)"
  by (simp add: commandClear_def Let_def answers_reply answers_replyf settles_on_room)

text \<open>A reboot is noted with the host after the reply; everything else is done before it.\<close>

lemma run_command_answers:
  "\<exists>w'. responds H dest w w' \<and> (snd (run_command H dest line w) = w'
     \<or> snd (run_command H dest line w) = tell_host H admin_requestReboot w' \<and> answers H dest w w')"
proof -
  obtain verb rest where t: "takeWord (trimmed line) = (verb, rest)" by fastforce
  show ?thesis
  proof (cases "verb = ascii ''reboot''")
    case True
    then have "verb \<noteq> ascii ''help''" "verb \<noteq> ascii ''ver''" "verb \<noteq> ascii ''clock''" "verb \<noteq> ascii ''time''"
        "verb \<noteq> ascii ''advert''" "verb \<noteq> ascii ''set''" "verb \<noteq> ascii ''get''" "verb \<noteq> ascii ''clear''"
      by (simp_all add: ascii_def of_char_def)
    then have "snd (run_command H dest line w) = (if sur_admin H = None then sendCliReply H dest (ascii ''ERR - not supported here'') w
         else tell_host H admin_requestReboot (sendCliReply H dest (ascii ''OK - rebooting'') w))"
      using t True by (simp add: run_command_def)
    moreover have "responds H dest w (sendCliReply H dest reply w)" "answers H dest w (sendCliReply H dest reply w)" for reply
      by (simp_all add: answers_responds answers_reply)
    ultimately show ?thesis by metis
  next
    case False
    then have "responds H dest w (snd (run_command H dest line w))"
      using t by (simp add: run_command_def answers_responds answers_reply answers_replyf commandClock_answers commandSet_answers
          commandGet_answers commandClear_answers settles_tell)
    then show ?thesis by blast
  qed
qed

end
