(* ===== verification/Room_Runs.thy ===== *)
theory Room_Runs
  imports Room_Commands Router_Properties
begin

text \<open>
  The room over time: the contract it needs of its sender (\<open>quiet_sender\<close>, \<open>answering_sender\<close>), interpreted on the
  router, the runs of a room as an inductive relation with the state invariant by rule induction, who may change what,
  and that commands are answered.
\<close>

unbundle bit_operations_syntax

section \<open>What the room relies on of its sender\<close>

text \<open>Sending does not touch the room: the law every operation needs of the \<^verbatim>\<open>Sender\<close> it was built with.\<close>

locale quiet_sender =
  fixes H :: "'h Surroundings"
  assumes direct_keeps: "rt_delegate (snd (sender_sendDirect (sur_sender H) dest t pl ack w)) = rt_delegate w"
    and ack_keeps: "rt_delegate (sender_sendAck (sur_sender H) dest v pl w) = rt_delegate w"
    and flood_keeps: "rt_delegate (sender_sendFlood (sur_sender H) t pl w) = rt_delegate w"
begin

lemma sendCliReply_keeps [simp]: "rt_delegate (sendCliReply H dest reply w) = rt_delegate w"
  by (simp add: sendCliReply_def direct_keeps split: option.split)

lemma sendLoginResponse_keeps [simp]: "rt_delegate (sendLoginResponse H dest c w) = rt_delegate w"
  by (simp add: sendLoginResponse_def direct_keeps room_nonce_def Let_def split: prod.split)

lemma sendStatusResponse_keeps [simp]: "rt_delegate (sendStatusResponse H c t w) = rt_delegate w"
  by (simp add: sendStatusResponse_def direct_keeps room_nonce_def Let_def split: prod.split)

lemma sendKeepAliveAck_keeps [simp]: "rt_delegate (sendKeepAliveAck H c pl w) = rt_delegate w"
  by (simp add: sendKeepAliveAck_def ack_keeps Let_def)

lemma publishToChannels_keeps [simp]: "rt_delegate (publishToChannels H post w) = rt_delegate w"
proof -
  have "rt_delegate (publish_one H plain ch w) = rt_delegate w" for plain ch w
    by (simp add: publish_one_def flood_keeps split: option.split)
  then have "rt_delegate (fold (publish_one H plain) chs w) = rt_delegate w" for plain chs w
    by (induction chs arbitrary: w) simp_all
  then show ?thesis by (simp add: publishToChannels_def Let_def split: option.split)
qed

lemma responds_board: "responds H dest w w' \<Longrightarrow> same_board (room_of w) (room_of w')"
  by (auto simp: responds_def answers_def settles_def breaks_off_def on_room_def same_board_def)

lemma run_command_board: "same_board (room_of w) (room_of (snd (run_command H dest line w)))"
proof -
  obtain w' where w': "responds H dest w w'" "snd (run_command H dest line w) = w'
     \<or> snd (run_command H dest line w) = tell_host H admin_requestReboot w'"
    using run_command_answers by blast
  have "same_board (room_of w) (room_of (tell_host H admin_requestReboot w'))"
    using responds_board [OF w'(1)] by (auto simp: tell_host_def on_room_def same_board_def split: option.split)
  then show ?thesis using w' responds_board by metis
qed

lemma same_board_ok: "room_ok r \<Longrightarrow> same_board r r' \<Longrightarrow> room_ok r'"
  by (auto simp: room_ok_def same_board_def)

lemma handleCommand_ok: "room_ok (room_of w) \<Longrightarrow> room_ok (room_of (snd (handleCommand H i t line w)))"
proof -
  assume ok: "room_ok (room_of w)"
  let ?w = "on_room (update_client i (\<lambda>c. c\<lparr>cl_lastCommand := t\<rparr>)) w"
  have "room_ok (room_of ?w)" using ok by (simp add: on_room_def update_client_ok)
  then have "room_ok (room_of (snd (run_command H dest line ?w)))" for dest
    using run_command_board same_board_ok by blast
  then show ?thesis using ok by (simp add: handleCommand_def Let_def)
qed

lemma handleRequest_ok: "room_ok (room_of w) \<Longrightarrow> room_ok (room_of (snd (handleRequest H i plain w)))"
  by (simp add: handleRequest_def Let_def on_room_def update_client_ok)

lemma addPost_ok: "room_ok (room_of w) \<Longrightarrow> length author = 32 \<Longrightarrow> room_ok (room_of (addPost author t body w))"
  by (simp add: addPost_def room_publish_def on_room_def store_post_ok)

lemma handleText_ok: "room_ok (room_of w) \<Longrightarrow> room_ok (room_of (snd (handleText H from plain w)))"
proof -
  assume ok: "room_ok (room_of w)"
  have "length from = 32" if "findClient from (room_of w) = Some i" for i
    using find_index_Some [OF that [unfolded findClient_def]] ok by (auto simp: room_ok_def list_all_length)
  then show ?thesis using ok by (simp add: handleText_def Let_def handleCommand_ok addPost_ok split: option.split)
qed

lemma onPayload_ok: "room_ok (room_of w) \<Longrightarrow> room_ok (room_of (room_onPayload H from t plain w))"
  by (simp add: room_onPayload_def handleText_ok handleRequest_ok split: PayloadType.split option.split)

lemma onAnon_ok:
  assumes "room_ok (room_of w)" and "length from = 32" shows "room_ok (room_of (room_onAnon H from plain w))"
proof -
  let ?pw = "trimmed (take MAX_PASSWORD (drop LOGIN_REQUEST_PREFIX_SIZE plain))"
  obtain c r where a: "authenticate (sur_sodium H) from ?pw (readUint32 plain 0) (room_of w) = (c, r)" by fastforce
  have "room_ok r" using authenticate_ok [OF assms a] by simp
  then show ?thesis using assms(1) a
    by (simp add: room_onAnon_def Let_def room_publish_def on_room_def update_client_ok split: option.split)
qed

lemma onGroup_ok: "room_ok (room_of w) \<Longrightarrow> room_ok (room_of (room_onGroup H t pl w))"
proof -
  assume ok: "room_ok (room_of w)"
  have "room_ok (room_of (try_channels S g chs w))" for S g chs
    using ok by (induction chs) (simp_all add: addPost_ok split: option.split)
  then show ?thesis using ok by (simp add: room_onGroup_def split: option.split)
qed

lemma onAck_ok: "room_ok r \<Longrightarrow> room_ok (room_onAck sid r)"
  by (simp add: room_onAck_def update_client_ok split: option.split)

lemma onDeliveryFailed_ok: "room_ok r \<Longrightarrow> room_ok (room_onDeliveryFailed sid r)"
  by (simp add: room_onDeliveryFailed_def update_client_ok split: option.split)

lemma shouldForward_ok: "room_ok (room_of w) \<Longrightarrow> room_ok (room_of (snd (room_shouldForward p w)))"
  by (auto simp: room_shouldForward_def Let_def on_room_def room_publish_def elim!: room_ok_cong split: option.split prod.split)

lemma pushNextPost_ok: "room_ok (room_of w) \<Longrightarrow> room_ok (room_of (pushNextPost H i w))"
  using direct_keeps
  by (auto simp: pushNextPost_def Let_def on_room_def intro!: update_client_ok split: option.split prod.split) (metis snd_conv)+

lemma tick_ok: "room_ok (room_of w) \<Longrightarrow> room_ok (room_of (room_tick H now w))"
proof -
  assume ok: "room_ok (room_of w)"
  let ?r = "(room_of w)\<lparr>room_now := now\<rparr>"
  have "room_ok (snd (nextClientToPush ?r))"
    using ok by (auto simp: nextClientToPush_def Let_def elim!: room_ok_cong split: option.split)
  then show ?thesis
    by (auto simp: room_tick_def Let_def on_room_def pushNextPost_ok split: option.split prod.split)
qed

end

section \<open>Runs of the room\<close>

text \<open>
  What can happen to a room: the calls of its delegate interface, those of the main loop, and anything the router does
  with the rest of the world in between. Keys are arrays of 32 bytes.
\<close>

inductive room_reach :: "'h Surroundings \<Rightarrow> 'h Room world \<Rightarrow> 'h Room world \<Rightarrow> bool" for H w0 where
  start: "room_reach H w0 w0"
| anon: "room_reach H w0 w \<Longrightarrow> length from = PACKET_PUBLIC_KEY_SIZE \<Longrightarrow> room_reach H w0 (room_onAnon H from plain w)"
| payload: "room_reach H w0 w \<Longrightarrow> room_reach H w0 (room_onPayload H from t plain w)"
| group: "room_reach H w0 w \<Longrightarrow> room_reach H w0 (room_onGroup H t pl w)"
| acked: "room_reach H w0 w \<Longrightarrow> room_reach H w0 (on_room (room_onAck sid) w)"
| failed: "room_reach H w0 w \<Longrightarrow> room_reach H w0 (on_room (room_onDeliveryFailed sid) w)"
| transit: "room_reach H w0 w \<Longrightarrow> room_reach H w0 (snd (room_shouldForward p w))"
| tick: "room_reach H w0 w \<Longrightarrow> room_reach H w0 (room_tick H now w)"
| clock: "room_reach H w0 w \<Longrightarrow> room_reach H w0 (on_room (setServerTime t') w)"
| load: "room_reach H w0 w \<Longrightarrow> room_reach H w0 (on_room (setRadioLoad permille) w)"
| router: "room_reach H w0 w \<Longrightarrow> rt_delegate w' = rt_delegate w \<Longrightarrow> room_reach H w0 w'"

context quiet_sender
begin

lemma reach_ok: "room_reach H w0 w \<Longrightarrow> room_ok (room_of w0) \<Longrightarrow> room_ok (room_of w)"
proof (induction rule: room_reach.induct)
  case (clock w t')
  then show ?case by (auto simp: on_room_def setServerTime_def elim: room_ok_cong)
next
  case (load w permille)
  then show ?case by (auto simp: on_room_def setRadioLoad_def elim: room_ok_cong)
next
  case (acked w sid)
  then show ?case by (simp add: on_room_def onAck_ok)
next
  case (failed w sid)
  then show ?case by (simp add: on_room_def onDeliveryFailed_ok)
qed (simp_all add: onAnon_ok onPayload_ok onGroup_ok shouldForward_ok tick_ok)

end

section \<open>The room behind the router\<close>

definition node_surroundings :: "sodium \<Rightarrow> random_source \<Rightarrow> Router_Config \<Rightarrow> 'h Admin option \<Rightarrow> 'h Surroundings" where
  "node_surroundings S src config A =
     \<lparr>sur_sodium = S, sur_random = src, sur_sender = router_sender S config, sur_admin = A\<rparr>"

lemma node_surroundings_simps [simp]:
  "sur_sodium (node_surroundings S src config A) = S" "sur_sender (node_surroundings S src config A) = router_sender S config"
  "sur_admin (node_surroundings S src config A) = A" "sur_random (node_surroundings S src config A) = src"
  by (simp_all add: node_surroundings_def)

lemma router_sender_simps [simp]:
  "sender_sendDirect (router_sender S config) = sendDirect S config" "sender_sendAck (router_sender S config) = sendAck S"
  "sender_sendFlood (router_sender S config) = sendFlood S"
  by (simp_all add: router_sender_def)

lemma sendDirect_delegate: "rt_delegate (snd (sendDirect S config dest t pl ack w)) = rt_delegate w"
proof -
  let ?w = "w\<lparr>rt_nextId := rt_nextId w + 1\<rparr>"
  obtain r a1 where fs: "fetch_secret S dest ?w = (r, a1)" by fastforce
  have "rt_delegate a1 = rt_delegate w" using fetch_secret_frame [OF fs] by simp
  then show ?thesis using fs by (auto simp: sendDirect_def Let_def split: option.split)
qed

interpretation routed: quiet_sender "node_surroundings S src config A"
  by unfold_locales (simp_all add: sendDirect_delegate sendAck_def sendFlood_def)

text \<open>
  C10. The room's state stays well-formed for ever: from a fresh room (not one loaded from a file) behind the router, whatever arrives, in whatever order
  and however the router works in between, the board holds at most 32 posts with consecutive numbers up to
  the next one to hand out, texts and authors have their sizes, there are at most 64 clients and 32 failed
  logins, and no key has two rows.
\<close>

theorem room_state_invariant:
  assumes "room_reach (node_surroundings S src config A) w0 w" and "room_of w0 = room_new cfg policy h"
  shows "room_ok (room_of w)"
  using routed.reach_ok [OF assms(1)] assms(2) room_new_ok by metis

theorem room_state_invariant_witness:
  "room_ok (room_of (room_onAnon (node_surroundings test_sodium (\<lambda>_. 0) router_config_default None) (replicate 32 9)
     (replicate 9 1) (router_new router_config_default store_new None test_room)))"
proof -
  let ?H = "node_surroundings test_sodium (\<lambda>_. 0) router_config_default None"
  let ?w = "router_new router_config_default store_new None test_room"
  have "room_reach ?H ?w (room_onAnon ?H (replicate 32 9) (replicate 9 1) ?w)"
    by (intro room_reach.anon room_reach.start) simp
  then show ?thesis by (rule room_state_invariant) (simp add: router_new_def test_room_def)
qed

section \<open>Answers\<close>

text \<open>A sender that puts one frame on the air for a peer it can reach.\<close>

locale answering_sender = quiet_sender H for H :: "'h Surroundings" +
  fixes reachable :: "public_key \<Rightarrow> 'h Room world \<Rightarrow> bool"
  assumes direct_sends: "reachable dest w \<Longrightarrow> length pl \<le> MAX_CLI_REPLY + TEXT_MSG_PREFIX_SIZE \<Longrightarrow>
      \<exists>f. rt_air (snd (sender_sendDirect (sur_sender H) dest t pl ack w)) = rt_air w @ [(f, NORMAL)]"
    and reachable_store: "reachable dest w \<Longrightarrow> rt_store w' = rt_store w \<Longrightarrow> reachable dest w'"
begin

lemma sendCliReply_sends:
  assumes "reachable dest w" shows "\<exists>f. rt_air (sendCliReply H dest reply w) = rt_air w @ [(f, NORMAL)]"
proof -
  let ?m = "\<lparr>txt_timestamp = serverTime (room_of w), txtType = CLI, attempt = 0, txt_message = take MAX_CLI_REPLY reply\<rparr>"
  obtain pl where pl: "encodeText ?m MAX_PACKET_PAYLOAD = Some pl" "length pl \<le> 165" by (auto simp: encodeText_def)
  then show ?thesis using direct_sends [OF assms, of pl] by (simp add: sendCliReply_def)
qed

lemma answers_sends:
  assumes "answers H dest w w'" and "reachable dest w"
  shows "\<exists>f. rt_air w' = rt_air w @ [(f, NORMAL)]"
proof -
  obtain w1 reply where w1: "settles w w1" "w' = sendCliReply H dest reply w1" using assms(1) by (auto simp: answers_def)
  then have same: "rt_store w1 = rt_store w" "rt_air w1 = rt_air w" by (cases w; cases w1; simp add: settles_def)+
  have "reachable dest w1" using assms(2) same(1) by (rule reachable_store)
  then show ?thesis using sendCliReply_sends w1(2) same(2) by metis
qed

lemma responds_sends:
  assumes "responds H dest w w'" and "reachable dest w"
  shows "(\<exists>f. rt_air w' = rt_air w @ [(f, NORMAL)]) \<or> breaks_off H w w'"
  using assms answers_sends by (auto simp: responds_def)

lemma run_command_sends:
  assumes "reachable dest w"
  shows "(\<exists>f. rt_air (snd (run_command H dest line w)) = rt_air w @ [(f, NORMAL)])
    \<or> breaks_off H w (snd (run_command H dest line w))"
proof -
  obtain w' where w': "responds H dest w w'" "snd (run_command H dest line w) = w'
     \<or> snd (run_command H dest line w) = tell_host H admin_requestReboot w' \<and> answers H dest w w'"
    using run_command_answers by blast
  have "rt_air (tell_host H f x) = rt_air x" for f x by (simp add: tell_host_def on_room_def split: option.split)
  then show ?thesis using w' responds_sends [OF w'(1) assms] answers_sends [OF _ assms] by metis
qed

lemma handleCommand_sends:
  assumes "reachable (cl_pk (clients (room_of w) ! i)) w"
    and "\<not> (cl_access (clients (room_of w) ! i) = ADMIN \<and> t < cl_lastCommand (clients (room_of w) ! i))"
  shows "(\<exists>f. rt_air (snd (handleCommand H i t line w)) = rt_air w @ [(f, NORMAL)])
    \<or> cl_access (clients (room_of w) ! i) = ADMIN
      \<and> breaks_off H (on_room (update_client i (\<lambda>c. c\<lparr>cl_lastCommand := t\<rparr>)) w) (snd (handleCommand H i t line w))"
proof (cases "cl_access (clients (room_of w) ! i) = ADMIN")
  case False
  then show ?thesis using sendCliReply_sends [OF assms(1)] by (simp add: handleCommand_def Let_def)
next
  case True
  let ?w = "on_room (update_client i (\<lambda>c. c\<lparr>cl_lastCommand := t\<rparr>)) w"
  have "reachable (cl_pk (clients (room_of w) ! i)) ?w" using assms(1) by (rule reachable_store) (simp add: on_room_def)
  moreover have "rt_air ?w = rt_air w" by (simp add: on_room_def)
  ultimately show ?thesis using run_command_sends True assms(2) by (fastforce simp: handleCommand_def Let_def)
qed

end

text \<open>libsodium's HMAC-SHA256 is 32 bytes long.\<close>

definition hmac_spec :: "sodium \<Rightarrow> bool" where
  "hmac_spec S \<longleftrightarrow> (\<forall>k m. length (crypto_auth_hmacsha256 S k m) = 32)"

definition peer_reachable :: "sodium \<Rightarrow> public_key \<Rightarrow> 'h Room world \<Rightarrow> bool" where
  "peer_reachable S dest w \<longleftrightarrow> hmac_spec S \<and> secrets_ok S (rt_store w)
     \<and> deriveShared S (kp_sk (store_self (rt_store w))) dest \<noteq> None"

lemma seal_wire_fits:
  assumes "hmac_spec S" and "paddedLength (length plain) \<le> 180"
  shows "\<exists>pl. seal_wire S s dest h plain = Some pl"
proof -
  obtain sd where sd: "seal S s plain MAX_PACKET_PAYLOAD = Some sd" using seal_succeeds [of plain 184 S s] assms(2) by auto
  have "length (sealed_mac sd) = 2" using seal_SomeD(2) [OF sd] assms(1) by (simp add: truncateMac_def hmacSha256_def hmac_spec_def)
  moreover have "length (sealed_ciphertext sd) \<le> 180" using seal_SomeD(1) [OF sd] assms(2) by simp
  ultimately show ?thesis using sd by (simp add: seal_wire_def encodeEnvelope_def)
qed

lemma sendDirect_sends:
  assumes "peer_reachable S dest w" and "length pl \<le> 175"
  shows "\<exists>f. rt_air (snd (sendDirect S config dest t pl ack w)) = rt_air w @ [(f, NORMAL)]"
proof -
  let ?w = "w\<lparr>rt_nextId := rt_nextId w + 1\<rparr>"
  obtain r a1 where fs: "fetch_secret S dest ?w = (r, a1)" by fastforce
  have "secrets_ok S (rt_store ?w)" using assms(1) by (simp add: peer_reachable_def)
  then obtain s where r: "r = Some s" using fetch_secret_spec(1) [OF _ fs] assms(1) by (auto simp: peer_reachable_def)
  have "length pl div 16 \<le> 10" using assms(2) by simp
  moreover have "length pl - length pl mod 16 = 16 * (length pl div 16)" by (simp add: minus_mod_eq_mult_div)
  ultimately have "paddedLength (length pl) \<le> 180" by (simp add: paddedLength_def)
  then obtain pl' where "seal_wire S s dest (store_selfHash (rt_store a1)) pl = Some pl'"
    using seal_wire_fits assms(1) by (fastforce simp: peer_reachable_def)
  then show ?thesis using fs r fetch_secret_frame [OF fs] by (simp add: sendDirect_def Let_def)
qed

interpretation reached: answering_sender "node_surroundings S src config A" "peer_reachable S"
proof
  show "\<exists>f. rt_air (snd (sender_sendDirect (sur_sender (node_surroundings S src config A)) dest t pl ack w)) = rt_air w @ [(f, NORMAL)]"
    if "peer_reachable S dest w" and "length pl \<le> MAX_CLI_REPLY + TEXT_MSG_PREFIX_SIZE" for dest w pl t ack
    using sendDirect_sends [OF that(1), of pl config t ack] that(2) by simp
qed (simp add: peer_reachable_def)


lemma test_sodium_hmac: "hmac_spec test_sodium"
  by (auto simp: hmac_spec_def test_sodium_def min_def)

definition test_admin :: Client where
  "test_admin = client_init\<lparr>cl_pk := replicate 32 2, cl_access := ADMIN\<rparr>"

definition test_room_world :: "unit Room world" where
  "test_room_world = router_new router_config_default
     (store_new\<lparr>store_self := \<lparr>kp_pk = replicate 32 1, kp_sk = replicate 64 1\<rparr>, store_selfHash := 1\<rparr>) None
     (test_room\<lparr>clients := [test_admin]\<rparr>)"

lemma test_room_world_simps:
  "clients (room_of test_room_world) = [test_admin]" "store_self (rt_store test_room_world) = \<lparr>kp_pk = replicate 32 1, kp_sk = replicate 64 1\<rparr>"
  "rt_air test_room_world = []" "secrets_ok test_sodium (rt_store test_room_world)" "posts (room_of test_room_world) = []"
  "room_type (room_config (room_of test_room_world)) = ROOM"
  by (simp_all add: test_room_world_def router_new_def secrets_ok_def store_new_def test_room_def room_new_def room_config_default_def)


section \<open>Rights\<close>

definition settings_of :: "'h Room \<Rightarrow> Room_Config \<times> 'h \<times> Repeater_Config option" where
  "settings_of r = (room_config r, host r, map_option pol_config (forwarder r))"

definition board_of :: "'h Room \<Rightarrow> u32 \<times> Post list" where
  "board_of r = (nextSeq r, posts r)"

lemma update_client_settings [simp]: "settings_of (update_client i f r) = settings_of r" "nextSeq (update_client i f r) = nextSeq r"
  "posts (update_client i f r) = posts r"
  by (simp_all add: settings_of_def update_client_def)

lemma store_post_settings [simp]: "settings_of (store_post a t b r) = settings_of r"
  by (simp add: settings_of_def store_post_def Let_def)

lemma addPost_settings: "settings_of (room_of (addPost a t b w)) = settings_of (room_of w)"
  by (simp add: addPost_def room_publish_def on_room_def)

lemma failures_settings [simp]:
  "settings_of (snd (lockedOut pk r)) = settings_of r" "settings_of (clearFailures pk r) = settings_of r"
  "settings_of (noteFailure pk r) = settings_of r" "settings_of (evictClient r) = settings_of r"
  "settings_of (r\<lparr>clients := cs\<rparr>) = settings_of r" "settings_of (r\<lparr>room_now := n\<rparr>) = settings_of r"
  "settings_of (r\<lparr>nextClientIdx := k\<rparr>) = settings_of r"
  by (auto simp: settings_of_def lockedOut_def clearFailures_def noteFailure_def evictClient_def Let_def split: option.split prod.split)

lemma admit_settings: "settings_of (snd (admit_client pk known access t r)) = settings_of r"
  by (simp add: admit_client_def Let_def split: option.split)

lemma authenticate_settings: "settings_of (snd (authenticate S pk pw t r)) = settings_of r"
proof -
  obtain locked r1 where l: "lockedOut pk r = (locked, r1)" by fastforce
  have "settings_of r1 = settings_of r" using failures_settings(1) [of pk r] l by simp
  then show ?thesis using l by (simp add: authenticate_def Let_def admit_settings)
qed

lemma failures_board [simp]:
  "board_of (snd (lockedOut pk r)) = board_of r" "board_of (noteFailure pk r) = board_of r" "board_of (clearFailures pk r) = board_of r"
  "board_of (evictClient r) = board_of r" "board_of (update_client i f r) = board_of r" "board_of (r\<lparr>clients := cs\<rparr>) = board_of r"
  "board_of (r\<lparr>room_now := n\<rparr>) = board_of r"
  by (auto simp: board_of_def lockedOut_def noteFailure_def clearFailures_def evictClient_def update_client_def Let_def
      split: option.split prod.split)

lemma admit_board: "board_of (snd (admit_client pk known access t r)) = board_of r"
  by (simp add: admit_client_def Let_def split: option.split)

lemma authenticate_board: "board_of (snd (authenticate S pk pw t r)) = board_of r"
proof -
  obtain locked r1 where l: "lockedOut pk r = (locked, r1)" by fastforce
  have "board_of r1 = board_of r" using failures_board(1) [of pk r] l by simp
  then show ?thesis using l by (simp add: authenticate_def Let_def admit_board)
qed

lemma delivery_rights:
  "settings_of (room_onAck sid r) = settings_of r" "board_of (room_onAck sid r) = board_of r"
  "settings_of (room_onDeliveryFailed sid r) = settings_of r" "board_of (room_onDeliveryFailed sid r) = board_of r"
  by (simp_all add: room_onAck_def room_onDeliveryFailed_def Let_def split: option.split)

text \<open>No password is set, and nobody may read unasked.\<close>

definition admits_nobody :: "'h Room \<Rightarrow> bool" where
  "admits_nobody r \<longleftrightarrow> clients r = [] \<and> adminPassword (room_config r) = [] \<and> guestPassword (room_config r) = []
     \<and> \<not> allowAnonymousRead (room_config r)"

lemma authenticate_nobody: "admits_nobody r \<Longrightarrow> fst (authenticate S pk pw t r) = None \<and> admits_nobody (snd (authenticate S pk pw t r))"
  by (auto simp: admits_nobody_def authenticate_def findClient_def lockedOut_def noteFailure_def passwordMatches_def Let_def
      split: prod.splits option.splits)

context quiet_sender
begin

lemma handleRequest_rights:
  "settings_of (room_of (snd (handleRequest H i plain w))) = settings_of (room_of w)
   \<and> nextSeq (room_of (snd (handleRequest H i plain w))) = nextSeq (room_of w)
   \<and> posts (room_of (snd (handleRequest H i plain w))) = posts (room_of w)"
  by (simp add: handleRequest_def Let_def on_room_def)

lemma handleCommand_rights:
  "settings_of (room_of (snd (handleCommand H i t line w))) \<noteq> settings_of (room_of w)
     \<or> posts (room_of (snd (handleCommand H i t line w))) \<noteq> posts (room_of w)
   \<Longrightarrow> cl_access (clients (room_of w) ! i) = ADMIN \<and> cl_lastCommand (clients (room_of w) ! i) \<le> t"
  by (rule ccontr) (auto simp: handleCommand_def Let_def not_le split: if_splits)

lemma handleCommand_seq: "nextSeq (room_of (snd (handleCommand H i t line w))) = nextSeq (room_of w)"
  using run_command_board by (simp add: handleCommand_def Let_def same_board_def on_room_def)

lemma onPayload_rights:
  fixes w :: "'h Room world" and t :: PayloadType and plain :: bytes and c :: Contact
  defines "r \<equiv> room_of w" and "r' \<equiv> room_of (room_onPayload H c t plain w)"
  shows "settings_of r' \<noteq> settings_of r \<or> (posts r' \<noteq> posts r \<and> nextSeq r' = nextSeq r) \<Longrightarrow> t = TXT_MSG
      \<and> (\<exists>m i. decodeText plain = Some m \<and> txtType m = CLI \<and> findClient (con_pk c) r = Some i
          \<and> cl_access (clients r ! i) = ADMIN \<and> cl_lastCommand (clients r ! i) \<le> txt_timestamp m)"
    and "nextSeq r' \<noteq> nextSeq r \<Longrightarrow> t = TXT_MSG
      \<and> (\<exists>m i. decodeText plain = Some m \<and> txtType m = PLAIN \<and> findClient (con_pk c) r = Some i
          \<and> keepsBoard (room_type (room_config r)) \<and> cl_access (clients r ! i) \<in> {GUEST, ADMIN})"
proof -
  have req: "settings_of (room_of (snd (handleRequest H i plain w))) = settings_of r"
      "nextSeq (room_of (snd (handleRequest H i plain w))) = nextSeq r"
      "posts (room_of (snd (handleRequest H i plain w))) = posts r" for i
    using handleRequest_rights by (simp_all add: r_def)
  have cmd: "nextSeq (room_of (snd (handleCommand H i u line w))) = nextSeq r" for i u line
    by (simp add: r_def handleCommand_seq)
  have rights: "cl_access (clients r ! i) = ADMIN \<and> cl_lastCommand (clients r ! i) \<le> u"
    if "settings_of (room_of (snd (handleCommand H i u line w))) \<noteq> settings_of r
      \<or> posts (room_of (snd (handleCommand H i u line w))) \<noteq> posts r" for i u line
    using handleCommand_rights that by (simp add: r_def)
  have add: "settings_of (room_of (publishToChannels H p (addPost a u b w))) = settings_of r"
      "nextSeq (room_of (publishToChannels H p (addPost a u b w))) \<noteq> nextSeq r" for p a u b
    by (simp_all add: r_def addPost_settings) (simp add: addPost_def room_publish_def on_room_def store_post_def Let_def)
  show "t = TXT_MSG \<and> (\<exists>m i. decodeText plain = Some m \<and> txtType m = CLI \<and> findClient (con_pk c) r = Some i
          \<and> cl_access (clients r ! i) = ADMIN \<and> cl_lastCommand (clients r ! i) \<le> txt_timestamp m)"
    if "settings_of r' \<noteq> settings_of r \<or> (posts r' \<noteq> posts r \<and> nextSeq r' = nextSeq r)"
    using that req cmd add
    by (auto simp: r'_def room_onPayload_def handleText_def Let_def r_def [symmetric] dest: rights [OF disjI1] rights [OF disjI2]
        split: PayloadType.splits option.splits if_splits)
  show "t = TXT_MSG \<and> (\<exists>m i. decodeText plain = Some m \<and> txtType m = PLAIN \<and> findClient (con_pk c) r = Some i
          \<and> keepsBoard (room_type (room_config r)) \<and> cl_access (clients r ! i) \<in> {GUEST, ADMIN})"
    if "nextSeq r' \<noteq> nextSeq r"
    using that req cmd add
    by (auto simp: r'_def room_onPayload_def handleText_def Let_def r_def [symmetric] split: PayloadType.splits option.splits if_splits)
qed

lemma onAnon_settings: "settings_of (room_of (room_onAnon H pk plain w)) = settings_of (room_of w)"
proof -
  let ?pw = "trimmed (take MAX_PASSWORD (drop LOGIN_REQUEST_PREFIX_SIZE plain))"
  obtain c r where a: "authenticate (sur_sodium H) pk ?pw (readUint32 plain 0) (room_of w) = (c, r)" by fastforce
  have "settings_of r = settings_of (room_of w)" using authenticate_settings [of "sur_sodium H" pk ?pw _ "room_of w"] a by (metis snd_conv)
  then show ?thesis using a by (simp add: room_onAnon_def Let_def room_publish_def on_room_def split: option.split)
qed

lemma onAnon_board: "board_of (room_of (room_onAnon H pk plain w)) = board_of (room_of w)"
proof -
  let ?pw = "trimmed (take MAX_PASSWORD (drop LOGIN_REQUEST_PREFIX_SIZE plain))"
  obtain c r where a: "authenticate (sur_sodium H) pk ?pw (readUint32 plain 0) (room_of w) = (c, r)" by fastforce
  have "board_of r = board_of (room_of w)" using authenticate_board [of "sur_sodium H" pk ?pw _ "room_of w"] a by (metis snd_conv)
  then show ?thesis using a
    by (simp add: room_onAnon_def Let_def room_publish_def on_room_def board_of_def update_client_def split: option.split)
qed

lemma push_board: "board_of (room_of (pushNextPost H i w)) = board_of (room_of w)"
  by (auto simp: pushNextPost_def Let_def on_room_def direct_keeps case_prod_beta split: option.split)

lemma tick_board: "board_of (room_of (room_tick H now w)) = board_of (room_of w)"
proof -
  have "board_of (snd (nextClientToPush r)) = board_of r" for r :: "'h Room"
    by (simp add: nextClientToPush_def Let_def board_of_def split: option.split)
  then show ?thesis
    by (simp add: room_tick_def Let_def on_room_def push_board case_prod_beta split: option.split)
qed

lemma onGroup_settings: "settings_of (room_of (room_onGroup H t pl w)) = settings_of (room_of w)"
proof -
  have "settings_of (room_of (try_channels S g chs w)) = settings_of (room_of w)" for S g chs
    by (induction chs) (simp_all add: addPost_settings split: option.split)
  then show ?thesis by (simp add: room_onGroup_def split: option.split)
qed

lemma tick_settings: "settings_of (room_of (room_tick H now w)) = settings_of (room_of w)"
proof -
  have "settings_of (room_of (pushNextPost H i w)) = settings_of (room_of w)" for i w
    using direct_keeps by (auto simp: pushNextPost_def Let_def on_room_def split: option.split prod.split) (metis snd_conv)
  moreover have "settings_of (snd (nextClientToPush r)) = settings_of r" for r :: "'h Room"
    by (simp add: nextClientToPush_def Let_def split: option.split)
  ultimately show ?thesis
    by (simp add: room_tick_def Let_def on_room_def split: option.split prod.split) (metis failures_settings(6) snd_conv)
qed

lemma shouldForward_settings: "settings_of (room_of (snd (room_shouldForward p w))) = settings_of (room_of w)"
proof -
  have "pol_config (snd (withinRate k now pol)) = pol_config pol" for k now pol
    by (simp add: withinRate_def Let_def case_prod_beta)
  then have "pol_config (snd (shouldForward p now used pol)) = pol_config pol" for now used pol
    by (auto simp: shouldForward_def Let_def case_prod_beta split: if_splits)
  then show ?thesis
    by (simp add: room_shouldForward_def settings_of_def Let_def on_room_def room_publish_def case_prod_beta split: option.split)
qed

lemma onAnon_nobody:
  assumes "admits_nobody (room_of w)"
  shows "clients (room_of (room_onAnon H pk plain w)) = []"
proof -
  let ?pw = "trimmed (take MAX_PASSWORD (drop LOGIN_REQUEST_PREFIX_SIZE plain))"
  obtain c r where a: "authenticate (sur_sodium H) pk ?pw (readUint32 plain 0) (room_of w) = (c, r)" by fastforce
  then have "c = None" "admits_nobody r" using authenticate_nobody [OF assms] by (metis fst_conv, metis snd_conv)
  then show ?thesis using a assms by (simp add: room_onAnon_def Let_def admits_nobody_def)
qed

lemma onGroup_clients: "clients (room_of (room_onGroup H t pl w)) = clients (room_of w)"
proof -
  have "clients (room_of (try_channels S g chs w)) = clients (room_of w)" for S g chs
    by (induction chs) (simp_all add: addPost_def room_publish_def on_room_def store_post_def Let_def split: option.split)
  then show ?thesis by (simp add: room_onGroup_def split: option.split)
qed

lemma admits_nobodyI: "settings_of r' = settings_of r \<Longrightarrow> admits_nobody r \<Longrightarrow> clients r' = [] \<Longrightarrow> admits_nobody r' \<and> settings_of r' = settings_of r"
  by (simp add: admits_nobody_def settings_of_def)

text \<open>A room without passwords that no one may read unasked keeps everyone out, and nothing that comes in changes a setting.\<close>

lemma reach_nobody:
  "room_reach H w0 w \<Longrightarrow> admits_nobody (room_of w0) \<Longrightarrow> admits_nobody (room_of w) \<and> settings_of (room_of w) = settings_of (room_of w0)"
proof (induction rule: room_reach.induct)
  case (anon w pk plain)
  then show ?case using admits_nobodyI [OF onAnon_settings] onAnon_nobody by metis
next
  case (payload w c t plain)
  then show ?case by (auto simp: room_onPayload_def handleText_def findClient_def admits_nobody_def split: PayloadType.splits option.splits)
next
  case (group w t pl)
  then show ?case using admits_nobodyI [OF onGroup_settings] onGroup_clients by (metis admits_nobody_def)
next
  case (tick w now)
  then have "clients (room_of (room_tick H now w)) = []"
    by (simp add: room_tick_def admits_nobody_def nextClientToPush_def on_room_def Let_def)
  then show ?case using tick admits_nobodyI [OF tick_settings] by metis
next
  case (transit w p)
  then have "clients (room_of (snd (room_shouldForward p w))) = []"
    by (auto simp: room_shouldForward_def admits_nobody_def room_publish_def on_room_def Let_def split: option.splits prod.splits)
  then show ?case using transit admits_nobodyI [OF shouldForward_settings] by metis
qed (auto simp: admits_nobody_def room_onAck_def room_onDeliveryFailed_def setServerTime_def setRadioLoad_def settings_of_def on_room_def
    update_client_def split: option.split)

end

lemma try_channels_posts:
  "board_of (room_of (try_channels S g chs w)) \<noteq> board_of (room_of w)
   \<Longrightarrow> \<exists>ch \<in> set chs. \<exists>plain m. ch_hash ch = grp_channelHash g
     \<and> openSealed S (ch_secret ch) (grp_cipherMac g) (grp_ciphertext g) (length (grp_ciphertext g)) = Some plain
     \<and> decodeText plain = Some m \<and> txtType m = PLAIN"
  by (induction chs) (auto split: option.splits if_splits)

lemma onGroup_posts:
  assumes "board_of (room_of (room_onGroup H t pl w)) \<noteq> board_of (room_of w)"
  shows "t = GRP_TXT \<and> keepsBoard (room_type (room_config (room_of w))) \<and> (\<exists>g ch plain m. decodeGroup pl = Some g
      \<and> ch \<in> set (channels (room_config (room_of w))) \<and> ch_hash ch = grp_channelHash g
      \<and> openSealed (sur_sodium H) (ch_secret ch) (grp_cipherMac g) (grp_ciphertext g) (length (grp_ciphertext g)) = Some plain
      \<and> decodeText plain = Some m \<and> txtType m = PLAIN)"
proof -
  obtain g where g: "t = GRP_TXT" "keepsBoard (room_type (room_config (room_of w)))" "decodeGroup pl = Some g"
    and e: "room_onGroup H t pl w = try_channels (sur_sodium H) g (channels (room_config (room_of w))) w"
    using assms by (auto simp: room_onGroup_def split: if_splits option.splits)
  show ?thesis using try_channels_posts [OF assms [unfolded e]] g by blast
qed

text \<open>
  C6. Nothing changes without the right to change it. Settings, what the host was told, and the terms of transit change
  only through a command message of a client that holds admin rights and is not older than its last (one of the same time is
  taken). The board gets a post only in two ways: by a plain text sent to the room by a client with guest or admin rights, or by
  a plain text on a channel, sealed with the key of a channel the room is configured with, which need not come from a client;
  both only on a node that keeps a board. It loses posts, but for the oldest that a new one displaces, only by
  an admin's command. Logins and the passing of time change no setting and no post.
\<close>

theorem changes_need_rights:
  fixes w :: "'h Room world" and S :: sodium and src :: random_source and config :: Router_Config and A :: "'h Admin option"
  defines "H \<equiv> node_surroundings S src config A"
  shows "settings_of (room_of (room_onAnon H pk pl w)) = settings_of (room_of w)
    \<and> settings_of (room_of (room_onGroup H gt gp w)) = settings_of (room_of w)
    \<and> settings_of (room_of (room_tick H now w)) = settings_of (room_of w)
    \<and> board_of (room_of (room_onAnon H pk pl w)) = board_of (room_of w)
    \<and> board_of (room_of (room_tick H now w)) = board_of (room_of w)
    \<and> settings_of (room_onAck sid (room_of w)) = settings_of (room_of w) \<and> board_of (room_onAck sid (room_of w)) = board_of (room_of w)
    \<and> settings_of (room_onDeliveryFailed sid (room_of w)) = settings_of (room_of w)
    \<and> board_of (room_onDeliveryFailed sid (room_of w)) = board_of (room_of w)
    \<and> (settings_of (room_of (room_onPayload H from t plain w)) \<noteq> settings_of (room_of w)
         \<or> (posts (room_of (room_onPayload H from t plain w)) \<noteq> posts (room_of w)
            \<and> nextSeq (room_of (room_onPayload H from t plain w)) = nextSeq (room_of w))
       \<longrightarrow> t = TXT_MSG \<and> (\<exists>m i. decodeText plain = Some m \<and> txtType m = CLI \<and> findClient (con_pk from) (room_of w) = Some i
              \<and> cl_access (clients (room_of w) ! i) = ADMIN \<and> cl_lastCommand (clients (room_of w) ! i) \<le> txt_timestamp m))
    \<and> (nextSeq (room_of (room_onPayload H from t plain w)) \<noteq> nextSeq (room_of w)
       \<longrightarrow> t = TXT_MSG \<and> (\<exists>m i. decodeText plain = Some m \<and> txtType m = PLAIN \<and> findClient (con_pk from) (room_of w) = Some i
              \<and> keepsBoard (room_type (room_config (room_of w))) \<and> cl_access (clients (room_of w) ! i) \<in> {GUEST, ADMIN}))
    \<and> (board_of (room_of (room_onGroup H gt gp w)) \<noteq> board_of (room_of w)
       \<longrightarrow> gt = GRP_TXT \<and> keepsBoard (room_type (room_config (room_of w))) \<and> (\<exists>g ch opened m. decodeGroup gp = Some g
              \<and> ch \<in> set (channels (room_config (room_of w))) \<and> ch_hash ch = grp_channelHash g
              \<and> openSealed S (ch_secret ch) (grp_cipherMac g) (grp_ciphertext g) (length (grp_ciphertext g)) = Some opened
              \<and> decodeText opened = Some m \<and> txtType m = PLAIN))"
  unfolding H_def
  using routed.onPayload_rights [of S src config A "from" t plain w] onGroup_posts [of "node_surroundings S src config A" gt gp w]
  by (simp add: routed.onAnon_settings routed.onGroup_settings routed.tick_settings routed.onAnon_board routed.tick_board delivery_rights)

theorem changes_need_rights_witness:
  "\<not> (nextSeq (room_of (room_onPayload (node_surroundings test_sodium (\<lambda>_. 0) router_config_default None) contact_init TXT_MSG
        (replicate 9 0) test_room_world)) \<noteq> nextSeq (room_of test_room_world))"
proof -
  have "findClient (con_pk contact_init) (room_of test_room_world) = None"
    by (simp add: findClient_def test_room_world_simps test_admin_def contact_init_def)
  then show ?thesis
    using changes_need_rights [of test_sodium "\<lambda>_. 0" router_config_default None _ _ test_room_world _ _ _ _ contact_init TXT_MSG "replicate 9 0"]
    by fastforce
qed

end
