(* ===== verification/Room_Delivery.thy ===== *)
theory Room_Delivery
  imports Room_Runs
begin

text \<open>
  The room under the router's clock, channel traffic, and the hand-over of posts: what a client is owed, how the bookmark
  moves, whose turn it is, and two ways a post or a client can be forgotten.
\<close>

section \<open>The clock\<close>

interpretation room_clock: failure_noter "room_delegate H" room_onDeliveryFailed
  by unfold_locales (simp add: room_delegate_def on_room_def)

text \<open>
  C13. What a tick of the router does with the room above it: it returns; every queued frame whose time has come goes to
  the radio, best priority first and earliest first within one, and the others stay; every unacknowledged message whose
  deadline passed is either sent again with one attempt more and a new deadline, or, when its attempts are used up,
  dropped and reported to the room exactly once; the rest is untouched.
\<close>

theorem tick_sends_due_and_retries:
  "\<exists>w'. router_tick config (room_delegate H) now w = Some w'
    \<and> rt_queue w' = filter (\<lambda>d. del_notBefore d > now) (sort_key delayed_key (rt_queue w))
    \<and> rt_air w' = rt_air w
        @ map (\<lambda>d. (del_frame d, del_priority d)) (filter (\<lambda>d. del_notBefore d \<le> now) (sort_key delayed_key (rt_queue w)))
        @ map (\<lambda>e. (pend_frame e, NORMAL)) (filter (\<lambda>e. overdue now e \<and> \<not> exhausted config e) (rt_pending w))
    \<and> rt_pending w' = map (retried config now) (filter (\<lambda>e. \<not> (overdue now e \<and> exhausted config e)) (rt_pending w))
    \<and> room_of w' = fold room_onDeliveryFailed
        (map pend_id (filter (\<lambda>e. overdue now e \<and> exhausted config e) (rt_pending w))) (room_of w)
    \<and> rt_now w' = now"
  by (rule room_clock.tick_spec)

section \<open>Channels\<close>

lemma try_channels_cases:
  "try_channels S g chs w = w \<or> (\<exists>ch \<in> set chs. \<exists>plain m. ch_hash ch = grp_channelHash g
     \<and> openSealed S (ch_secret ch) (grp_cipherMac g) (grp_ciphertext g) (length (grp_ciphertext g)) = Some plain
     \<and> decodeText plain = Some m \<and> txtType m = PLAIN
     \<and> try_channels S g chs w = addPost (replicate 32 0) (txt_timestamp m) (txt_message m) w)"
  by (induction chs) (auto split: option.split)

lemma addPost_frame [simp]:
  "rt_air (addPost a t b w) = rt_air w" "rt_queue (addPost a t b w) = rt_queue w" "rt_pending (addPost a t b w) = rt_pending w"
  "clients (room_of (addPost a t b w)) = clients (room_of w)" "rt_store (addPost a t b w) = rt_store w"
  "room_of (addPost a t b w) = store_post a t b (room_of w)"
  by (simp_all add: addPost_def room_publish_def on_room_def store_post_def Let_def)

text \<open>
  C31. Channel traffic is contained: it sends nothing, so a post that came in on a channel never goes back out to one; it
  touches no client, login or setting; and it adds at most one post, of no author, and only when the text opens under the
  key of a configured channel with that hash and is a plain one.
\<close>

theorem channel_traffic_contained:
  "rt_air (room_onGroup H t pl w) = rt_air w \<and> rt_queue (room_onGroup H t pl w) = rt_queue w
   \<and> rt_pending (room_onGroup H t pl w) = rt_pending w \<and> rt_store (room_onGroup H t pl w) = rt_store w
   \<and> (room_of (room_onGroup H t pl w) = room_of w
      \<or> (\<exists>g ch plain m. decodeGroup pl = Some g \<and> t = GRP_TXT \<and> keepsBoard (room_type (room_config (room_of w)))
           \<and> ch \<in> set (channels (room_config (room_of w))) \<and> ch_hash ch = grp_channelHash g
           \<and> openSealed (sur_sodium H) (ch_secret ch) (grp_cipherMac g) (grp_ciphertext g) (length (grp_ciphertext g)) = Some plain
           \<and> decodeText plain = Some m \<and> txtType m = PLAIN
           \<and> room_of (room_onGroup H t pl w) = store_post (replicate 32 0) (txt_timestamp m) (txt_message m) (room_of w)))"
proof -
  let ?chs = "channels (room_config (room_of w))"
  show ?thesis
  proof (cases "keepsBoard (room_type (room_config (room_of w))) \<and> t = GRP_TXT \<and> decodeGroup pl \<noteq> None")
    case True
    then obtain g where "decodeGroup pl = Some g" by blast
    then show ?thesis using True try_channels_cases [of "sur_sodium H" g ?chs w] by (auto simp: room_onGroup_def)
  next
    case False
    then have "room_onGroup H t pl w = w" by (auto simp: room_onGroup_def split: option.split)
    then show ?thesis by simp
  qed
qed

text \<open>
  C32. What one room publishes to a channel, another on the same channel posts: every post a board can hold is sent as one
  group frame per channel, and a room that holds the channel's key (and no other channel of that hash before it) adds
  exactly that text, under that time if its own clock allows.
\<close>

theorem channel_post_arrives:
  assumes "memcmp_spec S" and "hmac_spec S" and "post_ok p"
    and "keepsBoard (room_type (room_config (room_of w2)))" and "channels (room_config (room_of w2)) = other @ ch # rest"
    and "\<forall>c \<in> set other. ch_hash c \<noteq> ch_hash ch"
  shows "\<exists>plain pl. encodeText \<lparr>txt_timestamp = post_timestamp p, txtType = PLAIN, attempt = 0, txt_message = post_text p\<rparr> MAX_PACKET_PAYLOAD = Some plain
    \<and> publish_one (node_surroundings S src config A) plain ch w = sendFlood S GRP_TXT pl w
    \<and> room_of (room_onGroup (node_surroundings S src2 config2 A2) GRP_TXT pl w2)
        = store_post (replicate 32 0) (post_timestamp p) (post_text p) (room_of w2)"
proof -
  let ?m = "\<lparr>txt_timestamp = post_timestamp p, txtType = 0, attempt = 0, txt_message = post_text p\<rparr>"
  have len: "length (post_text p) \<le> 151" using assms(3) by (simp add: post_ok_def)
  then obtain plain where plain: "encodeText ?m 184 = Some plain" by (simp add: encodeText_def)
  then have pl_len: "length plain \<le> 156" using len by (auto simp: encodeText_def Let_def split: if_splits)
  then have "length plain div 16 \<le> 9" by simp
  moreover have "length plain - length plain mod 16 = 16 * (length plain div 16)" by (simp add: minus_mod_eq_mult_div)
  ultimately have pad: "paddedLength (length plain) \<le> 160" by (simp add: paddedLength_def)
  then obtain sd where sd: "seal S (ch_secret ch) plain 184 = Some sd" using seal_succeeds [of plain 184 S "ch_secret ch"] by auto
  have mac: "length (sealed_mac sd) = 2" using seal_SomeD(2) [OF sd] assms(2) by (simp add: truncateMac_def hmacSha256_def hmac_spec_def)
  let ?g = "\<lparr>grp_channelHash = ch_hash ch, grp_cipherMac = sealed_mac sd, grp_ciphertext = sealed_ciphertext sd\<rparr>"
  obtain pl where pl: "encodeGroup ?g 184 = Some pl" using mac pad seal_SomeD(1) [OF sd] by (simp add: encodeGroup_def)
  have "openSealed S (ch_secret ch) (sealed_mac sd) (sealed_ciphertext sd) (length (sealed_ciphertext sd)) = Some plain"
    using openSealed_seal [OF assms(1) sd order_refl] .
  then have "try_channels S ?g (other @ ch # rest) w2 = addPost (replicate 32 0) (post_timestamp p) (post_text p) w2"
    using assms(6) decodeText_encodeText [OF plain] by (induction other) simp_all
  then have "room_of (room_onGroup (node_surroundings S src2 config2 A2) GRP_TXT pl w2)
      = store_post (replicate 32 0) (post_timestamp p) (post_text p) (room_of w2)"
    using assms(4,5) decodeGroup_encodeGroup [OF pl] by (simp add: room_onGroup_def)
  moreover have "publish_one (node_surroundings S src config A) plain ch w = sendFlood S GRP_TXT pl w"
    using sd pl by (simp add: publish_one_def)
  ultimately show ?thesis using plain by blast
qed

theorem channel_post_arrives_witness:
  "\<exists>pl. posts (room_of (room_onGroup (node_surroundings test_sodium (\<lambda>_. 0) router_config_default None) GRP_TXT pl
      (on_room (\<lambda>r. r\<lparr>room_config := (room_config r)\<lparr>channels := [\<lparr>ch_name = [], ch_secret = replicate 32 4, ch_hash = 4\<rparr>]\<rparr>\<rparr>) test_room_world)))
    = [\<lparr>post_seq = 1, post_timestamp = 3, post_author = [0, 0, 0, 0], post_text = [7, 8]\<rparr>]"
proof -
  let ?p = "\<lparr>post_seq = 1, post_timestamp = 3, post_author = [0, 0, 0, 0], post_text = [7, 8]\<rparr>"
  let ?ch = "\<lparr>ch_name = [], ch_secret = replicate 32 4, ch_hash = 4\<rparr>"
  let ?w = "on_room (\<lambda>r. r\<lparr>room_config := (room_config r)\<lparr>channels := [?ch]\<rparr>\<rparr>) test_room_world"
  have "post_ok ?p" by (simp add: post_ok_def)
  moreover have "keepsBoard (room_type (room_config (room_of ?w)))" "channels (room_config (room_of ?w)) = [] @ ?ch # []"
    by (simp_all add: on_room_def test_room_world_simps keepsBoard_def)
  moreover have "store_post (replicate 32 0) 3 [7, 8] (room_of ?w) = (room_of ?w)\<lparr>nextSeq := 2, posts := [?p]\<rparr>"
    by (simp add: store_post_def on_room_def test_room_world_def router_new_def test_room_def room_new_def sanitiseTimestamp_def
        numeral_eq_Suc)
  ultimately obtain pl where "room_of (room_onGroup (node_surroundings test_sodium (\<lambda>_. 0) router_config_default None) GRP_TXT pl ?w)
      = (room_of ?w)\<lparr>nextSeq := 2, posts := [?p]\<rparr>"
    using channel_post_arrives [OF test_sodium_memcmp test_sodium_hmac, of ?p ?w "[]" ?ch "[]" "\<lambda>_. 0" router_config_default None test_room_world
        "\<lambda>_. 0" router_config_default None] by (simp del: append_Nil) blast
  then show ?thesis by (intro exI [of _ pl]) simp
qed

section \<open>Handing posts over\<close>

lemma find_first_sorted:
  "sorted_wrt R xs \<Longrightarrow> List.find P xs = Some p \<Longrightarrow> q \<in> set xs \<Longrightarrow> P q \<Longrightarrow> q = p \<or> R p q"
  by (induction xs) (auto split: if_splits)

lemma next_post_first:
  assumes "room_ok r" and "seqs_fresh r" and "nextPostFor c r = Some p" and "q \<in> set (posts r)" and "is_unread c q"
  shows "post_seq p \<le> post_seq q"
  using find_first_sorted [OF posts_ascending [OF assms(1,2)] assms(3) [unfolded nextPostFor_def] assms(4,5)] by auto

text \<open>What a client is owed.\<close>

definition owed :: "'h Room \<Rightarrow> Client \<Rightarrow> Post list" where
  "owed r c = filter (is_unread c) (posts r)"

text \<open>The post in flight to a client is the first it is owed, or has been displaced from the board since.\<close>

definition flight_first :: "'h Room \<Rightarrow> Client \<Rightarrow> bool" where
  "flight_first r c \<longleftrightarrow> cl_pending c \<and> cl_syncSeq c < cl_pendingSeq c \<and> (\<forall>q \<in> set (owed r c). cl_pendingSeq c \<le> post_seq q)"

lemma encodeText_fits:
  "txtType m \<le> 0x3F \<Longrightarrow> attempt m \<le> 3 \<Longrightarrow> length (txt_message m) \<le> 179 \<Longrightarrow> \<exists>pl. encodeText m MAX_PACKET_PAYLOAD = Some pl"
  by (auto simp: encodeText_def Let_def dest: leD)

lemma pushNextPost_sends:
  assumes "nextPostFor (clients (room_of w) ! i) (room_of w) = Some p"
  shows "\<exists>pl. pushNextPost H i w =
     (let (sid, w') = sender_sendDirect (sur_sender H) (cl_pk (clients (room_of w) ! i)) TXT_MSG pl True w
      in on_room (update_client i (\<lambda>c. c\<lparr>cl_pendingId := sid, cl_pending := True, cl_pendingSeq := post_seq p\<rparr>)) w')"
proof -
  let ?m = "\<lparr>txt_timestamp = post_timestamp p, txtType = 2, attempt = 0, txt_message = pushBodyFor p (rt_store w)\<rparr>"
  have "length (pushBodyFor p (rt_store w)) \<le> 170" by (simp add: pushBodyFor_def Let_def)
  then obtain pl where "encodeText ?m 184 = Some pl" using encodeText_fits [of ?m] by auto
  then show ?thesis using assms by (intro exI [of _ pl]) (simp add: pushNextPost_def)
qed

lemma find_at: "i < length xs \<Longrightarrow> P (xs ! i) \<Longrightarrow> \<forall>j < length xs. j \<noteq> i \<longrightarrow> \<not> P (xs ! j) \<Longrightarrow> find_index P xs = Some i"
proof (induction xs arbitrary: i)
  case (Cons x xs)
  show ?case
  proof (cases i)
    case (Suc k)
    then have "\<not> P x" using Cons.prems(3) by fastforce
    moreover have "find_index P xs = Some k" using Cons.IH [of k] Cons.prems Suc by fastforce
    ultimately show ?thesis using Suc by simp
  qed (use Cons.prems in simp)
qed simp

lemma sendDirect_id: "fst (sendDirect S config dest t pl ack w) = rt_nextId w"
  by (auto simp: sendDirect_def Let_def split: option.split prod.split)

lemma pushNextPost_room:
  assumes "nextPostFor (clients (room_of w) ! i) (room_of w) = Some p"
  shows "room_of (pushNextPost (node_surroundings S src config A) i w)
    = update_client i (\<lambda>c. c\<lparr>cl_pendingId := rt_nextId w, cl_pending := True, cl_pendingSeq := post_seq p\<rparr>) (room_of w)"
proof -
  let ?pk = "cl_pk (clients (room_of w) ! i)"
  obtain pl where "pushNextPost (node_surroundings S src config A) i w = (let (sid, w') = sendDirect S config ?pk TXT_MSG pl True w
      in on_room (update_client i (\<lambda>c. c\<lparr>cl_pendingId := sid, cl_pending := True, cl_pendingSeq := post_seq p\<rparr>)) w')"
    using pushNextPost_sends [OF assms, of "node_surroundings S src config A"] by auto
  then show ?thesis using sendDirect_id [of S config ?pk TXT_MSG pl True w] sendDirect_delegate [of S config ?pk TXT_MSG pl True w]
    by (simp add: on_room_def case_prod_beta)
qed

text \<open>How a flight of the first post owed ends.\<close>

lemma flight_ends:
  assumes "i < length (clients r)" and "flight_first r (clients r ! i)" and "cl_pendingId (clients r ! i) = sid"
    and "\<forall>j < length (clients r). j \<noteq> i \<longrightarrow> \<not> (cl_pending (clients r ! j) \<and> cl_pendingId (clients r ! j) = sid)"
  shows "owed r (clients (room_onAck sid r) ! i) = filter (\<lambda>q. post_seq q \<noteq> cl_pendingSeq (clients r ! i)) (owed r (clients r ! i))"
    and "owed r (clients (room_onDeliveryFailed sid r) ! i) = owed r (clients r ! i)"
    and "j \<noteq> i \<Longrightarrow> clients (room_onAck sid r) ! j = clients r ! j"
proof -
  let ?c = "clients r ! i"
  have at: "find_index (\<lambda>d. cl_pending d \<and> cl_pendingId d = sid) (clients r) = Some i"
    using assms by (intro find_at) (auto simp: flight_first_def)
  show "j \<noteq> i \<Longrightarrow> clients (room_onAck sid r) ! j = clients r ! j"
    using at by (simp add: room_onAck_def update_client_def)
  have "clients (room_onDeliveryFailed sid r) ! i
      = ?c\<lparr>cl_pending := False, cl_retryAfter := room_now r + retryDelay (room_config r)\<rparr>"
    using at assms(1) by (simp add: room_onDeliveryFailed_def update_client_def)
  then show "owed r (clients (room_onDeliveryFailed sid r) ! i) = owed r ?c"
    by (simp add: owed_def is_unread_def [abs_def] written_by_def)
  have a: "clients (room_onAck sid r) ! i = ?c\<lparr>cl_syncSeq := cl_pendingSeq ?c, cl_pending := False, cl_retryAfter := 0\<rparr>"
    using at assms(1) by (simp add: room_onAck_def update_client_def)
  have "is_unread (clients (room_onAck sid r) ! i) q \<longleftrightarrow> is_unread ?c q \<and> post_seq q \<noteq> cl_pendingSeq ?c"
    if "q \<in> set (posts r)" for q
  proof -
    have "cl_syncSeq ?c < cl_pendingSeq ?c" using assms(2) by (simp add: flight_first_def)
    moreover have "is_unread ?c q \<Longrightarrow> cl_pendingSeq ?c \<le> post_seq q" using assms(2) that by (simp add: flight_first_def owed_def)
    ultimately show ?thesis unfolding a by (auto simp: is_unread_def written_by_def not_le)
  qed
  then show "owed r (clients (room_onAck sid r) ! i) = filter (\<lambda>q. post_seq q \<noteq> cl_pendingSeq ?c) (owed r ?c)"
    unfolding owed_def filter_filter by (rule filter_cong [OF refl])
qed

lemma next_post_owed:
  assumes "nextPostFor c r = Some p"
  shows "\<exists>later. owed r c = p # later"
proof -
  have "List.find P xs = Some x \<Longrightarrow> \<exists>ys. filter P xs = x # ys" for P and x :: Post and xs
    by (induction xs) (auto split: if_splits)
  then show ?thesis using assms by (simp add: owed_def nextPostFor_def)
qed

lemma post_below_next: "room_ok r \<Longrightarrow> seqs_fresh r \<Longrightarrow> q \<in> set (posts r) \<Longrightarrow> post_seq q < nextSeq r"
  using post_seq_nat [of r] by (auto simp: in_set_conv_nth word_less_nat_alt seqs_fresh_def)

text \<open>
  C20. No post is lost and none is skipped while nothing but the flight itself touches the client. Pushing sends the first post
  a client is owed and leaves its bookmark and what it is owed alone. Then any posts may be added or displaced and any other
  client may change; if the row of this one is still as the push left it (no login, and no keep-alive with a bookmark,
  came in between: see the next statement) and no other client has a flight of that number, the acknowledgement leaves the
  client owed exactly what it was owed by then without that one post, a failed delivery leaves it owed all, and no other client is
  affected by the acknowledgement. Sequence numbers have not wrapped.
\<close>

theorem bookmark_moves_past_acknowledged_post:
  fixes w :: "'h Room world" and S :: sodium and src :: random_source and config :: Router_Config and A :: "'h Admin option" and i :: nat
  defines "r \<equiv> room_of w" and "r1 \<equiv> room_of (pushNextPost (node_surroundings S src config A) i w)"
  assumes "room_ok r" and "seqs_fresh r" and "i < length (clients r)" and "nextPostFor (clients r ! i) r = Some p"
    and "i < length (clients r2)" and "clients r2 ! i = clients r1 ! i"
    and "\<forall>q \<in> set (posts r2). q \<in> set (posts r) \<or> nextSeq r \<le> post_seq q"
    and "\<forall>j < length (clients r2). j \<noteq> i \<longrightarrow> \<not> (cl_pending (clients r2 ! j) \<and> cl_pendingId (clients r2 ! j) = rt_nextId w)"
  shows "(\<exists>later. owed r (clients r ! i) = p # later) \<and> posts r1 = posts r \<and> cl_syncSeq (clients r1 ! i) = cl_syncSeq (clients r ! i)
    \<and> owed r1 (clients r1 ! i) = owed r (clients r ! i)
    \<and> owed r2 (clients (room_onAck (rt_nextId w) r2) ! i) = filter (\<lambda>q. post_seq q \<noteq> post_seq p) (owed r2 (clients r2 ! i))
    \<and> owed r2 (clients (room_onDeliveryFailed (rt_nextId w) r2) ! i) = owed r2 (clients r2 ! i)
    \<and> (\<forall>j. j \<noteq> i \<longrightarrow> clients (room_onAck (rt_nextId w) r2) ! j = clients r2 ! j)"
proof -
  let ?c = "clients r ! i"
  let ?d = "?c\<lparr>cl_pendingId := rt_nextId w, cl_pending := True, cl_pendingSeq := post_seq p\<rparr>"
  have r1: "r1 = update_client i (\<lambda>c. c\<lparr>cl_pendingId := rt_nextId w, cl_pending := True, cl_pendingSeq := post_seq p\<rparr>) r"
    using pushNextPost_room assms(6) unfolding r_def r1_def by blast
  then have d: "clients r1 ! i = ?d" "posts r1 = posts r" using assms(5) by (simp_all add: update_client_def)
  have same: "is_unread ?d = is_unread ?c" by (rule ext) (simp add: is_unread_def written_by_def)
  have p: "p \<in> set (posts r)" "is_unread ?c p" using assms(6) by (auto simp: nextPostFor_def find_Some_iff)
  have "post_seq p \<le> post_seq q" if "q \<in> set (posts r2)" "is_unread ?c q" for q
    using assms(9) that next_post_first [OF assms(3,4,6)] post_below_next [OF assms(3,4) p(1)] by force
  then have "flight_first r2 (clients r2 ! i)"
    using p(2) same assms(8) d(1) by (auto simp: flight_first_def owed_def is_unread_def not_le)
  from flight_ends [OF assms(7) this _ assms(10)] assms(8) d show ?thesis
    using next_post_owed [OF assms(6)] same by (simp add: owed_def)
qed

lemma replicate_4: "replicate 4 x = [x, x, x, x]"
  by (simp add: numeral_eq_Suc)

definition board_room :: "unit Room" where
  "board_room = test_room\<lparr>clients := [test_admin], nextSeq := 3,
     posts := [\<lparr>post_seq = 1, post_timestamp = 5, post_author = [9, 9, 9, 9], post_text = [1]\<rparr>,
               \<lparr>post_seq = 2, post_timestamp = 6, post_author = [9, 9, 9, 9], post_text = [2]\<rparr>]\<rparr>"

lemma board_room_ok: "room_ok board_room" "seqs_fresh board_room"
  by (auto simp: room_ok_def seqs_fresh_def board_room_def test_room_def room_new_def test_admin_def post_ok_def less_Suc_eq)

text \<open>The first of two posts is pushed, a third is added, and the acknowledgement arrives.\<close>

theorem bookmark_moves_past_acknowledged_post_witness:
  "let w = router_new router_config_default store_new None board_room;
       r1 = room_of (pushNextPost (node_surroundings test_sodium (\<lambda>_. 0) router_config_default None) 0 w);
       r2 = store_post (replicate 32 9) 7 [3] r1
   in map post_seq (owed r2 (clients r2 ! 0)) = [1, 2, 3] \<and> map post_seq (owed r2 (clients (room_onAck 1 r2) ! 0)) = [2, 3]"
proof -
  let ?w = "router_new router_config_default store_new None board_room"
  let ?r1 = "room_of (pushNextPost (node_surroundings test_sodium (\<lambda>_. 0) router_config_default None) 0 ?w)"
  let ?r2 = "store_post (replicate 32 9) 7 [3] ?r1"
  let ?p = "\<lparr>post_seq = 1, post_timestamp = 5, post_author = [9, 9, 9, 9], post_text = [1]\<rparr>"
  have w: "room_of ?w = board_room" "rt_nextId ?w = 1" by (simp_all add: router_new_def)
  have c: "clients board_room = [test_admin]" by (simp add: board_room_def)
  have p: "nextPostFor (clients (room_of ?w) ! 0) (room_of ?w) = Some ?p"
    unfolding w by (simp add: nextPostFor_def board_room_def is_unread_def written_by_def test_admin_def client_init_def replicate_4)
  have r1: "?r1 = update_client 0 (\<lambda>c. c\<lparr>cl_pendingId := 1, cl_pending := True, cl_pendingSeq := 1\<rparr>) board_room"
    using pushNextPost_room [OF p, of test_sodium "\<lambda>_. 0" router_config_default None] w by simp
  have r2: "clients ?r2 = clients ?r1" "length (clients ?r1) = 1"
      "posts ?r2 = posts board_room @ [\<lparr>post_seq = 3, post_timestamp = 7, post_author = [9, 9, 9, 9], post_text = [3]\<rparr>]"
    using r1 by (simp_all add: store_post_def update_client_def c Let_def)
      (simp_all add: board_room_def test_room_def room_new_def sanitiseTimestamp_def replicate_4)
  have o: "map post_seq (owed ?r2 (clients ?r2 ! 0)) = [1, 2, 3]" "map post_seq (filter (\<lambda>q. post_seq q \<noteq> 1) (owed ?r2 (clients ?r2 ! 0))) = [2, 3]"
    unfolding owed_def r2 unfolding r1 by (simp_all add: update_client_def board_room_def is_unread_def written_by_def test_admin_def client_init_def replicate_4)
  have "\<forall>q \<in> set (posts ?r2). q \<in> set (posts (room_of ?w)) \<or> nextSeq (room_of ?w) \<le> post_seq q"
    unfolding r2(3) w by (auto simp: board_room_def)
  from bookmark_moves_past_acknowledged_post [where w = ?w and i = 0 and ?r2.0 = ?r2 and S = test_sodium and src = "\<lambda>_. 0"
      and config = router_config_default and A = None, unfolded w, OF board_room_ok _ p [unfolded w] _ _ this [unfolded w]]
  show ?thesis using o r2(1,2) c by (simp add: Let_def w)
qed

text \<open>
  C36. A login while a post is in flight can lose posts: the login moves the bookmark back to what the client asked for but
  leaves the flight as it is, and the acknowledgement then moves the bookmark to the post in flight; every post in between
  that the client asked for again is passed over without having been sent since.
\<close>

theorem login_in_flight_loses_posts:
  fixes w :: "'h Room world" and S :: sodium and src :: random_source and config :: Router_Config and A :: "'h Admin option"
  defines "H \<equiv> node_surroundings S src config A"
  assumes "authenticate S pk (trimmed (take MAX_PASSWORD (drop LOGIN_REQUEST_PREFIX_SIZE plain))) (readUint32 plain 0) (room_of w)
       = (Some i, r1)"
    and "LOGIN_REQUEST_PREFIX_SIZE \<le> length plain" and "i < length (clients r1)" and "cl_pending (clients r1 ! i)"
    and "\<forall>j < length (clients r1). j \<noteq> i \<longrightarrow> \<not> (cl_pending (clients r1 ! j) \<and> cl_pendingId (clients r1 ! j) = cl_pendingId (clients r1 ! i))"
    and "r2 = room_of (room_onAnon H pk plain w)" and "r3 = room_onAck (cl_pendingId (clients r1 ! i)) r2"
    and "q \<in> set (owed r2 (clients r2 ! i))" and "post_seq q \<le> cl_pendingSeq (clients r1 ! i)"
  shows "posts r3 = posts r2 \<and> q \<in> set (posts r3) \<and> q \<notin> set (owed r3 (clients r3 ! i))"
proof -
  let ?c = "clients r1 ! i"
  have r2: "r2 = update_client i (\<lambda>c. c\<lparr>cl_syncSeq := seqFromTimestamp (readUint32 plain 4) r1\<rparr>) r1"
    using assms(2,3,7) by (simp add: H_def room_onAnon_def Let_def room_publish_def on_room_def routed.sendLoginResponse_keeps)
  let ?d = "?c\<lparr>cl_syncSeq := seqFromTimestamp (readUint32 plain 4) r1\<rparr>"
  have d: "clients r2 ! i = ?d" "\<And>j. j \<noteq> i \<Longrightarrow> clients r2 ! j = clients r1 ! j" "length (clients r2) = length (clients r1)"
    using r2 assms(4) by (simp_all add: update_client_def)
  have "find_index (\<lambda>d. cl_pending d \<and> cl_pendingId d = cl_pendingId ?c) (clients r2) = Some i"
    using d assms(4-6) by (intro find_at) auto
  then have "r3 = update_client i (\<lambda>c. c\<lparr>cl_syncSeq := cl_pendingSeq c, cl_pending := False, cl_retryAfter := 0\<rparr>) r2"
    using assms(8) by (simp add: room_onAck_def)
  then have "posts r3 = posts r2" "cl_syncSeq (clients r3 ! i) = cl_pendingSeq ?c"
    using d assms(4) by (simp_all add: update_client_def)
  then show ?thesis using assms(9,10) by (auto simp: owed_def is_unread_def)
qed


definition flight_room_world :: "unit Room world" where
  "flight_room_world = router_new router_config_default store_new None
     (board_room\<lparr>clients := [test_admin\<lparr>cl_syncSeq := 1, cl_pending := True, cl_pendingId := 7, cl_pendingSeq := 2\<rparr>]\<rparr>)"

theorem login_in_flight_loses_posts_witness:
  "\<exists>plain. let r = room_onAck 7 (room_of (room_onAnon (node_surroundings test_sodium (\<lambda>_. 0) router_config_default None) (replicate 32 2) plain
       flight_room_world)) in length (posts r) = 2 \<and> posts r ! 0 \<notin> set (owed r (clients r ! 0))"
proof -
  let ?plain = "[9, 0, 0, 0, 0, 0, 0, 0, 1, 2] :: bytes"
  let ?H = "node_surroundings test_sodium (\<lambda>_. 0) router_config_default None :: unit Surroundings"
  let ?c = "test_admin\<lparr>cl_syncSeq := 1, cl_pending := True, cl_pendingId := 7, cl_pendingSeq := 2, cl_lastLogin := 9\<rparr>"
  have t: "readUint32 ?plain 0 = 9" "readUint32 ?plain 4 = 0" "trimmed (take 32 (drop 8 ?plain)) = [1, 2]"
    by (simp_all add: readUint32_def trimmed_def is_blank_def)
  let ?r = "board_room\<lparr>clients := [?c]\<rparr>"
  have a: "authenticate test_sodium (replicate 32 2) (trimmed (take 32 (drop 8 ?plain))) (readUint32 ?plain 0) (room_of flight_room_world)
      = (Some 0, ?r)"
    unfolding t
    by (simp add: authenticate_def flight_room_world_def router_new_def board_room_def test_room_def room_new_def findClient_def
        lockedOut_def passwordMatches_def room_config_default_def constantTimeEqual_def test_sodium_def admit_client_def Let_def
        clearFailures_def test_admin_def client_init_def update_client_def)
  let ?r2 = "room_of (room_onAnon ?H (replicate 32 2) ?plain flight_room_world)"
  have r2: "?r2 = update_client 0 (\<lambda>c. c\<lparr>cl_syncSeq := 0\<rparr>) ?r"
    using a t by (simp add: room_onAnon_def Let_def room_publish_def on_room_def routed.sendLoginResponse_keeps)
      (simp add: seqFromTimestamp_def board_room_def)
  have q: "posts ?r2 ! 0 \<in> set (owed ?r2 (clients ?r2 ! 0))" "post_seq (posts ?r2 ! 0) \<le> cl_pendingSeq (clients ?r ! 0)"
      "length (posts ?r2) = 2"
    unfolding r2 by (simp_all add: update_client_def owed_def board_room_def is_unread_def written_by_def test_admin_def replicate_4)
  from login_in_flight_loses_posts [OF a _ _ _ _ refl refl q(1,2)] q(3)
  show ?thesis by (intro exI [of _ ?plain]) (simp add: Let_def)
qed

section \<open>A full waiting list\<close>

lemma sendDirect_full:
  assumes "maxPending config \<le> length (rt_pending w)" and "sendDirect S config dest t pl ack w = (sid, w')"
  shows "sid = rt_nextId w \<and> rt_pending w' = rt_pending w"
proof -
  let ?w = "w\<lparr>rt_nextId := rt_nextId w + 1\<rparr>"
  obtain r a1 where fs: "fetch_secret S dest ?w = (r, a1)" by fastforce
  have "rt_pending a1 = rt_pending w" using fetch_secret_frame [OF fs] by simp
  then show ?thesis using assms fs by (auto simp: sendDirect_def Let_def split: option.splits)
qed

lemma other_id_keeps:
  assumes "cl_pendingId (clients r ! i) \<noteq> sid"
  shows "clients (room_onAck sid r) ! i = clients r ! i" and "clients (room_onDeliveryFailed sid r) ! i = clients r ! i"
proof -
  have "k \<noteq> i" if "find_index (\<lambda>c. cl_pending c \<and> cl_pendingId c = sid) (clients r) = Some k" for k
    using find_index_Some [OF that] assms by auto
  then show "clients (room_onAck sid r) ! i = clients r ! i" "clients (room_onDeliveryFailed sid r) ! i = clients r ! i"
    by (auto simp: room_onAck_def room_onDeliveryFailed_def update_client_def split: option.split)
qed

lemma other_failures_keep:
  "\<forall>s \<in> set sids. cl_pendingId (clients r ! i) \<noteq> s \<Longrightarrow> clients (fold room_onDeliveryFailed sids r) ! i = clients r ! i"
  by (induction sids arbitrary: r) (simp_all add: other_id_keeps)

text \<open>
  C37. With the waiting list full a client is forgotten. The router then sends a post but does not wait for it, while the
  room marks it as in flight: the client is passed over from then on, no acknowledgement that arrives and no tick of the
  router frees it, until a restart or until its row is displaced. (Sixty-four clients may be in flight at once, and the list has room for thirty-two by default.)
\<close>

theorem full_waiting_list_stalls_client:
  fixes w :: "'h Room world" and S :: sodium and src :: random_source and config :: Router_Config and A :: "'h Admin option"
    and i :: nat and p :: Post
  defines "H \<equiv> node_surroundings S src config A"
  defines "w1 \<equiv> pushNextPost H i w"
  assumes "i < length (clients (room_of w))" and "nextPostFor (clients (room_of w) ! i) (room_of w) = Some p"
    and "maxPending config \<le> length (rt_pending w)" and "\<forall>e \<in> set (rt_pending w). pend_id e \<noteq> rt_nextId w"
  shows "\<not> wants_push (room_of w1) (clients (room_of w1) ! i)
    \<and> (\<forall>pl. clients (room_of (handleAck (room_delegate H) pl w1)) ! i = clients (room_of w1) ! i)
    \<and> (\<exists>w2. router_tick config (room_delegate H) now w1 = Some w2 \<and> clients (room_of w2) ! i = clients (room_of w1) ! i
         \<and> (\<forall>e \<in> set (rt_pending w2). pend_id e \<noteq> cl_pendingId (clients (room_of w2) ! i)))"
proof -
  obtain pl where pl: "w1 = (let (sid, w') = sendDirect S config (cl_pk (clients (room_of w) ! i)) TXT_MSG pl True w
      in on_room (update_client i (\<lambda>c. c\<lparr>cl_pendingId := sid, cl_pending := True, cl_pendingSeq := post_seq p\<rparr>)) w')"
    using pushNextPost_sends [OF assms(4), of H] unfolding w1_def H_def by auto
  obtain sid w' where sd: "sendDirect S config (cl_pk (clients (room_of w) ! i)) TXT_MSG pl True w = (sid, w')" by fastforce
  have w': "sid = rt_nextId w" "rt_pending w' = rt_pending w" "room_of w' = room_of w"
    using sendDirect_full [OF assms(5) sd] sendDirect_delegate [of S config _ TXT_MSG pl True w] sd by (auto, metis snd_conv)
  have c: "cl_pending (clients (room_of w1) ! i)" "cl_pendingId (clients (room_of w1) ! i) = rt_nextId w" "rt_pending w1 = rt_pending w"
    using pl sd w' assms(3) by (simp_all add: on_room_def update_client_def)
  have none: "\<forall>e \<in> set (rt_pending w1). cl_pendingId (clients (room_of w1) ! i) \<noteq> pend_id e" using c assms(6) by auto
  have ack: "clients (room_of (handleAck (room_delegate H) b w1)) ! i = clients (room_of w1) ! i" for b
    using none other_id_keeps(1) [of "room_of w1" i]
    by (auto simp: handleAck_def room_delegate_def Let_def on_room_def dest!: find_index_Some split: option.split)
  obtain w2 where w2: "router_tick config (room_delegate H) now w1 = Some w2"
      "room_of w2 = fold room_onDeliveryFailed
        (map pend_id (filter (\<lambda>e. overdue now e \<and> exhausted config e) (rt_pending w1))) (room_of w1)"
      "rt_pending w2 = map (retried config now) (filter (\<lambda>e. \<not> (overdue now e \<and> exhausted config e)) (rt_pending w1))"
    using room_clock.tick_spec [of config H now w1] by blast
  have "clients (room_of w2) ! i = clients (room_of w1) ! i"
    unfolding w2(2) using none by (intro other_failures_keep) auto
  moreover have "\<forall>e \<in> set (rt_pending w2). pend_id e \<noteq> cl_pendingId (clients (room_of w1) ! i)"
    using none by (auto simp: w2(3) retried_def)
  ultimately show ?thesis using c(1) ack w2(1) by (auto simp: wants_push_def)
qed

theorem full_waiting_list_stalls_client_witness:
  "let w = router_new router_config_default store_new None board_room;
       config = router_config_default\<lparr>maxPending := 0\<rparr>;
       w1 = pushNextPost (node_surroundings test_sodium (\<lambda>_. 0) config None) 0 w
   in \<not> wants_push (room_of w1) (clients (room_of w1) ! 0)"
proof -
  let ?w = "router_new router_config_default store_new None board_room"
  have "nextPostFor test_admin board_room = Some \<lparr>post_seq = 1, post_timestamp = 5, post_author = [9, 9, 9, 9], post_text = [1]\<rparr>"
    by (simp add: nextPostFor_def board_room_def is_unread_def written_by_def test_admin_def client_init_def replicate_4)
  moreover have "clients board_room = [test_admin]" by (simp add: board_room_def)
  ultimately show ?thesis
    using full_waiting_list_stalls_client [of 0 ?w _ "router_config_default\<lparr>maxPending := 0\<rparr>" test_sodium "\<lambda>_. 0" None]
    by (simp add: router_new_def Let_def)
qed

section \<open>Whose turn it is\<close>

definition turns_away :: "nat \<Rightarrow> nat \<Rightarrow> nat \<Rightarrow> nat" where
  "turns_away n k i = (i + n - k mod n) mod n"

lemma turns_away_spec:
  assumes "i < n" shows "(k + turns_away n k i) mod n = i" and "turns_away n k i < n"
proof -
  have "(k + (i + n - k mod n) mod n) mod n = (k mod n + (i + n - k mod n)) mod n" by (simp add: mod_simps)
  also have "k mod n + (i + n - k mod n) = i + n" using assms by (simp add: trans_le_add2)
  finally show "(k + turns_away n k i) mod n = i" using assms by (simp add: turns_away_def)
  show "turns_away n k i < n" using assms by (simp add: turns_away_def)
qed

lemma turns_away_unique:
  assumes "d < n" and "(k + d) mod n = i" shows "turns_away n k i = d"
proof -
  define m where "m = k mod n"
  have m: "m < n" using assms(1) by (simp add: m_def)
  have i: "i = (m + d) mod n" using assms(2) by (simp add: m_def mod_simps)
  have "(i + n - m) mod n = d"
  proof (cases "m + d < n")
    case True
    then have "i + n - m = d + n" using i by simp
    then show ?thesis using assms(1) by simp
  next
    case False
    then have "i = m + d - n" using i m assms(1) by (simp add: le_mod_geq)
    then have "i + n - m = d" using False by simp
    then show ?thesis using assms(1) by simp
  qed
  then show ?thesis by (simp add: turns_away_def m_def)
qed

text \<open>
  Nobody starves: when some client is due a post, one that is due gets the turn, and a due client that does not is at
  least one turn nearer afterwards. So it is served after at most as many pushes as there are clients, whoever else
  is waiting and however bad their antennas.
\<close>

theorem push_round_robin:
  assumes "i < length (clients r)" and "wants_push r (clients r ! i)"
  shows "\<exists>j r'. nextClientToPush r = (Some j, r') \<and> j < length (clients r) \<and> wants_push r (clients r ! j)
    \<and> clients r' = clients r
    \<and> (j = i \<or> turns_away (length (clients r)) (nextClientIdx r') i < turns_away (length (clients r)) (nextClientIdx r) i)"
proof -
  let ?n = "length (clients r)" and ?k = "nextClientIdx r"
  let ?f = "\<lambda>s. (?k + s) mod ?n" and ?P = "\<lambda>j. wants_push r (clients r ! j)"
  let ?d = "turns_away ?n ?k i"
  have n: "0 < ?n" using assms(1) by auto
  have d: "?f ?d = i" "?d < ?n" using turns_away_spec [OF assms(1)] by simp_all
  have "List.find ?P (map ?f [0..<?n]) \<noteq> None"
    using assms(2) d by (auto simp: find_None_iff intro!: bexI [of _ ?d])
  then obtain j where j: "List.find ?P (map ?f [0..<?n]) = Some j" by blast
  then obtain s where s: "s < ?n" "j = ?f s" "?P j" "\<forall>t < s. \<not> ?P (?f t)" by (auto simp: find_Some_iff)
  let ?r = "r\<lparr>nextClientIdx := (j + 1) mod ?n\<rparr>"
  have nc: "nextClientToPush r = (Some j, ?r)" using n j by (simp add: nextClientToPush_def Let_def)
  have "s \<le> ?d" using s(4) d assms(2) by (metis not_le)
  have "turns_away ?n ((j + 1) mod ?n) i < ?d" if "j \<noteq> i"
  proof -
    have "s < ?d" using \<open>s \<le> ?d\<close> that s(2) d(1) by (cases "s = ?d") auto
    have "((j + 1) mod ?n + (?d - s - 1)) mod ?n = (?k + s + 1 + (?d - s - 1)) mod ?n"
      unfolding s(2) by (simp add: mod_simps)
    also have "\<dots> = i" using d(1) \<open>s < ?d\<close> by simp
    finally have "turns_away ?n ((j + 1) mod ?n) i = ?d - s - 1" using d(2) by (intro turns_away_unique) auto
    then show ?thesis using \<open>s < ?d\<close> by simp
  qed
  then show ?thesis using nc s(3) n s(2) by (intro exI [of _ j] exI [of _ ?r]) auto
qed

theorem push_round_robin_witness:
  "fst (nextClientToPush board_room) = Some 0"
proof -
  have "wants_push board_room (clients board_room ! 0)"
    by (simp add: wants_push_def nextPostFor_def board_room_def is_unread_def written_by_def test_admin_def client_init_def replicate_4)
  moreover have "length (clients board_room) = 1" by (simp add: board_room_def)
  ultimately show ?thesis using push_round_robin [of 0 board_room] by auto
qed

end
