(* ===== verification/Message_Delivery.thy ===== *)
theory Message_Delivery
  imports Room_Delivery
begin

text \<open>
  A message from one node to a room and the acknowledgement back: sealed and framed by the sender's router, opened and handed up by
  the receiver's, taken by the room, acknowledged, and the acknowledgement matched by the sender.
\<close>

unbundle bit_operations_syntax

section \<open>A text at the room\<close>

text \<open>Whether a text of the holder of a key is put on the board.\<close>

definition may_post :: "public_key \<Rightarrow> TextMsg \<Rightarrow> 'h Room \<Rightarrow> bool" where
  "may_post pk m r \<longleftrightarrow> txtType m = PLAIN
     \<and> (case findClient pk r of None \<Rightarrow> False | Some i \<Rightarrow> can (room_type (room_config r)) (clients r ! i) POST)"

lemma publishToChannels_routes:
  "rt_routes (publishToChannels (node_surroundings S src config A) post w) = rt_routes w"
proof -
  let ?H = "node_surroundings S src config A"
  have "rt_routes (publish_one ?H plain ch w) = rt_routes w" for plain ch w
    by (simp add: publish_one_def sendFlood_def split: option.split)
  then have "rt_routes (fold (publish_one ?H plain) chs w) = rt_routes w" for plain chs w
    by (induction chs arbitrary: w) simp_all
  then show ?thesis by (simp add: publishToChannels_def Let_def split: option.split)
qed

lemma text_taken:
  fixes S :: sodium and src :: random_source and config :: Router_Config and A :: "'h Admin option" and w :: "'h Room world"
  assumes "decodeText plain = Some m" and "txtType m \<noteq> CLI"
  defines "H \<equiv> node_surroundings S src config A"
  shows "rt_routes (room_onPayload H c TXT_MSG plain w) = rt_routes w"
    and "room_of (room_onPayload H c TXT_MSG plain w) = (if may_post (con_pk c) m (room_of w)
      then store_post (con_pk c) (txt_timestamp m) (txt_message m) (room_of w) else room_of w)"
proof -
  have r: "rt_routes (addPost a t b x) = rt_routes x" for a t b and x :: "'h Room world"
    by (simp add: addPost_def room_publish_def on_room_def)
  show "rt_routes (room_onPayload H c TXT_MSG plain w) = rt_routes w"
    using assms(1,2) by (simp add: H_def room_onPayload_def handleText_def publishToChannels_routes r Let_def split: option.split)
  show "room_of (room_onPayload H c TXT_MSG plain w) = (if may_post (con_pk c) m (room_of w)
      then store_post (con_pk c) (txt_timestamp m) (txt_message m) (room_of w) else room_of w)"
    using assms(1,2)
    by (simp add: H_def room_onPayload_def handleText_def may_post_def routed.publishToChannels_keeps Let_def split: option.split)
qed

lemma room_shouldForward_rest:
  assumes "room_shouldForward p w = (ok, w1)"
  shows "rt_air w1 = rt_air w" and "\<exists>pol. room_of w1 = (room_of w)\<lparr>forwarder := pol\<rparr>"
proof -
  have same: "\<exists>pol. x = x\<lparr>forwarder := pol\<rparr>" for x :: "'a Room" by (rule exI [of _ "forwarder x"]) simp
  show "\<exists>pol. room_of w1 = (room_of w)\<lparr>forwarder := pol\<rparr>"
    using assms by (auto simp: room_shouldForward_def Let_def on_room_def room_publish_def intro: same split: if_splits option.splits prod.splits)
  show "rt_air w1 = rt_air w"
    using assms by (auto simp: room_shouldForward_def Let_def on_room_def room_publish_def split: if_splits option.splits prod.splits)
qed

section \<open>Delivery\<close>

text \<open>The contacts and clients with a hash, in the order in which their secrets are tried.\<close>

definition senders_with :: "byte \<Rightarrow> 'h Room world \<Rightarrow> Contact list" where
  "senders_with hash w = map (\<lambda>i. contacts (rt_store w) ! i) (findByHash (rt_store w) hash)
     @ map (\<lambda>k. contact_init\<lparr>con_pk := k\<rparr>) (room_keysMatching hash MAX_LOGGED_IN_CANDIDATES w)"

lemma first_candidate_takes:
  fixes S :: sodium and src :: random_source and configB :: Router_Config and A :: "'h Admin option" and w :: "'h Room world"
  defines "H \<equiv> node_surroundings S src configB A"
  assumes "secrets_ok S (rt_store w)" and "payloadType q = TXT_MSG" and "decodeText plain = Some m" and "txtType m \<noteq> CLI"
    and "deriveShared S (kp_sk (store_self (rt_store w))) (con_pk c) = Some s"
    and "openSealed S s (env_cipherMac e) (env_ciphertext e) (length (env_ciphertext e)) = Some plain"
    and "routes_short w" and "length (pathView q) \<le> MAX_HOP_COUNT"
  shows "\<exists>w2. try_candidates S configB (room_delegate H) q e (c # rest) w = sendAck S (con_pk c) (expectedAck S plain (con_pk c)) [] w2
     \<and> room_of w2 = (if may_post (con_pk c) m (room_of w)
        then store_post (con_pk c) (txt_timestamp m) (txt_message m) (room_of w) else room_of w) \<and> routes_short w2"
proof -
  obtain r w1 where fs: "fetch_secret S (con_pk c) w = (r, w1)" by fastforce
  have r: "r = Some s" using fetch_secret_spec(1) [OF assms(2) fs] assms(6) by simp
  note fr = fetch_secret_frame [OF fs]
  have short: "routes_short w1" using assms(8) fr by (simp add: routes_short_def)
  let ?w = "if routeType q = FLOOD then learnRouteFrom S configB q (con_pk c) w1 else w1"
  have w: "routes_short ?w" "rt_delegate ?w = rt_delegate w"
    using learnRouteFrom_frame [OF short assms(9)] short fr by auto
  note taken = text_taken [OF assms(4,5), of S src configB A c ?w, folded H_def]
  have "room_shouldAck TXT_MSG plain" using assms(4,5) by (simp add: room_shouldAck_def)
  then have "try_candidates S configB (room_delegate H) q e (c # rest) w
      = sendAck S (con_pk c) (expectedAck S plain (con_pk c)) [] (room_onPayload H c TXT_MSG plain ?w)"
    using assms(3,7) fs r by (simp add: room_delegate_def Let_def)
  then show ?thesis using taken w by (intro exI [of _ "room_onPayload H c TXT_MSG plain ?w"]) (simp add: routes_short_def)
qed

lemma text_received:
  fixes S :: sodium and src :: random_source and configB :: Router_Config and A :: "'h Admin option" and b :: "'h Room world"
  defines "H \<equiv> node_surroundings S src configB A"
  assumes "secrets_ok S (rt_store b)" and "parse g = Some q" and "payloadType q = TXT_MSG" and "decodeText plain = Some m" and "txtType m \<noteq> CLI"
    and "payloadView q = pl" and "decodeEnvelope pl = Some env"
    and "env_destinationHash env = store_selfHash (rt_store b)" and "senders_with (env_sourceHash env) b = c # rest"
    and "openSealed S s (env_cipherMac env) (env_ciphertext env) (length (env_ciphertext env)) = Some plain"
    and "deriveShared S (kp_sk (store_self (rt_store b))) (con_pk c) = Some s"
    and "routes_short b" and "length (pathView q) \<le> MAX_HOP_COUNT" and "\<not> is_echo q (store_selfHash (rt_store b))"
    and "\<not> alreadySeen S configB g b"
  shows "\<exists>h r pol. room_of (onFrame S src configB (room_delegate H) g meta b) = (if may_post (con_pk c) m (room_of b)
        then store_post (con_pk c) (txt_timestamp m) (txt_message m) (room_of b) else room_of b)\<lparr>forwarder := pol\<rparr>
    \<and> (h, HIGH) \<in> set (rt_air (onFrame S src configB (room_delegate H) g meta b)) \<and> parse h = Some r \<and> payloadType r = ACK
    \<and> payloadView r = writeUint32 (expectedAck S plain (con_pk c))"
proof -
  let ?ack = "expectedAck S plain (con_pk c)" and ?b1 = "rememberSeen S g (rt_publish FrameRx (of_nat (length g)) b)"
  obtain b2 where b2: "try_candidates S configB (room_delegate H) q env (c # rest) ?b1 = sendAck S (con_pk c) ?ack [] b2"
      "room_of b2 = (if may_post (con_pk c) m (room_of b)
        then store_post (con_pk c) (txt_timestamp m) (txt_message m) (room_of b) else room_of b)" "routes_short b2"
    using first_candidate_takes [of S ?b1 q plain m c s env configB src A rest] assms(2,4-6,11-14) by (auto simp: routes_short_def H_def)
  have "senders_with (env_sourceHash env) ?b1 = c # rest" using assms(10) by (simp add: senders_with_def room_keysMatching_def)
  then have "dispatch S configB (room_delegate H) q ?b1 = sendAck S (con_pk c) ?ack [] b2"
    using b2(1) assms(4,7-9)
    by (simp add: dispatch_def deliverToSelf_def Let_def senders_with_def room_delegate_def)
  moreover have "\<not> alreadySeen S configB g (rt_publish FrameRx (of_nat (length g)) b)"
    using assms(16) by (simp add: alreadySeen_def)
  ultimately have on: "onFrame S src configB (room_delegate H) g meta b
      = considerForwarding src configB (room_delegate H) q meta (sendAck S (con_pk c) ?ack [] b2)"
    using assms(3,15) by (simp add: onFrame_def)
  obtain ok w1 where sf: "room_shouldForward q (sendAck S (con_pk c) ?ack [] b2) = (ok, w1)" by fastforce
  then have "delegate_shouldForward (room_delegate H) q (sendAck S (con_pk c) ?ack [] b2) = (ok, w1)" by (simp add: room_delegate_def)
  note cf = considerForwarding_rest [OF parse_SomeD(1) [OF assms(3)] this, of src configB meta]
  obtain pol where pol: "room_of w1 = (room_of b2)\<lparr>forwarder := pol\<rparr>" "rt_air w1 = rt_air (sendAck S (con_pk c) ?ack [] b2)"
    using room_shouldForward_rest [OF sf] by (auto simp: sendAck_def)
  let ?h = "frame_to ACK (writeUint32 ?ack) (con_pk c) b2"
  obtain r where r: "parse ?h = Some r" "payloadType r = ACK" "payloadView r = writeUint32 ?ack"
    using frame_to_parse [OF _ b2(3), of ACK "writeUint32 ?ack" "con_pk c"] by (auto simp: type_ok_def payloadType_of_def)
  have "(?h, HIGH) \<in> set (rt_air (onFrame S src configB (room_delegate H) g meta b))"
    using cf(1) pol(2) on by (simp add: sendAck_def)
  moreover have "room_of (onFrame S src configB (room_delegate H) g meta b) = (room_of b2)\<lparr>forwarder := pol\<rparr>"
    using cf(2) pol(1) on by simp
  ultimately show ?thesis using r b2(2) by (intro exI [of _ ?h] exI [of _ r] exI [of _ pol]) (simp only:)
qed

text \<open>
  C1. A text arrives and its acknowledgement comes home. Node A, which shares a secret with the room B and whose waiting list is not
  full, hands a text for B, any but a command, to its radio and waits for the acknowledgement. B hears any copy of that frame (same
  header and payload, whatever path of at most 63 bytes the repeaters wrote, B's own hash not on it), has not seen it, and A is the
  first contact or logged-in client with A's hash. Then the room at B gets exactly that text once: on the board, if it is a plain one
  and A a client who may post there, and otherwise nowhere, and nothing else of the room changes but the forwarder's counters; B
  puts an acknowledgement on the air ahead of the queue; and when A handles it, with the waiting list still as it was and no other
  entry of that value on it, the waiting entry, and only it, is removed and its identifier is reported as delivered.
  (Commands and requests are answered instead.)
\<close>

theorem message_delivered_and_acknowledged:
  fixes a a' a2 :: "'a world" and b :: "'h Room world" and S :: sodium and src :: random_source and configB :: Router_Config
    and A :: "'h Admin option"
  defines "pkA \<equiv> kp_pk (store_self (rt_store a))" and "pkB \<equiv> kp_pk (store_self (rt_store b))"
    and "H \<equiv> node_surroundings S src configB A"
  assumes "memcmp_spec S" and "secrets_ok S (rt_store a)" and "secrets_ok S (rt_store b)"
    and "\<And>s. deriveShared S (kp_sk (store_self (rt_store a))) pkB = Some s
               \<Longrightarrow> deriveShared S (kp_sk (store_self (rt_store b))) pkA = Some s"
    and "store_selfHash (rt_store a) = pkA ! 0" and "store_selfHash (rt_store b) = pkB ! 0"
    and "decodeText plain = Some m" and "txtType m \<noteq> CLI" and "routes_short a" and "routes_short b"
    and "length (rt_pending a) < maxPending config"
    and "\<forall>e \<in> set (rt_pending a). pend_expectedAck e \<noteq> expectedAck S plain pkA"
    and "sendDirect S config pkB TXT_MSG plain True a = (sid, a')" and "rt_air a' = rt_air a @ [(f, NORMAL)]"
    and "parse f = Some p" and "parse g = Some q" and "header q = header p" and "payloadView q = payloadView p"
    and "length (pathView q) \<le> MAX_HOP_COUNT" and "\<not> is_echo q (pkB ! 0)" and "\<not> alreadySeen S configB g b"
    and "senders_with (pkA ! 0) b = c # rest" and "con_pk c = pkA" and "rt_pending a2 = rt_pending a'"
  shows "\<exists>h r pol. room_of (onFrame S src configB (room_delegate H) g meta b) = (if may_post pkA m (room_of b)
        then store_post pkA (txt_timestamp m) (txt_message m) (room_of b) else room_of b)\<lparr>forwarder := pol\<rparr>
    \<and> (h, HIGH) \<in> set (rt_air (onFrame S src configB (room_delegate H) g meta b)) \<and> parse h = Some r \<and> payloadType r = ACK
    \<and> handleAck DA (payloadView r) a2 = onAck DA sid (a2\<lparr>rt_pending := rt_pending a\<rparr>)"
proof -
  obtain s pl e where s: "deriveShared S (kp_sk (store_self (rt_store a))) pkB = Some s"
      and pl: "seal_wire S s pkB (store_selfHash (rt_store a)) plain = Some pl" and f: "f = frame_to TXT_MSG pl pkB a"
      and e: "rt_pending a' = rt_pending a @ [e]" "pend_id e = sid" "pend_expectedAck e = expectedAck S plain pkA"
    using sendDirect_frames [OF assms(16,17,5,14)] unfolding pkA_def by blast
  obtain env where env: "decodeEnvelope pl = Some env" "env_destinationHash env = pkB ! 0" "env_sourceHash env = pkA ! 0"
      "length pl \<le> MAX_PACKET_PAYLOAD"
      "openSealed S s (env_cipherMac env) (env_ciphertext env) (length (env_ciphertext env)) = Some plain"
    using seal_wire_opens [OF assms(4) pl] assms(8) by auto
  have "type_ok TXT_MSG" by (simp add: type_ok_def payloadType_of_def)
  from frame_to_parse [OF this assms(12), of pl pkB] have "payloadType p = TXT_MSG" "payloadView p = pl"
    using assms(18) f env(4) by auto
  then have q: "payloadType q = TXT_MSG" "payloadView q = pl" using assms(20,21) by (simp_all add: payloadType_def)
  have d: "deriveShared S (kp_sk (store_self (rt_store b))) (con_pk c) = Some s" using assms(7) [OF s] assms(26) by simp
  obtain h r pol where h: "room_of (onFrame S src configB (room_delegate H) g meta b) = (if may_post (con_pk c) m (room_of b)
        then store_post (con_pk c) (txt_timestamp m) (txt_message m) (room_of b) else room_of b)\<lparr>forwarder := pol\<rparr>"
      "(h, HIGH) \<in> set (rt_air (onFrame S src configB (room_delegate H) g meta b))" "parse h = Some r" "payloadType r = ACK"
      "payloadView r = writeUint32 (expectedAck S plain (con_pk c))"
    using text_received [OF assms(6,19) q(1) assms(10,11) q(2) env(1) _ _ env(5) d assms(13,22), of rest configB src A meta]
      assms(9,23-25) env(2,3) unfolding H_def by auto
  from ack_clears_entry [OF e assms(15,27), of r DA] h(5) assms(26)
  have "handleAck DA (payloadView r) a2 = onAck DA sid (a2\<lparr>rt_pending := rt_pending a\<rparr>)" by simp
  then show ?thesis using h unfolding assms(26) by blast
qed


text \<open>A room with one client, who sends it a post.\<close>

definition test_posting_room :: "unit Room world" where
  "test_posting_room = router_new router_config_default
     (store_new\<lparr>store_self := \<lparr>kp_pk = replicate 32 2, kp_sk = replicate 64 2\<rparr>, store_selfHash := 2\<rparr>) None
     (test_room\<lparr>clients := [client_init\<lparr>cl_pk := replicate 32 1, cl_access := GUEST\<rparr>]\<rparr>)"

definition test_text :: bytes where
  "test_text = [3, 0, 0, 0, 0, 7, 8]"

lemma test_text_decoded: "decodeText test_text = Some \<lparr>txt_timestamp = 3, txtType = PLAIN, attempt = 0, txt_message = [7, 8]\<rparr>"
  by (simp add: decodeText_def test_text_def readUint32_def)

lemma test_sender_sends:
  "\<exists>f a'. sendDirect test_sodium router_config_default (replicate 32 2) TXT_MSG test_text True test_sender = (1, a')
     \<and> rt_air a' = [(f, NORMAL)]"
proof -
  obtain r a1 where fs: "fetch_secret test_sodium (replicate 32 2) (test_sender\<lparr>rt_nextId := 2\<rparr>) = (r, a1)" by fastforce
  have ok: "secrets_ok test_sodium (rt_store (test_sender\<lparr>rt_nextId := 2\<rparr>))"
    by (simp add: secrets_ok_def test_sender_def test_node_def router_new_def store_new_def)
  let ?s = "map2 (XOR) (replicate 32 1) (replicate 32 2) :: bytes"
  have r: "r = Some ?s"
    using fetch_secret_spec(1) [OF ok fs]
    by (simp add: deriveShared_def test_sodium_def test_sender_def test_node_def router_new_def)
  have "paddedLength (length test_text) \<le> 180" by (simp add: paddedLength_def test_text_def)
  from seal_wire_fits [OF test_sodium_hmac this]
  obtain pl where "seal_wire test_sodium ?s (replicate 32 2) (store_selfHash (rt_store a1)) test_text = Some pl" by blast
  moreover have "rt_air a1 = []" using fetch_secret_frame [OF fs] by (simp add: test_sender_def test_node_def router_new_def)
  moreover have "rt_nextId test_sender = 1" by (simp add: test_sender_def test_node_def router_new_def)
  ultimately show ?thesis using fs r by (simp add: sendDirect_def Let_def)
qed

theorem message_delivered_and_acknowledged_witness:
  "\<exists>f h. posts (room_of (onFrame test_sodium (\<lambda>_. 0) router_config_default
        (room_delegate (node_surroundings test_sodium (\<lambda>_. 0) router_config_default None)) f \<lparr>rx_airtime = 0, rx_snr = 0\<rparr> test_posting_room))
      = [\<lparr>post_seq = 1, post_timestamp = 3, post_author = [1, 1, 1, 1], post_text = [7, 8]\<rparr>]
    \<and> (h, HIGH) \<in> set (rt_air (onFrame test_sodium (\<lambda>_. 0) router_config_default
        (room_delegate (node_surroundings test_sodium (\<lambda>_. 0) router_config_default None)) f \<lparr>rx_airtime = 0, rx_snr = 0\<rparr> test_posting_room))"
proof -
  obtain f a' where send: "sendDirect test_sodium router_config_default (replicate 32 2) TXT_MSG test_text True test_sender = (1, a')"
      and air: "rt_air a' = [(f, NORMAL)]" using test_sender_sends by blast
  have short: "routes_short test_sender" "routes_short test_posting_room"
    by (simp_all add: routes_short_def test_sender_def test_posting_room_def test_node_def router_new_def)
  have st: "secrets_ok test_sodium (rt_store test_sender)" "secrets_ok test_sodium (rt_store test_posting_room)"
    by (simp_all add: secrets_ok_def test_sender_def test_posting_room_def test_node_def router_new_def store_new_def)
  have pend: "length (rt_pending test_sender) < maxPending router_config_default" "rt_pending test_sender = []" "rt_air test_sender = []"
    by (simp_all add: test_sender_def test_node_def router_new_def router_config_default_def)
  obtain pl where f: "f = frame_to TXT_MSG pl (replicate 32 2) test_sender"
    using sendDirect_frames [OF send _ st(1) pend(1), of f] air pend(3) by auto
  have "type_ok TXT_MSG" by (simp add: type_ok_def payloadType_of_def)
  from frame_to_parse [OF this short(1), of pl "replicate 32 2"] obtain p
    where p: "parse f = Some p" "routeType p = FLOOD" "pathView p = []"
    by (auto simp: f route_view_eq test_sender_def test_node_def router_new_def)
  have keys: "kp_pk (store_self (rt_store test_sender)) = replicate 32 1" "kp_pk (store_self (rt_store test_posting_room)) = replicate 32 2"
    "kp_sk (store_self (rt_store test_sender)) = replicate 64 1" "kp_sk (store_self (rt_store test_posting_room)) = replicate 64 2"
    "store_selfHash (rt_store test_sender) = 1" "store_selfHash (rt_store test_posting_room) = 2"
    by (simp_all add: test_sender_def test_posting_room_def test_node_def router_new_def)
  have shared: "deriveShared test_sodium (replicate 64 1) (replicate 32 2) = Some s \<Longrightarrow>
      deriveShared test_sodium (replicate 64 2) (replicate 32 1) = Some s" for s
    by (auto simp: deriveShared_def test_sodium_def zip_replicate)
  have cand: "senders_with 1 test_posting_room = [contact_init\<lparr>con_pk := replicate 32 1\<rparr>]"
    by (simp add: senders_with_def findByHash_def room_keysMatching_def test_posting_room_def router_new_def store_new_def)
  have seen: "\<not> alreadySeen test_sodium router_config_default f test_posting_room"
  proof -
    have "seen_scan ttl now k (replicate n \<lparr>seen_shortHash = 0, seen_at = 0\<rparr>) = False" for ttl now k n
      by (induction n) auto
    then show ?thesis by (simp add: alreadySeen_def test_posting_room_def router_new_def router_config_default_def)
  qed
  have "pathSize p = 0" using parse_SomeD(1) [OF p(1)] p(3) by (auto simp: pathView_def wf_packet_def)
  then have echo: "\<not> is_echo p 2" by (simp add: is_echo_def)
  let ?m = "\<lparr>txt_timestamp = 3, txtType = PLAIN, attempt = 0, txt_message = [7, 8]\<rparr> :: TextMsg"
  have may: "may_post (replicate 32 1) ?m (room_of test_posting_room)"
    by (simp add: may_post_def findClient_def test_posting_room_def router_new_def test_room_def room_new_def room_config_default_def keepsBoard_def)
  have post: "posts (store_post (replicate 32 1) 3 [7, 8] (room_of test_posting_room))
      = [\<lparr>post_seq = 1, post_timestamp = 3, post_author = [1, 1, 1, 1], post_text = [7, 8]\<rparr>]"
    by (simp add: store_post_def test_posting_room_def router_new_def test_room_def room_new_def sanitiseTimestamp_def replicate_4)
  let ?D = "room_delegate (node_surroundings test_sodium (\<lambda>_. 0) router_config_default None)"
  let ?b = "onFrame test_sodium (\<lambda>_. 0) router_config_default ?D f \<lparr>rx_airtime = 0, rx_snr = 0\<rparr> test_posting_room"
  have "\<exists>h r pol. room_of ?b = (if may_post (kp_pk (store_self (rt_store test_sender))) ?m (room_of test_posting_room)
        then store_post (kp_pk (store_self (rt_store test_sender))) (txt_timestamp ?m) (txt_message ?m) (room_of test_posting_room)
        else room_of test_posting_room)\<lparr>forwarder := pol\<rparr>
    \<and> (h, HIGH) \<in> set (rt_air ?b) \<and> parse h = Some r \<and> payloadType r = ACK
    \<and> handleAck default_delegate (payloadView r) a' = onAck default_delegate 1 (a'\<lparr>rt_pending := rt_pending test_sender\<rparr>)"
    by (rule message_delivered_and_acknowledged [where a = test_sender and a' = a' and b = test_posting_room and p = p and q = p and f = f and g = f
          and c = "contact_init\<lparr>con_pk := replicate 32 1\<rparr>" and rest = "[]" and config = router_config_default and plain = test_text and S = test_sodium])
      (use test_sodium_memcmp st short send air p seen cand shared echo pend test_text_decoded in \<open>simp_all add: keys\<close>)
  then obtain h pol where "room_of ?b = (store_post (replicate 32 1) 3 [7, 8] (room_of test_posting_room))\<lparr>forwarder := pol\<rparr>"
      "(h, HIGH) \<in> set (rt_air ?b)" using may by (auto simp: keys)
  then show ?thesis using post by (intro exI [of _ f] exI [of _ h]) simp
qed

end
