(* ===== verification/Room_Storage.thy ===== *)
theory Room_Storage
  imports Room_Invariant
begin

text \<open>
  The state file of the room (\<^verbatim>\<open>room.dat\<close>): \<^verbatim>\<open>writeState\<close>, \<^verbatim>\<open>readState\<close>, \<^verbatim>\<open>load\<close> and \<^verbatim>\<open>flush\<close> of
  \<^verbatim>\<open>src/src/room/room.cpp\<close>. Files are the \<open>file_system\<close> of \<open>Crypto_Protocol\<close>; whether a
  system call succeeds is an argument. The readers work on what is left of the file instead of an offset.
\<close>

section \<open>Writing\<close>

abbreviation (input) ROOM_FORMAT_VERSION :: byte where "ROOM_FORMAT_VERSION \<equiv> 2"
abbreviation (input) ROOM_FORMAT_MIN_VERSION :: byte where "ROOM_FORMAT_MIN_VERSION \<equiv> 1"

definition postRecord :: "Post \<Rightarrow> bytes" where
  "postRecord p = writeUint32 (post_seq p) @ writeUint32 (post_timestamp p) @ post_author p
     @ [of_nat (length (post_text p))] @ post_text p"

definition clientRecord :: "Client \<Rightarrow> bytes" where
  "clientRecord c = cl_pk c @ [cl_access c] @ writeUint32 (cl_syncSeq c) @ writeUint32 (cl_lastLogin c)"

definition stateBlob :: "'h Room \<Rightarrow> bytes" where
  "stateBlob r = [ROOM_FORMAT_VERSION] @ writeUint32 (nextSeq r)
     @ [of_nat (length (posts r))] @ concat (map postRecord (posts r))
     @ [of_nat (length (clients r))] @ concat (map clientRecord (clients r))"

definition writeState :: "bool \<Rightarrow> string \<Rightarrow> 'h Room \<Rightarrow> file_system \<Rightarrow> bool \<times> file_system" where
  "writeState written file r fs =
     (if written then (True, fs(file \<mapsto> \<lparr>kf_regular = True, kf_mode = 0x180, kf_content = stateBlob r\<rparr>))
      else (False, fs))"

section \<open>Reading\<close>

text \<open>One post: the next sequence number to hand out (for files without any), the post, what is left.\<close>

definition readPost :: "byte \<Rightarrow> u32 \<Rightarrow> bytes \<Rightarrow> (Post \<times> u32 \<times> bytes) option" where
  "readPost version next view =
     (if length view < (if version \<ge> 2 then 4 else 0) + 4 + POST_AUTHOR_PREFIX + 1 then None else
      let (seq, next, view) = (if version \<ge> 2 then (readUint32 view 0, next, drop 4 view) else (next, next + 1, view));
          timestamp = readUint32 view 0; author = subspan view 4 POST_AUTHOR_PREFIX;
          len = unat (view ! 8); view = drop 9 view in
      if len > MAX_POST_TEXT \<or> length view < len then None
      else Some (\<lparr>post_seq = seq, post_timestamp = timestamp, post_author = author, post_text = take len view\<rparr>,
                 next, drop len view))"

fun readPosts :: "byte \<Rightarrow> nat \<Rightarrow> u32 \<Rightarrow> bytes \<Rightarrow> (Post list \<times> u32 \<times> bytes) option" where
  "readPosts version 0 next view = Some ([], next, view)"
| "readPosts version (Suc n) next view =
     (case readPost version next view of None \<Rightarrow> None
      | Some (post, next, view) \<Rightarrow>
        (case readPosts version n next view of None \<Rightarrow> None
         | Some (ps, next, view) \<Rightarrow> Some (post # ps, next, view)))"

definition readClient :: "bytes \<Rightarrow> (Client \<times> bytes) option" where
  "readClient view =
     (if length view < PACKET_PUBLIC_KEY_SIZE + 1 + 4 + 4 then None else
      Some (client_init\<lparr>cl_pk := take 32 view, cl_access := view ! 32, cl_syncSeq := readUint32 view 33,
              cl_lastLogin := readUint32 view 37\<rparr>, drop 41 view))"

fun readClients :: "nat \<Rightarrow> bytes \<Rightarrow> Client list option" where
  "readClients 0 view = Some []"
| "readClients (Suc n) view =
     (case readClient view of None \<Rightarrow> None
      | Some (client, view) \<Rightarrow>
        (case readClients n view of None \<Rightarrow> None | Some cs \<Rightarrow> Some (client # cs)))"

text \<open>The next number is never one a post on disk already has.\<close>

definition repair_next :: "Post list \<Rightarrow> u32 \<Rightarrow> u32" where
  "repair_next ps next = fold (\<lambda>p next. if post_seq p \<ge> next then post_seq p + 1 else next) ps next"

definition parseState :: "bytes \<Rightarrow> (byte \<times> u32 \<times> Post list \<times> Client list) option" where
  "parseState blob =
     (if length blob < 2 then None else
      let version = blob ! 0; view = drop 1 blob in
      if version < ROOM_FORMAT_MIN_VERSION \<or> version > ROOM_FORMAT_VERSION then None else
      if version \<ge> 2 \<and> length view < 4 then None else
      let (next, view) = (if version \<ge> 2 then (readUint32 view 0, drop 4 view) else (1, view)) in
      if length view < 1 then None else
      if unat (view ! 0) > MAX_POSTS then None else
      case readPosts version (unat (view ! 0)) next (drop 1 view) of None \<Rightarrow> None
      | Some (ps, next, view) \<Rightarrow>
        if length view < 1 then None else
        if unat (view ! 0) > MAX_ROOM_CLIENTS then None else
        (case readClients (unat (view ! 0)) (drop 1 view) of None \<Rightarrow> None
         | Some cs \<Rightarrow> Some (version, repair_next ps next, ps, cs)))"

definition readState :: "string \<Rightarrow> file_system \<Rightarrow> 'h Room \<Rightarrow> bool \<times> 'h Room" where
  "readState file fs r =
     (case fs file of None \<Rightarrow> (False, r)
      | Some info \<Rightarrow>
        if \<not> kf_regular info then (False, r) else
        (case parseState (kf_content info) of None \<Rightarrow> (False, r)
         | Some (version, next, ps, cs) \<Rightarrow>
           let r = r\<lparr>posts := ps, clients := cs, nextSeq := next, nextClientIdx := 0\<rparr> in
           (True, if version < 2
                  then r\<lparr>clients := map (\<lambda>c. c\<lparr>cl_syncSeq := seqFromTimestamp (cl_syncSeq c) r\<rparr>) cs\<rparr> else r)))"

section \<open>Load and flush\<close>

definition room_load :: "bool \<Rightarrow> string \<Rightarrow> file_system \<Rightarrow> 'h Room \<Rightarrow> bool \<times> 'h Room" where
  "room_load madeDir dir fs r =
     (if \<not> madeDir then (False, r) else
      let r = r\<lparr>room_dir := dir\<rparr>; file = dir @ ''/room.dat'' in
      if fs file = None then (True, r) else readState file fs r)"

definition room_flush :: "bool \<Rightarrow> bool \<Rightarrow> 'h Room \<Rightarrow> file_system \<Rightarrow> bool \<times> file_system" where
  "room_flush written renamed r fs =
     (if room_dir r = [] then (False, fs) else
      let target = room_dir r @ ''/room.dat''; temporary = target @ ''.tmp'';
          (ok, fs) = writeState written temporary r fs in
      if \<not> ok then (False, fs(temporary := None)) else
      if \<not> renamed then (False, fs(temporary := None)) else
      (True, fs(target := fs temporary, temporary := None)))"

section \<open>Round trip\<close>

lemma readPost_postRecord:
  assumes "post_ok p"
  shows "readPost 2 next (postRecord p @ rest) = Some (p, next, rest)"
proof -
  have len: "length (post_author p) = 4" "unat (of_nat (length (post_text p)) :: byte) = length (post_text p)"
    "length (post_text p) \<le> 151"
    using assms by (simp_all add: post_ok_def unat_of_nat_byte)
  have "drop 4 (postRecord p @ rest) = writeUint32 (post_timestamp p) @ post_author p
      @ [of_nat (length (post_text p))] @ post_text p @ rest"
    by (simp add: postRecord_def)
  then show ?thesis
    using len by (simp add: readPost_def Let_def postRecord_def subspan_def nth_append)
qed

lemma readPosts_records:
  "list_all post_ok ps \<Longrightarrow> readPosts 2 (length ps) next (concat (map postRecord ps) @ rest) = Some (ps, next, rest)"
  by (induction ps) (simp_all add: readPost_postRecord)

text \<open>What of a client is on disk.\<close>

definition saved_client :: "Client \<Rightarrow> Client" where
  "saved_client c = client_init\<lparr>cl_pk := cl_pk c, cl_access := cl_access c, cl_syncSeq := cl_syncSeq c, cl_lastLogin := cl_lastLogin c\<rparr>"

lemma readClient_clientRecord:
  assumes "length (cl_pk c) = 32"
  shows "readClient (clientRecord c @ rest) = Some (saved_client c, rest)"
proof -
  have a: "readUint32 (clientRecord c @ rest) 33 = cl_syncSeq c"
    using readUint32_at [of "cl_pk c @ [cl_access c]" 33] assms by (simp add: clientRecord_def)
  have b: "readUint32 (clientRecord c @ rest) 37 = cl_lastLogin c"
    using readUint32_at [of "cl_pk c @ [cl_access c] @ writeUint32 (cl_syncSeq c)" 37] assms by (simp add: clientRecord_def)
  show ?thesis
    using assms by (simp add: readClient_def a b) (simp add: clientRecord_def saved_client_def nth_append)
qed

lemma readClients_records:
  "list_all (\<lambda>c. length (cl_pk c) = 32) cs \<Longrightarrow>
   readClients (length cs) (concat (map clientRecord cs) @ rest) = Some (map saved_client cs)"
  by (induction cs) (simp_all add: readClient_clientRecord)

lemma repair_next_id: "\<forall>p \<in> set ps. post_seq p < next \<Longrightarrow> repair_next ps next = next"
  unfolding repair_next_def by (induction ps) (auto simp: not_le [symmetric])

lemma parseState_stateBlob:
  assumes "list_all post_ok (posts r)" and "list_all (\<lambda>c. length (cl_pk c) = 32) (clients r)"
    and "length (posts r) \<le> MAX_POSTS" and "length (clients r) \<le> MAX_ROOM_CLIENTS"
    and "\<forall>p \<in> set (posts r). post_seq p < nextSeq r"
  shows "parseState (stateBlob r) = Some (2, nextSeq r, posts r, map saved_client (clients r))"
proof -
  let ?cs = "of_nat (length (clients r)) # concat (map clientRecord (clients r)) :: bytes"
  have n: "unat (of_nat (length (posts r)) :: byte) = length (posts r)"
      "unat (of_nat (length (clients r)) :: byte) = length (clients r)"
    using assms(3,4) by (simp_all add: unat_of_nat_byte)
  have "readPosts 2 (length (posts r)) (nextSeq r) (concat (map postRecord (posts r)) @ ?cs) = Some (posts r, nextSeq r, ?cs)"
    using assms(1) by (rule readPosts_records)
  moreover have "readClients (length (clients r)) (concat (map clientRecord (clients r))) = Some (map saved_client (clients r))"
    using readClients_records [OF assms(2), of "[]"] by simp
  ultimately show ?thesis
    using n assms(3,4) repair_next_id [OF assms(5)] by (simp add: parseState_def stateBlob_def Let_def)
qed

lemma post_seq_below: "room_ok r \<Longrightarrow> seqs_fresh r \<Longrightarrow> p \<in> set (posts r) \<Longrightarrow> post_seq p < nextSeq r"
  by (auto simp: in_set_conv_nth post_seq_nat word_less_nat_alt seqs_fresh_def)

text \<open>
  C25. What the room saves it gets back, and a save that fails costs nothing: after a flush a new room loads the same board,
  the next number and every client with rights, bookmark and login time; when writing or renaming fails the file
  that was there before is untouched.
\<close>

theorem room_file_roundtrip:
  assumes "room_ok r" and "seqs_fresh r" and "room_dir r = dir" and "dir \<noteq> []" and "room_flush written renamed r fs = (ok, fs')"
  shows "(ok \<longleftrightarrow> written \<and> renamed)
    \<and> (ok \<longrightarrow> room_load True dir fs' (room_new cfg policy h) =
          (True, (room_new cfg policy h)\<lparr>room_dir := dir, posts := posts r, clients := map saved_client (clients r), nextSeq := nextSeq r\<rparr>))
    \<and> (\<not> ok \<longrightarrow> fs' (dir @ ''/room.dat'') = fs (dir @ ''/room.dat''))"
proof -
  let ?t = "dir @ ''/room.dat''" and ?f = "\<lparr>kf_regular = True, kf_mode = 0x180, kf_content = stateBlob r\<rparr>"
  have ne: "?t \<noteq> ?t @ ''.tmp''" by simp
  have p: "parseState (stateBlob r) = Some (2, nextSeq r, posts r, map saved_client (clients r))"
    using assms(1) post_seq_below [OF assms(1,2)] by (intro parseState_stateBlob) (simp_all add: room_ok_def)
  show ?thesis
  proof (cases "written \<and> renamed")
    case True
    then have "ok" "fs' ?t = Some ?f" using assms(3-5) ne by (auto simp: room_flush_def writeState_def Let_def)
    then show ?thesis using True p by (simp add: room_load_def readState_def room_new_def)
  next
    case False
    then have "\<not> ok" "fs' ?t = fs ?t" using assms(3-5) ne by (auto simp: room_flush_def writeState_def Let_def split: if_splits)
    then show ?thesis using False by simp
  qed
qed

theorem room_file_roundtrip_witness:
  "fst (room_load True ''d'' (snd (room_flush True True ((room_new room_config_default None ())\<lparr>room_dir := ''d''\<rparr>) (\<lambda>_. None)))
     (room_new room_config_default None ()))"
proof -
  let ?r = "(room_new room_config_default None ())\<lparr>room_dir := ''d''\<rparr>"
  have "room_ok ?r" using room_new_ok by (rule room_ok_cong) simp_all
  moreover have "seqs_fresh ?r" by (simp add: seqs_fresh_def room_new_def)
  moreover have "fst (room_flush True True ?r (\<lambda>_. None))" by (simp add: room_flush_def writeState_def Let_def)
  ultimately show ?thesis
    using room_file_roundtrip [of ?r "''d''" True True "\<lambda>_. None" True "snd (room_flush True True ?r (\<lambda>_. None))" room_config_default None "()"]
    by (cases "room_flush True True ?r (\<lambda>_. None)") simp
qed

lemma seq_scan_cautious:
  "sorted_wrt (\<lambda>p q. post_seq p < post_seq q) ps \<Longrightarrow> \<forall>p \<in> set ps. start < post_seq p \<Longrightarrow> p \<in> set ps
     \<Longrightarrow> post_seq p \<le> seq_scan b start ps \<Longrightarrow> post_timestamp p \<le> b"
proof (induction ps arbitrary: start)
  case (Cons q ps)
  show ?case
  proof (cases "post_timestamp q > b")
    case True
    then have "post_seq p \<le> start" using Cons.prems(4) by simp
    then show ?thesis using Cons.prems(2,3) by (auto dest: leD)
  next
    case False
    then have "p = q \<or> post_timestamp p \<le> b" using Cons by auto
    then show ?thesis using False by auto
  qed
qed simp

text \<open>
  Translating a client's time bookmark into a number is cautious: no post the client has not seen, by its own clock, is at
  or below it, in whatever order the timestamps on the board are.
\<close>

theorem bookmark_translation_cautious:
  assumes "room_ok r" and "seqs_fresh r" and "p \<in> set (posts r)" and "post_timestamp p > bookmark"
  shows "post_seq p > seqFromTimestamp bookmark r"
proof (rule ccontr)
  have "0 < post_seq q" if "q \<in> set (posts r)" for q
    using that assms(1,2) by (auto simp: in_set_conv_nth post_seq_nat word_less_nat_alt seqs_fresh_def)
  moreover assume "\<not> post_seq p > seqFromTimestamp bookmark r"
  ultimately have "post_timestamp p \<le> bookmark"
    using seq_scan_cautious [OF posts_ascending [OF assms(1,2)] _ assms(3), of 0 bookmark]
    by (auto simp: seqFromTimestamp_def not_less)
  then show False using assms(4) by (simp add: leD)
qed

theorem bookmark_translation_cautious_witness:
  "seqFromTimestamp 3 (store_post (replicate 32 7) 5 [1] (room_new room_config_default None ())) < 1"
proof -
  let ?r = "store_post (replicate 32 7) 5 [1] (room_new room_config_default None ())"
  have "room_ok ?r" by (rule store_post_ok [OF room_new_ok]) simp
  moreover have "seqs_fresh ?r" "\<exists>p. posts ?r = [p] \<and> post_seq p = 1 \<and> post_timestamp p = 5"
    by (simp_all add: seqs_fresh_def store_post_def room_new_def sanitiseTimestamp_def)
  ultimately show ?thesis using bookmark_translation_cautious [of ?r _ 3] by fastforce
qed

end
