(* ===== verification/Json_Text.thy ===== *)
theory Json_Text
  imports Room_Text
begin

text \<open>
  The characters of the JSON library the node is built with (\<^verbatim>\<open>src/lib/json/include/nlohmann/detail\<close>): how strings and
  integers are written (\<^verbatim>\<open>output/serializer.hpp\<close>) and read (\<^verbatim>\<open>input/lexer.hpp\<close>). The serializer is the one of
  \<^verbatim>\<open>dump(2)\<close> and \<^verbatim>\<open>dump()\<close>: text that is not UTF-8 is an exception and nothing is escaped that need not be. A read
  of the input is the head of a list, and a character put back is one not taken.
\<close>

unbundle bit_operations_syntax

section \<open>Writing strings\<close>

text \<open>The automaton of Bjoern Hoehrmann: a row of 16 classes for each of the nine states, behind the class of each byte.\<close>

definition utf8_rows :: "byte list" where
  "utf8_rows =
     [0, 1, 2, 3, 5, 8, 7, 1, 1, 1, 4, 6, 1, 1, 1, 1,
      1, 1, 1, 1, 1, 1, 1, 1, 1, 1, 1, 1, 1, 1, 1, 1,  1, 0, 1, 1, 1, 1, 1, 0, 1, 0, 1, 1, 1, 1, 1, 1,
      1, 2, 1, 1, 1, 1, 1, 2, 1, 2, 1, 1, 1, 1, 1, 1,  1, 1, 1, 1, 1, 1, 1, 2, 1, 1, 1, 1, 1, 1, 1, 1,
      1, 2, 1, 1, 1, 1, 1, 1, 1, 2, 1, 1, 1, 1, 1, 1,  1, 1, 1, 1, 1, 1, 1, 3, 1, 3, 1, 1, 1, 1, 1, 1,
      1, 3, 1, 1, 1, 1, 1, 3, 1, 3, 1, 1, 1, 1, 1, 1,  1, 3, 1, 1, 1, 1, 1, 1, 1, 1, 1, 1, 1, 1, 1, 1]"

definition utf8d :: "byte list" where
  "utf8d =
     replicate 128 0 @ replicate 16 1 @ replicate 16 9 @ replicate 32 7 @ [8, 8] @ replicate 30 2
     @ [0xA, 3, 3, 3, 3, 3, 3, 3, 3, 3, 3, 3, 3, 4, 3, 3] @ [0xB, 6, 6, 6, 5, 8, 8, 8, 8, 8, 8, 8, 8, 8, 8, 8]
     @ utf8_rows"

abbreviation (input) UTF8_ACCEPT :: byte where "UTF8_ACCEPT \<equiv> 0"
abbreviation (input) UTF8_REJECT :: byte where "UTF8_REJECT \<equiv> 1"

text \<open>The new state and the code point so far.\<close>

definition decode :: "byte \<Rightarrow> u32 \<Rightarrow> byte \<Rightarrow> byte \<times> u32" where
  "decode state codep b =
     (let type = utf8d ! unat b;
          codep = (if state \<noteq> UTF8_ACCEPT then (ucast b AND 0x3F) OR push_bit 6 codep
                   else drop_bit (unat type) 0xFF AND ucast b)
      in (utf8d ! (256 + unat state * 16 + unat type), codep))"

text \<open>\<open>Type_Error\<close> is exception 316; \<open>Overrun\<close> a write past the end of an array.\<close>

datatype json_error = Type_Error | Overrun

definition append_buffer :: "nat \<Rightarrow> bytes \<Rightarrow> bytes \<Rightarrow> json_error + bytes" where
  "append_buffer spare new buffer = (if length buffer + length new + spare \<le> 512 then Inr (buffer @ new) else Inl Overrun)"

definition fmt_04x :: "u32 \<Rightarrow> bytes" where
  "fmt_04x v = fmt_02x (ucast (drop_bit 8 v)) @ fmt_02x (ucast v)"

text \<open>What a decoded code point adds to the buffer; \<^verbatim>\<open>snprintf\<close> also writes a terminator.\<close>

definition escape_codepoint :: "u32 \<Rightarrow> byte \<Rightarrow> bytes \<Rightarrow> json_error + bytes" where
  "escape_codepoint codepoint b buffer =
     (if codepoint = 0x08 then append_buffer 0 [0x5C, 0x62] buffer
      else if codepoint = 0x09 then append_buffer 0 [0x5C, 0x74] buffer
      else if codepoint = 0x0A then append_buffer 0 [0x5C, 0x6E] buffer
      else if codepoint = 0x0C then append_buffer 0 [0x5C, 0x66] buffer
      else if codepoint = 0x0D then append_buffer 0 [0x5C, 0x72] buffer
      else if codepoint = 0x22 then append_buffer 0 [0x5C, 0x22] buffer
      else if codepoint = 0x5C then append_buffer 0 [0x5C, 0x5C] buffer
      else if codepoint \<le> 0x1F then append_buffer 1 ([0x5C, 0x75] @ fmt_04x codepoint) buffer
      else append_buffer 0 [b] buffer)"

text \<open>The loop over the string: state, code point, \<^verbatim>\<open>string_buffer\<close> up to \<^verbatim>\<open>bytes\<close>, and what was written out.\<close>

fun dump_loop :: "bytes \<Rightarrow> byte \<Rightarrow> u32 \<Rightarrow> bytes \<Rightarrow> bytes \<Rightarrow> json_error + bytes" where
  "dump_loop [] state codepoint buffer out = (if state = UTF8_ACCEPT then Inr (out @ buffer) else Inl Type_Error)"
| "dump_loop (b # s) state codepoint buffer out =
     (let (state, codepoint) = decode state codepoint b in
      if state = UTF8_ACCEPT then
        (case escape_codepoint codepoint b buffer of Inl e \<Rightarrow> Inl e
         | Inr buffer \<Rightarrow>
           if 512 - length buffer < 13 then dump_loop s state codepoint [] (out @ buffer)
           else dump_loop s state codepoint buffer out)
      else if state = UTF8_REJECT then Inl Type_Error
      else case append_buffer 0 [b] buffer of Inl e \<Rightarrow> Inl e | Inr buffer \<Rightarrow> dump_loop s state codepoint buffer out)"

definition dump_escaped :: "bytes \<Rightarrow> json_error + bytes" where
  "dump_escaped s = dump_loop s UTF8_ACCEPT 0 [] []"

section \<open>Writing integers\<close>

function count_digits :: "u64 \<Rightarrow> nat \<Rightarrow> nat" where
  "count_digits x n_digits =
     (if x < 10 then n_digits else if x < 100 then n_digits + 1 else if x < 1000 then n_digits + 2
      else if x < 10000 then n_digits + 3 else count_digits (x div 10000) (n_digits + 4))"
  by pat_completeness auto
termination
proof (relation "measure (\<lambda>(x, n). unat x)")
  fix x n :: "u64"
  fix m :: nat
  assume "\<not> x < 10000"
  then have "unat x > 0" by (auto simp: word_less_nat_alt)
  then show "((x div 10000, m + 4), x, m) \<in> measure (\<lambda>(x, n). unat x)" by (simp add: unat_div)
qed simp

declare count_digits.simps [simp del]

text \<open>A store in front of the pointer; in front of the array it is an overrun.\<close>

definition put_back :: "byte \<Rightarrow> bytes \<times> nat \<Rightarrow> json_error + (bytes \<times> nat)" where
  "put_back d p = (case p of (buffer, 0) \<Rightarrow> Inl Overrun
     | (buffer, Suc i) \<Rightarrow> if i < length buffer then Inr (buffer[i := d], i) else Inl Overrun)"

definition put_two :: "u64 \<Rightarrow> bytes \<times> nat \<Rightarrow> json_error + (bytes \<times> nat)" where
  "put_two index p =
     (case put_back (0x30 + ucast (index mod 10)) p of Inl e \<Rightarrow> Inl e
      | Inr p \<Rightarrow> put_back (0x30 + ucast (index div 10)) p)"

function put_pairs :: "u64 \<Rightarrow> bytes \<times> nat \<Rightarrow> json_error + (u64 \<times> bytes \<times> nat)" where
  "put_pairs abs_value p =
     (if abs_value \<ge> 100 then
        (case put_two (abs_value mod 100) p of Inl e \<Rightarrow> Inl e | Inr p \<Rightarrow> put_pairs (abs_value div 100) p)
      else Inr (abs_value, p))"
  by pat_completeness auto
termination
proof (relation "measure (\<lambda>(x, p). unat x)")
  fix x :: u64
  fix p q :: "bytes \<times> nat"
  assume "x \<ge> 100"
  then have "unat x > 0" by (auto simp: word_le_nat_alt)
  then show "((x div 100, q), x, p) \<in> measure (\<lambda>(x, p). unat x)" by (simp add: unat_div)
qed simp

declare put_pairs.simps [simp del]

text \<open>The digits of \<open>abs_value\<close> behind what is in front of them in the buffer, and how long that is.\<close>

definition dump_digits :: "u64 \<Rightarrow> bytes \<Rightarrow> nat \<Rightarrow> json_error + bytes" where
  "dump_digits abs_value buffer n_chars =
     (case put_pairs abs_value (buffer, n_chars) of Inl e \<Rightarrow> Inl e
      | Inr (abs_value, p) \<Rightarrow>
        (case (if abs_value \<ge> 10 then put_two abs_value p else put_back (0x30 + ucast abs_value) p) of Inl e \<Rightarrow> Inl e
         | Inr (buffer, _) \<Rightarrow> Inr (take n_chars buffer)))"

text \<open>\<open>buffer\<close> is the array \<^verbatim>\<open>number_buffer\<close> of 64 characters, as the last number left it.\<close>

definition dump_unsigned :: "bytes \<Rightarrow> u64 \<Rightarrow> json_error + bytes" where
  "dump_unsigned buffer x = (if x = 0 then Inr [0x30] else dump_digits x buffer (count_digits x 1))"

definition remove_sign :: "int \<Rightarrow> u64" where
  "remove_sign x = of_int (- (x + 1)) + 1"

definition dump_signed :: "bytes \<Rightarrow> int \<Rightarrow> json_error + bytes" where
  "dump_signed buffer x =
     (if x = 0 then Inr [0x30]
      else if x < 0 then dump_digits (remove_sign x) (buffer[0 := 0x2D]) (1 + count_digits (remove_sign x) 1)
      else dump_digits (of_int x) buffer (count_digits (of_int x) 1))"

section \<open>Reading strings\<close>

definition hex_nibble :: "byte \<Rightarrow> u32 option" where
  "hex_nibble c =
     (if 0x30 \<le> c \<and> c \<le> 0x39 then Some (ucast c - 0x30)
      else if 0x41 \<le> c \<and> c \<le> 0x46 then Some (ucast c - 0x37)
      else if 0x61 \<le> c \<and> c \<le> 0x66 then Some (ucast c - 0x57) else None)"

fun codepoint_loop :: "nat list \<Rightarrow> u32 \<Rightarrow> bytes \<Rightarrow> (u32 \<times> bytes) option" where
  "codepoint_loop [] codepoint inp = Some (codepoint, inp)"
| "codepoint_loop (factor # factors) codepoint [] = None"
| "codepoint_loop (factor # factors) codepoint (c # inp) =
     (case hex_nibble c of None \<Rightarrow> None
      | Some d \<Rightarrow> codepoint_loop factors (codepoint + push_bit factor d) inp)"

definition get_codepoint :: "bytes \<Rightarrow> (u32 \<times> bytes) option" where
  "get_codepoint inp = codepoint_loop [12, 8, 4, 0] 0 inp"

definition codepoint_bytes :: "u32 \<Rightarrow> bytes" where
  "codepoint_bytes cp =
     (if cp < 0x80 then [ucast cp]
      else if cp \<le> 0x7FF then [ucast (0xC0 OR drop_bit 6 cp), ucast (0x80 OR (cp AND 0x3F))]
      else if cp \<le> 0xFFFF then
        [ucast (0xE0 OR drop_bit 12 cp), ucast (0x80 OR (drop_bit 6 cp AND 0x3F)), ucast (0x80 OR (cp AND 0x3F))]
      else [ucast (0xF0 OR drop_bit 18 cp), ucast (0x80 OR (drop_bit 12 cp AND 0x3F)),
            ucast (0x80 OR (drop_bit 6 cp AND 0x3F)), ucast (0x80 OR (cp AND 0x3F))])"

text \<open>After \<^verbatim>\<open>\u\<close>: a code point, or the two halves of one.\<close>

definition scan_unicode :: "bytes \<Rightarrow> (bytes \<times> bytes) option" where
  "scan_unicode inp =
     (case get_codepoint inp of None \<Rightarrow> None
      | Some (codepoint1, inp) \<Rightarrow>
        if 0xD800 \<le> codepoint1 \<and> codepoint1 \<le> 0xDBFF then
          (case inp of
             backslash # u # inp \<Rightarrow>
               if backslash \<noteq> 0x5C \<or> u \<noteq> 0x75 then None else
               (case get_codepoint inp of None \<Rightarrow> None
                | Some (codepoint2, inp) \<Rightarrow>
                  if 0xDC00 \<le> codepoint2 \<and> codepoint2 \<le> 0xDFFF
                  then Some (codepoint_bytes (push_bit 10 codepoint1 + codepoint2 - 0x35FDC00), inp) else None)
           | _ \<Rightarrow> None)
        else if 0xDC00 \<le> codepoint1 \<and> codepoint1 \<le> 0xDFFF then None
        else Some (codepoint_bytes codepoint1, inp))"

definition scan_escape :: "bytes \<Rightarrow> (bytes \<times> bytes) option" where
  "scan_escape inp =
     (case inp of [] \<Rightarrow> None
      | c # inp \<Rightarrow>
        if c = 0x22 then Some ([0x22], inp)
        else if c = 0x5C then Some ([0x5C], inp)
        else if c = 0x2F then Some ([0x2F], inp)
        else if c = 0x62 then Some ([0x08], inp)
        else if c = 0x66 then Some ([0x0C], inp)
        else if c = 0x6E then Some ([0x0A], inp)
        else if c = 0x72 then Some ([0x0D], inp)
        else if c = 0x74 then Some ([0x09], inp)
        else if c = 0x75 then scan_unicode inp
        else None)"

fun next_byte_in_range :: "(byte \<times> byte) list \<Rightarrow> bytes \<Rightarrow> (bytes \<times> bytes) option" where
  "next_byte_in_range [] inp = Some ([], inp)"
| "next_byte_in_range (r # ranges) [] = None"
| "next_byte_in_range ((low, high) # ranges) (c # inp) =
     (if low \<le> c \<and> c \<le> high then map_option (apfst (Cons c)) (next_byte_in_range ranges inp) else None)"

text \<open>The switch over a first byte that is neither a quote nor a backslash: the ranges of the bytes that follow it.\<close>

definition ranges_after :: "byte \<Rightarrow> (byte \<times> byte) list option" where
  "ranges_after c =
     (if c \<le> 0x1F then None
      else if c \<le> 0x7F then Some []
      else if c \<le> 0xC1 then None
      else if c \<le> 0xDF then Some [(0x80, 0xBF)]
      else if c = 0xE0 then Some [(0xA0, 0xBF), (0x80, 0xBF)]
      else if c = 0xED then Some [(0x80, 0x9F), (0x80, 0xBF)]
      else if c \<le> 0xEF then Some [(0x80, 0xBF), (0x80, 0xBF)]
      else if c = 0xF0 then Some [(0x90, 0xBF), (0x80, 0xBF), (0x80, 0xBF)]
      else if c \<le> 0xF3 then Some [(0x80, 0xBF), (0x80, 0xBF), (0x80, 0xBF)]
      else if c = 0xF4 then Some [(0x80, 0x8F), (0x80, 0xBF), (0x80, 0xBF)]
      else None)"

text \<open>What one step of the loop adds to the token, and what is left.\<close>

definition scan_char :: "byte \<Rightarrow> bytes \<Rightarrow> (bytes \<times> bytes) option" where
  "scan_char c inp =
     (if c = 0x5C then scan_escape inp
      else case ranges_after c of None \<Rightarrow> None
      | Some ranges \<Rightarrow> map_option (apfst (Cons c)) (next_byte_in_range ranges inp))"

lemma codepoint_loop_shorter: "codepoint_loop fs cp inp = Some (v, r) \<Longrightarrow> length r \<le> length inp"
  by (induction fs cp inp rule: codepoint_loop.induct) (auto split: option.splits)

lemma next_byte_shorter: "next_byte_in_range rs inp = Some (v, r) \<Longrightarrow> length r \<le> length inp"
  by (induction rs inp arbitrary: v rule: next_byte_in_range.induct) (fastforce split: if_splits)+

lemma scan_unicode_shorter: "scan_unicode inp = Some (v, r) \<Longrightarrow> length r \<le> length inp"
  by (auto simp: scan_unicode_def get_codepoint_def split: option.splits if_splits list.splits dest!: codepoint_loop_shorter)

lemma scan_char_shorter: "scan_char c inp = Some (v, r) \<Longrightarrow> length r \<le> length inp"
  by (auto simp: scan_char_def scan_escape_def split: option.splits if_splits list.splits
      dest!: scan_unicode_shorter next_byte_shorter)

text \<open>From behind the opening quote: the token and what follows the closing quote.\<close>

function scan_string :: "bytes \<Rightarrow> bytes \<Rightarrow> (bytes \<times> bytes) option" where
  "scan_string token_buffer [] = None"
| "scan_string token_buffer (c # inp) =
     (if c = 0x22 then Some (token_buffer, inp) else
      case scan_char c inp of None \<Rightarrow> None
      | Some (added, inp) \<Rightarrow> scan_string (token_buffer @ added) inp)"
  by pat_completeness auto
termination
  by (relation "measure (length \<circ> snd)") (auto dest: scan_char_shorter)

end
