(* ===== verification/Std_Map.thy ===== *)
theory Std_Map
  imports MC_Prelude "HOL-Library.Char_ord" "HOL-Library.List_Lexorder"
begin

text \<open>
  The ordered maps of the C++ library, as the configuration, the memory store and the JSON documents keep them. A
  \<^verbatim>\<open>std::string\<close> key compares byte by byte, as \<open>string\<close> does.
\<close>

section \<open>Ordered maps\<close>

text \<open>\<^verbatim>\<open>std::map\<close>: pairs in ascending order of their keys.\<close>

type_synonym ('k, 'v) std_map = "('k \<times> 'v) list"

fun map_insert :: "'k::linorder \<Rightarrow> 'v \<Rightarrow> ('k, 'v) std_map \<Rightarrow> ('k, 'v) std_map" where
  "map_insert k v [] = [(k, v)]"
| "map_insert k v ((k', v') # m) =
     (if k = k' then (k, v) # m else if k < k' then (k, v) # (k', v') # m else (k', v') # map_insert k v m)"

definition map_erase :: "'k \<Rightarrow> ('k, 'v) std_map \<Rightarrow> ('k, 'v) std_map" where
  "map_erase k m = filter (\<lambda>e. fst e \<noteq> k) m"

definition map_sorted :: "('k::linorder, 'v) std_map \<Rightarrow> bool" where
  "map_sorted m \<longleftrightarrow> sorted_wrt (<) (map fst m)"

section \<open>Ordered maps behave as maps\<close>

locale key_value =
  fixes lookup :: "'m \<Rightarrow> 'k \<Rightarrow> 'v option" and put :: "'k \<Rightarrow> 'v \<Rightarrow> 'm \<Rightarrow> 'm" and remove :: "'k \<Rightarrow> 'm \<Rightarrow> 'm" and ok :: "'m \<Rightarrow> bool"
  assumes lookup_put: "ok m \<Longrightarrow> lookup (put k v m) = (lookup m)(k \<mapsto> v)"
    and lookup_remove: "ok m \<Longrightarrow> lookup (remove k m) = (lookup m)(k := None)"
    and ok_put: "ok m \<Longrightarrow> ok (put k v m)" and ok_remove: "ok m \<Longrightarrow> ok (remove k m)"
    and same: "ok m \<Longrightarrow> ok m' \<Longrightarrow> lookup m = lookup m' \<Longrightarrow> m = m'"
begin

lemma rollback: "ok m \<Longrightarrow> (case lookup m k of Some old \<Rightarrow> put k old (put k v m) | None \<Rightarrow> remove k (put k v m)) = m"
  by (cases "lookup m k") (auto simp: ok_put ok_remove lookup_put lookup_remove fun_upd_idem intro!: same)

end

lemma map_insert_keys: "fst ` set (map_insert k v m) = insert k (fst ` set m)"
  by (induction k v m rule: map_insert.induct) auto

lemma map_of_insert: "map_sorted m \<Longrightarrow> map_of (map_insert k v m) = (map_of m)(k \<mapsto> v)"
proof (induction k v m rule: map_insert.induct)
  case (2 k v k' v' m)
  then show ?case by (auto simp: map_sorted_def)
qed simp

lemma map_insert_sorted: "map_sorted m \<Longrightarrow> map_sorted (map_insert k v m)"
proof (induction k v m rule: map_insert.induct)
  case (2 k v k' v' m)
  have "\<forall>x \<in> fst ` set (map_insert k v m). k' < x" if "k' < k" using 2 that by (auto simp: map_insert_keys map_sorted_def)
  then show ?case using 2 by (auto simp: map_sorted_def)
qed (simp add: map_sorted_def)

lemma map_of_erase: "map_of (map_erase k m) = (map_of m)(k := None)"
  by (induction m) (auto simp: map_erase_def)

lemma map_erase_sorted: "map_sorted m \<Longrightarrow> map_sorted (map_erase k m)"
  by (induction m) (auto simp: map_sorted_def map_erase_def)

lemma map_sorted_unique: "map_sorted m \<Longrightarrow> map_sorted m' \<Longrightarrow> map_of m = map_of m' \<Longrightarrow> m = m'"
proof -
  assume s: "map_sorted m" "map_sorted m'" and eq: "map_of m = map_of m'"
  have d: "distinct (map fst m)" "distinct (map fst m')"
    using s strict_sorted_iff by (auto simp: map_sorted_def)
  have "set m = set m'" using eq d by (metis map_of_inject_set)
  moreover have "sorted (map fst m)" "sorted (map fst m')" using s strict_sorted_iff by (auto simp: map_sorted_def)
  ultimately show ?thesis using d map_sorted_distinct_set_unique [of fst m m'] by (simp add: distinct_map)
qed

interpretation std: key_value "map_of :: (string \<times> bytes) list \<Rightarrow> string \<Rightarrow> bytes option" map_insert map_erase map_sorted
  by unfold_locales (auto simp: map_of_insert map_of_erase map_insert_sorted map_erase_sorted intro: map_sorted_unique)

lemma map_sorted_Nil [simp]: "map_sorted []"
  by (simp add: map_sorted_def)

lemma map_insert_last: "sorted_wrt (<) (map fst m @ [k]) \<Longrightarrow> map_insert k v m = m @ [(k, v)]"
  by (induction k v m rule: map_insert.induct) (auto simp: sorted_wrt_append)

end
