(* ===== verification/Json_Document.thy ===== *)
theory Json_Document
  imports Json_Text Std_Map
begin

text \<open>
  The documents of the JSON library: the lexer (\<^verbatim>\<open>input/lexer.hpp\<close>), the parser (\<^verbatim>\<open>input/parser.hpp\<close>) and the document it
  builds (\<^verbatim>\<open>input/json_sax.hpp\<close>), and the serializer (\<^verbatim>\<open>output/serializer.hpp\<close>), as \<^verbatim>\<open>Json::parse\<close> and \<^verbatim>\<open>dump\<close> of the
  node's configuration use them.
\<close>

section \<open>Documents\<close>

text \<open>
  A value of \<^verbatim>\<open>basic_json\<close>. \<open>JFloat\<close> carries the text the library prints for the number. Members are in the order of
  the \<^verbatim>\<open>std::map\<close>; binary values come only from the binary formats.
\<close>

datatype Json = JNull | JBool bool | JUnsigned u64 | JInteger int | JFloat bytes | JString bytes
  | JArray "Json list" | JObject "(string \<times> Json) list"

section \<open>Tokens\<close>

text \<open>What \<^verbatim>\<open>scan\<close> returns, with the value the lexer holds then; the two kinds that only name a token in a message are left out.\<close>

datatype token_type = literal_true | literal_false | literal_null | value_string bytes | value_unsigned u64
  | value_integer int | value_float bytes | begin_array | begin_object | end_array | end_object
  | name_separator | value_separator | parse_error | end_of_input

text \<open>The labels of \<^verbatim>\<open>scan_number\<close>, and where each character leads; \<open>None\<close> is the default of the switch.\<close>

datatype number_state = minus_seen | zero_seen | any1 | decimal1 | decimal2 | exponent | sign_seen | any2

definition number_first :: "byte \<Rightarrow> number_state option" where
  "number_first c = (if c = 0x2D then Some minus_seen else if c = 0x30 then Some zero_seen
     else if 0x31 \<le> c \<and> c \<le> 0x39 then Some any1 else None)"

fun number_next :: "number_state \<Rightarrow> byte \<Rightarrow> number_state option" where
  "number_next minus_seen c = (if c = 0x30 then Some zero_seen else if 0x31 \<le> c \<and> c \<le> 0x39 then Some any1 else None)"
| "number_next zero_seen c = (if c = 0x2E then Some decimal1 else if c = 0x65 \<or> c = 0x45 then Some exponent else None)"
| "number_next any1 c = (if is_digit c then Some any1 else if c = 0x2E then Some decimal1
     else if c = 0x65 \<or> c = 0x45 then Some exponent else None)"
| "number_next decimal1 c = (if is_digit c then Some decimal2 else None)"
| "number_next decimal2 c = (if is_digit c then Some decimal2 else if c = 0x65 \<or> c = 0x45 then Some exponent else None)"
| "number_next exponent c = (if c = 0x2B \<or> c = 0x2D then Some sign_seen else if is_digit c then Some any2 else None)"
| "number_next sign_seen c = (if is_digit c then Some any2 else None)"
| "number_next any2 c = (if is_digit c then Some any2 else None)"

text \<open>Where the default is \<^verbatim>\<open>goto scan_number_done\<close>; elsewhere it is an error.\<close>

fun number_done :: "number_state \<Rightarrow> bool" where
  "number_done zero_seen = True" | "number_done any1 = True" | "number_done decimal2 = True" | "number_done any2 = True"
| "number_done _ = False"

datatype number_type = Unsigned | Integer | Float

text \<open>What \<^verbatim>\<open>number_type\<close> is set to on the way.\<close>

fun number_type_at :: "number_state \<Rightarrow> number_type \<Rightarrow> number_type" where
  "number_type_at minus_seen t = Integer" | "number_type_at decimal1 t = Float" | "number_type_at exponent t = Float"
| "number_type_at _ t = t"

fun number_loop :: "number_state \<Rightarrow> number_type \<Rightarrow> bytes \<Rightarrow> bytes \<Rightarrow> (number_type \<times> bytes \<times> bytes) option" where
  "number_loop state ty buffer [] = (if number_done state then Some (ty, buffer, []) else None)"
| "number_loop state ty buffer (c # inp) =
     (case number_next state c of
        Some state' \<Rightarrow> number_loop state' (number_type_at state' ty) (buffer @ [c]) inp
      | None \<Rightarrow> if number_done state then Some (ty, buffer, c # inp) else None)"

text \<open>
  \<^verbatim>\<open>strtoull\<close> and \<^verbatim>\<open>strtoll\<close>; out of range, the digits are read as a floating-point number. The locale is the one of
  a program that never sets it.
\<close>

definition convert_number :: "number_type \<Rightarrow> bytes \<Rightarrow> token_type" where
  "convert_number ty buffer =
     (case ty of
        Unsigned \<Rightarrow> if digits_value buffer < 2 ^ 64 then value_unsigned (of_int (digits_value buffer)) else value_float buffer
      | Integer \<Rightarrow> if - digits_value (tl buffer) \<ge> - (2 ^ 63) then value_integer (- digits_value (tl buffer)) else value_float buffer
      | Float \<Rightarrow> value_float buffer)"

definition scan_number :: "byte \<Rightarrow> bytes \<Rightarrow> token_type \<times> bytes" where
  "scan_number c inp =
     (case number_first c of None \<Rightarrow> (parse_error, inp)
      | Some state \<Rightarrow>
        (case number_loop state (number_type_at state Unsigned) [c] inp of None \<Rightarrow> (parse_error, [])
         | Some (ty, buffer, inp) \<Rightarrow> (convert_number ty buffer, inp)))"

text \<open>The rest of a literal behind its first letter. What is left of the input after an error is never read.\<close>

definition scan_literal :: "bytes \<Rightarrow> token_type \<Rightarrow> bytes \<Rightarrow> token_type \<times> bytes" where
  "scan_literal literal_text return_type inp =
     (if take (length literal_text) inp = literal_text then (return_type, drop (length literal_text) inp) else (parse_error, []))"

definition is_whitespace :: "byte \<Rightarrow> bool" where
  "is_whitespace c \<longleftrightarrow> c = 0x20 \<or> c = 9 \<or> c = 0xA \<or> c = 0xD"

definition skip_whitespace :: "bytes \<Rightarrow> bytes" where
  "skip_whitespace inp = dropWhile is_whitespace inp"

text \<open>Comments are not skipped: neither call of the node asks for it. A zero byte ends the input.\<close>

definition scan :: "bytes \<Rightarrow> token_type \<times> bytes" where
  "scan inp =
     (case skip_whitespace inp of [] \<Rightarrow> (end_of_input, [])
      | current # inp \<Rightarrow>
        if current = 0x5B then (begin_array, inp)
        else if current = 0x5D then (end_array, inp)
        else if current = 0x7B then (begin_object, inp)
        else if current = 0x7D then (end_object, inp)
        else if current = 0x3A then (name_separator, inp)
        else if current = 0x2C then (value_separator, inp)
        else if current = 0x74 then scan_literal (ascii ''rue'') literal_true inp
        else if current = 0x66 then scan_literal (ascii ''alse'') literal_false inp
        else if current = 0x6E then scan_literal (ascii ''ull'') literal_null inp
        else if current = 0x22 then
          (case scan_string [] inp of None \<Rightarrow> (parse_error, []) | Some (s, inp) \<Rightarrow> (value_string s, inp))
        else if current = 0x2D \<or> is_digit current then scan_number current inp
        else if current = 0 then (end_of_input, inp)
        else (parse_error, []))"

definition skip_bom :: "bytes \<Rightarrow> bytes option" where
  "skip_bom inp =
     (case inp of c # inp' \<Rightarrow>
        if c = 0xEF then
          (case inp' of c1 # c2 # inp' \<Rightarrow> if c1 = 0xBB \<and> c2 = 0xBF then Some inp' else None | _ \<Rightarrow> None)
        else Some inp
      | [] \<Rightarrow> Some inp)"

definition first_token :: "bytes \<Rightarrow> token_type \<times> bytes" where
  "first_token inp = (case skip_bom inp of None \<Rightarrow> (parse_error, []) | Some inp \<Rightarrow> scan inp)"

lemma number_loop_shorter: "number_loop st ty buffer inp = Some (ty', buffer', r) \<Longrightarrow> length r \<le> length inp"
  by (induction st ty buffer inp rule: number_loop.induct) (auto split: option.splits if_splits)

lemma scan_string_shorter: "scan_string token inp = Some (s, r) \<Longrightarrow> length r < length inp"
  by (induction token inp rule: scan_string.induct) (fastforce split: if_splits option.splits dest: scan_char_shorter)+

lemma scan_shorter:
  assumes "scan inp = (tok, r)"
  shows "length r \<le> length inp \<and> (tok \<noteq> end_of_input \<longrightarrow> length r < length inp)"
proof -
  have l: "length (skip_whitespace inp) \<le> length inp" by (simp add: skip_whitespace_def length_dropWhile_le)
  show ?thesis
  proof (cases "skip_whitespace inp")
    case Nil
    then show ?thesis using assms by (simp add: scan_def)
  next
    case (Cons c i)
    then have "length i < length inp" using l by simp
    moreover have "length r \<le> length i"
      using assms Cons by (auto simp: scan_def scan_literal_def scan_number_def split: if_splits option.splits
        dest!: number_loop_shorter scan_string_shorter)
    ultimately show ?thesis by simp
  qed
qed

section \<open>The document under construction\<close>

text \<open>
  \<^verbatim>\<open>json_sax_dom_parser\<close>: the root and the containers still open, the innermost first. The code keeps pointers to them
  inside the value; here an open container stands on the stack and joins its parent when it is closed, and an open object
  carries the key \<^verbatim>\<open>object_element\<close> points to.
\<close>

datatype frame = Open_Array "Json list" | Open_Object "(string, Json) std_map" string

record dom_parser =
  dom_root :: Json
  ref_stack :: "frame list"

definition text_of :: "bytes \<Rightarrow> string" where
  "text_of s = map (\<lambda>b. char_of (unat b)) s"

definition handle_value :: "Json \<Rightarrow> dom_parser \<Rightarrow> dom_parser" where
  "handle_value v d =
     (case ref_stack d of
        [] \<Rightarrow> d\<lparr>dom_root := v\<rparr>
      | Open_Array vs # fs \<Rightarrow> d\<lparr>ref_stack := Open_Array (vs @ [v]) # fs\<rparr>
      | Open_Object m k # fs \<Rightarrow> d\<lparr>ref_stack := Open_Object (map_insert k v m) k # fs\<rparr>)"

definition start_object :: "dom_parser \<Rightarrow> dom_parser" where
  "start_object d = d\<lparr>ref_stack := Open_Object [] [] # ref_stack d\<rparr>"

definition start_array :: "dom_parser \<Rightarrow> dom_parser" where
  "start_array d = d\<lparr>ref_stack := Open_Array [] # ref_stack d\<rparr>"

fun close_frame :: "frame \<Rightarrow> Json" where
  "close_frame (Open_Array vs) = JArray vs"
| "close_frame (Open_Object m k) = JObject m"

definition end_container :: "dom_parser \<Rightarrow> dom_parser" where
  "end_container d = (case ref_stack d of [] \<Rightarrow> d | f # fs \<Rightarrow> handle_value (close_frame f) (d\<lparr>ref_stack := fs\<rparr>))"

definition sax_key :: "bytes \<Rightarrow> dom_parser \<Rightarrow> dom_parser" where
  "sax_key s d =
     (case ref_stack d of
        Open_Object m _ # fs \<Rightarrow>
          d\<lparr>ref_stack := Open_Object (if map_of m (text_of s) = None then map_insert (text_of s) JNull m else m) (text_of s) # fs\<rparr>
      | _ \<Rightarrow> d)"

section \<open>Parsing\<close>

text \<open>
  What the library prints for a number it reads with \<^verbatim>\<open>strtod\<close>, as a parameter; \<open>None\<close> when it is not finite.
\<close>

type_synonym float_text = "bytes \<Rightarrow> bytes option"

fun scalar_token :: "float_text \<Rightarrow> token_type \<Rightarrow> Json option" where
  "scalar_token F literal_false = Some (JBool False)"
| "scalar_token F literal_null = Some JNull"
| "scalar_token F literal_true = Some (JBool True)"
| "scalar_token F (value_integer i) = Some (JInteger i)"
| "scalar_token F (value_unsigned u) = Some (JUnsigned u)"
| "scalar_token F (value_string s) = Some (JString s)"
| "scalar_token F (value_float t) = map_option JFloat (F t)"
| "scalar_token F _ = None"

text \<open>A key, the colon, and the next token.\<close>

definition parse_key :: "token_type \<Rightarrow> bytes \<Rightarrow> dom_parser \<Rightarrow> (dom_parser \<times> token_type \<times> bytes) option" where
  "parse_key tok inp d =
     (case tok of
        value_string s \<Rightarrow>
          (case scan inp of (tok, inp) \<Rightarrow> if tok \<noteq> name_separator then None else Some (sax_key s d, scan inp))
      | _ \<Rightarrow> None)"

lemma parse_key_shorter: "parse_key tok inp d = Some (d', tok', r) \<Longrightarrow> length r < length inp \<or> tok' = end_of_input \<and> length r \<le> length inp"
  by (auto simp: parse_key_def split: token_type.splits prod.splits if_splits dest!: scan_shorter)

text \<open>
  The loop of \<^verbatim>\<open>sax_parse_internal\<close>: \<open>parse_value\<close> from the switch over \<^verbatim>\<open>last_token\<close>, \<open>after_value\<close> from the line
  reached after a value. \<open>states\<close> says what each open container is (true for an array), \<open>None\<close> that a parse error was
  reported.
\<close>

function parse_value :: "float_text \<Rightarrow> bool list \<Rightarrow> token_type \<Rightarrow> bytes \<Rightarrow> dom_parser \<Rightarrow> (dom_parser \<times> bytes) option"
  and after_value :: "float_text \<Rightarrow> bool list \<Rightarrow> bytes \<Rightarrow> dom_parser \<Rightarrow> (dom_parser \<times> bytes) option" where
  "parse_value F states last_token inp d =
     (if last_token = begin_object then
        (case scan inp of (tok, inp) \<Rightarrow>
           if tok = end_object then after_value F states inp (end_container (start_object d)) else
           (case parse_key tok inp (start_object d) of None \<Rightarrow> None
            | Some (d, tok, inp) \<Rightarrow> parse_value F (False # states) tok inp d))
      else if last_token = begin_array then
        (case scan inp of (tok, inp) \<Rightarrow>
           if tok = end_array then after_value F states inp (end_container (start_array d))
           else parse_value F (True # states) tok inp (start_array d))
      else
        (case scalar_token F last_token of None \<Rightarrow> None
         | Some v \<Rightarrow> after_value F states inp (handle_value v d)))"
| "after_value F states inp d =
     (case states of [] \<Rightarrow> Some (d, inp)
      | True # rest \<Rightarrow>
          (case scan inp of (tok, inp) \<Rightarrow>
             if tok = value_separator then (case scan inp of (tok, inp) \<Rightarrow> parse_value F states tok inp d)
             else if tok = end_array then after_value F rest inp (end_container d)
             else None)
      | False # rest \<Rightarrow>
          (case scan inp of (tok, inp) \<Rightarrow>
             if tok = value_separator then
               (case scan inp of (tok, inp) \<Rightarrow>
                  (case parse_key tok inp d of None \<Rightarrow> None
                   | Some (d, tok, inp) \<Rightarrow> parse_value F states tok inp d))
             else if tok = end_object then after_value F rest inp (end_container d)
             else None))"
  by pat_completeness auto
termination
  by (relation "measure (\<lambda>x. case x of Inl (F, states, tok, inp, d) \<Rightarrow> 2 * length inp + (if tok = end_of_input then 0 else 1)
      | Inr (F, states, inp, d) \<Rightarrow> 2 * length inp)")
    (force dest!: scan_shorter [OF sym] parse_key_shorter)+

declare parse_value.simps [simp del] after_value.simps [simp del]

text \<open>\<^verbatim>\<open>parse\<close> without exceptions, strict: \<open>None\<close> is the discarded value.\<close>

definition json_parse :: "float_text \<Rightarrow> bytes \<Rightarrow> Json option" where
  "json_parse F inp =
     (case first_token inp of (tok, inp) \<Rightarrow>
        (case parse_value F [] tok inp \<lparr>dom_root = JNull, ref_stack = []\<rparr> of None \<Rightarrow> None
         | Some (d, inp) \<Rightarrow> if fst (scan inp) = end_of_input then Some (dom_root d) else None))"

section \<open>Writing\<close>

text \<open>
  \<^verbatim>\<open>serializer\<close>: what a call writes, and the size of \<^verbatim>\<open>indent_string\<close> before and after it. Writing more of it than there
  is is an overrun. The indentation is a \<^verbatim>\<open>unsigned int\<close> that no document in memory can make wrap. What \<^verbatim>\<open>number_buffer\<close>
  holds before a number is never seen in what is written.
\<close>

type_synonym writer = "nat \<Rightarrow> json_error + (bytes \<times> nat)"

definition write_characters :: "bytes \<Rightarrow> writer" where
  "write_characters s indent_size = Inr (s, indent_size)"

definition write_indent :: "nat \<Rightarrow> writer" where
  "write_indent n indent_size = (if n \<le> indent_size then Inr (replicate n 0x20, indent_size) else Inl Overrun)"

definition grow_indent :: "nat \<Rightarrow> writer" where
  "grow_indent n indent_size = Inr ([], if indent_size < n then indent_size * 2 else indent_size)"

definition write_result :: "json_error + bytes \<Rightarrow> writer" where
  "write_result r indent_size = (case r of Inl e \<Rightarrow> Inl e | Inr s \<Rightarrow> Inr (s, indent_size))"

definition and_then :: "writer \<Rightarrow> writer \<Rightarrow> writer" where
  "and_then f g indent_size =
     (case f indent_size of Inl e \<Rightarrow> Inl e
      | Inr (s, indent_size) \<Rightarrow> (case g indent_size of Inl e \<Rightarrow> Inl e | Inr (t, indent_size) \<Rightarrow> Inr (s @ t, indent_size)))"

definition in_turn :: "writer list \<Rightarrow> writer" where
  "in_turn ws = foldr and_then ws (write_characters [])"

definition number_buffer :: bytes where
  "number_buffer = replicate 64 0"

fun dump :: "bool \<Rightarrow> nat \<Rightarrow> nat \<Rightarrow> Json \<Rightarrow> writer"
  and dump_members :: "bool \<Rightarrow> nat \<Rightarrow> nat \<Rightarrow> (string \<times> Json) list \<Rightarrow> writer"
  and dump_elements :: "bool \<Rightarrow> nat \<Rightarrow> nat \<Rightarrow> Json list \<Rightarrow> writer" where
  "dump pretty_print indent_step current_indent (JObject ms) =
     (if ms = [] then write_characters (ascii ''{}'')
      else if pretty_print then
        in_turn [write_characters (ascii ''{'' @ [0xA]), grow_indent (current_indent + indent_step),
          dump_members True indent_step (current_indent + indent_step) ms,
          write_characters [0xA], write_indent current_indent, write_characters (ascii ''}'')]
      else in_turn [write_characters (ascii ''{''), dump_members False indent_step current_indent ms, write_characters (ascii ''}'')])"
| "dump pretty_print indent_step current_indent (JArray vs) =
     (if vs = [] then write_characters (ascii ''[]'')
      else if pretty_print then
        in_turn [write_characters (ascii ''['' @ [0xA]), grow_indent (current_indent + indent_step),
          dump_elements True indent_step (current_indent + indent_step) vs,
          write_characters [0xA], write_indent current_indent, write_characters (ascii '']'')]
      else in_turn [write_characters (ascii ''[''), dump_elements False indent_step current_indent vs, write_characters (ascii '']'')])"
| "dump pretty_print indent_step current_indent (JString s) =
     in_turn [write_characters [0x22], write_result (dump_escaped s), write_characters [0x22]]"
| "dump pretty_print indent_step current_indent (JBool b) = write_characters (ascii (if b then ''true'' else ''false''))"
| "dump pretty_print indent_step current_indent (JInteger i) = write_result (dump_signed number_buffer i)"
| "dump pretty_print indent_step current_indent (JUnsigned u) = write_result (dump_unsigned number_buffer u)"
| "dump pretty_print indent_step current_indent (JFloat t) = write_characters t"
| "dump pretty_print indent_step current_indent JNull = write_characters (ascii ''null'')"
| "dump_members pretty_print indent_step indent [] = write_characters []"
| "dump_members pretty_print indent_step indent ((k, v) # ms) =
     in_turn [if pretty_print then write_indent indent else write_characters [], write_characters [0x22],
       write_result (dump_escaped (ascii k)), write_characters (if pretty_print then [0x22, 0x3A, 0x20] else [0x22, 0x3A]),
       dump pretty_print indent_step indent v,
       if ms = [] then write_characters [] else write_characters (if pretty_print then [0x2C, 0xA] else [0x2C]),
       dump_members pretty_print indent_step indent ms]"
| "dump_elements pretty_print indent_step indent [] = write_characters []"
| "dump_elements pretty_print indent_step indent (v # vs) =
     in_turn [if pretty_print then write_indent indent else write_characters [],
       dump pretty_print indent_step indent v,
       if vs = [] then write_characters [] else write_characters (if pretty_print then [0x2C, 0xA] else [0x2C]),
       dump_elements pretty_print indent_step indent vs]"

definition dump_text :: "int \<Rightarrow> Json \<Rightarrow> json_error + bytes" where
  "dump_text indent v =
     (case (if indent \<ge> 0 then dump True (nat indent) 0 v 512 else dump False 0 0 v 512) of
        Inl e \<Rightarrow> Inl e | Inr (s, _) \<Rightarrow> Inr s)"

end
