(* ===== verification/Json_Utf8.thy ===== *)
theory Json_Utf8
  imports Json_Text
begin

text \<open>
  The strings the JSON library writes: its automaton accepts exactly UTF-8, the encodings of sequences of Unicode scalar
  values, and on those \<open>dump_escaped\<close> writes the escaped text, never past the end of its buffer.
\<close>

unbundle bit_operations_syntax

section \<open>UTF-8\<close>

definition scalar_value :: "nat \<Rightarrow> bool" where
  "scalar_value n \<longleftrightarrow> n < 0x110000 \<and> \<not> (0xD800 \<le> n \<and> n \<le> 0xDFFF)"

definition utf8_of :: "nat \<Rightarrow> bytes" where
  "utf8_of n =
     (if n < 0x80 then [of_nat n]
      else if n < 0x800 then [of_nat (0xC0 + n div 64), of_nat (0x80 + n mod 64)]
      else if n < 0x10000 then [of_nat (0xE0 + n div 4096), of_nat (0x80 + n div 64 mod 64), of_nat (0x80 + n mod 64)]
      else [of_nat (0xF0 + n div 262144), of_nat (0x80 + n div 4096 mod 64), of_nat (0x80 + n div 64 mod 64), of_nat (0x80 + n mod 64)])"

inductive utf8_text :: "bytes \<Rightarrow> bool" where
  "utf8_text []"
| "scalar_value n \<Longrightarrow> utf8_text s \<Longrightarrow> utf8_text (utf8_of n @ s)"

definition lead :: "byte \<Rightarrow> (byte \<times> byte) list option" where
  "lead c = (if c \<le> 0x1F then Some [] else ranges_after c)"

definition within :: "(byte \<times> byte) list \<Rightarrow> bytes \<Rightarrow> bool" where
  "within rs bs = list_all2 (\<lambda>(low, high) b. low \<le> b \<and> b \<le> high) rs bs"

fun utf8_from :: "(byte \<times> byte) list \<Rightarrow> bytes \<Rightarrow> bool" where
  "utf8_from [] [] = True"
| "utf8_from (r # rs) [] = False"
| "utf8_from [] (c # s) = (case lead c of None \<Rightarrow> False | Some rs \<Rightarrow> utf8_from rs s)"
| "utf8_from ((low, high) # rs) (c # s) = (low \<le> c \<and> c \<le> high \<and> utf8_from rs s)"

lemmas lead_simps = lead_def ranges_after_def

lemma unat_small [simp]: "n < 256 \<Longrightarrow> unat (of_nat n :: byte) = n"
  by (simp add: unat_of_nat)

lemma lead_unat: "lead c = (let n = unat c in
   if n \<le> 0x7F then Some [] else if n \<le> 0xC1 then None else if n \<le> 0xDF then Some [(0x80, 0xBF)]
   else if n = 0xE0 then Some [(0xA0, 0xBF), (0x80, 0xBF)] else if n = 0xED then Some [(0x80, 0x9F), (0x80, 0xBF)]
   else if n \<le> 0xEF then Some [(0x80, 0xBF), (0x80, 0xBF)]
   else if n = 0xF0 then Some [(0x90, 0xBF), (0x80, 0xBF), (0x80, 0xBF)]
   else if n \<le> 0xF3 then Some [(0x80, 0xBF), (0x80, 0xBF), (0x80, 0xBF)]
   else if n = 0xF4 then Some [(0x80, 0x8F), (0x80, 0xBF), (0x80, 0xBF)] else None)"
  by (simp add: lead_simps word_le_nat_alt word_unat_eq_iff)

lemma within_simps [simp]:
  "within [] bs \<longleftrightarrow> bs = []"
  "within ((low, high) # rs) (b # bs) \<longleftrightarrow> unat low \<le> unat b \<and> unat b \<le> unat high \<and> within rs bs"
  "\<not> within (r # rs) []"
  by (auto simp: within_def word_le_nat_alt)

lemma mod_64_le [simp]: "(n :: nat) mod 64 \<le> 63"
  using mod_less_divisor [of 64 n] by simp

lemma utf8_of_within:
  assumes "scalar_value n"
  shows "\<exists>rs. lead (hd (utf8_of n)) = Some rs \<and> within rs (tl (utf8_of n))"
proof -
  consider "n < 0x80" | "0x80 \<le> n" "n < 0x800" | "0x800 \<le> n" "n < 0x10000" | "0x10000 \<le> n" "n < 0x110000"
    using assms by (fastforce simp: scalar_value_def)
  then show ?thesis
  proof cases
    case 1
    then show ?thesis by (simp add: utf8_of_def lead_unat)
  next
    case 2
    then have "2 \<le> n div 64" "n div 64 < 0x20" by linarith+
    then show ?thesis using 2 by (simp add: utf8_of_def lead_unat del: of_nat_add)
  next
    case 3
    have d: "n div 4096 < 16" using 3 by linarith
    have m: "n div 64 = 64 * (n div 4096) + n div 64 mod 64" using div_mult2_eq [of n 64 64] by simp
    have "n div 4096 = 0 \<Longrightarrow> 0x20 \<le> n div 64 mod 64" using 3 m by linarith
    moreover have "n div 4096 = 13 \<Longrightarrow> n div 64 mod 64 < 0x20" using 3 assms m unfolding scalar_value_def by linarith
    ultimately show ?thesis using 3 d
      by (cases "n div 4096 = 0"; cases "n div 4096 = 13") (simp_all add: utf8_of_def lead_unat del: of_nat_add)
  next
    case 4
    have d: "n div 262144 < 5" using 4 by linarith
    have m: "n div 4096 = 64 * (n div 262144) + n div 4096 mod 64" using div_mult2_eq [of n 4096 64] by simp
    have "n div 262144 = 0 \<Longrightarrow> 0x10 \<le> n div 4096 mod 64" using 4 m by linarith
    moreover have "n div 262144 = 4 \<Longrightarrow> n div 4096 mod 64 < 0x10" using 4 m by linarith
    ultimately show ?thesis using 4 d
      by (cases "n div 262144 = 0"; cases "n div 262144 = 4") (simp_all add: utf8_of_def lead_unat del: of_nat_add)
  qed
qed

lemma utf8d_type: "utf8d ! unat (b :: byte) = (let n = unat b in
   if n < 0x80 then 0 else if n < 0x90 then 1 else if n < 0xA0 then 9 else if n < 0xC0 then 7 else if n < 0xC2 then 8
    else if n < 0xE0 then 2 else if n = 0xE0 then 0xA else if n = 0xED then 4 else if n < 0xF0 then 3
    else if n = 0xF0 then 0xB else if n < 0xF4 then 6 else if n = 0xF4 then 5 else 8)"
proof -
  have "list_all (\<lambda>n. utf8d ! n = (
   if n < 0x80 then 0 else if n < 0x90 then 1 else if n < 0xA0 then 9 else if n < 0xC0 then 7 else if n < 0xC2 then 8
    else if n < 0xE0 then 2 else if n = 0xE0 then 0xA else if n = 0xED then 4 else if n < 0xF0 then 3
    else if n = 0xF0 then 0xB else if n < 0xF4 then 6 else if n = 0xF4 then 5 else (8::byte))) [0..<256]"
    by code_simp
  moreover have "unat b \<in> set [0..<256]" using byte_less_256 [of b] by simp
  ultimately show ?thesis unfolding Let_def list_all_iff by blast
qed

lemma sextets:
  assumes "(y :: nat) < 64"
  shows "(x * 64 + y) div 64 = x" "(x * 64 + y) mod 64 = y"
    "(x * 64 + y) div 4096 = x div 64" "(x * 64 + y) div 262144 = x div 64 div 64"
proof -
  show *: "(x * 64 + y) div 64 = x" "(x * 64 + y) mod 64 = y" using assms by auto
  show "(x * 64 + y) div 4096 = x div 64" "(x * 64 + y) div 262144 = x div 64 div 64"
    using div_mult2_eq [of "x * 64 + y" 64 64] div_mult2_eq [of "x * 64 + y" 64 4096] div_mult2_eq [of x 64 64] * by simp_all
qed

lemma word_of_nat_unat_helper: "(of_nat (unat b) :: byte) = b"
  by simp

lemma byte_offset: "unat b = k + x \<Longrightarrow> (of_nat (k + x) :: byte) = b"
  using word_of_nat_unat_helper [of b] by simp

lemma within_two:
  assumes bytes: "within rs more" and two:
    "0xC2 \<le> unat c" "unat c \<le> 0xDF" "rs = [(0x80, 0xBF)]"
  shows "\<exists>n. scalar_value n \<and> utf8_of n = c # more"
proof -
  obtain d where d: "more = [d]" "0x80 \<le> unat d" "unat d \<le> 0xBF" using assms by (cases more) auto
  obtain x y where x: "unat c = 0xC0 + x" "unat d = 0x80 + y"
    using two d le_Suc_ex [of "0xC0" "unat c"] le_Suc_ex [of "0x80" "unat d"] by auto
  then have y: "2 \<le> x" "x < 32" "y < 64" using two d by auto
  then show ?thesis using d sextets(1,2) [OF y(3), of x] byte_offset [OF x(1)] byte_offset [OF x(2)]
    by (intro exI [of _ "x * 64 + y"]) (simp add: scalar_value_def utf8_of_def del: of_nat_add)
qed

lemma within_three:
  assumes bytes: "within rs more" and three:
    "0xE0 \<le> unat c" "unat c \<le> 0xEF" "rs = [hd rs, (0x80, 0xBF)]" "0x80 \<le> unat (fst (hd rs))" "unat (snd (hd rs)) \<le> 0xBF"
    "unat c = 0xE0 \<longrightarrow> 0xA0 \<le> unat (fst (hd rs))" "unat c = 0xED \<longrightarrow> unat (snd (hd rs)) \<le> 0x9F"
  shows "\<exists>n. scalar_value n \<and> utf8_of n = c # more"
proof -
  define low high where "low = fst (hd rs)" and "high = snd (hd rs)"
  then have "rs = [(low, high), (0x80, 0xBF)]" using three(3) by simp
  then obtain d e where d: "more = [d, e]" "unat low \<le> unat d" "unat d \<le> unat high" "0x80 \<le> unat e" "unat e \<le> 0xBF"
    using bytes by (cases more; cases "tl more") auto
  have "0x80 \<le> unat d" using three(4) d(2) unfolding low_def by linarith
  then obtain x y z where x: "unat c = 0xE0 + x" "unat d = 0x80 + y" "unat e = 0x80 + z"
    using three(1) d(4) le_Suc_ex [of "0xE0" "unat c"] le_Suc_ex [of "0x80" "unat d"] le_Suc_ex [of "0x80" "unat e"] by auto
  then have y: "x < 16" "y < 64" "z < 64" "x = 0 \<longrightarrow> 32 \<le> y" "x = 13 \<longrightarrow> y < 32"
    using three(2) d(5) order_trans [OF d(3) [unfolded high_def] three(5)] three(6) d(2) three(7) d(3)
    by (auto simp: low_def high_def)
  define n where "n = (x * 64 + y) * 64 + z"
  have n: "n div 4096 = x" "n div 64 mod 64 = y" "n mod 64 = z"
    unfolding n_def sextets(1-3) [OF y(3)] sextets(1,2) [OF y(2)] by (rule refl)+
  have "0x800 \<le> n" unfolding n_def using y by (cases "x = 0") auto
  moreover have "n < 0x10000" unfolding n_def using y(1-3) by simp
  moreover have "\<not> (0xD800 \<le> n \<and> n \<le> 0xDFFF)"
    unfolding n_def using y by (cases x "13 :: nat" rule: linorder_cases) auto
  ultimately show ?thesis using d(1) n byte_offset [OF x(1)] byte_offset [OF x(2)] byte_offset [OF x(3)]
    by (intro exI [of _ n]) (simp add: utf8_of_def scalar_value_def del: of_nat_add)
qed

lemma within_four:
  assumes bytes: "within rs more" and four:
    "0xF0 \<le> unat c" "unat c \<le> 0xF4" "rs = [hd rs, (0x80, 0xBF), (0x80, 0xBF)]" "0x80 \<le> unat (fst (hd rs))" "unat (snd (hd rs)) \<le> 0xBF"
    "unat c = 0xF0 \<longrightarrow> 0x90 \<le> unat (fst (hd rs))" "unat c = 0xF4 \<longrightarrow> unat (snd (hd rs)) \<le> 0x8F"
  shows "\<exists>n. scalar_value n \<and> utf8_of n = c # more"
proof -
  define low high where "low = fst (hd rs)" and "high = snd (hd rs)"
  then have "rs = [(low, high), (0x80, 0xBF), (0x80, 0xBF)]" using four(3) by simp
  then obtain d e f where d: "more = [d, e, f]" "unat low \<le> unat d" "unat d \<le> unat high" "0x80 \<le> unat e" "unat e \<le> 0xBF" "0x80 \<le> unat f" "unat f \<le> 0xBF"
    using bytes by (cases more; cases "tl more"; cases "tl (tl more)") auto
  have "0x80 \<le> unat d" using four(4) d(2) unfolding low_def by linarith
  then obtain w x y z where x: "unat c = 0xF0 + w" "unat d = 0x80 + x" "unat e = 0x80 + y" "unat f = 0x80 + z"
    using four(1) d(4,6) le_Suc_ex [of "0xF0" "unat c"] le_Suc_ex [of "0x80" "unat d"] le_Suc_ex [of "0x80" "unat e"]
      le_Suc_ex [of "0x80" "unat f"] by auto
  then have y: "w < 5" "x < 64" "y < 64" "z < 64" "w = 0 \<longrightarrow> 16 \<le> x" "w = 4 \<longrightarrow> x < 16"
    using four(2) d(5,7) order_trans [OF d(3) [unfolded high_def] four(5)] four(6) d(2) four(7) d(3)
    by (auto simp: low_def high_def)
  define n where "n = ((w * 64 + x) * 64 + y) * 64 + z"
  have n: "n div 262144 = w" "n div 4096 mod 64 = x" "n div 64 mod 64 = y" "n mod 64 = z"
    unfolding n_def sextets(1-4) [OF y(4)] sextets(1,2) [OF y(3)] sextets(1,2) [OF y(2)] by (rule refl)+
  have "0x10000 \<le> n" unfolding n_def using y by (cases "w = 0") auto
  moreover have "n < 0x110000" unfolding n_def using y by (cases "w = 4") auto
  ultimately show ?thesis using d(1) n byte_offset [OF x(1)] byte_offset [OF x(2)] byte_offset [OF x(3)] byte_offset [OF x(4)]
    by (intro exI [of _ n]) (simp add: utf8_of_def scalar_value_def del: of_nat_add)
qed

lemma within_utf8_of:
  assumes "lead c = Some rs" "within rs more"
  shows "\<exists>n. scalar_value n \<and> utf8_of n = c # more"
proof -
  consider (one) "unat c \<le> 0x7F" "rs = []" | (two) "0xC2 \<le> unat c" "unat c \<le> 0xDF" "rs = [(0x80, 0xBF)]"
    | (three) "0xE0 \<le> unat c" "unat c \<le> 0xEF" "rs = [hd rs, (0x80, 0xBF)]" "0x80 \<le> unat (fst (hd rs))" "unat (snd (hd rs)) \<le> 0xBF"
        "unat c = 0xE0 \<longrightarrow> 0xA0 \<le> unat (fst (hd rs))" "unat c = 0xED \<longrightarrow> unat (snd (hd rs)) \<le> 0x9F"
    | (four) "0xF0 \<le> unat c" "unat c \<le> 0xF4" "rs = [hd rs, (0x80, 0xBF), (0x80, 0xBF)]" "0x80 \<le> unat (fst (hd rs))" "unat (snd (hd rs)) \<le> 0xBF"
        "unat c = 0xF0 \<longrightarrow> 0x90 \<le> unat (fst (hd rs))" "unat c = 0xF4 \<longrightarrow> unat (snd (hd rs)) \<le> 0x8F"
    using assms(1) unfolding lead_unat Let_def by (simp split: if_splits) auto
  then show ?thesis
  proof cases
    case one
    then show ?thesis using assms(2) by (intro exI [of _ "unat c"]) (simp add: scalar_value_def utf8_of_def)
  next
    case two
    then show ?thesis using within_two [OF assms(2)] by blast
  next
    case three
    then show ?thesis using within_three [OF assms(2)] by blast
  next
    case four
    then show ?thesis using within_four [OF assms(2)] by blast
  qed
qed

lemma utf8d_row: "utf8d ! (256 + k) = utf8_rows ! k"
  by (simp add: utf8d_def nth_append)

lemma decode_state: "fst (decode st cp b) = utf8_rows ! (unat st * 16 + unat (utf8d ! unat b))"
  unfolding decode_def Let_def fst_conv add.assoc by (rule utf8d_row)

fun pending :: "byte \<Rightarrow> (byte \<times> byte) list" where
  "pending st = (if st = 2 then [(0x80, 0xBF)] else if st = 3 then [(0x80, 0xBF), (0x80, 0xBF)]
     else if st = 4 then [(0xA0, 0xBF), (0x80, 0xBF)] else if st = 5 then [(0x80, 0x9F), (0x80, 0xBF)]
     else if st = 6 then [(0x90, 0xBF), (0x80, 0xBF), (0x80, 0xBF)] else if st = 7 then [(0x80, 0xBF), (0x80, 0xBF), (0x80, 0xBF)]
     else if st = 8 then [(0x80, 0x8F), (0x80, 0xBF), (0x80, 0xBF)] else [])"

declare pending.simps [simp del]

lemma decode_start:
  "fst (decode 0 cp b) = (let n = unat b in
     if n \<le> 0x7F then 0 else if n \<le> 0xC1 then 1 else if n \<le> 0xDF then 2 else if n = 0xE0 then 4 else if n = 0xED then 5
     else if n \<le> 0xEF then 3 else if n = 0xF0 then 6 else if n \<le> 0xF3 then 7 else if n = 0xF4 then 8 else 1)"
  unfolding decode_state utf8d_type Let_def by (simp add: utf8_rows_def)

lemma decode_next:
  "fst (decode 2 cp b) = (if 0x80 \<le> unat b \<and> unat b \<le> 0xBF then 0 else 1)"
  "fst (decode 3 cp b) = (if 0x80 \<le> unat b \<and> unat b \<le> 0xBF then 2 else 1)"
  "fst (decode 4 cp b) = (if 0xA0 \<le> unat b \<and> unat b \<le> 0xBF then 2 else 1)"
  "fst (decode 5 cp b) = (if 0x80 \<le> unat b \<and> unat b \<le> 0x9F then 2 else 1)"
  "fst (decode 6 cp b) = (if 0x90 \<le> unat b \<and> unat b \<le> 0xBF then 3 else 1)"
  "fst (decode 7 cp b) = (if 0x80 \<le> unat b \<and> unat b \<le> 0xBF then 3 else 1)"
  "fst (decode 8 cp b) = (if 0x80 \<le> unat b \<and> unat b \<le> 0x8F then 3 else 1)"
  unfolding decode_state utf8d_type Let_def by (simp_all add: utf8_rows_def)

text \<open>What is written for a text: its bytes, with control characters, quotes and backslashes escaped.\<close>

definition escape_byte :: "byte \<Rightarrow> bytes" where
  "escape_byte c =
     (if c = 0x08 then [0x5C, 0x62] else if c = 0x09 then [0x5C, 0x74] else if c = 0x0A then [0x5C, 0x6E]
      else if c = 0x0C then [0x5C, 0x66] else if c = 0x0D then [0x5C, 0x72] else if c = 0x22 then [0x5C, 0x22]
      else if c = 0x5C then [0x5C, 0x5C] else if c \<le> 0x1F then [0x5C, 0x75] @ fmt_04x (ucast c) else [c])"

definition escaped :: "bytes \<Rightarrow> bytes" where
  "escaped s = concat (map escape_byte s)"

lemma unat_sextet:
  assumes "unat cp < 2 ^ 26"
  shows "unat ((ucast (b :: byte) AND 0x3F) OR push_bit 6 cp :: u32) = unat b mod 64 + 64 * unat cp"
proof -
  have m: "(0x3F :: u32) = mask 6" by (simp add: mask_eq_exp_minus_1)
  have "take_bit 6 (ucast b) AND push_bit 6 cp = (0 :: u32)"
    by (rule bit_word_eqI) (auto simp: bit_simps)
  then have "(ucast b AND 0x3F) OR push_bit 6 cp = take_bit 6 (ucast b) + (push_bit 6 cp :: u32)"
    unfolding m take_bit_eq_mask [symmetric] by (simp add: disjunctive_add_eq_or)
  moreover have "unat (take_bit 6 (ucast b) :: u32) = unat b mod 64"
    by (simp add: unsigned_take_bit_eq unsigned_ucast_eq) (simp add: take_bit_eq_mod)
  moreover have "unat (push_bit 6 cp) = 64 * unat cp"
    using assms by (simp add: push_bit_eq_mult unat_word_ariths)
  ultimately show ?thesis using assms by (simp add: unat_word_ariths)
qed

text \<open>The code point while more bytes of a sequence are due: large enough that it ends above the ASCII range.\<close>

definition codep_ok :: "byte \<Rightarrow> u32 \<Rightarrow> bool" where
  "codep_ok st cp \<longleftrightarrow>
     st = 0 \<or> st = 2 \<and> 2 \<le> unat cp \<and> unat cp < 2 ^ 18 \<or> st = 3 \<and> 1 \<le> unat cp \<and> unat cp < 2 ^ 12
     \<or> st = 4 \<and> unat cp < 2 ^ 8 \<or> st = 5 \<and> 1 \<le> unat cp \<and> unat cp < 2 ^ 8
     \<or> st = 6 \<and> unat cp < 2 ^ 6 \<or> (st = 7 \<or> st = 8) \<and> 1 \<le> unat cp \<and> unat cp < 2 ^ 6"

lemma decode_codep: "st \<noteq> 0 \<Longrightarrow> unat cp < 2 ^ 26 \<Longrightarrow> unat (snd (decode st cp b)) = unat b mod 64 + 64 * unat cp"
  by (simp add: decode_def Let_def unat_sextet)

lemma decode_pending:
  assumes "codep_ok st cp" "pending st = (low, high) # rs"
  shows "if unat low \<le> unat b \<and> unat b \<le> unat high
    then pending (fst (decode st cp b)) = rs \<and> fst (decode st cp b) \<noteq> 1 \<and> (fst (decode st cp b) = 0 \<longleftrightarrow> rs = [])
      \<and> (if rs = [] then 0x80 \<le> unat (snd (decode st cp b)) else codep_ok (fst (decode st cp b)) (snd (decode st cp b)))
    else fst (decode st cp b) = 1"
proof -
  have b: "unat b mod 64 < 64" "0x80 \<le> unat b \<Longrightarrow> unat b \<le> 0xBF \<Longrightarrow> unat b mod 64 = unat b - 0x80" by (auto simp: le_mod_geq)
  consider "st = 2" | "st = 3" | "st = 4" | "st = 5" | "st = 6" | "st = 7" | "st = 8"
    using assms(2) by (auto simp: pending.simps split: if_splits)
  then show ?thesis
    by cases (use assms b in \<open>auto simp: pending.simps decode_next decode_codep codep_ok_def\<close>)
qed

lemma unat_mask_bits: "k < 32 \<Longrightarrow> unat (mask k AND ucast (b :: byte) :: u32) = unat b mod 2 ^ k"
proof -
  have b: "unat b mod 4294967296 = unat b" by (rule mod_less, rule order.strict_trans [OF byte_less_256]) simp
  show "k < 32 \<Longrightarrow> ?thesis"
    by (simp only: and.commute [of "mask k"] take_bit_eq_mask [symmetric] unsigned_take_bit_eq unsigned_ucast_eq)
      (simp add: take_bit_eq_mod b)
qed

lemma unat_low_bits:
  "unat (0xFF AND ucast (b :: byte) :: u32) = unat b" "unat (0x3F AND ucast b :: u32) = unat b mod 64"
  "unat (0x1F AND ucast b :: u32) = unat b mod 32" "unat (0xF AND ucast b :: u32) = unat b mod 16"
  "unat (7 AND ucast b :: u32) = unat b mod 8" "unat (3 AND ucast b :: u32) = unat b mod 4"
  using unat_mask_bits [of 8 b] unat_mask_bits [of 6 b] unat_mask_bits [of 5 b] unat_mask_bits [of 4 b] unat_mask_bits [of 3 b]
    unat_mask_bits [of 2 b] byte_less_256 [of b] by (simp_all add: mask_eq_exp_minus_1)

lemma decode_lead_codep:
  "unat (snd (decode 0 cp b)) = (let n = unat b in
     if n \<le> 0x7F then n else if n < 0xC2 then unat (snd (decode 0 cp b)) else if n < 0xE0 then n - 0xC0
     else if n = 0xE0 then 0 else if n = 0xED then 0xD else if n < 0xF0 then n - 0xE0
     else if n = 0xF0 then 0 else if n < 0xF4 then n - 0xF0 else if n = 0xF4 then 4 else unat (snd (decode 0 cp b)))"
proof -
  have s: "snd (decode 0 cp b) = drop_bit (unat (utf8d ! unat b)) 0xFF AND ucast b" by (simp add: decode_def Let_def)
  consider "unat b \<le> 0x7F" | "0xC2 \<le> unat b" "unat b < 0xE0" | "unat b = 0xE0" | "unat b = 0xED"
    | "0xE0 < unat b" "unat b < 0xF0" "unat b \<noteq> 0xED" | "unat b = 0xF0" | "0xF0 < unat b" "unat b < 0xF4" | "unat b = 0xF4"
    | "0x80 \<le> unat b" "unat b < 0xC2" | "0xF4 < unat b" by linarith
  then show ?thesis
    by cases (simp_all add: s [unfolded utf8d_type Let_def] unat_low_bits le_mod_geq Let_def)
qed

lemma decode_lead:
  "case lead b of None \<Rightarrow> fst (decode 0 cp b) = 1
   | Some rs \<Rightarrow> pending (fst (decode 0 cp b)) = rs \<and> fst (decode 0 cp b) \<noteq> 1 \<and> (fst (decode 0 cp b) = 0 \<longleftrightarrow> rs = [])
      \<and> (if rs = [] then unat b \<le> 0x7F \<and> snd (decode 0 cp b) = ucast b
          else unat b \<ge> 0x80 \<and> codep_ok (fst (decode 0 cp b)) (snd (decode 0 cp b)))"
proof -
  note c = decode_lead_codep [of cp b, unfolded Let_def]
  consider "unat b \<le> 0x7F" | "0xC2 \<le> unat b" "unat b < 0xE0" | "unat b = 0xE0" | "unat b = 0xED"
    | "0xE0 < unat b" "unat b < 0xF0" "unat b \<noteq> 0xED" | "unat b = 0xF0" | "0xF0 < unat b" "unat b < 0xF4" | "unat b = 0xF4"
    | "0x80 \<le> unat b" "unat b < 0xC2" | "0xF4 < unat b" by linarith
  then show ?thesis
  proof cases
    case 1
    then have "snd (decode 0 cp b) = ucast b" using c byte_less_256 [of b] by (simp add: word_unat_eq_iff unsigned_ucast_eq take_bit_eq_mod)
    then show ?thesis using 1 by (simp add: lead_unat decode_start pending.simps)
  qed (use c in \<open>auto simp: lead_unat decode_start pending.simps codep_ok_def Let_def\<close>)
qed

section \<open>Written strings\<close>

lemma unat_ucast_byte [simp]: "unat (ucast (b :: byte) :: u32) = unat b"
proof -
  have "unat b mod 4294967296 = unat b" by (rule mod_less, rule order.strict_trans [OF byte_less_256]) simp
  then show ?thesis by (simp add: unsigned_ucast_eq take_bit_eq_mod)
qed

lemma length_fmt_04x [simp]: "length (fmt_04x v) = 4"
  by (simp add: fmt_04x_def fmt_02x_def ascii_def)

lemma escape_ascii:
  assumes "length buffer \<le> 499"
  shows "escape_codepoint (ucast b) b buffer = Inr (buffer @ escape_byte b)"
  using assms by (simp add: escape_codepoint_def escape_byte_def append_buffer_def word_unat_eq_iff word_le_nat_alt)

lemma escape_high:
  assumes "0x80 \<le> unat cp" "length buffer \<le> 511"
  shows "escape_codepoint cp b buffer = Inr (buffer @ [b])"
proof -
  have "\<not> cp \<le> 0x1F" "cp \<noteq> 8" "cp \<noteq> 9" "cp \<noteq> 0xA" "cp \<noteq> 0xC" "cp \<noteq> 0xD" "cp \<noteq> 0x22" "cp \<noteq> 0x5C"
    using assms(1) by (auto simp: word_le_nat_alt)
  then show ?thesis using assms(2) by (simp add: escape_codepoint_def append_buffer_def)
qed

lemma escape_byte_high: "0x80 \<le> unat b \<Longrightarrow> escape_byte b = [b]"
  by (auto simp: escape_byte_def word_le_nat_alt)

lemma length_escape_byte: "length (escape_byte b) \<le> 6"
  by (simp add: escape_byte_def)

lemma pending_high: "pending st = (low, high) # rs \<Longrightarrow> 0x80 \<le> unat low"
  by (auto simp: pending.simps split: if_splits)

text \<open>What the loop does from a state: the text is written out when the bytes complete the sequence begun and are UTF-8.\<close>

definition loop_writes :: "bytes \<Rightarrow> byte \<Rightarrow> u32 \<Rightarrow> bytes \<Rightarrow> bytes \<Rightarrow> bool" where
  "loop_writes s st cp buffer out \<longleftrightarrow>
     (codep_ok st cp \<longrightarrow> st \<noteq> 1 \<longrightarrow> st = 0 \<or> pending st \<noteq> [] \<longrightarrow>
      length buffer \<le> (if st = 0 then 499 else 503 - length (pending st)) \<longrightarrow>
      dump_loop s st cp buffer out =
        (if utf8_from (pending st) s then Inr (out @ buffer @ escaped s) else Inl Type_Error))"

lemma pending_0 [simp]: "codep_ok 0 cp" "pending 0 = []"
  by (simp_all add: codep_ok_def pending.simps)

lemma loop_writes_lead:
  assumes IH: "\<And>st cp buffer out. loop_writes s st cp buffer out" and "length buffer \<le> 499"
  shows "dump_loop (b # s) 0 cp buffer out = (if utf8_from [] (b # s) then Inr (out @ buffer @ escaped (b # s)) else Inl Type_Error)"
proof -
  obtain st' cp' where d: "decode 0 cp b = (st', cp')" by fastforce
  note dl = decode_lead [where b = b and cp = cp, unfolded d fst_conv snd_conv]
  show ?thesis
  proof (cases "lead b")
    case None
    then show ?thesis using dl d by simp
  next
    case (Some rs)
    note dl = dl [unfolded Some option.simps]
    show ?thesis
    proof (cases "rs = []")
      case True
      then have st': "st' = 0" "cp' = ucast b" using dl by auto
      show ?thesis
        using d st' Some True assms(2) length_escape_byte [of b]
          IH [of 0 "ucast b" "[]"] IH [of 0 "ucast b" "buffer @ escape_byte b"]
        by (auto simp: escape_ascii escaped_def loop_writes_def)
    next
      case False
      then have st': "st' \<noteq> 0" "st' \<noteq> 1" "pending st' = rs" "codep_ok st' cp'" "0x80 \<le> unat b" using dl by auto
      have "length rs \<le> 3" using Some by (auto simp: lead_unat Let_def split: if_splits)
      then have l: "length (buffer @ [b]) \<le> 503 - length rs" using assms(2) by auto
      then show ?thesis
        using d st' Some False assms(2) IH [of st' cp' "buffer @ [b]" out]
        by (simp add: append_buffer_def escaped_def escape_byte_high loop_writes_def)
    qed
  qed
qed

lemma loop_writes_next:
  assumes IH: "\<And>st cp buffer out. loop_writes s st cp buffer out" and ok: "codep_ok st cp"
    and p: "pending st = (low, high) # rs" and l: "length buffer \<le> 503 - length (pending st)"
  shows "dump_loop (b # s) st cp buffer out =
    (if utf8_from (pending st) (b # s) then Inr (out @ buffer @ escaped (b # s)) else Inl Type_Error)"
proof -
  obtain st' cp' where d: "decode st cp b = (st', cp')" by fastforce
  note dp = decode_pending [OF ok p, of b, unfolded d fst_conv snd_conv]
  show ?thesis
  proof (cases "unat low \<le> unat b \<and> unat b \<le> unat high")
    case False
    then show ?thesis using dp d p by (auto simp: word_le_nat_alt)
  next
    case True
    note fits = True
    then have st': "pending st' = rs" "st' \<noteq> 1" "st' = 0 \<longleftrightarrow> rs = []"
        "if rs = [] then 0x80 \<le> unat cp' else codep_ok st' cp'" using dp by auto
    have b: "0x80 \<le> unat b" using True pending_high [OF p] by linarith
    have "length (pending st) \<le> 3" by (simp add: pending.simps)
    then have l: "Suc (length buffer) \<le> 503 - length rs" using l p by simp
    show ?thesis
    proof (cases "rs = []")
      case True
      then show ?thesis
        using d st' l p b fits IH [of 0 cp' "[]"] IH [of 0 cp' "buffer @ [b]"]
        by (auto simp: escape_high escaped_def escape_byte_high word_le_nat_alt loop_writes_def)
    next
      case False
      then show ?thesis
        using d st' l p b fits IH [of st' cp' "buffer @ [b]" out]
        by (auto simp: append_buffer_def escaped_def escape_byte_high word_le_nat_alt loop_writes_def)
    qed
  qed
qed

lemma dump_loop_writes: "loop_writes s st cp buffer written"
proof (induction s arbitrary: st cp buffer written)
  case Nil
  then show ?case by (cases "pending st") (auto simp: loop_writes_def escaped_def pending.simps)
next
  case (Cons b s st cp buffer written)
  show ?case
  proof (cases "st = 0")
    case True
    then show ?thesis using loop_writes_lead [OF Cons.IH] by (simp add: loop_writes_def del: dump_loop.simps utf8_from.simps)
  next
    case False
    then show ?thesis
      using loop_writes_next [OF Cons.IH, of st cp _ _ _ buffer b written]
      by (cases "pending st") (auto simp: loop_writes_def simp del: dump_loop.simps utf8_from.simps)
  qed
qed

lemma dump_escaped_exact: "dump_escaped s = (if utf8_from [] s then Inr (escaped s) else Inl Type_Error)"
  using dump_loop_writes [of s 0 0 "[]" "[]"] by (simp add: dump_escaped_def loop_writes_def)

section \<open>Texts of whole characters\<close>

abbreviation utf8 :: "bytes \<Rightarrow> bool" where "utf8 s \<equiv> utf8_from [] s"

lemma within_Cons: "within ((low, high) # rs) bs \<longleftrightarrow> (\<exists>c more. bs = c # more \<and> low \<le> c \<and> c \<le> high \<and> within rs more)"
  by (cases bs) (auto simp: word_le_nat_alt)

lemma utf8_fromD: "utf8_from rs s \<Longrightarrow> \<exists>more s'. s = more @ s' \<and> within rs more \<and> utf8 s'"
proof (induction rs arbitrary: s)
  case Nil
  then show ?case by simp
next
  case (Cons r rs)
  obtain low high where r: "r = (low, high)" by fastforce
  then obtain c s1 where s: "s = c # s1" "low \<le> c" "c \<le> high" "utf8_from rs s1" using Cons.prems by (cases s) auto
  from Cons.IH [OF s(4)] obtain more s' where "s1 = more @ s'" "within rs more" "utf8 s'" by blast
  then show ?case using s r by (intro exI [of _ "c # more"] exI [of _ s']) (simp add: word_le_nat_alt)
qed

lemma utf8_fromI: "within rs more \<Longrightarrow> utf8 s \<Longrightarrow> utf8_from rs (more @ s)"
proof (induction rs arbitrary: more)
  case (Cons r rs)
  then show ?case by (cases r) (auto simp: within_Cons)
qed simp

lemma utf8_from_append: "utf8_from rs s \<Longrightarrow> utf8 t \<Longrightarrow> utf8_from rs (s @ t)"
  by (induction rs s rule: utf8_from.induct) (auto split: option.splits)

lemma utf8_char: "lead c = Some rs \<Longrightarrow> within rs more \<Longrightarrow> utf8 (c # more)"
  using utf8_fromI [of rs more "[]"] by simp

lemma utf8_ConsE:
  assumes "utf8 (c # s)"
  obtains rs more s' where "lead c = Some rs" "s = more @ s'" "within rs more" "utf8 s'"
proof (cases "lead c")
  case None
  then show ?thesis using assms by simp
next
  case (Some rs)
  then have "utf8_from rs s" using assms by simp
  then show ?thesis using utf8_fromD that Some by blast
qed

theorem utf8_scalar_values: "utf8 s \<longleftrightarrow> utf8_text s"
proof
  show "utf8_text s" if "utf8 s"
    using that
  proof (induction "length s" arbitrary: s rule: less_induct)
    case less
    show ?case
    proof (cases s)
      case (Cons c s1)
      obtain rs more s' where c: "lead c = Some rs" "s1 = more @ s'" "within rs more" "utf8 s'"
        using less.prems Cons utf8_ConsE by blast
      obtain n where n: "scalar_value n" "utf8_of n = c # more" using within_utf8_of [OF c(1,3)] by blast
      have "utf8_text s'" using less.hyps [OF _ c(4)] c(2) Cons by simp
      then show ?thesis using utf8_text.intros(2) [OF n(1)] n(2) c(2) Cons by fastforce
    qed (simp add: utf8_text.intros)
  qed
  show "utf8 s" if "utf8_text s"
    using that
  proof induction
    case (2 n s)
    have "utf8_of n \<noteq> []" by (simp add: utf8_of_def)
    then have "utf8 (utf8_of n)" using utf8_of_within [OF 2(1)] utf8_char by (metis list.collapse)
    then show ?case using 2 utf8_from_append by blast
  qed simp
qed

lemma lead_high: "lead c = Some rs \<Longrightarrow> \<forall>r \<in> set rs. 0x80 \<le> unat (fst r)"
  unfolding lead_unat Let_def by (simp split: if_splits) auto

lemma within_high:
  assumes "lead c = Some rs" "within rs more"
  shows "\<forall>b \<in> set more. 0x80 \<le> unat b"
proof -
  have "list_all2 (\<lambda>(low, high) b. low \<le> b \<and> b \<le> high) rs more" using assms(2) by (simp add: within_def)
  then have "\<forall>r \<in> set rs. 0x80 \<le> unat (fst r) \<Longrightarrow> \<forall>b \<in> set more. 0x80 \<le> unat b"
    by (induction rule: list_all2_induct) (auto simp: word_le_nat_alt)
  then show ?thesis using lead_high [OF assms(1)] by blast
qed

lemma lead_low: "lead c = Some rs \<Longrightarrow> rs \<noteq> [] \<Longrightarrow> 0x80 \<le> unat c"
  by (simp add: lead_unat Let_def split: if_splits)

lemma escaped_high: "\<forall>b \<in> set s. 0x80 \<le> unat b \<Longrightarrow> escaped s = s"
  by (induction s) (simp_all add: escaped_def escape_byte_high)

lemma next_byte_within: "next_byte_in_range rs (more @ inp) = Some (more, inp)" if "within rs more"
  using that
proof (induction rs arbitrary: more)
  case (Cons r rs)
  then show ?case by (cases r) (auto simp: within_Cons)
qed simp

lemma next_byte_in_rangeD: "next_byte_in_range rs inp = Some (more, r) \<Longrightarrow> within rs more"
  by (induction rs inp arbitrary: more r rule: next_byte_in_range.induct) (auto simp: word_le_nat_alt split: if_splits)

text \<open>
  C28. A string is written exactly when it is the UTF-8 encoding of a sequence of Unicode scalar values, and then what is written
  is its bytes with control characters, quotes and backslashes escaped; no write passes the end of the buffer.
\<close>

theorem string_written_iff_unicode: "dump_escaped s = (if utf8_text s then Inr (escaped s) else Inl Type_Error)"
  by (simp add: dump_escaped_exact utf8_scalar_values)

end
