(* ===== verification/Json_Strings.thy ===== *)
theory Json_Strings
  imports Json_Utf8
begin

text \<open>
  The strings the JSON library reads: an escaped text is read back as the text, and whatever is read is UTF-8, also
  where it was written as numbers of code points or as two halves of one.
\<close>

unbundle bit_operations_syntax

section \<open>Reading what was written\<close>

lemma codepoint_loop_rest: "codepoint_loop fs cp ds = Some (v, []) \<Longrightarrow> codepoint_loop fs cp (ds @ rest) = Some (v, rest)"
  by (induction fs cp ds rule: codepoint_loop.induct) (auto split: option.splits)

lemma control_bytes: "unat (c :: byte) < 32 \<Longrightarrow> c \<in> set (map of_nat [0..<32])"
  using word_of_nat_unat_helper [of c] by (auto intro!: image_eqI [of _ _ "unat c"])

lemma control_codepoint:
  assumes "c \<le> (0x1F :: byte)"
  shows "get_codepoint (fmt_04x (ucast c)) = Some (ucast c, [])"
proof -
  have "list_all (\<lambda>c :: byte. get_codepoint (fmt_04x (ucast c)) = Some (ucast c, [])) (map of_nat [0..<32])"
    by code_simp
  then show ?thesis using assms control_bytes [of c] unfolding list_all_iff by (auto simp: word_le_nat_alt)
qed

lemma ucast_back [simp]: "ucast (ucast (c :: byte) :: u32) = c"
  by (rule bit_word_eqI) (simp add: bit_simps)

lemma scan_unicode_control: "c \<le> 0x1F \<Longrightarrow> scan_unicode (fmt_04x (ucast (c :: byte)) @ rest) = Some ([c], rest)"
  using codepoint_loop_rest [OF control_codepoint [unfolded get_codepoint_def], of c rest]
  by (simp add: scan_unicode_def get_codepoint_def codepoint_bytes_def word_le_nat_alt word_less_nat_alt)

lemma scan_char_escaped:
  assumes "lead c = Some rs" "within rs more"
  shows "\<exists>d inp. escape_byte c @ more @ rest = d # inp \<and> d \<noteq> 0x22 \<and> scan_char d inp = Some (c # more, rest)"
proof (cases "c \<le> 0x1F \<or> c = 0x22 \<or> c = 0x5C")
  case True
  then have "rs = []" using assms(1) by (auto simp: lead_simps word_le_nat_alt)
  then have "more = []" using assms(2) by simp
  then show ?thesis using True scan_unicode_control [of c rest]
    by (auto simp: escape_byte_def scan_char_def scan_escape_def)
next
  case False
  then have "escape_byte c = [c]" "ranges_after c = Some rs" using assms(1) by (auto simp: escape_byte_def lead_def word_le_nat_alt)
  then show ?thesis using False next_byte_within [OF assms(2), of rest] by (simp add: scan_char_def)
qed

theorem scan_string_escaped:
  assumes "utf8 s"
  shows "scan_string token (escaped s @ 0x22 # rest) = Some (token @ s, rest)"
  using assms
proof (induction "length s" arbitrary: s token rule: less_induct)
  case less
  show ?case
  proof (cases s)
    case Nil
    then show ?thesis by (simp add: escaped_def)
  next
    case (Cons c s1)
    obtain rs more s' where c: "lead c = Some rs" "s1 = more @ s'" "within rs more" "utf8 s'"
      using less.prems Cons utf8_ConsE by blast
    have e: "escaped s = escape_byte c @ more @ escaped s'"
      using Cons c(2) escaped_high [OF within_high [OF c(1,3)]] by (simp add: escaped_def)
    from scan_char_escaped [OF c(1,3), of "escaped s' @ 0x22 # rest"] obtain d inp where
      "escape_byte c @ more @ escaped s' @ 0x22 # rest = d # inp" "d \<noteq> 0x22"
      "scan_char d inp = Some (c # more, escaped s' @ 0x22 # rest)" by blast
    then show ?thesis using e less.hyps [OF _ c(4), of "token @ c # more"] c(2) Cons by simp
  qed
qed

section \<open>What is read\<close>

lemma ucast_of_nat: "ucast (x :: u32) = (of_nat (unat x) :: byte)"
  by (simp add: unsigned_of_nat)

lemma or_field:
  assumes "unat (x :: u32) < 2 ^ m" "k * 2 ^ m + unat x < 2 ^ 32" "c = of_nat (k * 2 ^ m)"
  shows "(ucast (c OR x) :: byte) = of_nat (k * 2 ^ m + unat x)"
proof -
  have "x = take_bit m x" using assms(1) by (simp add: word_unat_eq_iff unsigned_take_bit_eq take_bit_nat_eq_self)
  moreover have c: "c = push_bit m (of_nat k)" using assms(3) by (simp add: push_bit_eq_mult)
  moreover have "push_bit m (of_nat k) AND take_bit m x = 0" by (rule bit_word_eqI) (simp add: bit_simps)
  ultimately have "c OR x = c + x" using disjunctive_add_eq_or [of c x] by metis
  also have "\<dots> = of_nat (k * 2 ^ m + unat x)" using assms(3) by simp
  finally have "unat (c OR x) = k * 2 ^ m + unat x" using assms(2) by (simp add: unat_of_nat del: of_nat_add)
  then show ?thesis by (simp only: ucast_of_nat)
qed

lemma unat_bits:
  "unat (drop_bit k (cp :: u32)) = unat cp div 2 ^ k" "unat (cp AND 0x3F) = unat cp mod 64"
proof -
  have m: "(0x3F :: u32) = mask 6" by (simp add: mask_eq_exp_minus_1)
  show "unat (cp AND 0x3F) = unat cp mod 64" unfolding m take_bit_eq_mask [symmetric]
    by (simp only: unsigned_take_bit_eq) (simp add: take_bit_eq_mod)
  show "unat (drop_bit k cp) = unat cp div 2 ^ k" using unsigned_less [of cp, where ?'a = nat] by (simp only: unsigned_drop_bit_eq) (simp add: drop_bit_eq_div take_bit_nat_eq_self)
qed

lemma continuation_byte: "(ucast (0x80 OR (x AND 0x3F) :: u32) :: byte) = of_nat (0x80 + unat x mod 64)"
  using or_field [of "x AND 0x3F" 6 2 "0x80"] mod_less_divisor [of 64 "unat x"] by (simp add: unat_bits del: of_nat_add)

lemma codepoint_bytes_utf8: "unat cp < 0x110000 \<Longrightarrow> codepoint_bytes cp = utf8_of (unat cp)"
proof -
  assume l: "unat cp < 0x110000"
  consider "unat cp < 0x80" | "0x80 \<le> unat cp" "unat cp < 0x800" | "0x800 \<le> unat cp" "unat cp < 0x10000" | "0x10000 \<le> unat cp"
    by linarith
  then show ?thesis
  proof cases
    case 1
    then show ?thesis by (simp add: codepoint_bytes_def utf8_of_def word_less_nat_alt word_le_nat_alt)
  next
    case 2
    then show ?thesis using or_field [of "drop_bit 6 cp" 5 6 "0xC0"] continuation_byte [of cp]
      by (simp add: codepoint_bytes_def utf8_of_def word_less_nat_alt word_le_nat_alt unat_bits less_mult_imp_div_less del: of_nat_add)
  next
    case 3
    then show ?thesis
      using or_field [of "drop_bit 12 cp" 4 14 "0xE0"] continuation_byte [of cp] continuation_byte [of "drop_bit 6 cp"]
      by (simp add: codepoint_bytes_def utf8_of_def word_less_nat_alt word_le_nat_alt unat_bits less_mult_imp_div_less del: of_nat_add)
  next
    case 4
    then show ?thesis
      using l or_field [of "drop_bit 18 cp" 3 30 "0xF0"] continuation_byte [of cp] continuation_byte [of "drop_bit 6 cp"] continuation_byte [of "drop_bit 12 cp"]
      by (simp add: codepoint_bytes_def utf8_of_def word_less_nat_alt word_le_nat_alt unat_bits less_mult_imp_div_less del: of_nat_add)
  qed
qed

lemma hex_nibble_less: "hex_nibble c = Some d \<Longrightarrow> unat d < 16"
proof -
  assume h: "hex_nibble c = Some d"
  consider "0x30 \<le> unat c" "unat c \<le> 0x39" | "0x41 \<le> unat c" "unat c \<le> 0x46" | "0x61 \<le> unat c" "unat c \<le> 0x66"
    using h by (auto simp: hex_nibble_def word_le_nat_alt split: if_splits)
  then show ?thesis
    by cases (use h in \<open>auto simp: hex_nibble_def word_le_nat_alt unat_sub\<close>)
qed

lemma get_codepoint_less:
  assumes "get_codepoint inp = Some (cp, r)"
  shows "unat cp < 0x10000"
proof -
  obtain c1 c2 c3 c4 where i: "inp = c1 # c2 # c3 # c4 # r"
    using assms unfolding get_codepoint_def
    by (cases inp; cases "tl inp"; cases "tl (tl inp)"; cases "tl (tl (tl inp))") (auto split: option.splits)
  obtain d1 d2 d3 d4 where d: "hex_nibble c1 = Some d1" "hex_nibble c2 = Some d2" "hex_nibble c3 = Some d3" "hex_nibble c4 = Some d4"
      "cp = push_bit 12 d1 + push_bit 8 d2 + push_bit 4 d3 + d4"
    using assms i by (auto simp: get_codepoint_def split: option.splits)
  note l = d(1-4) [THEN hex_nibble_less]
  have "cp = of_nat (4096 * unat d1 + 256 * unat d2 + 16 * unat d3 + unat d4)"
    unfolding d(5) by (simp add: push_bit_eq_mult algebra_simps)
  then have "unat cp = (4096 * unat d1 + 256 * unat d2 + 16 * unat d3 + unat d4) mod 2 ^ 32"
    by (simp only: unat_of_nat) simp
  also have "\<dots> = 4096 * unat d1 + 256 * unat d2 + 16 * unat d3 + unat d4" using l by (intro mod_less) simp
  also have "\<dots> < 0x10000" using l by linarith
  finally show ?thesis .
qed

lemma surrogates:
  assumes "0xD800 \<le> unat cp1" "unat cp1 \<le> 0xDBFF" "0xDC00 \<le> unat cp2" "unat cp2 \<le> 0xDFFF"
  shows "unat (push_bit 10 cp1 + cp2 - 0x35FDC00 :: u32) = 0x10000 + (unat cp1 - 0xD800) * 0x400 + (unat cp2 - 0xDC00)"
proof -
  have p: "unat (push_bit 10 cp1) = unat cp1 * 1024" using assms by (simp add: push_bit_eq_mult unat_word_ariths)
  then have s: "unat (push_bit 10 cp1 + cp2) = unat cp1 * 1024 + unat cp2" using assms by (simp add: unat_word_ariths)
  have "(0x35FDC00 :: u32) \<le> push_bit 10 cp1 + cp2" unfolding word_le_nat_alt s using assms by simp
  then have "unat (push_bit 10 cp1 + cp2 - 0x35FDC00) = unat (push_bit 10 cp1 + cp2) - unat (0x35FDC00 :: u32)" by (rule unat_sub)
  then show ?thesis unfolding s using assms by simp
qed

lemma utf8_of_utf8: "scalar_value n \<Longrightarrow> utf8 (utf8_of n)"
  using utf8_scalar_values utf8_text.intros by (metis append_Nil2)

lemma scan_unicode_utf8:
  assumes "scan_unicode inp = Some (added, r)"
  shows "utf8 added"
proof -
  obtain cp1 i1 where 1: "get_codepoint inp = Some (cp1, i1)" using assms by (auto simp: scan_unicode_def split: option.splits)
  note l = get_codepoint_less [OF 1]
  show ?thesis
  proof (cases "0xD800 \<le> cp1 \<and> cp1 \<le> 0xDBFF")
    case True
    then obtain i2 cp2 where 2: "get_codepoint i2 = Some (cp2, r)" "0xDC00 \<le> cp2" "cp2 \<le> 0xDFFF"
        "added = codepoint_bytes (push_bit 10 cp1 + cp2 - 0x35FDC00)"
      using assms 1 by (auto simp: scan_unicode_def split: option.splits if_splits list.splits)
    have n: "unat (push_bit 10 cp1 + cp2 - 0x35FDC00) = 0x10000 + (unat cp1 - 0xD800) * 0x400 + (unat cp2 - 0xDC00)"
      using True 2(2,3) by (intro surrogates) (simp_all add: word_le_nat_alt)
    have "unat cp1 \<le> 0xDBFF" "unat cp2 \<le> 0xDFFF" using True 2(3) by (simp_all add: word_le_nat_alt)
    then have "unat (push_bit 10 cp1 + cp2 - 0x35FDC00) < 0x110000" "0x10000 \<le> unat (push_bit 10 cp1 + cp2 - 0x35FDC00)"
      unfolding n by linarith+
    then show ?thesis using 2(4) codepoint_bytes_utf8 utf8_of_utf8 by (simp add: scalar_value_def)
  next
    case False
    then have "added = codepoint_bytes cp1" "\<not> (0xDC00 \<le> unat cp1 \<and> unat cp1 \<le> 0xDFFF)" 
      using assms 1 by (auto simp: scan_unicode_def word_le_nat_alt split: if_splits)
    then show ?thesis using False l codepoint_bytes_utf8 utf8_of_utf8 by (auto simp: scalar_value_def word_le_nat_alt)
  qed
qed

lemma scan_char_utf8:
  assumes "scan_char c inp = Some (added, r)"
  shows "utf8 added"
proof (cases "c = 0x5C")
  case True
  then show ?thesis using assms scan_unicode_utf8
    by (auto simp: scan_char_def scan_escape_def lead_simps split: if_splits list.splits)
next
  case False
  then obtain rs more where "ranges_after c = Some rs" "next_byte_in_range rs inp = Some (more, r)" "added = c # more"
    using assms by (auto simp: scan_char_def split: option.splits)
  then show ?thesis using utf8_char [of c rs more] next_byte_in_rangeD by (auto simp: lead_def ranges_after_def split: if_splits)
qed

theorem scan_string_utf8: "scan_string token inp = Some (s, r) \<Longrightarrow> utf8 token \<Longrightarrow> utf8 s"
  by (induction token inp rule: scan_string.induct)
    (auto split: if_splits option.splits dest: scan_char_utf8 utf8_from_append)

end
