(* ===== verification/Json_Integers.thy ===== *)
theory Json_Integers
  imports Json_Text
begin

text \<open>
  The integers the JSON library writes: its loop over pairs of digits, from the end of a buffer of 64 characters,
  produces the decimal text of every 64-bit value and stays within the buffer.
\<close>

unbundle bit_operations_syntax

abbreviation digit_byte :: "nat \<Rightarrow> byte" where "digit_byte d \<equiv> of_nat (48 + d)"

lemma fmt_u_rec: "fmt_u n = (if n < 10 then [digit_byte n] else fmt_u (n div 10) @ [digit_byte (n mod 10)])"
  by (subst fmt_u_def, subst decimal.simps) (simp add: fmt_u_def ascii_def of_char_digit)

lemma fmt_u_two: "100 \<le> n \<Longrightarrow> fmt_u n = fmt_u (n div 100) @ [digit_byte (n mod 100 div 10), digit_byte (n mod 100 mod 10)]"
proof -
  assume n: "100 \<le> n"
  have d: "n div 10 div 10 = n div 100" "n div 10 mod 10 = n mod 100 div 10" "n mod 100 mod 10 = n mod 10"
    using div_mult2_eq [of n 10 10] mod_mult2_eq [of n 10 10] by (auto simp: mod_mod_cancel)
  have "\<not> n < 10" "\<not> n div 10 < 10" using n by auto
  then show ?thesis by (subst fmt_u_rec, simp del: of_nat_add, subst fmt_u_rec, simp add: d del: of_nat_add)
qed

lemma fmt_u_pos [simp]: "0 < length (fmt_u n)"
  by (subst fmt_u_rec) simp

lemma length_fmt_u:
  "length (fmt_u n) = (if n < 10 then 1 else if n < 100 then 2 else if n < 1000 then 3 else if n < 10000 then 4
     else length (fmt_u (n div 10000)) + 4)"
proof -
  have "n div 100 div 100 = n div 10000" using div_mult2_eq [of n 100 100] by simp
  then show ?thesis
    using fmt_u_rec [of n] fmt_u_two [of n] fmt_u_rec [of "n div 10"] fmt_u_rec [of "n div 100"] fmt_u_two [of "n div 100"]
      fmt_u_rec [of "n div 100 div 10"]
    by (auto simp del: of_nat_add)
qed

lemma count_digits_length: "count_digits x k = k + length (fmt_u (unat x)) - 1"
proof (induction x k rule: count_digits.induct)
  case (1 x k)
  have u: "unat (x div 10000) = unat x div 10000" by (simp add: unat_div)
  show ?case
    by (subst count_digits.simps, subst length_fmt_u) (use 1 u in \<open>auto simp: word_less_nat_alt\<close>)
qed

lemma put_back_at: "i < length buffer \<Longrightarrow> put_back d (buffer, Suc i) = Inr (take i buffer @ d # drop (Suc i) buffer, i)"
  by (simp add: put_back_def upd_conv_take_nth_drop)

lemma digit_of_word: "unat (x :: u64) < 10 \<Longrightarrow> (0x30 + ucast x :: byte) = digit_byte (unat x)"
  by simp

lemma put_two_at:
  assumes "unat x < 100" "Suc i < length buffer"
  shows "put_two x (buffer, Suc (Suc i)) =
    Inr (take i buffer @ [digit_byte (unat x div 10), digit_byte (unat x mod 10)] @ drop (Suc (Suc i)) buffer, i)"
proof -
  have "unat (x mod 10) = unat x mod 10" "unat (x div 10) = unat x div 10" by (simp_all add: unat_mod unat_div)
  then have "(0x30 + ucast (x mod 10) :: byte) = digit_byte (unat x mod 10)" "(0x30 + ucast (x div 10) :: byte) = digit_byte (unat x div 10)"
    using assms(1) digit_of_word [of "x mod 10"] digit_of_word [of "x div 10"] by auto
  then show ?thesis using assms(2) by (simp add: put_two_def put_back_at min_def del: of_nat_add)
qed

lemma put_pairs_at:
  assumes "i = k + length (fmt_u (unat x))" "i \<le> length buffer"
  shows "\<exists>y ds. unat y < 100 \<and> fmt_u (unat x) = fmt_u (unat y) @ ds \<and>
    put_pairs x (buffer, i) = Inr (y, take (k + length (fmt_u (unat y))) buffer @ ds @ drop i buffer, k + length (fmt_u (unat y)))"
  using assms
proof (induction "unat x" arbitrary: x buffer i rule: less_induct)
  case less
  show ?case
  proof (cases "x \<ge> 100")
    case False
    then have "unat x < 100" by (simp add: word_le_nat_alt)
    then show ?thesis using False less.prems by (intro exI [of _ x] exI [of _ "[]"]) (simp add: put_pairs.simps)
  next
    case True
    then have x: "100 \<le> unat x" by (simp add: word_le_nat_alt)
    have u: "unat (x div 100) = unat x div 100" "unat (x mod 100) = unat x mod 100" by (simp_all add: unat_div unat_mod)
    define j where "j = k + length (fmt_u (unat (x div 100)))"
    define two where "two = [digit_byte (unat x mod 100 div 10), digit_byte (unat x mod 100 mod 10)]"
    have f: "fmt_u (unat x) = fmt_u (unat (x div 100)) @ two" unfolding two_def u(1) by (rule fmt_u_two [OF x])
    then have i: "i = Suc (Suc j)" using less.prems(1) by (simp add: j_def two_def)
    have p: "put_two (x mod 100) (buffer, i) = Inr (take j buffer @ two @ drop i buffer, j)"
      unfolding i two_def using put_two_at [of "x mod 100" j buffer] less.prems(2) i u(2) by simp
    have "unat (x div 100) < unat x" using x u(1) by simp
    define b where "b = take j buffer @ two @ drop i buffer"
    have "j \<le> length b" using less.prems(2) i by (simp add: b_def)
    from less.hyps [OF \<open>unat (x div 100) < unat x\<close> j_def this] obtain y ds where y:
      "unat y < 100" "fmt_u (unat (x div 100)) = fmt_u (unat y) @ ds"
      "put_pairs (x div 100) (b, j) = Inr (y, take (k + length (fmt_u (unat y))) b @ ds @ drop j b, k + length (fmt_u (unat y)))"
      by blast
    have "k + length (fmt_u (unat y)) \<le> j" using y(2) by (simp add: j_def)
    then have "take (k + length (fmt_u (unat y))) b = take (k + length (fmt_u (unat y))) buffer" "drop j b = two @ drop i buffer"
      using less.prems(2) i by (simp_all add: b_def min_def)
    then show ?thesis using y f p True
      by (intro exI [of _ y] exI [of _ "ds @ two"]) (simp add: put_pairs.simps [of x] b_def)
  qed
qed

lemma dump_digits_exact:
  assumes "i = k + length (fmt_u (unat x))" "i \<le> length buffer"
  shows "dump_digits x buffer i = Inr (take k buffer @ fmt_u (unat x))"
proof -
  obtain y ds where y: "unat y < 100" "fmt_u (unat x) = fmt_u (unat y) @ ds"
    "put_pairs x (buffer, i) = Inr (y, take (k + length (fmt_u (unat y))) buffer @ ds @ drop i buffer, k + length (fmt_u (unat y)))"
    using put_pairs_at [OF assms] by blast
  define rest where "rest = ds @ drop i buffer"
  show ?thesis
  proof (cases "y \<ge> 10")
    case True
    then have y10: "10 \<le> unat y" by (simp add: word_le_nat_alt)
    then have f: "fmt_u (unat y) = [digit_byte (unat y div 10), digit_byte (unat y mod 10)]" 
      using y(1) fmt_u_rec [of "unat y"] fmt_u_rec [of "unat y div 10"] less_mult_imp_div_less [of "unat y" 10 10]
      by (simp del: of_nat_add)
    have "k + 2 \<le> length buffer" using assms y(2) f by simp
    then show ?thesis using y f True assms put_two_at [OF y(1), of k "take (k + 2) buffer @ ds @ drop i buffer"]
      by (simp add: dump_digits_def min_def del: of_nat_add)
  next
    case False
    then have y10: "unat y < 10" by (simp add: word_le_nat_alt)
    then have f: "fmt_u (unat y) = [digit_byte (unat y)]" using fmt_u_rec [of "unat y"] by (simp del: of_nat_add)
    have "k + 1 \<le> length buffer" using assms y(2) f by simp
    then show ?thesis using y f False assms digit_of_word [OF y10] put_back_at [of k "take (k + 1) buffer @ ds @ drop i buffer"]
      by (simp add: dump_digits_def min_def del: of_nat_add)
  qed
qed

lemma length_fmt_u64: "length (fmt_u (unat (x :: u64))) \<le> 20"
proof -
  have "unat x < 10 ^ 20" using unsigned_less [of x, where ?'a = nat] by simp
  then show ?thesis using length_decimal [of "unat x" 20] by (simp add: fmt_u_def ascii_def)
qed

lemma dump_unsigned_exact:
  assumes "length buffer = 64"
  shows "dump_unsigned buffer x = Inr (fmt_u (unat x))"
proof (cases "x = 0")
  case True
  then show ?thesis by (simp add: dump_unsigned_def fmt_u_rec [of 0])
next
  case False
  then show ?thesis
    using dump_digits_exact [of _ 0 x buffer] length_fmt_u64 [of x] assms by (simp add: dump_unsigned_def count_digits_length)
qed

lemma remove_sign_exact:
  assumes "- (2 ^ 63) \<le> x" "x < 0"
  shows "unat (remove_sign x) = nat (- x)"
proof -
  have "remove_sign x = of_int (- x)" by (simp add: remove_sign_def)
  then have "remove_sign x = of_nat (nat (- x))" using assms(2) by simp
  moreover have "nat (- x) < 2 ^ 64" using assms by simp
  ultimately show ?thesis by (simp add: unat_of_nat del: of_int_minus of_nat_nat)
qed

lemma dump_signed_exact:
  assumes "length buffer = 64" "- (2 ^ 63) \<le> x" "x < 2 ^ 63"
  shows "dump_signed buffer x = Inr (fmt_d x)"
proof -
  consider "x = 0" | "x < 0" | "0 < x" by linarith
  then show ?thesis
  proof cases
    case 1
    then show ?thesis by (simp add: dump_signed_def fmt_d_def fmt_u_rec [of 0])
  next
    case 2
    define n where "n = remove_sign x"
    have "take 1 (buffer[0 := 0x2D]) = [0x2D]" using assms(1) by (cases buffer) auto
    then have "dump_digits n (buffer[0 := 0x2D]) (1 + count_digits n 1) = Inr (0x2D # fmt_u (unat n))"
      using dump_digits_exact [of _ 1 n "buffer[0 := 0x2D]"] length_fmt_u64 [of n] assms(1) by (simp add: count_digits_length)
    then show ?thesis using 2 remove_sign_exact [OF assms(2) 2]
      by (simp add: dump_signed_def fmt_d_def ascii_def flip: n_def)
  next
    case 3
    then have "(of_int x :: u64) = of_nat (nat x)" "nat x < 2 ^ 64" using assms(3) by simp_all
    then have "unat (of_int x :: u64) = nat x" by (simp only: unat_of_nat) simp
    then show ?thesis
      using 3 dump_digits_exact [of _ 0 "of_int x" buffer] length_fmt_u64 [of "of_int x"] assms(1)
      by (simp add: dump_signed_def count_digits_length fmt_d_def)
  qed
qed

text \<open>
  Every 64-bit integer, signed or not, is written as its decimal text, whatever the number buffer held before; no digit is
  stored outside the buffer.
\<close>

theorem integers_written_in_decimal:
  assumes "length buffer = 64" "- (2 ^ 63) \<le> i" "i < 2 ^ 63"
  shows "dump_unsigned buffer x = Inr (fmt_u (unat x)) \<and> dump_signed buffer i = Inr (fmt_d i)"
  using dump_unsigned_exact dump_signed_exact assms by blast

theorem integers_written_in_decimal_witness:
  "dump_unsigned (replicate 64 7) (- 1) = Inr (fmt_u (unat (- 1 :: u64)))
   \<and> dump_signed (replicate 64 7) (- (2 ^ 63)) = Inr (fmt_d (- (2 ^ 63)))"
  by (rule integers_written_in_decimal) simp_all

end
