(* ===== verification/Json_Writing.thy ===== *)
theory Json_Writing
  imports Json_Document Json_Strings Json_Integers
begin

text \<open>
  Writing a document: the text is a function of the value, the indentation string always suffices, and the only failure is
  text that is not UTF-8.
\<close>

section \<open>Writing never fails but on text that is not UTF-8\<close>

text \<open>An integer fits 64 bits.\<close>

fun well_typed :: "Json \<Rightarrow> bool" where
  "well_typed (JInteger i) \<longleftrightarrow> - (2 ^ 63) \<le> i \<and> i < 2 ^ 63"
| "well_typed (JArray vs) \<longleftrightarrow> (\<forall>v \<in> set vs. well_typed v)"
| "well_typed (JObject ms) \<longleftrightarrow> (\<forall>m \<in> set ms. well_typed (snd m))"
| "well_typed _ \<longleftrightarrow> True"

fun all_utf8 :: "Json \<Rightarrow> bool" where
  "all_utf8 (JString s) \<longleftrightarrow> utf8 s"
| "all_utf8 (JArray vs) \<longleftrightarrow> (\<forall>v \<in> set vs. all_utf8 v)"
| "all_utf8 (JObject ms) \<longleftrightarrow> (\<forall>m \<in> set ms. utf8 (ascii (fst m)) \<and> all_utf8 (snd m))"
| "all_utf8 _ \<longleftrightarrow> True"

definition line_break :: "bool \<Rightarrow> bytes" where
  "line_break pretty = (if pretty then [0xA] else [])"

definition indentation :: "bool \<Rightarrow> nat \<Rightarrow> bytes" where
  "indentation pretty n = (if pretty then replicate n 0x20 else [])"

text \<open>The text of a value, with line breaks and indentation or without.\<close>

fun render :: "bool \<Rightarrow> nat \<Rightarrow> nat \<Rightarrow> Json \<Rightarrow> bytes"
  and render_members :: "bool \<Rightarrow> nat \<Rightarrow> nat \<Rightarrow> (string \<times> Json) list \<Rightarrow> bytes"
  and render_elements :: "bool \<Rightarrow> nat \<Rightarrow> nat \<Rightarrow> Json list \<Rightarrow> bytes" where
  "render p step k (JObject ms) =
     (if ms = [] then [0x7B, 0x7D]
      else 0x7B # line_break p @ render_members p step (if p then k + step else k) ms @ line_break p @ indentation p k @ [0x7D])"
| "render p step k (JArray vs) =
     (if vs = [] then [0x5B, 0x5D]
      else 0x5B # line_break p @ render_elements p step (if p then k + step else k) vs @ line_break p @ indentation p k @ [0x5D])"
| "render p step k (JString s) = 0x22 # escaped s @ [0x22]"
| "render p step k (JBool b) = ascii (if b then ''true'' else ''false'')"
| "render p step k (JInteger i) = fmt_d i"
| "render p step k (JUnsigned u) = fmt_u (unat u)"
| "render p step k (JFloat t) = t"
| "render p step k JNull = ascii ''null''"
| "render_members p step k [] = []"
| "render_members p step k ((n, v) # ms) =
     indentation p k @ 0x22 # escaped (ascii n) @ 0x22 # 0x3A # indentation p 1 @ render p step k v
       @ (if ms = [] then [] else 0x2C # line_break p) @ render_members p step k ms"
| "render_elements p step k [] = []"
| "render_elements p step k (v # vs) =
     indentation p k @ render p step k v @ (if vs = [] then [] else 0x2C # line_break p) @ render_elements p step k vs"

text \<open>A writer writes this text, or fails with the type error, from any indentation string of at least \<open>k\<close> characters.\<close>

definition writes :: "writer \<Rightarrow> bool \<Rightarrow> bytes \<Rightarrow> nat \<Rightarrow> bool" where
  "writes w ok s k \<longleftrightarrow>
     (\<forall>n. 512 \<le> n \<longrightarrow> k \<le> n \<longrightarrow> (if ok then \<exists>n'. n \<le> n' \<and> w n = Inr (s, n') else w n = Inl Type_Error))"

lemma writes_and_then:
  assumes "writes f a s k" "writes g b t k"
  shows "writes (and_then f g) (a \<and> b) (s @ t) k"
  unfolding writes_def
proof (intro allI impI)
  fix n assume n: "512 \<le> n" "k \<le> n"
  show "if a \<and> b then \<exists>n'\<ge>n. and_then f g n = Inr (s @ t, n') else and_then f g n = Inl Type_Error"
  proof (cases a)
    case True
    then obtain m where m: "n \<le> m" "f n = Inr (s, m)" using assms(1) n by (auto simp: writes_def)
    then have "if b then \<exists>n'\<ge>m. g m = Inr (t, n') else g m = Inl Type_Error" using assms(2) n by (simp add: writes_def)
    then show ?thesis using m True by (cases b) (auto simp: and_then_def)
  qed (use assms(1) n in \<open>simp add: writes_def and_then_def\<close>)
qed

lemma writes_more: "writes w ok s k \<Longrightarrow> k \<le> k' \<Longrightarrow> writes w ok s k'"
  by (simp add: writes_def)

lemma writes_grow: "step \<le> 512 \<Longrightarrow> writes g b t (k + step) \<Longrightarrow> writes (and_then (grow_indent (k + step)) g) b t k"
  unfolding writes_def
proof (intro allI impI)
  fix n assume n: "step \<le> 512" "512 \<le> n" "k \<le> n"
    and g: "\<forall>n. 512 \<le> n \<longrightarrow> k + step \<le> n \<longrightarrow> (if b then \<exists>n'. n \<le> n' \<and> g n = Inr (t, n') else g n = Inl Type_Error)"
  define m where "m = (if n < k + step then n * 2 else n)"
  have m: "n \<le> m" "512 \<le> m" "k + step \<le> m" using n by (auto simp: m_def)
  then have "if b then \<exists>n'\<ge>m. g m = Inr (t, n') else g m = Inl Type_Error" using g by blast
  moreover have "and_then (grow_indent (k + step)) g n = (case g m of Inl e \<Rightarrow> Inl e | Inr (t, n') \<Rightarrow> Inr (t, n'))"
    by (auto simp: and_then_def grow_indent_def m_def split: sum.splits)
  ultimately show "if b then \<exists>n'\<ge>n. and_then (grow_indent (k + step)) g n = Inr (t, n') else and_then (grow_indent (k + step)) g n = Inl Type_Error"
    using m(1) by (cases b) (auto intro: order_trans)
qed

lemma writes_basic:
  "writes (write_characters s) True s k" "n \<le> k \<Longrightarrow> writes (write_indent n) True (replicate n 0x20) k"
  "writes (write_result (dump_escaped s)) (utf8 s) (escaped s) k"
  "writes (write_result (dump_unsigned number_buffer u)) True (fmt_u (unat u)) k"
  "- (2 ^ 63) \<le> i \<Longrightarrow> i < 2 ^ 63 \<Longrightarrow> writes (write_result (dump_signed number_buffer i)) True (fmt_d i) k"
  by (auto simp: writes_def write_characters_def write_indent_def write_result_def dump_escaped_exact number_buffer_def
      dump_unsigned_exact dump_signed_exact)

lemma writes_in_turn:
  "writes (in_turn []) True [] k"
  "writes w a s k \<Longrightarrow> writes (in_turn ws) b t k \<Longrightarrow> writes (in_turn (w # ws)) (a \<and> b) (s @ t) k"
  by (simp_all add: in_turn_def writes_basic writes_and_then)

lemma writes_in_turn_grow:
  "step \<le> 512 \<Longrightarrow> writes (in_turn ws) b t (k + step) \<Longrightarrow> writes (in_turn (grow_indent (k + step) # ws)) b t k"
  using writes_grow by (simp add: in_turn_def)

lemma writes_eq: "writes w a s k \<Longrightarrow> a = b \<Longrightarrow> s = t \<Longrightarrow> writes w b t k"
  by simp

lemmas writes_rules = writes_in_turn writes_in_turn_grow writes_basic

lemma ascii_brackets [simp]:
  "ascii ''{'' = [0x7B]" "ascii ''}'' = [0x7D]" "ascii ''['' = [0x5B]" "ascii '']'' = [0x5D]" "ascii ''{}'' = [0x7B, 0x7D]" "ascii ''[]'' = [0x5B, 0x5D]"
  by (simp_all add: ascii_def)

lemma writes_brackets:
  assumes "step \<le> 512" "writes body ok s (if p then k + step else k)"
  shows "writes (if p then in_turn [write_characters ([oc] @ [0xA]), grow_indent (k + step), body, write_characters [0xA],
        write_indent k, write_characters [cc]]
      else in_turn [write_characters [oc], body, write_characters [cc]]) ok (oc # line_break p @ s @ line_break p @ indentation p k @ [cc]) k"
proof (cases p)
  case True
  have "writes (in_turn [body, write_characters [0xA], write_indent k, write_characters [cc]]) ok
      (s @ [0xA] @ replicate k 0x20 @ [cc]) (k + step)"
    using assms(2) True
    by (intro writes_eq [OF writes_in_turn(2) [OF _ writes_in_turn(2) [OF writes_basic(1)
          writes_in_turn(2) [OF writes_basic(2) writes_in_turn(2) [OF writes_basic(1) writes_in_turn(1)]]]]]) auto
  then show ?thesis using True assms(1) by (simp, intro writes_eq [OF writes_in_turn(2) [OF writes_basic(1) writes_in_turn_grow]])
     (auto simp: line_break_def indentation_def)
next
  case False
  then show ?thesis using assms(2) by (simp, intro writes_eq [OF writes_in_turn(2) [OF writes_basic(1) writes_in_turn(2) [OF _ writes_in_turn(2) [OF writes_basic(1) writes_in_turn(1)]]]])
     (auto simp: line_break_def indentation_def)
qed

lemma writes_spaces: "writes (if p then write_indent k else write_characters []) True (indentation p k) k"
  by (simp add: writes_basic indentation_def)

lemma writes_separator:
  "writes (if e then write_characters [] else write_characters (if p then [0x2C, 0xA] else [0x2C])) True (if e then [] else 0x2C # line_break p) k"
  by (simp add: writes_basic line_break_def)

lemma dump_renders:
  "well_typed v \<Longrightarrow> step \<le> 512 \<Longrightarrow> writes (dump p step k v) (all_utf8 v) (render p step k v) k"
  "\<forall>m \<in> set ms. well_typed (snd m) \<Longrightarrow> step \<le> 512 \<Longrightarrow>
     writes (dump_members p step k ms) (\<forall>m \<in> set ms. utf8 (ascii (fst m)) \<and> all_utf8 (snd m)) (render_members p step k ms) k"
  "\<forall>v \<in> set vs. well_typed v \<Longrightarrow> step \<le> 512 \<Longrightarrow>
     writes (dump_elements p step k vs) (\<forall>v \<in> set vs. all_utf8 v) (render_elements p step k vs) k"
proof (induction p step k v and p step k ms and p step k vs rule: dump_dump_members_dump_elements.induct)
  case (1 p step k ms)
  show ?case
  proof (cases "ms = []")
    case True
    then show ?thesis using writes_basic(1) by simp
  next
    case False
    have "writes (dump_members p step (if p then k + step else k) ms) (all_utf8 (JObject ms))
        (render_members p step (if p then k + step else k) ms) (if p then k + step else k)"
      using 1 False by (cases p) simp_all
    from writes_brackets [OF 1(4) this, where oc = "0x7B" and cc = "0x7D"] show ?thesis using False by (cases p) simp_all
  qed
next
  case (2 p step k vs)
  show ?case
  proof (cases "vs = []")
    case True
    then show ?thesis using writes_basic(1) by simp
  next
    case False
    have "writes (dump_elements p step (if p then k + step else k) vs) (all_utf8 (JArray vs))
        (render_elements p step (if p then k + step else k) vs) (if p then k + step else k)"
      using 2 False by (cases p) simp_all
    from writes_brackets [OF 2(4) this, where oc = "0x5B" and cc = "0x5D"] show ?thesis using False by (cases p) simp_all
  qed
next
  case (3 p step k s)
  show ?case by (simp, rule writes_eq, (rule writes_rules)+) simp_all
next
  case (10 p step k n v ms)
  have *: "writes (dump p step k v) (all_utf8 v) (render p step k v) k"
    "writes (dump_members p step k ms) (\<forall>m \<in> set ms. utf8 (ascii (fst m)) \<and> all_utf8 (snd m)) (render_members p step k ms) k"
    using 10 by simp_all
  show ?case unfolding dump_members.simps
    by (rule writes_eq, (rule writes_in_turn writes_spaces writes_separator * writes_basic(1,3))+) (auto simp: indentation_def)
next
  case (12 p step k v vs)
  have *: "writes (dump p step k v) (all_utf8 v) (render p step k v) k"
    "writes (dump_elements p step k vs) (\<forall>v \<in> set vs. all_utf8 v) (render_elements p step k vs) k"
    using 12 by simp_all
  show ?case unfolding dump_elements.simps
    by (rule writes_eq, (rule writes_in_turn writes_spaces writes_separator *)+) auto
qed (use writes_basic in auto)

lemma dump_text_exact:
  assumes "well_typed v" "indent \<le> 512"
  shows "dump_text indent v =
    (if all_utf8 v then Inr (if 0 \<le> indent then render True (nat indent) 0 v else render False 0 0 v) else Inl Type_Error)"
proof -
  have "nat indent \<le> 512" using assms(2) by linarith
  then show ?thesis
    using dump_renders(1) [OF assms(1), of "nat indent" True 0, unfolded writes_def, THEN spec, of 512]
      dump_renders(1) [OF assms(1), of 0 False 0, unfolded writes_def, THEN spec, of 512]
    by (auto simp: dump_text_def split: if_splits)
qed

text \<open>An indentation beyond twice the first size of the indentation string is written past its end.\<close>

lemma deep_indent_overruns: "dump_text 2000 (JArray [JNull]) = Inl Overrun"
  by (simp add: dump_text_def in_turn_def and_then_def write_characters_def grow_indent_def write_indent_def)

end
