(* ===== verification/Json_Reading.thy ===== *)
theory Json_Reading
  imports Json_Writing
begin

text \<open>Reading a document that was written: token by token, the parser rebuilds the value.\<close>

section \<open>Tokens of a written document\<close>

lemma skip_whitespace_simps [simp]:
  "skip_whitespace [] = []"
  "skip_whitespace (c # inp) = (if is_whitespace c then skip_whitespace inp else c # inp)"
  by (simp_all add: skip_whitespace_def)

lemma scan_whitespace: "is_whitespace c \<Longrightarrow> scan (c # inp) = scan inp"
  by (simp add: scan_def)

lemma scan_line [simp]: "scan (line_break p @ inp) = scan inp"
  by (simp add: line_break_def scan_whitespace is_whitespace_def)

lemma scan_spaces [simp]: "scan (indentation p n @ inp) = scan inp"
proof -
  have "scan (replicate n 0x20 @ inp) = scan inp" by (induction n) (simp_all add: scan_whitespace is_whitespace_def)
  then show ?thesis by (simp add: indentation_def)
qed

lemma scan_structure [simp]:
  "scan (0x5B # inp) = (begin_array, inp)" "scan (0x5D # inp) = (end_array, inp)"
  "scan (0x7B # inp) = (begin_object, inp)" "scan (0x7D # inp) = (end_object, inp)"
  "scan (0x3A # inp) = (name_separator, inp)" "scan (0x2C # inp) = (value_separator, inp)"
  by (simp_all add: scan_def is_whitespace_def)

lemma scan_quoted: "utf8 s \<Longrightarrow> scan (0x22 # escaped s @ 0x22 # inp) = (value_string s, inp)"
  by (simp add: scan_def is_whitespace_def scan_string_escaped)

lemma scan_words:
  "scan (ascii ''true'' @ inp) = (literal_true, inp)" "scan (ascii ''false'' @ inp) = (literal_false, inp)"
  "scan (ascii ''null'' @ inp) = (literal_null, inp)"
  by (simp_all add: scan_def scan_literal_def is_whitespace_def ascii_def)

text \<open>What may follow a number: no character that would prolong it.\<close>

definition number_ends :: "bytes \<Rightarrow> bool" where
  "number_ends inp \<longleftrightarrow> (case inp of [] \<Rightarrow> True | c # _ \<Rightarrow> \<not> is_digit c \<and> c \<noteq> 0x2E \<and> c \<noteq> 0x65 \<and> c \<noteq> 0x45)"

definition number_read :: "bytes \<Rightarrow> number_type option" where
  "number_read t =
     (case t of [] \<Rightarrow> None
      | c # ds \<Rightarrow>
        (case number_first c of None \<Rightarrow> None
         | Some state \<Rightarrow>
           (case number_loop state (number_type_at state Unsigned) [c] ds of Some (ty, _, []) \<Rightarrow> Some ty | _ \<Rightarrow> None)))"

lemma number_loop_buffer: "number_loop st ty b inp = Some (ty', b', r) \<Longrightarrow> b' @ r = b @ inp"
  by (induction st ty b inp rule: number_loop.induct) (auto split: option.splits if_splits)

lemma number_loop_ends:
  "number_loop st ty b inp = Some (ty', b', []) \<Longrightarrow> number_ends rest \<Longrightarrow> number_loop st ty b (inp @ rest) = Some (ty', b', rest)"
proof (induction st ty b inp rule: number_loop.induct)
  case (1 st ty b)
  then show ?case by (cases rest; cases st) (auto simp: number_ends_def split: if_splits)
qed (auto split: option.splits if_splits)

lemma number_first_char: "number_first c = Some st \<Longrightarrow> \<not> is_whitespace c \<and> (c = 0x2D \<or> is_digit c)
    \<and> c \<notin> {0x5B, 0x5D, 0x7B, 0x7D, 0x3A, 0x2C, 0x74, 0x66, 0x6E, 0x22}"
  by (auto simp: number_first_def is_whitespace_def is_digit_def word_le_nat_alt split: if_splits)

lemma scan_number_text:
  assumes "number_read t = Some ty" "number_ends rest"
  shows "scan (t @ rest) = (convert_number ty t, rest)"
proof -
  obtain c ds st b where t: "t = c # ds" "number_first c = Some st"
      "number_loop st (number_type_at st Unsigned) [c] ds = Some (ty, b, [])"
    using assms(1) by (auto simp: number_read_def split: list.splits option.splits)
  then have "b = t" using number_loop_buffer by fastforce
  then have "scan_number c (ds @ rest) = (convert_number ty t, rest)"
    using number_loop_ends [OF t(3) assms(2)] t(2) by (simp add: scan_number_def)
  then show ?thesis using number_first_char [OF t(2)] t(1) by (auto simp: scan_def)
qed

lemma number_loop_digits: "list_all is_digit ds \<Longrightarrow> number_loop any1 ty b ds = Some (ty, b @ ds, [])"
  by (induction ds arbitrary: b) simp_all

lemma fmt_u_digits: "list_all is_digit (fmt_u n)" "digits_value (fmt_u n) = int n"
  using decimal_digits [of n] by (simp_all add: fmt_u_def)

lemma fmt_u_first: "\<exists>ds. fmt_u n = (if n = 0 then [0x30] else (hd (fmt_u n) # ds)) \<and> (n \<noteq> 0 \<longrightarrow> 0x31 \<le> hd (fmt_u n) \<and> hd (fmt_u n) \<le> 0x39)"
proof (induction n rule: less_induct)
  case (less n)
  show ?case
  proof (cases "n < 10")
    case True
    have "n \<noteq> 0 \<Longrightarrow> 0x31 \<le> digit_byte n \<and> digit_byte n \<le> 0x39"
      using True by (simp add: word_le_nat_alt unat_of_nat del: of_nat_add)
    then show ?thesis using True by (auto simp: fmt_u_rec [of n] simp del: of_nat_add)
  next
    case False
    then have "n div 10 < n" "n div 10 \<noteq> 0" by auto
    from less [OF this(1)] this(2) obtain ds where "fmt_u (n div 10) = hd (fmt_u (n div 10)) # ds"
      "0x31 \<le> hd (fmt_u (n div 10))" "hd (fmt_u (n div 10)) \<le> 0x39" by auto
    moreover have "fmt_u n = fmt_u (n div 10) @ [digit_byte (n mod 10)]" using False fmt_u_rec [of n] by simp
    ultimately show ?thesis using False by (metis append_Cons hd_append2 list.distinct(1) list.sel(1) not_less0 zero_less_numeral)
  qed
qed

lemma number_read_unsigned: "number_read (fmt_u n) = Some Unsigned"
proof (cases "n = 0")
  case True
  then show ?thesis by (simp add: fmt_u_rec [of 0] number_read_def number_first_def)
next
  case False
  then obtain c ds where c: "fmt_u n = c # ds" "0x31 \<le> c" "c \<le> 0x39" using fmt_u_first [of n] by fastforce
  then have "list_all is_digit ds" using fmt_u_digits(1) [of n] by simp
  moreover have "c \<noteq> 0x2D" "c \<noteq> 0x30" using c(2) by (auto simp: word_le_nat_alt)
  ultimately show ?thesis using c by (simp add: number_read_def number_first_def number_loop_digits)
qed

lemma number_read_negative: "0 < n \<Longrightarrow> number_read (0x2D # fmt_u n) = Some Integer"
proof -
  assume "0 < n"
  then obtain c ds where c: "fmt_u n = c # ds" "0x31 \<le> c" "c \<le> 0x39" using fmt_u_first [of n] by fastforce
  then have "list_all is_digit ds" using fmt_u_digits(1) [of n] by simp
  moreover have "c \<noteq> 0x30" using c(2) by (auto simp: word_le_nat_alt)
  ultimately show ?thesis using c by (simp add: number_read_def number_first_def number_loop_digits)
qed

section \<open>Reading a written document\<close>

text \<open>A printed number is read as itself.\<close>

definition float_ok :: "float_text \<Rightarrow> bytes \<Rightarrow> bool" where
  "float_ok F t \<longleftrightarrow> number_read t = Some Float \<and> F t = Some t"

text \<open>The values the library can hold and write.\<close>

fun document :: "float_text \<Rightarrow> Json \<Rightarrow> bool" where
  "document F (JInteger i) \<longleftrightarrow> - (2 ^ 63) \<le> i \<and> i < 2 ^ 63"
| "document F (JFloat t) \<longleftrightarrow> float_ok F t"
| "document F (JString s) \<longleftrightarrow> utf8 s"
| "document F (JArray vs) \<longleftrightarrow> (\<forall>v \<in> set vs. document F v)"
| "document F (JObject ms) \<longleftrightarrow> map_sorted ms \<and> (\<forall>m \<in> set ms. utf8 (ascii (fst m)) \<and> document F (snd m))"
| "document F _ \<longleftrightarrow> True"

text \<open>A signed integer that is not negative comes back as an unsigned one; the library calls the two equal.\<close>

fun as_read :: "Json \<Rightarrow> Json" where
  "as_read (JInteger i) = (if 0 \<le> i then JUnsigned (of_int i) else JInteger i)"
| "as_read (JArray vs) = JArray (map as_read vs)"
| "as_read (JObject ms) = JObject (map (\<lambda>(k, v). (k, as_read v)) ms)"
| "as_read v = v"

lemma document_typed: "document F v \<Longrightarrow> well_typed v \<and> all_utf8 v"
  by (induction v) (auto simp: snds.simps)

lemma text_of_ascii [simp]: "text_of (ascii k) = k"
proof -
  have "unat (of_char c :: byte) = of_char c" for c
  proof -
    have "unat (of_char c :: byte) = unat (of_nat (of_char c) :: byte)" by (simp only: of_nat_of_char)
    also have "\<dots> = of_char c" by (simp add: unat_of_nat del: of_nat_of_char)
    finally show ?thesis .
  qed
  then show ?thesis by (simp add: text_of_def ascii_def comp_def)
qed

lemma ascii_text_of [simp]: "ascii (text_of s) = s"
proof -
  have "(of_char (char_of (unat b)) :: byte) = b" for b :: byte
  proof -
    have "(of_char (char_of (unat b)) :: byte) = of_nat (of_char (char_of (unat b)))" by (simp only: of_nat_of_char)
    also have "\<dots> = of_nat (unat b mod 256)" by (simp only: of_char_of)
    also have "\<dots> = b" by (simp only: mod_less [OF byte_less_256] word_of_nat_unat_helper)
    finally show ?thesis .
  qed
  then show ?thesis by (simp add: text_of_def ascii_def comp_def)
qed

definition parse_at :: "float_text \<Rightarrow> bool list \<Rightarrow> bytes \<Rightarrow> dom_parser \<Rightarrow> (dom_parser \<times> bytes) option" where
  "parse_at F st inp d = (case scan inp of (tok, inp) \<Rightarrow> parse_value F st tok inp d)"

definition parse_members_at :: "float_text \<Rightarrow> bool list \<Rightarrow> bytes \<Rightarrow> dom_parser \<Rightarrow> (dom_parser \<times> bytes) option" where
  "parse_members_at F st inp d =
     (case scan inp of (tok, inp) \<Rightarrow>
        (case parse_key tok inp d of None \<Rightarrow> None | Some (d, tok, inp) \<Rightarrow> parse_value F st tok inp d))"

lemma parse_value_array: "parse_value F st begin_array inp d =
    (if fst (scan inp) = end_array then after_value F st (snd (scan inp)) (end_container (start_array d))
     else parse_at F (True # st) inp (start_array d))"
  by (simp add: parse_value.simps [of F st begin_array] parse_at_def split: prod.splits)

lemma parse_value_object: "parse_value F st begin_object inp d =
    (if fst (scan inp) = end_object then after_value F st (snd (scan inp)) (end_container (start_object d))
     else parse_members_at F (False # st) inp (start_object d))"
  by (simp add: parse_value.simps [of F st begin_object] parse_members_at_def split: prod.splits)

lemma parse_value_scalar:
  assumes "scan inp = (tok, rest)" "scalar_token F tok = Some v"
  shows "parse_at F st inp d = after_value F st rest (handle_value v d)"
proof -
  have "tok \<noteq> begin_object" "tok \<noteq> begin_array" using assms(2) by auto
  then show ?thesis using assms by (simp add: parse_at_def parse_value.simps)
qed

lemma after_value_array:
  "after_value F (True # st) (0x2C # inp) d = parse_at F (True # st) inp d"
  "after_value F (True # st) (line_break p @ indentation p k @ 0x5D # inp) d = after_value F st inp (end_container d)"
  by (simp_all add: after_value.simps [of F "True # st"] parse_at_def)

lemma after_value_object:
  "after_value F (False # st) (0x2C # inp) d = parse_members_at F (False # st) inp d"
  "after_value F (False # st) (line_break p @ indentation p k @ 0x7D # inp) d = after_value F st inp (end_container d)"
  by (simp_all add: after_value.simps [of F "False # st"] parse_members_at_def)

lemma parse_at_blank [simp]: "parse_at F st (line_break p @ inp) d = parse_at F st inp d" "parse_at F st (indentation p k @ inp) d = parse_at F st inp d"
  "parse_members_at F st (line_break p @ inp) d = parse_members_at F st inp d" "parse_members_at F st (indentation p k @ inp) d = parse_members_at F st inp d"
  by (simp_all add: parse_at_def parse_members_at_def)

lemma parse_members_key: "utf8 s \<Longrightarrow>
    parse_members_at F st (0x22 # escaped s @ 0x22 # 0x3A # indentation p k @ inp) d = parse_at F st inp (sax_key s d)"
  by (simp add: parse_members_at_def parse_key_def scan_quoted parse_at_def)

lemma number_ends_after [simp]: "number_ends (0x2C # r)" "number_ends (line_break p @ indentation p k @ 0x5D # r)" "number_ends (line_break p @ indentation p k @ 0x7D # r)"
  "number_ends []" "number_ends (0xA # r)"
  by (cases k; simp add: number_ends_def is_digit_def line_break_def indentation_def word_le_nat_alt)+

lemma negative_text: "i < 0 \<Longrightarrow> fmt_d i = 0x2D # fmt_u (nat (- i))"
  by (simp add: fmt_d_def ascii_def)

lemma scan_integer:
  assumes "- (2 ^ 63) \<le> i" "i < 2 ^ 63" "number_ends rest"
  shows "scan (fmt_d i @ rest) = (if 0 \<le> i then value_unsigned (of_int i) else value_integer i, rest)"
proof (cases "0 \<le> i")
  case True
  then show ?thesis using assms scan_number_text [OF number_read_unsigned assms(3), of "nat i"]
    by (simp add: fmt_d_def convert_number_def fmt_u_digits)
next
  case False
  then show ?thesis using assms scan_number_text [OF number_read_negative assms(3), of "nat (- i)"]
    by (simp add: negative_text convert_number_def fmt_u_digits)
qed

lemma scan_unsigned: "number_ends rest \<Longrightarrow> scan (fmt_u (unat u) @ rest) = (value_unsigned u, rest)"
proof -
  assume "number_ends rest"
  moreover have "int (unat u) < 2 ^ 64" using unsigned_less [of u, where ?'a = int] by simp
  ultimately show ?thesis using scan_number_text [OF number_read_unsigned, of rest "unat u"]
    by (simp add: convert_number_def fmt_u_digits)
qed

lemma scalar_read:
  assumes "document F v" "number_ends rest" "\<And>ms. v \<noteq> JObject ms" "\<And>vs. v \<noteq> JArray vs"
  obtains tok where "scan (render p step k v @ rest) = (tok, rest)" "scalar_token F tok = Some (as_read v)"
proof (cases v)
  case (JFloat t)
  then show ?thesis using assms scan_number_text [OF _ assms(2), of t Float] that by (simp add: float_ok_def convert_number_def)
next
  case (JBool b)
  then show ?thesis using that scan_words [of rest] by (cases b) simp_all
next
  case (JInteger i)
  then show ?thesis using that assms scan_integer [OF _ _ assms(2), of i] by (auto split: if_splits)
next
  case JNull
  then show ?thesis using that scan_words [of rest] by simp
next
  case (JString s)
  then show ?thesis using that assms scan_quoted [of s rest] by simp
next
  case (JUnsigned u)
  then show ?thesis using that scan_unsigned [OF assms(2), of u] by simp
qed (use assms in simp_all)

lemma value_starts:
  assumes "document F v" "number_ends rest"
  shows "fst (scan (render p step k v @ rest)) \<noteq> end_array"
proof (cases "(\<exists>ms. v = JObject ms) \<or> (\<exists>vs. v = JArray vs)")
  case False
  then show ?thesis using scalar_read [OF assms, of p step k] by fastforce
qed (auto split: if_splits)

lemma map_insert_again: "sorted_wrt (<) (map fst m @ [k]) \<Longrightarrow> map_insert k v (m @ [(k, w)]) = m @ [(k, v)]"
  by (induction m) (auto simp: sorted_wrt_append)

lemma member_added:
  assumes "ref_stack d = Open_Object m k0 # fs" "sorted_wrt (<) (map fst m @ [k])"
  shows "handle_value v (sax_key (ascii k) d) = d\<lparr>ref_stack := Open_Object (m @ [(k, v)]) k # fs\<rparr>"
proof -
  have "k \<notin> fst ` set m" using assms(2) by (auto simp: sorted_wrt_append)
  then have "map_of m k = None" by (simp add: map_of_eq_None_iff)
  then show ?thesis using assms map_insert_last [OF assms(2), of JNull] map_insert_again [OF assms(2)]
    by (simp add: sax_key_def handle_value_def)
qed

lemma end_array_frame: "ref_stack d = Open_Array vs # fs \<Longrightarrow> end_container d = handle_value (JArray vs) (d\<lparr>ref_stack := fs\<rparr>)"
  and end_object_frame: "ref_stack d = Open_Object m k # fs \<Longrightarrow> end_container d = handle_value (JObject m) (d\<lparr>ref_stack := fs\<rparr>)"
  by (simp_all add: end_container_def)

lemma element_added: "ref_stack d = Open_Array vs # fs \<Longrightarrow> handle_value v d = d\<lparr>ref_stack := Open_Array (vs @ [v]) # fs\<rparr>"
  by (simp add: handle_value_def)

lemma start_frames [simp]:
  "ref_stack (start_array d) = Open_Array [] # ref_stack d" "start_array d\<lparr>ref_stack := ref_stack d\<rparr> = d"
  "ref_stack (start_object d) = Open_Object [] [] # ref_stack d" "start_object d\<lparr>ref_stack := ref_stack d\<rparr> = d"
  by (simp_all add: start_array_def start_object_def)

lemma members_start: "document F (JObject (m # ms)) \<Longrightarrow> \<exists>s r. scan (render_members p step k (m # ms) @ rest) = (value_string s, r)"
  by (cases m) (simp add: scan_quoted)

lemma elements_start: "document F v \<Longrightarrow> fst (scan (render_elements p step k (v # vs) @ line_break p @ indentation p k' @ 0x5D # rest)) \<noteq> end_array"
  using value_starts [of F v _ p step k] by simp

lemma scalar_document:
  assumes "document F v" "number_ends rest" "\<And>ms. v \<noteq> JObject ms" "\<And>vs. v \<noteq> JArray vs"
  shows "parse_at F st (render p step k v @ rest) d = after_value F st rest (handle_value (as_read v) d)"
  using scalar_read [OF assms, of p step k] parse_value_scalar [of _ _ _ F] by metis

lemma document_read:
  "document F v \<Longrightarrow> number_ends rest \<Longrightarrow>
     parse_at F st (render p step k v @ rest) d = after_value F st rest (handle_value (as_read v) d)"
  "\<forall>m \<in> set ms. utf8 (ascii (fst m)) \<and> document F (snd m) \<Longrightarrow> ms \<noteq> [] \<Longrightarrow> sorted_wrt (<) (map fst (acc @ ms)) \<Longrightarrow>
     ref_stack d = Open_Object acc k0 # fs \<Longrightarrow>
     parse_members_at F (False # st) (render_members p step k ms @ line_break p @ indentation p k' @ 0x7D # rest) d
       = after_value F st rest (handle_value (JObject (acc @ map (\<lambda>(k, v). (k, as_read v)) ms)) (d\<lparr>ref_stack := fs\<rparr>))"
  "\<forall>v \<in> set vs. document F v \<Longrightarrow> vs \<noteq> [] \<Longrightarrow> ref_stack d = Open_Array els # fs \<Longrightarrow>
     parse_at F (True # st) (render_elements p step k vs @ line_break p @ indentation p k' @ 0x5D # rest) d
       = after_value F st rest (handle_value (JArray (els @ map as_read vs)) (d\<lparr>ref_stack := fs\<rparr>))"
proof (induction p step k v and p step k ms and p step k vs
    arbitrary: rest st d and rest st d acc k0 fs k' and rest st d els fs k'
    rule: render_render_members_render_elements.induct)
  case (1 p step k ms)
  have "parse_at F st (render p step k (JObject ms) @ rest) d
    = parse_value F st begin_object (tl (render p step k (JObject ms)) @ rest) d" by (simp add: parse_at_def)
  also have "\<dots> = after_value F st rest (handle_value (as_read (JObject ms)) d)"
  proof (cases ms)
    case Nil
    then show ?thesis by (simp add: parse_value_object end_object_frame)
  next
    case (Cons m ms')
    let ?k = "if p then k + step else k"
    obtain s r where s: "scan (render_members p step ?k ms @ line_break p @ indentation p k @ 0x7D # rest) = (value_string s, r)"
      using 1(2) Cons members_start by blast
    have "parse_members_at F (False # st) (render_members p step ?k ms @ line_break p @ indentation p k @ 0x7D # rest) (start_object d)
        = after_value F st rest (handle_value (as_read (JObject ms)) d)"
      using 1(1) [of "[]" "start_object d" "[]" "ref_stack d" st k rest] 1(2) Cons by (simp add: map_sorted_def)
    then show ?thesis using Cons s by (simp add: parse_value_object del: render_members.simps)
  qed
  finally show ?case .
next
  case (2 p step k vs)
  have "parse_at F st (render p step k (JArray vs) @ rest) d
    = parse_value F st begin_array (tl (render p step k (JArray vs)) @ rest) d" by (simp add: parse_at_def)
  also have "\<dots> = after_value F st rest (handle_value (as_read (JArray vs)) d)"
  proof (cases vs)
    case Nil
    then show ?thesis by (simp add: parse_value_array end_array_frame)
  next
    case (Cons v vs')
    let ?k = "if p then k + step else k"
    have s: "fst (scan (render_elements p step ?k vs @ line_break p @ indentation p k @ 0x5D # rest)) \<noteq> end_array"
      using 2(2) elements_start [of F v] Cons by simp
    have "parse_at F (True # st) (render_elements p step ?k vs @ line_break p @ indentation p k @ 0x5D # rest) (start_array d)
        = after_value F st rest (handle_value (as_read (JArray vs)) d)"
      using 2(1) [of "start_array d" "[]" "ref_stack d" st k rest] 2(2) Cons by simp
    then show ?thesis using Cons s by (simp add: parse_value_array del: render_elements.simps)
  qed
  finally show ?case .
next
  case (10 p step k n v ms)
  let ?tail = "line_break p @ indentation p k' @ 0x7D # rest"
  define R where "R = (if ms = [] then [] else 0x2C # line_break p) @ render_members p step k ms @ ?tail"
  define d1 where "d1 = d\<lparr>ref_stack := Open_Object (acc @ [(n, as_read v)]) n # fs\<rparr>"
  have "sorted_wrt (<) (map fst acc @ [n])" using 10(5) by (auto simp: sorted_wrt_append)
  then have d1: "handle_value (as_read v) (sax_key (ascii n) d) = d1" using member_added 10(6) by (simp add: d1_def)
  have "number_ends R" by (simp add: R_def)
  have "parse_members_at F (False # st) (render_members p step k ((n, v) # ms) @ ?tail) d
      = parse_at F (False # st) (render p step k v @ R) (sax_key (ascii n) d)"
    using 10(3) parse_members_key [of "ascii n" F "False # st" p 1] by (simp add: R_def)
  also have "\<dots> = after_value F (False # st) R d1" using 10(1) [OF _ \<open>number_ends R\<close>] 10(3) d1 by simp
  also have "\<dots> = after_value F st rest (handle_value (JObject (acc @ map (\<lambda>(k, v). (k, as_read v)) ((n, v) # ms))) (d\<lparr>ref_stack := fs\<rparr>))"
  proof (cases "ms = []")
    case True
    then show ?thesis by (simp add: R_def after_value_object end_container_def d1_def)
  next
    case False
    then show ?thesis using 10(2) [of "acc @ [(n, as_read v)]" d1 n fs st k' rest] 10(3,5)
      by (simp add: R_def after_value_object d1_def del: render_members.simps)
  qed
  finally show ?case .
next
  case (12 p step k v vs)
  let ?tail = "line_break p @ indentation p k' @ 0x5D # rest"
  define R where "R = (if vs = [] then [] else 0x2C # line_break p) @ render_elements p step k vs @ ?tail"
  define d1 where "d1 = d\<lparr>ref_stack := Open_Array (els @ [as_read v]) # fs\<rparr>"
  have d1: "handle_value (as_read v) d = d1" using element_added 12(5) by (simp add: d1_def)
  have "number_ends R" by (simp add: R_def)
  have "parse_at F (True # st) (render_elements p step k (v # vs) @ ?tail) d = parse_at F (True # st) (render p step k v @ R) d"
    by (simp add: R_def)
  also have "\<dots> = after_value F (True # st) R d1" using 12(1) [OF _ \<open>number_ends R\<close>] 12(3) d1 by simp
  also have "\<dots> = after_value F st rest (handle_value (JArray (els @ map as_read (v # vs))) (d\<lparr>ref_stack := fs\<rparr>))"
  proof (cases "vs = []")
    case True
    then show ?thesis by (simp add: R_def after_value_array end_container_def d1_def)
  next
    case False
    then show ?thesis using 12(2) [of d1 "els @ [as_read v]" fs st k' rest] 12(3)
      by (simp add: R_def after_value_array d1_def del: render_elements.simps)
  qed
  finally show ?case .
qed ((rule scalar_document, assumption, assumption, simp, simp) | simp)+

lemma number_not_mark: "number_read t = Some ty \<Longrightarrow> \<exists>c ds. t = c # ds \<and> c \<noteq> 0xEF"
  by (auto simp: number_read_def number_first_def word_le_nat_alt split: list.splits option.splits if_splits)

lemma render_not_mark:
  assumes "document F v"
  shows "\<exists>c ds. render p step k v = c # ds \<and> c \<noteq> 0xEF"
proof (cases v)
  case (JInteger i)
  then show ?thesis using number_not_mark [OF number_read_unsigned, of "nat i"] by (cases "i < 0") (simp_all add: fmt_d_def ascii_def)
next
  case (JUnsigned u)
  then show ?thesis using number_not_mark [OF number_read_unsigned] by simp
next
  case (JFloat t)
  then show ?thesis using assms number_not_mark by (simp add: float_ok_def)
qed (auto simp: ascii_def)

lemma parse_rendered:
  assumes "document F v"
  shows "json_parse F (render p step 0 v @ line_break q) = Some (as_read v)"
proof -
  have b: "skip_bom (render p step 0 v @ line_break q) = Some (render p step 0 v @ line_break q)"
    using render_not_mark [OF assms, of p step 0] by (auto simp: skip_bom_def)
  have e: "fst (scan (line_break q)) = end_of_input" "number_ends (line_break q)" by (simp_all add: line_break_def scan_def is_whitespace_def)
  obtain tok r where t: "scan (render p step 0 v @ line_break q) = (tok, r)" by fastforce
  have "parse_value F [] tok r \<lparr>dom_root = JNull, ref_stack = []\<rparr> = Some (\<lparr>dom_root = as_read v, ref_stack = []\<rparr>, line_break q)"
    using document_read(1) [OF assms e(2), of "[]" p step 0 "\<lparr>dom_root = JNull, ref_stack = []\<rparr>"] t
    by (simp add: parse_at_def after_value.simps handle_value_def)
  then show ?thesis using b t e(1) by (simp add: json_parse_def first_token_def)
qed

text \<open>
  C26. Every document whose texts and keys are UTF-8, whose integers are in range and whose floating-point numbers read as they are
  printed is written, at any indentation step up to 512 and without one, and the text, with or without a line break behind it, is
  read back as the same document: texts, numbers, order and nesting; a signed integer that is not negative comes back as the
  unsigned one of that value (\<open>as_read\<close>). (Other texts make the library throw.)
\<close>

theorem written_document_read_back:
  assumes "document F v" "indent \<le> 512"
  shows "\<exists>s. dump_text indent v = Inr s \<and> json_parse F (s @ line_break q) = Some (as_read v)"
  using document_typed [OF assms(1)] assms(2) parse_rendered [OF assms(1)] by (simp add: dump_text_exact)

definition test_document :: Json where
  "test_document = JObject [(''a'', JArray [JUnsigned 12, JInteger (- 5), JNull]),
     (''b'', JObject [(''x'', JString [0x22, 0xC3, 0xA9, 0xA]), (''y'', JArray [])]), (''z'', JBool True)]"

theorem written_document_read_back_witness:
  "\<exists>s. dump_text 2 test_document = Inr s \<and> json_parse (\<lambda>_. None) (s @ line_break True) = Some (as_read test_document)"
  by (rule written_document_read_back) (simp_all add: test_document_def map_sorted_def ascii_def lead_simps)

end
