(* ===== verification/Json_Typing.thy ===== *)
theory Json_Typing
  imports Json_Reading
begin

text \<open>
  Whatever the bytes, a value that is read is one that can be written: UTF-8 texts, members sorted without duplicates,
  integers in range.
\<close>

section \<open>What is read is a document\<close>

lemma number_next_not_minus: "number_next st c \<noteq> Some minus_seen"
  by (cases st) (auto split: if_splits)

lemma number_type_float: "number_next st c = Some st' \<Longrightarrow> number_type_at st' Float = Float"
  using number_next_not_minus [of st c] by (cases st') auto

lemma number_loop_float: "number_loop st Float b inp = Some (ty, b', r) \<Longrightarrow> ty = Float"
  by (induction inp arbitrary: st b) (auto simp: number_type_float split: option.splits if_splits)

lemma number_next_integer: "number_next st c = Some st' \<Longrightarrow> number_type_at st' ty \<noteq> Float \<Longrightarrow> st \<in> {minus_seen, zero_seen, any1} \<Longrightarrow>
    is_digit c \<and> st' \<in> {zero_seen, any1}"
  by (cases st) (auto simp: is_digit_def word_le_nat_alt split: if_splits)

lemma number_loop_integer:
  "number_loop st ty (c # ds) inp = Some (ty', b', r) \<Longrightarrow> ty' \<noteq> Float \<Longrightarrow> st \<in> {minus_seen, zero_seen, any1} \<Longrightarrow> list_all is_digit ds \<Longrightarrow>
     list_all is_digit (tl b')"
proof (induction inp arbitrary: st ty ds)
  case (Cons x inp)
  show ?case
  proof (cases "number_next st x")
    case None
    then show ?thesis using Cons.prems by (auto split: if_splits)
  next
    case (Some st')
    then have l: "number_loop st' (number_type_at st' ty) (c # ds @ [x]) inp = Some (ty', b', r)" using Cons.prems(1) by simp
    then have "number_type_at st' ty \<noteq> Float" using number_loop_float Cons.prems(2) by metis
    then have "is_digit x" "st' \<in> {zero_seen, any1}" using number_next_integer [OF Some] Cons.prems(3) by blast+
    then show ?thesis using Cons.IH [OF l Cons.prems(2)] Cons.prems(4) by auto
  qed
qed (auto split: if_splits)

lemma digits_value_nonneg: "list_all is_digit ds \<Longrightarrow> 0 \<le> digits_value ds"
proof -
  have "list_all is_digit ds \<Longrightarrow> 0 \<le> a \<Longrightarrow> 0 \<le> foldl (\<lambda>v d. v * 10 + (uint d - 48)) a ds" for a
    by (induction ds arbitrary: a) (auto simp: is_digit_def word_le_def)
  then show "list_all is_digit ds \<Longrightarrow> ?thesis" by (simp add: digits_value_def)
qed

text \<open>What \<^verbatim>\<open>strtod\<close> and the printing of the library promise together: a printed number is a number that reads as itself.\<close>

definition floats_print :: "float_text \<Rightarrow> bool" where
  "floats_print F \<longleftrightarrow> (\<forall>t u. F t = Some u \<longrightarrow> float_ok F u)"

fun token_ok :: "token_type \<Rightarrow> bool" where
  "token_ok (value_string s) \<longleftrightarrow> utf8 s"
| "token_ok (value_integer i) \<longleftrightarrow> - (2 ^ 63) \<le> i \<and> i \<le> 0"
| "token_ok _ \<longleftrightarrow> True"

lemma scan_number_ok: "scan_number c inp = (tok, r) \<Longrightarrow> token_ok tok"
proof -
  assume s: "scan_number c inp = (tok, r)"
  show ?thesis
  proof (cases "\<exists>i. tok = value_integer i")
    case True
    then obtain i st b where i: "tok = value_integer i" "number_first c = Some st"
        "number_loop st (number_type_at st Unsigned) [c] inp = Some (Integer, b, r)"
        "- digits_value (tl b) \<ge> - (2 ^ 63)" "i = - digits_value (tl b)"
      using s by (auto simp: scan_number_def convert_number_def split: option.splits if_splits number_type.splits)
    have "st \<in> {minus_seen, zero_seen, any1}" using i(2) by (auto simp: number_first_def split: if_splits)
    then show ?thesis using i number_loop_integer [OF i(3)] digits_value_nonneg [of "tl b"] by simp
  qed (use s in \<open>auto simp: scan_number_def convert_number_def split: option.splits if_splits number_type.splits\<close>)
qed

lemma scan_ok: "scan inp = (tok, r) \<Longrightarrow> token_ok tok"
  by (auto simp: scan_def scan_literal_def split: list.splits if_splits option.splits dest: scan_number_ok scan_string_utf8)

fun frame_ok :: "float_text \<Rightarrow> frame \<Rightarrow> bool" where
  "frame_ok F (Open_Array vs) \<longleftrightarrow> document F (JArray vs)"
| "frame_ok F (Open_Object m k) \<longleftrightarrow> document F (JObject m) \<and> utf8 (ascii k)"

definition dom_ok :: "float_text \<Rightarrow> dom_parser \<Rightarrow> bool" where
  "dom_ok F d \<longleftrightarrow> document F (dom_root d) \<and> list_all (frame_ok F) (ref_stack d)"

lemma map_insert_set: "set (map_insert k v m) \<subseteq> insert (k, v) (set m)"
  by (induction k v m rule: map_insert.induct) auto

lemma document_insert: "document F (JObject m) \<Longrightarrow> utf8 (ascii k) \<Longrightarrow> document F v \<Longrightarrow> document F (JObject (map_insert k v m))"
  using map_insert_set [of k v m] by (auto simp: map_insert_sorted)

lemma handle_value_ok: "dom_ok F d \<Longrightarrow> document F v \<Longrightarrow> dom_ok F (handle_value v d)"
  by (auto simp: dom_ok_def handle_value_def simp del: document.simps(5) intro: document_insert split: list.splits frame.splits)

lemma start_ok: "dom_ok F d \<Longrightarrow> dom_ok F (start_object d)" "dom_ok F d \<Longrightarrow> dom_ok F (start_array d)"
  by (simp_all add: dom_ok_def start_object_def start_array_def ascii_def)

lemma end_ok: "dom_ok F d \<Longrightarrow> dom_ok F (end_container d)"
proof (cases "ref_stack d")
  case (Cons f fs)
  assume "dom_ok F d"
  then have "dom_ok F (d\<lparr>ref_stack := fs\<rparr>)" "document F (close_frame f)" using Cons by (cases f; simp add: dom_ok_def)+
  then show ?thesis using Cons handle_value_ok by (simp add: end_container_def)
qed (simp add: end_container_def)

lemma parse_key_ok: "parse_key tok inp d = Some (d', tok', r) \<Longrightarrow> token_ok tok \<Longrightarrow> dom_ok F d \<Longrightarrow> dom_ok F d' \<and> token_ok tok'"
  by (auto simp: parse_key_def sax_key_def dom_ok_def simp del: document.simps(5) intro!: document_insert
      split: token_type.splits prod.splits if_splits list.splits frame.splits dest: scan_ok)

lemma scalar_ok: "floats_print F \<Longrightarrow> scalar_token F tok = Some v \<Longrightarrow> token_ok tok \<Longrightarrow> document F v"
  by (cases tok) (auto simp: floats_print_def)

lemma parse_valueE:
  assumes "parse_value F st tok inp d = Some x"
  obtains (no_members) r1 where "tok = begin_object" "(end_object, r1) = scan inp"
      "after_value F st r1 (end_container (start_object d)) = Some x"
  | (member) tok1 r1 d2 tok2 r2 where "tok = begin_object" "(tok1, r1) = scan inp" "tok1 \<noteq> end_object"
      "parse_key tok1 r1 (start_object d) = Some (d2, tok2, r2)" "parse_value F (False # st) tok2 r2 d2 = Some x"
  | (no_elements) r1 where "tok \<noteq> begin_object" "tok = begin_array" "(end_array, r1) = scan inp"
      "after_value F st r1 (end_container (start_array d)) = Some x"
  | (element) tok1 r1 where "tok \<noteq> begin_object" "tok = begin_array" "(tok1, r1) = scan inp" "tok1 \<noteq> end_array"
      "parse_value F (True # st) tok1 r1 (start_array d) = Some x"
  | (scalar) v where "tok \<noteq> begin_object" "tok \<noteq> begin_array" "scalar_token F tok = Some v"
      "after_value F st inp (handle_value v d) = Some x"
proof -
  obtain tok1 r1 where s: "scan inp = (tok1, r1)" by fastforce
  note eq = assms [unfolded parse_value.simps [of F st tok inp d] s prod.case]
  consider "tok = begin_object" | "tok \<noteq> begin_object" "tok = begin_array" | "tok \<noteq> begin_object" "tok \<noteq> begin_array" by blast
  then show thesis
  proof cases
    case 1
    then show ?thesis using eq s no_members member by (auto split: if_splits option.splits)
  next
    case 2
    then show ?thesis using eq s no_elements element by (auto split: if_splits)
  next
    case 3
    then show ?thesis using eq scalar by (auto split: option.splits)
  qed
qed

lemma after_valueE:
  assumes "after_value F st inp d = Some x"
  obtains (finished) "st = []" "x = (d, inp)"
  | (element) rest r1 tok2 r2 where "st = True # rest" "(value_separator, r1) = scan inp" "(tok2, r2) = scan r1"
      "parse_value F st tok2 r2 d = Some x"
  | (end_array) rest r1 where "st = True # rest" "(token_type.end_array, r1) = scan inp"
      "after_value F rest r1 (end_container d) = Some x"
  | (member) rest r1 tok2 r2 d3 tok3 r3 where "st = False # rest" "(value_separator, r1) = scan inp" "(tok2, r2) = scan r1"
      "parse_key tok2 r2 d = Some (d3, tok3, r3)" "parse_value F st tok3 r3 d3 = Some x"
  | (end_object) rest r1 where "st = False # rest" "(token_type.end_object, r1) = scan inp"
      "after_value F rest r1 (end_container d) = Some x"
proof -
  obtain tok1 r1 where s: "scan inp = (tok1, r1)" by fastforce
  obtain tok2 r2 where s2: "scan r1 = (tok2, r2)" by fastforce
  note eq = assms [unfolded after_value.simps [of F st inp d] s prod.case s2]
  show thesis
  proof (cases st)
    case Nil
    then show ?thesis using eq finished by simp
  next
    case (Cons a rest)
    then show ?thesis
      using eq s s2 element [of rest r1 tok2 r2] end_array [of rest r1] member [of rest r1 tok2 r2] end_object [of rest r1]
      by (cases a) (simp_all split: if_splits option.splits prod.splits)
  qed
qed

lemma parse_ok:
  "parse_value F st tok inp d = Some (d', r) \<Longrightarrow> floats_print F \<Longrightarrow> token_ok tok \<Longrightarrow> dom_ok F d \<Longrightarrow> dom_ok F d'"
  "after_value F st inp d = Some (d', r) \<Longrightarrow> floats_print F \<Longrightarrow> dom_ok F d \<Longrightarrow> dom_ok F d'"
proof (induction F st tok inp d and F st inp d rule: parse_value_after_value.induct)
  case (1 F st tok inp d)
  note IH = 1(1-5) and F = 1(7) and ok = 1(8,9) and start = start_ok [OF 1(9)]
  from 1(6) show ?case
  proof (cases rule: parse_valueE)
    case no_members
    then show ?thesis using IH(1) [OF no_members(1,2) refl] F end_ok [OF start(1)] by blast
  next
    case member
    then show ?thesis using IH(2) [OF member(1-4) refl refl] F parse_key_ok [OF member(4) scan_ok start(1)] by metis
  next
    case no_elements
    then show ?thesis using IH(3) [OF no_elements(1-3) refl] F end_ok [OF start(2)] by blast
  next
    case element
    then show ?thesis using IH(4) [OF element(1-4)] F scan_ok start(2) by metis
  next
    case scalar
    then show ?thesis using IH(5) [OF scalar(1-3)] F scalar_ok [OF F scalar(3) ok(1)] handle_value_ok [OF ok(2)] by blast
  qed
next
  case (2 F st inp d)
  note IH = 2(1-4) and F = 2(6) and ok = 2(7)
  from 2(5) show ?case
  proof (cases rule: after_valueE)
    case finished
    then show ?thesis using ok by simp
  next
    case element
    then show ?thesis using IH(1) [OF element(1) _ element(2) refl element(3)] F ok scan_ok by metis
  next
    case end_array
    then show ?thesis using IH(2) [OF end_array(1) _ end_array(2)] F end_ok [OF ok] by simp
  next
    case member
    then show ?thesis using IH(3) [OF member(1) _ member(2) refl member(3,4)] F parse_key_ok [OF member(4) scan_ok ok] by metis
  next
    case end_object
    then show ?thesis using IH(4) [OF end_object(1) _ end_object(2)] F end_ok [OF ok] by simp
  qed
qed

lemma parse_document:
  assumes "floats_print F" "json_parse F inp = Some v"
  shows "document F v"
proof -
  obtain tok r d r' where p: "first_token inp = (tok, r)" "parse_value F [] tok r \<lparr>dom_root = JNull, ref_stack = []\<rparr> = Some (d, r')" "v = dom_root d"
    using assms(2) by (auto simp: json_parse_def split: prod.splits option.splits if_splits)
  have "token_ok tok" using p(1) scan_ok by (auto simp: first_token_def split: option.splits)
  then have "dom_ok F d" using parse_ok(1) [OF p(2) assms(1)] by (simp add: dom_ok_def)
  then show ?thesis using p(3) by (simp add: dom_ok_def)
qed

text \<open>
  C27. Whatever bytes a file holds, a value read from them is a document: its texts and keys are UTF-8, no key occurs twice and
  the members are in order, integers are in range; it can be written again, and what is written reads as it.
\<close>

theorem parsed_value_is_document:
  assumes "floats_print F" "json_parse F inp = Some v"
  shows "document F v \<and> (\<exists>s. dump_text 2 v = Inr s \<and> json_parse F s = Some (as_read v))"
  using parse_document [OF assms] document_typed parse_rendered [where q = False]
  by (auto simp: dump_text_exact line_break_def)

definition half :: float_text where
  "half t = Some (ascii ''0.5'')"

lemma half_prints: "floats_print half"
  by (simp add: floats_print_def half_def float_ok_def number_read_def number_first_def ascii_def is_digit_def)

definition test_text :: bytes where
  "test_text = ascii ''{ '' @ [0x22] @ ascii ''k'' @ [0x5C, 0x75] @ ascii ''00e9'' @ [0x22] @ ascii '' : [1.5e3, -0, 7] }''"

lemma test_text_parsed: "json_parse half test_text = Some (JObject [(text_of [0x6B, 0xC3, 0xA9],
    JArray [JFloat (ascii ''0.5''), JInteger 0, JUnsigned 7])])"
  by code_simp

theorem parsed_value_is_document_witness:
  "document half (JObject [(text_of [0x6B, 0xC3, 0xA9], JArray [JFloat (ascii ''0.5''), JInteger 0, JUnsigned 7])])
   \<and> (\<exists>s. dump_text 2 (JObject [(text_of [0x6B, 0xC3, 0xA9], JArray [JFloat (ascii ''0.5''), JInteger 0, JUnsigned 7])]) = Inr s
     \<and> json_parse half s = Some (as_read (JObject [(text_of [0x6B, 0xC3, 0xA9], JArray [JFloat (ascii ''0.5''), JInteger 0, JUnsigned 7])])))"
  by (rule parsed_value_is_document [OF half_prints test_text_parsed])

end
