(* ===== verification/Host_Platform.thy ===== *)
theory Host_Platform
  imports Crypto_Protocol Json_Typing
begin

text \<open>
  \<^verbatim>\<open>src/src/platform\<close>: the key-value stores, the configuration and the overlay an admin writes over the air. The
  JSON library is the one of \<open>Json_Document\<close> (it throws on text that is not UTF-8, here \<open>None\<close>). Files are the \<open>file_system\<close> of \<open>Crypto_Protocol\<close>; whether the system calls of a write
  succeed is an argument. Clocks and the log are input and output.
\<close>

section \<open>Clocks and the log\<close>

text \<open>\<^verbatim>\<open>clock_gettime\<close> gives seconds and nanoseconds; what is read off them, and when a wall time is believed.\<close>

definition clock_mono :: "u64 \<Rightarrow> u64 \<Rightarrow> Millis" where
  "clock_mono tv_sec tv_nsec = tv_sec * 1000 + tv_nsec div 1000000"

definition clock_wall :: "u64 \<Rightarrow> u32" where
  "clock_wall tv_sec = ucast tv_sec"

definition wallLooksSynced :: "u32 \<Rightarrow> bool" where
  "wallLooksSynced seconds \<longleftrightarrow> seconds > 1577836800"

text \<open>Stepping the wall clock; \<open>permitted\<close> is the answer of the system.\<close>

definition setWall :: "bool \<Rightarrow> u32 \<Rightarrow> bool" where
  "setWall permitted seconds = (if \<not> wallLooksSynced seconds then False else permitted)"

record FakeClock =
  fake_mono :: Millis
  fake_wall :: u32

definition fake_advance :: "Millis \<Rightarrow> FakeClock \<Rightarrow> FakeClock" where
  "fake_advance by' c = c\<lparr>fake_mono := fake_mono c + by', fake_wall := fake_wall c + ucast (by' div 1000)\<rparr>"

definition fake_setMono :: "Millis \<Rightarrow> FakeClock \<Rightarrow> FakeClock" where
  "fake_setMono v c = c\<lparr>fake_mono := v\<rparr>"

definition fake_setWall :: "u32 \<Rightarrow> FakeClock \<Rightarrow> FakeClock" where
  "fake_setWall v c = c\<lparr>fake_wall := v\<rparr>"

datatype LogLevel = ERROR | WARN | INFO | DEBUG

fun log_code :: "LogLevel \<Rightarrow> nat" where
  "log_code ERROR = 0" | "log_code WARN = 1" | "log_code INFO = 2" | "log_code DEBUG = 3"

fun log_name :: "LogLevel \<Rightarrow> string" where
  "log_name ERROR = ''ERROR''" | "log_name WARN = ''WARN''" | "log_name INFO = ''INFO''" | "log_name DEBUG = ''DEBUG''"

text \<open>What one call writes to the error stream under the level in force; \<open>message\<close> is the formatted text.\<close>

definition log_write :: "LogLevel \<Rightarrow> LogLevel \<Rightarrow> string \<Rightarrow> string" where
  "log_write threshold level message =
     (if log_code level > log_code threshold then [] else ''['' @ log_name level @ ''] '' @ message @ nl)"

section \<open>Files\<close>

definition readAll :: "string \<Rightarrow> file_system \<Rightarrow> bytes option" where
  "readAll file fs =
     (case fs file of None \<Rightarrow> None
      | Some info \<Rightarrow> if kf_regular info then Some (kf_content info) else None)"

text \<open>
  How far a write got before the operating system refused. A temporary file that is already there is truncated and keeps
  its mode. Every failure after the open removes the temporary file;
  a failed \<^verbatim>\<open>fsync\<close> of the directory is not looked at.
\<close>

datatype write_outcome = Open_Fails | Write_Fails | Sync_Fails | Rename_Fails | Written

definition writeAtomic :: "write_outcome \<Rightarrow> string \<Rightarrow> bytes \<Rightarrow> file_system \<Rightarrow> bool \<times> file_system" where
  "writeAtomic out target data fs =
     (let temporary = target @ ''.tmp'' in
      if out = Open_Fails then (False, fs) else
      let mode = (case fs temporary of None \<Rightarrow> 0x180 | Some old \<Rightarrow> kf_mode old);
          fs = fs(temporary \<mapsto> \<lparr>kf_regular = True, kf_mode = mode, kf_content = data\<rparr>) in
      if out \<noteq> Written then (False, fs(temporary := None))
      else (True, fs(target := fs temporary, temporary := None)))"

definition pathFor :: "string \<Rightarrow> string \<Rightarrow> string" where
  "pathFor directory key = directory @ ''/'' @ key @ ''.dat''"

definition filestore_read :: "string \<Rightarrow> string \<Rightarrow> file_system \<Rightarrow> bytes option" where
  "filestore_read directory key fs = readAll (pathFor directory key) fs"

definition filestore_write :: "write_outcome \<Rightarrow> string \<Rightarrow> string \<Rightarrow> bytes \<Rightarrow> file_system \<Rightarrow> bool \<times> file_system" where
  "filestore_write out directory key data fs = writeAtomic out (pathFor directory key) data fs"

definition memstore_read :: "string \<Rightarrow> (string, bytes) std_map \<Rightarrow> bytes option" where
  "memstore_read key entries = map_of entries key"

definition memstore_write :: "string \<Rightarrow> bytes \<Rightarrow> (string, bytes) std_map \<Rightarrow> bool \<times> (string, bytes) std_map" where
  "memstore_write key data entries = (True, map_insert key data entries)"

section \<open>JSON\<close>

text \<open>\<^verbatim>\<open>document.dump(2)\<close>; \<open>None\<close> when it throws.\<close>

definition json_dump2 :: "Json \<Rightarrow> bytes option" where
  "json_dump2 v = (case dump_text 2 v of Inl _ \<Rightarrow> None | Inr s \<Rightarrow> Some s)"

type_synonym settings = "(string, bytes) std_map"
type_synonym lists = "(string, bytes list) std_map"

fun is_compound :: "Json \<Rightarrow> bool" where
  "is_compound (JArray _) = True"
| "is_compound (JObject _) = True"
| "is_compound _ = False"

fun scalarToText :: "Json \<Rightarrow> bytes" where
  "scalarToText (JString s) = s"
| "scalarToText (JBool b) = ascii (if b then ''true'' else ''false'')"
| "scalarToText JNull = []"
| "scalarToText node = (case dump_text (- 1) node of Inl _ \<Rightarrow> [] | Inr s \<Rightarrow> s)"

fun join_comma :: "bytes list \<Rightarrow> bytes" where
  "join_comma [] = []"
| "join_comma [x] = x"
| "join_comma (x # y # xs) = x @ ascii '','' @ join_comma (y # xs)"

fun flatten :: "Json \<Rightarrow> string \<Rightarrow> settings \<times> lists \<Rightarrow> (settings \<times> lists) option"
  and flatten_items :: "(string \<times> Json) list \<Rightarrow> string \<Rightarrow> settings \<times> lists \<Rightarrow> (settings \<times> lists) option" where
  "flatten (JObject items) prefix acc = flatten_items items prefix acc"
| "flatten (JArray elements) prefix (vals, lsts) =
     (if list_ex is_compound elements then None else
      let items = map scalarToText elements
      in Some (map_insert prefix (join_comma items) vals, map_insert prefix items lsts))"
| "flatten node prefix (vals, lsts) = Some (map_insert prefix (scalarToText node) vals, lsts)"
| "flatten_items [] prefix acc = Some acc"
| "flatten_items ((key, child) # items) prefix acc =
     (if key = [] then None else
      case flatten child (if prefix = [] then key else prefix @ ''.'' @ key) acc of None \<Rightarrow> None
      | Some acc \<Rightarrow> flatten_items items prefix acc)"

text \<open>The text of a file as settings: it must be one object.\<close>

definition parse_settings :: "float_text \<Rightarrow> bytes \<Rightarrow> (settings \<times> lists) option" where
  "parse_settings F blob =
     (case json_parse F blob of
        Some (JObject items) \<Rightarrow> flatten (JObject items) [] ([], [])
      | _ \<Rightarrow> None)"

section \<open>Overlay\<close>

record Overlay =
  ov_path :: string
  ov_values :: settings

definition overlay_new :: "string \<Rightarrow> Overlay" where
  "overlay_new p = \<lparr>ov_path = p, ov_values = []\<rparr>"

definition overlay_load :: "float_text \<Rightarrow> file_system \<Rightarrow> Overlay \<Rightarrow> bool \<times> Overlay" where
  "overlay_load F fs ov =
     (if fs (ov_path ov) = None then (True, ov\<lparr>ov_values := []\<rparr>) else
      case readAll (ov_path ov) fs of None \<Rightarrow> (False, ov)
      | Some blob \<Rightarrow>
        (case parse_settings F blob of None \<Rightarrow> (False, ov)
         | Some (vals, _) \<Rightarrow> (True, ov\<lparr>ov_values := vals\<rparr>)))"

definition overlay_get :: "string \<Rightarrow> Overlay \<Rightarrow> bytes option" where
  "overlay_get key ov = map_of (ov_values ov) key"

text \<open>\<open>None\<close>: the library threw, and nothing was written.\<close>

definition overlay_save :: "write_outcome \<Rightarrow> Overlay \<Rightarrow> file_system \<Rightarrow> (bool \<times> file_system) option" where
  "overlay_save out ov fs =
     (case json_dump2 (JObject (map (apsnd JString) (ov_values ov))) of None \<Rightarrow> None
      | Some dumped \<Rightarrow> Some (writeAtomic out (ov_path ov) (dumped @ [10]) fs))"

text \<open>\<open>Inl ()\<close>: the exception of \<^verbatim>\<open>save\<close> leaves \<^verbatim>\<open>set\<close>, with the new value still in the map.\<close>

definition overlay_set ::
  "write_outcome \<Rightarrow> string \<Rightarrow> bytes \<Rightarrow> Overlay \<Rightarrow> file_system \<Rightarrow> (unit + bool) \<times> Overlay \<times> file_system" where
  "overlay_set out key v ov fs =
     (let previous = map_of (ov_values ov) key;
          ov = ov\<lparr>ov_values := map_insert key v (ov_values ov)\<rparr> in
      case overlay_save out ov fs of
        None \<Rightarrow> (Inl (), ov, fs)
      | Some (True, fs) \<Rightarrow> (Inr True, ov, fs)
      | Some (False, fs) \<Rightarrow>
          (Inr False,
           (case previous of
              Some restore \<Rightarrow> ov\<lparr>ov_values := map_insert key restore (ov_values ov)\<rparr>
            | None \<Rightarrow> ov\<lparr>ov_values := map_erase key (ov_values ov)\<rparr>), fs))"

section \<open>Config\<close>

record Config =
  cfg_values :: settings
  cfg_lists :: lists

definition config_new :: Config where
  "config_new = \<lparr>cfg_values = [], cfg_lists = []\<rparr>"

definition loadFromString :: "float_text \<Rightarrow> bytes \<Rightarrow> Config \<Rightarrow> bool \<times> Config" where
  "loadFromString F blob c =
     (case parse_settings F blob of None \<Rightarrow> (False, c)
      | Some (vals, lsts) \<Rightarrow> (True, \<lparr>cfg_values = vals, cfg_lists = lsts\<rparr>))"

text \<open>A path is a regular file or something, like a directory, that \<^verbatim>\<open>read\<close> fails on.\<close>

definition loadFile :: "float_text \<Rightarrow> string \<Rightarrow> file_system \<Rightarrow> Config \<Rightarrow> bool \<times> Config" where
  "loadFile F file fs c =
     (case readAll file fs of None \<Rightarrow> (False, c) | Some blob \<Rightarrow> loadFromString F blob c)"

definition config_has :: "string \<Rightarrow> Config \<Rightarrow> bool" where
  "config_has key c \<longleftrightarrow> map_of (cfg_values c) key \<noteq> None"

definition applyOverlay :: "Overlay \<Rightarrow> Config \<Rightarrow> Config" where
  "applyOverlay ov c =
     fold (\<lambda>(key, v) c. c\<lparr>cfg_values := map_insert key v (cfg_values c), cfg_lists := map_erase key (cfg_lists c)\<rparr>)
       (ov_values ov) c"

definition config_get :: "string \<Rightarrow> bytes \<Rightarrow> Config \<Rightarrow> bytes" where
  "config_get key fallback c = (case map_of (cfg_values c) key of None \<Rightarrow> fallback | Some v \<Rightarrow> v)"

definition config_getList :: "string \<Rightarrow> Config \<Rightarrow> bytes list" where
  "config_getList key c = (case map_of (cfg_lists c) key of None \<Rightarrow> [] | Some l \<Rightarrow> l)"

text \<open>
  \<^verbatim>\<open>strtol\<close> in base ten: white space, a sign, digits; the value saturates at the ends of \<^verbatim>\<open>long\<close>. The result is the
  value and what follows it; with no digit the whole text follows.
\<close>

definition is_space :: "byte \<Rightarrow> bool" where
  "is_space b \<longleftrightarrow> b = 32 \<or> 9 \<le> b \<and> b \<le> 13"

definition strtol :: "bytes \<Rightarrow> int \<times> bytes" where
  "strtol s =
     (let s1 = dropWhile is_space s;
          neg = (s1 \<noteq> [] \<and> hd s1 = 45);
          s2 = (if s1 \<noteq> [] \<and> (hd s1 = 45 \<or> hd s1 = 43) then tl s1 else s1);
          ds = takeWhile is_digit s2;
          v = (if neg then - digits_value ds else digits_value ds)
      in if ds = [] then (0, s)
         else (max (- (2 ^ 63)) (min (2 ^ 63 - 1) v), dropWhile is_digit s2))"

text \<open>The text ends, for \<^verbatim>\<open>strtol\<close> and for the check behind it, at its first zero byte.\<close>

definition config_getInt :: "string \<Rightarrow> int \<Rightarrow> Config \<Rightarrow> int" where
  "config_getInt key fallback c =
     (case map_of (cfg_values c) key of None \<Rightarrow> fallback
      | Some v \<Rightarrow>
        if v = [] then fallback else
        let (i, end') = strtol (cstr v) in if end' = [] then i else fallback)"

definition config_getBool :: "string \<Rightarrow> bool \<Rightarrow> Config \<Rightarrow> bool" where
  "config_getBool key fallback c =
     (case map_of (cfg_values c) key of None \<Rightarrow> fallback
      | Some v \<Rightarrow>
        if v = ascii ''true'' \<or> v = ascii ''yes'' \<or> v = ascii ''1'' then True
        else if v = ascii ''false'' \<or> v = ascii ''no'' \<or> v = ascii ''0'' then False
        else fallback)"

section \<open>Flattening\<close>

definition keys_named :: "settings \<Rightarrow> bool" where
  "keys_named m \<longleftrightarrow> [] \<notin> fst ` set m"

definition overlay_ok :: "Overlay \<Rightarrow> bool" where
  "overlay_ok ov \<longleftrightarrow> map_sorted (ov_values ov) \<and> keys_named (ov_values ov)"

lemma keys_named_insert [simp]: "keys_named (map_insert k v m) \<longleftrightarrow> k \<noteq> [] \<and> keys_named m"
  by (auto simp: keys_named_def map_insert_keys)

lemma keys_named_Nil [simp]: "keys_named []"
  by (simp add: keys_named_def)

lemma flatten_ok:
  "flatten node prefix acc = Some acc' \<Longrightarrow> prefix \<noteq> [] \<or> (\<exists>items. node = JObject items)
     \<Longrightarrow> map_sorted (fst acc) \<Longrightarrow> keys_named (fst acc) \<Longrightarrow> map_sorted (fst acc') \<and> keys_named (fst acc')"
  "flatten_items items prefix acc = Some acc' \<Longrightarrow> map_sorted (fst acc) \<Longrightarrow> keys_named (fst acc)
     \<Longrightarrow> map_sorted (fst acc') \<and> keys_named (fst acc')"
  by (induction node prefix acc and items prefix acc arbitrary: acc' and acc' rule: flatten_flatten_items.induct)
   (auto simp: map_insert_sorted Let_def split: if_splits option.splits)

lemma flatten_flat:
  "map_sorted (done' @ m) \<Longrightarrow> keys_named m
     \<Longrightarrow> flatten_items (map (apsnd JString) m) [] (done', l) = Some (done' @ m, l)"
proof (induction m arbitrary: done')
  case (Cons e m)
  obtain k v where e: "e = (k, v)" by (cases e)
  have "sorted_wrt (<) (map fst done' @ [k])" using Cons.prems(1) e by (auto simp: map_sorted_def sorted_wrt_append)
  then have "map_insert k v done' = done' @ [(k, v)]" by (rule map_insert_last)
  moreover have "k \<noteq> []" "keys_named m" using Cons.prems(2) e by (auto simp: keys_named_def)
  ultimately show ?case using Cons.IH [of "done' @ [(k, v)]"] Cons.prems(1) e by simp
qed simp

section \<open>The overlay\<close>

text \<open>The document an overlay writes is one of texts, and the library reads it back.\<close>

lemma overlay_read_back:
  assumes "map_sorted m" "json_dump2 (JObject (map (apsnd JString) m)) = Some dumped"
  shows "json_parse F (dumped @ [10]) = Some (JObject (map (apsnd JString) m))"
proof -
  let ?v = "JObject (map (apsnd JString) m)"
  have "well_typed ?v" by auto
  then have u: "all_utf8 ?v" "dumped = render True 2 0 ?v"
    using assms(2) by (auto simp: json_dump2_def dump_text_exact split: if_splits)
  moreover have "map fst (map (apsnd JString) m) = map fst m" by simp
  ultimately have "document F ?v" using assms(1) by (auto simp: map_sorted_def simp del: map_map)
  moreover have "as_read ?v = ?v" by auto
  ultimately show ?thesis using parse_rendered [of F ?v True 2 True] u(2) by (simp add: line_break_def)
qed

text \<open>The settings in memory are the ones a restart reads.\<close>

definition overlay_saved :: "float_text \<Rightarrow> Overlay \<Rightarrow> file_system \<Rightarrow> bool" where
  "overlay_saved F ov fs \<longleftrightarrow> overlay_ok ov \<and> overlay_load F fs (overlay_new (ov_path ov)) = (True, ov)"

lemma writeAtomic_target:
  "writeAtomic out target data fs = (ok, fs') \<Longrightarrow>
     (ok \<longleftrightarrow> out = Written) \<and> readAll target fs' = (if ok then Some data else readAll target fs)
     \<and> (fs' target = None \<longleftrightarrow> \<not> ok \<and> fs target = None)"
  by (cases out) (auto simp: writeAtomic_def Let_def readAll_def)

lemma writeAtomic_fails: "writeAtomic out target data fs = (False, fs') \<Longrightarrow> p \<noteq> target @ ''.tmp'' \<Longrightarrow> fs' p = fs p"
  by (cases out) (auto simp: writeAtomic_def Let_def)

lemma writeAtomic_other:
  "writeAtomic out target data fs = (ok, fs') \<Longrightarrow> p \<noteq> target \<Longrightarrow> p \<noteq> target @ ''.tmp'' \<Longrightarrow> fs' p = fs p"
  by (cases out) (auto simp: writeAtomic_def Let_def)

lemma overlay_load_cong: "fs' p = fs p \<Longrightarrow> overlay_load F fs' (overlay_new p) = overlay_load F fs (overlay_new p)"
  by (simp add: overlay_load_def overlay_new_def readAll_def)

lemma overlay_load_ok: "overlay_ok ov \<Longrightarrow> overlay_load F fs ov = (ok, ov') \<Longrightarrow> overlay_ok ov' \<and> ov_path ov' = ov_path ov"
  by (auto simp: overlay_load_def overlay_ok_def parse_settings_def split: if_splits option.splits Json.splits
      dest: flatten_ok(2))

lemma overlay_load_saved:
  assumes "overlay_load F fs (overlay_new p) = (True, ov)"
  shows "overlay_saved F ov fs"
  using overlay_load_ok [OF _ assms] assms by (auto simp: overlay_saved_def overlay_new_def overlay_ok_def)

lemma overlay_load_written:
  assumes "overlay_ok ov" "json_dump2 (JObject (map (apsnd JString) (ov_values ov))) = Some dumped"
    "readAll (ov_path ov) fs = Some (dumped @ [10])"
  shows "overlay_load F fs (overlay_new (ov_path ov)) = (True, ov)"
proof -
  have "json_parse F (dumped @ [10]) = Some (JObject (map (apsnd JString) (ov_values ov)))"
    using overlay_read_back assms(1,2) by (simp add: overlay_ok_def)
  moreover have "fs (ov_path ov) \<noteq> None" using assms(3) by (auto simp: readAll_def split: option.splits)
  moreover have "flatten_items (map (apsnd JString) (ov_values ov)) [] ([], []) = Some (ov_values ov, [])"
    using flatten_flat [of "[]" "ov_values ov" "[]"] assms(1) by (simp add: overlay_ok_def)
  ultimately show ?thesis using assms(3) by (auto simp: overlay_load_def overlay_new_def parse_settings_def)
qed

lemma overlay_set_cases:
  assumes "overlay_ok ov" "k \<noteq> []" "overlay_set out k v ov fs = (r, ov', fs')"
  obtains (thrown) "r = Inl ()" "fs' = fs" "json_dump2 (JObject (map (apsnd JString) (map_insert k v (ov_values ov)))) = None"
  | (stored) dumped where "r = Inr True" "ov' = ov\<lparr>ov_values := map_insert k v (ov_values ov)\<rparr>"
      "json_dump2 (JObject (map (apsnd JString) (ov_values ov'))) = Some dumped"
      "writeAtomic out (ov_path ov) (dumped @ [10]) fs = (True, fs')"
  | (refused) dumped where "r = Inr False" "ov' = ov" "writeAtomic out (ov_path ov) dumped fs = (False, fs')"
proof -
  let ?ov = "ov\<lparr>ov_values := map_insert k v (ov_values ov)\<rparr>"
  have undone: "(case map_of (ov_values ov) k of
       Some restore \<Rightarrow> ?ov\<lparr>ov_values := map_insert k restore (ov_values ?ov)\<rparr>
     | None \<Rightarrow> ?ov\<lparr>ov_values := map_erase k (ov_values ?ov)\<rparr>) = ov"
    using std.rollback [of "ov_values ov" k v] assms(1) by (auto simp: overlay_ok_def split: option.splits)
  show thesis
  proof (cases "json_dump2 (JObject (map (apsnd JString) (map_insert k v (ov_values ov))))")
    case None
    then show ?thesis using assms(3) thrown by (auto simp: overlay_set_def overlay_save_def Let_def)
  next
    case (Some dumped)
    obtain ok fs2 where w: "writeAtomic out (ov_path ov) (dumped @ [10]) fs = (ok, fs2)" by fastforce
    show ?thesis
    proof (cases ok)
      case True
      then show ?thesis using assms(3) Some w stored by (auto simp: overlay_set_def overlay_save_def Let_def)
    next
      case False
      then show ?thesis using assms(3) Some w refused undone
        by (auto simp: overlay_set_def overlay_save_def Let_def)
    qed
  qed
qed

lemma overlay_set_saved:
  assumes "overlay_saved F ov fs" "k \<noteq> []" "overlay_set out k v ov fs = (Inr ok, ov', fs')"
  shows "overlay_saved F ov' fs' \<and> ov_path ov' = ov_path ov
    \<and> (ok \<longleftrightarrow> out = Written) \<and> map_of (ov_values ov') = (if ok then (map_of (ov_values ov))(k \<mapsto> v) else map_of (ov_values ov))"
proof -
  have o: "overlay_ok ov" using assms(1) by (simp add: overlay_saved_def)
  then have s: "map_sorted (ov_values ov)" by (simp add: overlay_ok_def)
  show ?thesis
    using o assms(2,3)
  proof (cases rule: overlay_set_cases)
    case thrown
    then show ?thesis by simp
  next
    case (stored dumped)
    have "overlay_ok ov'" using o stored(2) assms(2) by (simp add: overlay_ok_def map_insert_sorted)
    moreover have "readAll (ov_path ov') fs' = Some (dumped @ [10])"
      using writeAtomic_target [OF stored(4)] stored(2) by simp
    ultimately have "overlay_saved F ov' fs'"
      using overlay_load_written [OF _ stored(3)] by (simp add: overlay_saved_def)
    then show ?thesis using stored s writeAtomic_target [OF stored(4)] by (simp add: map_of_insert)
  next
    case (refused dumped)
    have "fs' (ov_path ov) = fs (ov_path ov)" using writeAtomic_fails [OF refused(3)] by simp
    then have "overlay_load F fs' (overlay_new (ov_path ov)) = overlay_load F fs (overlay_new (ov_path ov))"
      by (rule overlay_load_cong)
    then show ?thesis using refused assms(1) writeAtomic_target [OF refused(3)] by (simp add: overlay_saved_def)
  qed
qed

section \<open>The effective configuration\<close>

lemma fold_insert_map_of:
  "map_sorted (cfg_values c) \<Longrightarrow>
     map_of (cfg_values (fold (\<lambda>(key, v) c. c\<lparr>cfg_values := map_insert key v (cfg_values c),
       cfg_lists := map_erase key (cfg_lists c)\<rparr>) m c)) = map_of (cfg_values c) ++ map_of (rev m)
     \<and> map_of (cfg_lists (fold (\<lambda>(key, v) c. c\<lparr>cfg_values := map_insert key v (cfg_values c),
       cfg_lists := map_erase key (cfg_lists c)\<rparr>) m c)) = map_of (cfg_lists c) |` (- fst ` set m)"
proof (induction m arbitrary: c)
  case (Cons e m)
  then show ?case
    by (cases e) (auto simp: map_insert_sorted map_of_insert map_of_erase restrict_map_def fun_eq_iff map_add_def
        split: option.splits)
qed (simp add: restrict_map_def)

lemma applyOverlay_map_of:
  assumes "map_sorted (cfg_values c)" "map_sorted (ov_values ov)"
  shows "map_of (cfg_values (applyOverlay ov c)) = map_of (cfg_values c) ++ map_of (ov_values ov)"
    and "map_of (cfg_lists (applyOverlay ov c)) = map_of (cfg_lists c) |` (- dom (map_of (ov_values ov)))"
proof -
  have "distinct (map fst (ov_values ov))" using assms(2) strict_sorted_iff by (auto simp: map_sorted_def)
  then have "map_of (rev (ov_values ov)) = map_of (ov_values ov)"
    by (intro map_of_inject_set [THEN iffD2]) (auto simp flip: rev_map)
  then show "map_of (cfg_values (applyOverlay ov c)) = map_of (cfg_values c) ++ map_of (ov_values ov)"
    "map_of (cfg_lists (applyOverlay ov c)) = map_of (cfg_lists c) |` (- dom (map_of (ov_values ov)))"
    using fold_insert_map_of [OF assms(1), of "ov_values ov"] by (simp_all add: applyOverlay_def dom_map_of_conv_image_fst)
qed

end
