(* ===== verification/Chip_Radio.thy ===== *)
theory Chip_Radio
  imports Radio_Driver Host_Platform
begin

text \<open>
  The two drivers a node is built with: \<^verbatim>\<open>src/src/radio/udp_radio.cpp\<close>, datagrams standing in for the air, and
  \<^verbatim>\<open>src/src/radio/sx1262_radio.cpp\<close>, the LoRa chip. Queue, budget and airtime are those of \<open>Radio_Driver\<close>. RadioLib is a
  parameter, a record of the calls the driver makes on the chip; the sockets are arguments (what the system calls answer,
  which datagrams \<^verbatim>\<open>recv\<close> hands out). A sink is a function on the state behind it, and gives back what it sent
  through this radio while it ran.
\<close>

type_synonym 'w RxSink = "bytes \<Rightarrow> RxMeta \<Rightarrow> 'w \<Rightarrow> (bytes \<times> Priority) list \<times> 'w"

definition feed :: "(bytes \<times> Priority) list \<Rightarrow> TxQueue \<Rightarrow> TxQueue" where
  "feed sends q = fold (\<lambda>(frame, priority) q. snd (push frame priority q)) sends q"

section \<open>UDP\<close>

abbreviation (input) kSenderIdSize :: nat where "kSenderIdSize \<equiv> 8"
abbreviation (input) kDatagramMax :: nat where "kDatagramMax \<equiv> kSenderIdSize + MAX_PACKET_FRAME"

record Endpoint =
  ep_address :: u32
  ep_port :: u16

record UdpOptions =
  bindAddress :: bytes
  listenPort :: u16
  peers :: "bytes list"
  multicastGroup :: bytes
  multicastPort :: u16

record UdpRadio =
  udp_options :: UdpOptions
  udp_params :: Params
  udp_duty :: DutyCycle
  udp_queue :: TxQueue
  udp_socket :: bool
  udp_boundPort :: u16
  udp_selfId :: bytes
  udp_now :: Millis
  udp_destinations :: "Endpoint list"

text \<open>The sender id is eight random bytes.\<close>

definition udp_new :: "UdpOptions \<Rightarrow> Params \<Rightarrow> bytes \<Rightarrow> UdpRadio" where
  "udp_new options params selfId =
     \<lparr>udp_options = options, udp_params = params, udp_duty = duty_new (dutyCyclePercent params) (dutyWindowMs params),
      udp_queue = txqueue_new (queueDepth params), udp_socket = False, udp_boundPort = 0, udp_selfId = selfId,
      udp_now = 0, udp_destinations = []\<rparr>"

text \<open>
  \<^verbatim>\<open>strtoul\<close> in base ten. A minus sign negates the number as an unsigned long; too large a number saturates.
\<close>

definition strtoul :: "bytes \<Rightarrow> u64" where
  "strtoul s =
     (let s1 = dropWhile is_space s;
          neg = (s1 \<noteq> [] \<and> hd s1 = 45);
          s2 = (if s1 \<noteq> [] \<and> (hd s1 = 45 \<or> hd s1 = 43) then tl s1 else s1);
          v = digits_value (takeWhile is_digit s2)
      in if v \<ge> 2 ^ 64 then - 1 else if neg then - of_int v else of_int v)"

definition last_colon :: "bytes \<Rightarrow> nat option" where
  "last_colon s = (case filter (\<lambda>i. s ! i = 58) [0..<length s] of [] \<Rightarrow> None | is \<Rightarrow> Some (last is))"

fun add_peers :: "(bytes \<Rightarrow> u32 option) \<Rightarrow> bytes list \<Rightarrow> Endpoint list \<Rightarrow> bool \<times> Endpoint list" where
  "add_peers inet_pton [] dests = (True, dests)"
| "add_peers inet_pton (peer # rest) dests =
     (case last_colon peer of None \<Rightarrow> (False, dests)
      | Some colon \<Rightarrow>
        if colon = 0 \<or> colon + 1 \<ge> length peer then (False, dests) else
        (case inet_pton (cstr (take colon peer)) of None \<Rightarrow> (False, dests)
         | Some parsed \<Rightarrow> add_peers inet_pton rest
             (dests @ [\<lparr>ep_address = parsed, ep_port = ucast (strtoul (cstr (drop (colon + 1) peer)))\<rparr>])))"

text \<open>
  Opening: the answers of \<^verbatim>\<open>socket\<close>, of \<^verbatim>\<open>bind\<close> (the port it got) and of the request to join the group are arguments.
\<close>

definition udp_open ::
  "(bytes \<Rightarrow> u32 option) \<Rightarrow> bool \<Rightarrow> u16 option \<Rightarrow> bool \<Rightarrow> UdpRadio \<Rightarrow> bool \<times> UdpRadio" where
  "udp_open inet_pton made bound joined r =
     (let r = r\<lparr>udp_socket := made\<rparr>; options = udp_options r; useMulticast = (multicastGroup options \<noteq> []) in
      if \<not> made then (False, r) else
      if \<not> useMulticast \<and> inet_pton (cstr (bindAddress options)) = None then (False, r) else
      case bound of None \<Rightarrow> (False, r)
      | Some port \<Rightarrow>
        let r = r\<lparr>udp_boundPort := port\<rparr> in
        if useMulticast \<and> (inet_pton (cstr (multicastGroup options)) = None \<or> \<not> joined) then (False, r) else
        let r = (if useMulticast
                 then r\<lparr>udp_destinations := udp_destinations r @ [\<lparr>ep_address = the (inet_pton (cstr (multicastGroup options))),
                        ep_port = multicastPort options\<rparr>]\<rparr> else r);
            (ok, dests) = add_peers inet_pton (peers options) (udp_destinations r)
        in (ok, r\<lparr>udp_destinations := dests\<rparr>))"

definition udp_send :: "bytes \<Rightarrow> Priority \<Rightarrow> UdpRadio \<Rightarrow> bool \<times> UdpRadio" where
  "udp_send frame priority r = (let (ok, q) = push frame priority (udp_queue r) in (ok, r\<lparr>udp_queue := q\<rparr>))"

definition udp_airtimeUs :: "UdpRadio \<Rightarrow> nat \<Rightarrow> u32" where
  "udp_airtimeUs r n = airtimeUsFor (udp_params r) n"

definition udp_canTransmitNow :: "UdpRadio \<Rightarrow> bool \<times> UdpRadio" where
  "udp_canTransmitNow r =
     (if \<not> udp_socket r then (False, r) else
      let (ok, d) = allows (udp_now r) (udp_airtimeUs r MAX_PACKET_FRAME) (udp_duty r) in (ok, r\<lparr>udp_duty := d\<rparr>))"

text \<open>The datagrams of one frame, one per destination.\<close>

definition udp_transmit :: "bytes \<Rightarrow> UdpRadio \<Rightarrow> (Endpoint \<times> bytes) list" where
  "udp_transmit frame r = map (\<lambda>endpoint. (endpoint, udp_selfId r @ frame)) (udp_destinations r)"

text \<open>\<^verbatim>\<open>recv\<close> cuts a datagram to the buffer.\<close>

fun drainSocket :: "'w RxSink option \<Rightarrow> bytes list \<Rightarrow> UdpRadio \<Rightarrow> 'w \<Rightarrow> UdpRadio \<times> 'w" where
  "drainSocket sink [] r w = (r, w)"
| "drainSocket sink (arrived # inbox) r w =
     (let datagram = take kDatagramMax arrived in
      if length datagram \<le> kSenderIdSize then drainSocket sink inbox r w else
      if take kSenderIdSize datagram = udp_selfId r then drainSocket sink inbox r w else
      case sink of None \<Rightarrow> drainSocket sink inbox r w
      | Some onFrame' \<Rightarrow>
        let frame = drop kSenderIdSize datagram;
            (sends, w) = onFrame' frame
              \<lparr>rssi = - 60, snr = 8, meta_at = udp_now r, meta_airtimeUs = udp_airtimeUs r (length frame)\<rparr> w
        in drainSocket sink inbox (r\<lparr>udp_queue := feed sends (udp_queue r)\<rparr>) w)"

text \<open>The transmit loop: the frames that went out, with what each was charged.\<close>

function udp_loop :: "(nat \<Rightarrow> u32) \<Rightarrow> Millis \<Rightarrow> DutyCycle \<Rightarrow> TxQueue \<Rightarrow> (bytes \<times> u32) list \<times> DutyCycle \<times> TxQueue" where
  "udp_loop airtimeUs now duty q =
     (case pop q of None \<Rightarrow> ([], duty, q)
      | Some ((priority, frame), q') \<Rightarrow>
        if length frame > MAX_PACKET_FRAME then udp_loop airtimeUs now duty q' else
        let airtime = airtimeUs (length frame); (ok, duty) = allows now airtime duty in
        if \<not> ok then ([], duty, snd (push frame priority q')) else
        let (air, duty, q'') = udp_loop airtimeUs now (duty_record now airtime duty) q' in
        ((frame, airtime) # air, duty, q''))"
  by pat_completeness auto
termination
  by (relation "measure (\<lambda>(f, now, duty, q). length (entries q))") (auto dest: pop_length)

declare udp_loop.simps [simp del]

definition udp_tick ::
  "'w RxSink option \<Rightarrow> Millis \<Rightarrow> bytes list \<Rightarrow> UdpRadio \<Rightarrow> 'w \<Rightarrow> (bytes \<times> u32) list \<times> UdpRadio \<times> 'w" where
  "udp_tick sink now inbox r w =
     (let r = r\<lparr>udp_now := now\<rparr> in
      if \<not> udp_socket r then ([], r, w) else
      let (r, w) = drainSocket sink inbox r w;
          (air, duty, q) = udp_loop (udp_airtimeUs r) now (udp_duty r) (udp_queue r)
      in (air, r\<lparr>udp_duty := duty, udp_queue := q\<rparr>, w))"

text \<open>What leaves through the socket in one tick.\<close>

definition udp_datagrams :: "(bytes \<times> u32) list \<Rightarrow> UdpRadio \<Rightarrow> (Endpoint \<times> bytes) list" where
  "udp_datagrams air r = concat (map (\<lambda>(frame, _). udp_transmit frame r) air)"

section \<open>SX1262\<close>

abbreviation (input) kTransmitGraceMs :: Millis where "kTransmitGraceMs \<equiv> 500"

datatype irq = RX_DONE | TX_DONE

text \<open>Voltages and currents, floats in the source, in the thousandths the configuration gives them in.\<close>

record Sx1262Options =
  spiBus :: byte
  spiChipSelect :: byte
  spiSpeedHz :: u32
  gpioChip :: byte
  pinNss :: int
  pinBusy :: int
  pinReset :: int
  pinDio1 :: int
  pinRxEnable :: int
  pinTxEnable :: int
  dio2AsRfSwitch :: bool
  tcxoMillivolts :: int
  useRegulatorLdo :: bool
  txPowerDbm :: int
  currentLimitMa :: int

definition sx1262_options_default :: Sx1262Options where
  "sx1262_options_default =
     \<lparr>spiBus = 0, spiChipSelect = 0, spiSpeedHz = 2000000, gpioChip = 0, pinNss = 21, pinBusy = 20, pinReset = 18,
      pinDio1 = 16, pinRxEnable = 6, pinTxEnable = - 1, dio2AsRfSwitch = True, tcxoMillivolts = 0,
      useRegulatorLdo = False, txPowerDbm = 22, currentLimitMa = 140\<rparr>"

definition pinOrNone :: "int \<Rightarrow> u32" where
  "pinOrNone pin = (if pin < 0 then 0xFFFFFFFF else of_int pin)"

text \<open>
  The calls on the chip. A status of 0 is \<^verbatim>\<open>RADIOLIB_ERR_NONE\<close>. \<^verbatim>\<open>readData\<close> is told how much to
  read; signal levels are given rounded, the way the driver stores them.
\<close>

record 'c RadioLib =
  lib_begin :: "Sx1262Options \<Rightarrow> Params \<Rightarrow> 'c \<Rightarrow> int \<times> 'c"
  lib_setDio2AsRfSwitch :: "bool \<Rightarrow> 'c \<Rightarrow> int \<times> 'c"
  lib_setRfSwitchPins :: "u32 \<Rightarrow> u32 \<Rightarrow> 'c \<Rightarrow> 'c"
  lib_setCurrentLimit :: "int \<Rightarrow> 'c \<Rightarrow> int \<times> 'c"
  lib_startReceive :: "'c \<Rightarrow> int \<times> 'c"
  lib_checkIrq :: "irq \<Rightarrow> 'c \<Rightarrow> int \<times> 'c"
  lib_getPacketLength :: "'c \<Rightarrow> nat \<times> 'c"
  lib_readData :: "nat \<Rightarrow> 'c \<Rightarrow> int \<times> bytes \<times> 'c"
  lib_getRSSI :: "'c \<Rightarrow> int \<times> 'c"
  lib_getSNR :: "'c \<Rightarrow> int \<times> 'c"
  lib_startTransmit :: "bytes \<Rightarrow> 'c \<Rightarrow> int \<times> 'c"
  lib_finishTransmit :: "'c \<Rightarrow> 'c"

record 'c Sx1262Radio =
  sx_options :: Sx1262Options
  sx_params :: Params
  sx_duty :: DutyCycle
  sx_queue :: TxQueue
  sx_now :: Millis
  sx_device :: "'c option"
  sx_transmitting :: bool
  sx_deadline :: Millis

definition sx_new :: "Sx1262Options \<Rightarrow> Params \<Rightarrow> 'c Sx1262Radio" where
  "sx_new options params =
     \<lparr>sx_options = options, sx_params = params, sx_duty = duty_new (dutyCyclePercent params) (dutyWindowMs params),
      sx_queue = txqueue_new (queueDepth params), sx_now = 0, sx_device = None, sx_transmitting = False, sx_deadline = 0\<rparr>"

definition startListening :: "'c RadioLib \<Rightarrow> 'c \<Rightarrow> bool \<times> 'c" where
  "startListening L c = (let (state, c) = lib_startReceive L c in (state = 0, c))"

definition sx_open :: "'c RadioLib \<Rightarrow> 'c \<Rightarrow> 'c Sx1262Radio \<Rightarrow> bool \<times> 'c Sx1262Radio" where
  "sx_open L c r =
     (let options = sx_options r; failed = (False, r\<lparr>sx_device := None\<rparr>);
          (state, c) = lib_begin L options (sx_params r) c in
      if state \<noteq> 0 then failed else
      let (state, c) = lib_setDio2AsRfSwitch L (dio2AsRfSwitch options) c in
      if state \<noteq> 0 then failed else
      let c = (if pinRxEnable options \<ge> 0 \<or> pinTxEnable options \<ge> 0
               then lib_setRfSwitchPins L (pinOrNone (pinRxEnable options)) (pinOrNone (pinTxEnable options)) c else c);
          (state, c) = lib_setCurrentLimit L (currentLimitMa options) c in
      if state \<noteq> 0 then failed else
      let (ok, c) = startListening L c in
      if \<not> ok then failed else (True, r\<lparr>sx_device := Some c\<rparr>))"

definition sx_send :: "bytes \<Rightarrow> Priority \<Rightarrow> 'c Sx1262Radio \<Rightarrow> bool \<times> 'c Sx1262Radio" where
  "sx_send frame priority r = (let (ok, q) = push frame priority (sx_queue r) in (ok, r\<lparr>sx_queue := q\<rparr>))"

definition sx_airtimeUs :: "'c Sx1262Radio \<Rightarrow> nat \<Rightarrow> u32" where
  "sx_airtimeUs r n = airtimeUsFor (sx_params r) n"

definition sx_canTransmitNow :: "'c Sx1262Radio \<Rightarrow> bool \<times> 'c Sx1262Radio" where
  "sx_canTransmitNow r =
     (if sx_device r = None \<or> sx_transmitting r then (False, r) else
      let (ok, d) = allows (sx_now r) (sx_airtimeUs r MAX_PACKET_FRAME) (sx_duty r) in (ok, r\<lparr>sx_duty := d\<rparr>))"

text \<open>The frame that was waiting, if it could be read.\<close>

definition read_frame :: "'c RadioLib \<Rightarrow> 'c \<Rightarrow> bytes option \<times> 'c" where
  "read_frame L c =
     (let (done', c) = lib_checkIrq L RX_DONE c in
      if done' \<noteq> 1 then (None, c) else
      let (len, c) = lib_getPacketLength L c;
          len = (if len > MAX_PACKET_FRAME then MAX_PACKET_FRAME else len);
          (state, frame, c) = lib_readData L len c;
          (_, c) = startListening L c
      in (if state \<noteq> 0 \<or> len = 0 then None else Some (take len frame), c))"

definition collect :: "'c RadioLib \<Rightarrow> 'w RxSink option \<Rightarrow> 'c \<Rightarrow> 'c Sx1262Radio \<Rightarrow> 'w \<Rightarrow> 'c Sx1262Radio \<times> 'w" where
  "collect L sink c r w =
     (let (got, c) = read_frame L c in
      case (got, sink) of
        (Some frame, Some onFrame') \<Rightarrow>
          let (level, c) = lib_getRSSI L c; (ratio, c) = lib_getSNR L c;
              (sends, w) = onFrame' frame \<lparr>rssi = level, snr = ratio, meta_at = sx_now r,
                 meta_airtimeUs = sx_airtimeUs r (length frame)\<rparr> w
          in (r\<lparr>sx_device := Some c, sx_queue := feed sends (sx_queue r)\<rparr>, w)
      | _ \<Rightarrow> (r\<lparr>sx_device := Some c\<rparr>, w))"

text \<open>The frame the chip took, with what it was charged.\<close>

definition sx_startTransmit :: "'c RadioLib \<Rightarrow> Millis \<Rightarrow> 'c \<Rightarrow> 'c Sx1262Radio \<Rightarrow> (bytes \<times> u32) list \<times> 'c Sx1262Radio" where
  "sx_startTransmit L now c r =
     (case pop (sx_queue r) of None \<Rightarrow> ([], r)
      | Some ((priority, frame), q) \<Rightarrow>
        let r = r\<lparr>sx_queue := q\<rparr> in
        if frame = [] \<or> length frame > MAX_PACKET_FRAME then ([], r) else
        let airtime = sx_airtimeUs r (length frame); (ok, duty) = allows now airtime (sx_duty r); r = r\<lparr>sx_duty := duty\<rparr> in
        if \<not> ok then ([], r\<lparr>sx_queue := snd (push frame priority q)\<rparr>) else
        let (state, c) = lib_startTransmit L frame c in
        if state \<noteq> 0 then ([], r\<lparr>sx_device := Some (snd (startListening L c))\<rparr>) else
        ([(frame, airtime)],
         r\<lparr>sx_device := Some c, sx_duty := duty_record now airtime duty, sx_transmitting := True,
           sx_deadline := now + ucast (airtime div 1000) + kTransmitGraceMs\<rparr>))"

definition sx_finishTransmit :: "'c RadioLib \<Rightarrow> 'c \<Rightarrow> 'c Sx1262Radio \<Rightarrow> 'c Sx1262Radio" where
  "sx_finishTransmit L c r =
     r\<lparr>sx_device := Some (snd (startListening L (lib_finishTransmit L c))), sx_transmitting := False\<rparr>"

definition sx_tick ::
  "'c RadioLib \<Rightarrow> 'w RxSink option \<Rightarrow> Millis \<Rightarrow> 'c Sx1262Radio \<Rightarrow> 'w \<Rightarrow> (bytes \<times> u32) list \<times> 'c Sx1262Radio \<times> 'w" where
  "sx_tick L sink now r w =
     (let r = r\<lparr>sx_now := now\<rparr> in
      case sx_device r of None \<Rightarrow> ([], r, w)
      | Some c \<Rightarrow>
        if sx_transmitting r then
          let (done', c) = lib_checkIrq L TX_DONE c; r = r\<lparr>sx_device := Some c\<rparr> in
          if done' = 1 \<or> now \<ge> sx_deadline r then ([], sx_finishTransmit L c r, w) else ([], r, w)
        else
          let (r, w) = collect L sink c r w;
              (air, r) = (case sx_device r of None \<Rightarrow> ([], r) | Some c \<Rightarrow> sx_startTransmit L now c r)
          in (air, r, w))"

definition sx_usedPermille :: "'c Sx1262Radio \<Rightarrow> u32 \<times> 'c Sx1262Radio" where
  "sx_usedPermille r = (let (p, d) = usedPermille (sx_now r) (sx_duty r) in (p, r\<lparr>sx_duty := d\<rparr>))"

definition udp_usedPermille :: "UdpRadio \<Rightarrow> u32 \<times> UdpRadio" where
  "udp_usedPermille r = (let (p, d) = usedPermille (udp_now r) (udp_duty r) in (p, r\<lparr>udp_duty := d\<rparr>))"

section \<open>A driver that charges what it sends\<close>

text \<open>Running a driver through a list of events; the slots are what it put on the air.\<close>

fun drive :: "('e \<Rightarrow> 'r \<Rightarrow> Slot list \<times> 'r) \<Rightarrow> 'e list \<Rightarrow> 'r \<Rightarrow> Slot list \<times> 'r" where
  "drive step [] r = ([], r)"
| "drive step (e # es) r = (let (air, r) = step e r; (later, r) = drive step es r in (air @ later, r))"

definition event_times :: "('e \<Rightarrow> Millis option) \<Rightarrow> 'e list \<Rightarrow> nat list" where
  "event_times tm es = map unat (List.map_filter tm es)"

definition kept_budget :: "DutyCycle \<Rightarrow> DutyCycle \<Rightarrow> bool" where
  "kept_budget d d' \<longleftrightarrow> duty_sane d' \<and> budget_us d' = budget_us d \<and> duty_window d' = duty_window d"

locale charging_driver =
  fixes step :: "'e \<Rightarrow> 'r \<Rightarrow> Slot list \<times> 'r" and duty :: "'r \<Rightarrow> DutyCycle" and tm :: "'e \<Rightarrow> Millis option"
  assumes between: "tm e = None \<Longrightarrow> step e r = (air, r') \<Longrightarrow> air = [] \<and> duty r' = duty r"
    and on_tick: "tm e = Some now \<Longrightarrow> step e r = (air, r') \<Longrightarrow> duty_inv (duty r) lg t \<Longrightarrow> duty_sane (duty r)
      \<Longrightarrow> t \<le> unat now \<Longrightarrow> unat now < 2 ^ 63 \<Longrightarrow> duty_inv (duty r') (lg @ air) (unat now) \<and> kept_budget (duty r) (duty r')"
begin

lemma drive_inv:
  "drive step es r = (air, r') \<Longrightarrow> duty_inv (duty r) lg t \<Longrightarrow> duty_sane (duty r)
     \<Longrightarrow> sorted (t # event_times tm es) \<Longrightarrow> \<forall>n \<in> set (event_times tm es). n < 2 ^ 63
     \<Longrightarrow> \<exists>t'. duty_inv (duty r') (lg @ air) t' \<and> kept_budget (duty r) (duty r')"
proof (induction es arbitrary: r air r' lg t)
  case Nil
  then show ?case by (auto simp: kept_budget_def)
next
  case (Cons e es)
  obtain air1 r1 where s: "step e r = (air1, r1)" by fastforce
  obtain air2 r2 where d: "drive step es r1 = (air2, r2)" by fastforce
  have res: "air = air1 @ air2" "r' = r2" using Cons.prems(1) s d by auto
  show ?case
  proof (cases "tm e")
    case None
    then have "event_times tm (e # es) = event_times tm es" by (simp add: event_times_def List.map_filter_def)
    then show ?thesis using Cons.IH [OF d, of lg t] between [OF None s] Cons.prems(2-5) res by simp
  next
    case (Some now)
    have et: "event_times tm (e # es) = unat now # event_times tm es" using Some by (simp add: event_times_def List.map_filter_def)
    have k: "duty_inv (duty r1) (lg @ air1) (unat now) \<and> kept_budget (duty r) (duty r1)"
      using on_tick [OF Some s Cons.prems(2,3)] Cons.prems(4,5) et by simp
    then show ?thesis
      using Cons.IH [OF d, of "lg @ air1" "unat now"] Cons.prems(4,5) et res by (auto simp: kept_budget_def)
  qed
qed

lemma window_kept:
  assumes "drive step es r = (air, r')" "duty r = duty_new percent window" "unat percent < 100"
    "unat window * 100000 < 2 ^ 63" "sorted (event_times tm es)" "\<forall>n \<in> set (event_times tm es). n < 2 ^ 63"
  shows "airtime_in_window (unat window) t air \<le> unat window * 1000 * unat percent div 100"
proof -
  have "duty_sane (duty r)" "duty_inv (duty r) [] 0"
    using assms(2-4) duty_new_inv by (simp_all add: duty_sane_def duty_new_def)
  then obtain t' where "duty_inv (duty r') air t'" "kept_budget (duty r) (duty r')"
    using drive_inv [OF assms(1), of "[]" 0] assms(5,6) by auto
  then show ?thesis using assms(2) by (auto simp: duty_inv_def kept_budget_def budget_us_def duty_new_def)
qed

end

section \<open>The UDP driver\<close>

datatype udp_event = Udp_Send bytes Priority | Udp_Tick Millis "bytes list"

fun udp_time :: "udp_event \<Rightarrow> Millis option" where
  "udp_time (Udp_Send _ _) = None"
| "udp_time (Udp_Tick now _) = Some now"

definition slots_at :: "Millis \<Rightarrow> (bytes \<times> u32) list \<Rightarrow> Slot list" where
  "slots_at now air = map (\<lambda>(_, a). \<lparr>slot_at = now, slot_airtimeUs = a\<rparr>) air"

fun udp_step :: "'w RxSink option \<Rightarrow> udp_event \<Rightarrow> UdpRadio \<times> 'w \<Rightarrow> Slot list \<times> UdpRadio \<times> 'w" where
  "udp_step sink (Udp_Send frame priority) (r, w) = ([], snd (udp_send frame priority r), w)"
| "udp_step sink (Udp_Tick now inbox) (r, w) =
     (let (air, r, w) = udp_tick sink now inbox r w in (slots_at now air, r, w))"

lemma allow_record_inv:
  assumes "duty_inv d lg t" "duty_sane d" "t \<le> unat now" "unat now < 2 ^ 63" "allows now a d = (ok, d1)"
  shows "duty_inv d1 lg (unat now) \<and> kept_budget d d1" 
    and "ok \<Longrightarrow> duty_inv (duty_record now a d1) (lg @ [\<lparr>slot_at = now, slot_airtimeUs = a\<rparr>]) (unat now)
      \<and> kept_budget d (duty_record now a d1)"
proof -
  note ai = allows_inv [OF assms]
  show "duty_inv d1 lg (unat now) \<and> kept_budget d d1" using ai by (simp add: kept_budget_def)
  assume ok
  then have "total_us (slots d1) + unat a \<le> budget_us d1" using ai(3,5) by simp
  note ri = record_inv [OF ai(1,2) assms(4) ai(6) [folded ai(4)] this]
  show "duty_inv (duty_record now a d1) (lg @ [\<lparr>slot_at = now, slot_airtimeUs = a\<rparr>]) (unat now)
      \<and> kept_budget d (duty_record now a d1)" using ri ai(3,4) by (simp add: kept_budget_def)
qed

lemma kept_budget_trans: "kept_budget a b \<Longrightarrow> kept_budget b c \<Longrightarrow> kept_budget a c"
  by (simp add: kept_budget_def)

lemma udp_loop_inv:
  "udp_loop f now d q = (air, d', q') \<Longrightarrow> duty_inv d lg t \<Longrightarrow> duty_sane d \<Longrightarrow> t \<le> unat now \<Longrightarrow> unat now < 2 ^ 63
     \<Longrightarrow> duty_inv d' (lg @ slots_at now air) (unat now) \<and> kept_budget d d'"
proof (induction f now d q arbitrary: air d' q' lg t rule: udp_loop.induct)
  case (1 f now d q)
  note prems = "1.prems"
  have stay: "duty_inv d lg (unat now) \<and> kept_budget d d" using duty_inv_later prems(2-4) by (auto simp: kept_budget_def)
  show ?case
  proof (cases "pop q")
    case None
    then show ?thesis using prems(1) stay by (simp add: udp_loop.simps [of f now d q] slots_at_def)
  next
    case (Some e)
    obtain priority frame q1 where e: "e = ((priority, frame), q1)" by (metis prod.collapse)
    let ?a = "f (length frame)"
    obtain ok d1 where al: "allows now ?a d = (ok, d1)" by fastforce
    note ar = allow_record_inv [OF prems(2-5) al]
    show ?thesis
    proof (cases "length frame > MAX_PACKET_FRAME")
      case True
      then show ?thesis
        using "1.IH"(1) [OF Some e [symmetric] refl True _ prems(2-5)] prems(1) Some e by (simp add: udp_loop.simps [of f now d q])
    next
      case fits: False
      show ?thesis
      proof (cases ok)
        case False
        then show ?thesis using prems(1) Some e al fits ar(1) by (simp add: udp_loop.simps [of f now d q] slots_at_def)
      next
        case True
        obtain air2 d2 q2 where rest: "udp_loop f now (duty_record now ?a d1) q1 = (air2, d2, q2)" by (metis prod.collapse)
        have res: "air = (frame, ?a) # air2" "d' = d2"
          using prems(1) Some e al True rest fits by (auto simp: udp_loop.simps [of f now d q])
        have "duty_inv d2 ((lg @ [\<lparr>slot_at = now, slot_airtimeUs = ?a\<rparr>]) @ slots_at now air2) (unat now)
            \<and> kept_budget (duty_record now ?a d1) d2"
          using "1.IH"(2) [OF Some e [symmetric] refl fits refl al [symmetric] refl _ rest _ _ order_refl prems(5)]
            ar(2) [OF True] True unfolding kept_budget_def by blast
        then show ?thesis using res ar(2) True kept_budget_trans by (auto simp: slots_at_def)
      qed
    qed
  qed
qed

lemma drainSocket_keeps:
  "drainSocket sink inbox r w = (r', w') \<Longrightarrow> r' = r\<lparr>udp_queue := udp_queue r'\<rparr>"
proof (induction sink inbox r w rule: drainSocket.induct)
  case (2 sink arrived inbox r w)
  then show ?case by (auto simp: Let_def split: if_splits option.splits prod.splits)
qed simp

lemma udp_tick_charges:
  assumes "udp_tick sink now inbox r w = (air, r', w')" "duty_inv (udp_duty r) lg t" "duty_sane (udp_duty r)"
    "t \<le> unat now" "unat now < 2 ^ 63"
  shows "duty_inv (udp_duty r') (lg @ slots_at now air) (unat now) \<and> kept_budget (udp_duty r) (udp_duty r')"
proof (cases "udp_socket r")
  case True
  obtain r1 w1 where d: "drainSocket sink inbox (r\<lparr>udp_now := now\<rparr>) w = (r1, w1)" by fastforce
  then have "udp_duty r1 = udp_duty r" using drainSocket_keeps [OF d] by (metis UdpRadio.select_convs(3) UdpRadio.surjective UdpRadio.update_convs(4) UdpRadio.update_convs(8))
  moreover obtain q where "udp_loop (udp_airtimeUs r1) now (udp_duty r1) (udp_queue r1) = (air, udp_duty r', q)"
    using assms(1) d True by (auto simp: udp_tick_def Let_def split: prod.splits)
  ultimately show ?thesis using udp_loop_inv assms(2-5) by metis
next
  case False
  then show ?thesis using assms duty_inv_later by (auto simp: udp_tick_def slots_at_def kept_budget_def)
qed

interpretation udp: charging_driver "udp_step sink" "\<lambda>(r, w). udp_duty r" udp_time for sink
proof
  fix e s air s'
  assume "udp_time e = None" "udp_step sink e s = (air, s')"
  then show "air = [] \<and> (case s' of (r, w) \<Rightarrow> udp_duty r) = (case s of (r, w) \<Rightarrow> udp_duty r)"
    by (cases e; cases s) (auto simp: udp_send_def Let_def split: prod.splits)
next
  fix e now s air s' lg t
  assume *: "udp_time e = Some now" "udp_step sink e s = (air, s')" "duty_inv (case s of (r, w) \<Rightarrow> udp_duty r) lg t"
    "duty_sane (case s of (r, w) \<Rightarrow> udp_duty r)" "t \<le> unat now" "unat now < 2 ^ 63"
  obtain r w r' w' where s: "s = (r, w)" "s' = (r', w')" by (cases s; cases s')
  obtain inbox where e: "e = Udp_Tick now inbox" using *(1) by (cases e) auto
  then obtain air0 where "udp_tick sink now inbox r w = (air0, r', w')" "air = slots_at now air0"
    using *(2) s by (auto split: prod.splits)
  then show "duty_inv (case s' of (r, w) \<Rightarrow> udp_duty r) (lg @ air) (unat now)
      \<and> kept_budget (case s of (r, w) \<Rightarrow> udp_duty r) (case s' of (r, w) \<Rightarrow> udp_duty r)"
    using udp_tick_charges [of sink now inbox r w air0 r' w' lg t] *(3-6) s by simp
qed

section \<open>The chip\<close>

datatype sx_event = Sx_Send bytes Priority | Sx_Tick Millis

fun sx_time :: "sx_event \<Rightarrow> Millis option" where
  "sx_time (Sx_Send _ _) = None"
| "sx_time (Sx_Tick now) = Some now"

fun sx_step :: "'c RadioLib \<Rightarrow> 'w RxSink option \<Rightarrow> sx_event \<Rightarrow> 'c Sx1262Radio \<times> 'w \<Rightarrow> Slot list \<times> 'c Sx1262Radio \<times> 'w" where
  "sx_step L sink (Sx_Send frame priority) (r, w) = ([], snd (sx_send frame priority r), w)"
| "sx_step L sink (Sx_Tick now) (r, w) = (let (air, r, w) = sx_tick L sink now r w in (slots_at now air, r, w))"

lemma collect_keeps:
  assumes "collect L sink c r w = (r', w')"
  shows "sx_duty r' = sx_duty r" "sx_transmitting r' = sx_transmitting r" "sx_now r' = sx_now r" "sx_deadline r' = sx_deadline r"
    "sx_device r' \<noteq> None" "sx_params r' = sx_params r"
  using assms by (auto simp: collect_def Let_def split: prod.splits option.splits)

text \<open>Every way a tick can go: the chip is not there, a transmission is in flight, or the frame at the head is tried.\<close>

lemma sx_startTransmit_cases:
  assumes "sx_startTransmit L now c r = (air, r')"
  obtains (none) "air = []" "sx_duty r' = sx_duty r" "sx_transmitting r' = sx_transmitting r" "sx_now r' = sx_now r"
      "sx_device r' = sx_device r"
  | (held) ok a where "air = []" "allows now a (sx_duty r) = (ok, sx_duty r')" "sx_transmitting r' = sx_transmitting r"
      "sx_now r' = sx_now r" "sx_device r \<noteq> None \<longrightarrow> sx_device r' \<noteq> None"
  | (sent) frame a d where "air = [(frame, a)]" "allows now a (sx_duty r) = (True, d)" "sx_duty r' = duty_record now a d"
      "sx_transmitting r'" "sx_deadline r' = now + ucast (a div 1000) + 500" "sx_now r' = sx_now r" "sx_device r' \<noteq> None"
proof (cases "pop (sx_queue r)")
  case None
  then show ?thesis using assms none by (auto simp: sx_startTransmit_def)
next
  case (Some e)
  obtain priority frame q where e: "e = ((priority, frame), q)" by (metis prod.collapse)
  obtain ok d where al: "allows now (airtimeUsFor (sx_params r) (length frame)) (sx_duty r) = (ok, d)" by fastforce
  obtain state c' where st: "lib_startTransmit L frame c = (state, c')" by fastforce
  consider "frame = [] \<or> length frame > MAX_PACKET_FRAME" | "\<not> (frame = [] \<or> length frame > MAX_PACKET_FRAME)" "\<not> ok \<or> state \<noteq> 0"
    | "\<not> (frame = [] \<or> length frame > MAX_PACKET_FRAME)" "ok" "state = 0" by blast
  then show ?thesis
  proof cases
    case 1
    then show ?thesis using assms Some e none by (auto simp: sx_startTransmit_def)
  next
    case 2
    then show ?thesis using assms Some e al st held [of "airtimeUsFor (sx_params r) (length frame)" ok]
      by (cases ok) (auto simp: sx_startTransmit_def Let_def sx_airtimeUs_def)
  next
    case 3
    then show ?thesis
      using assms Some e al st sent [of frame "airtimeUsFor (sx_params r) (length frame)" d]
      by (auto simp: sx_startTransmit_def Let_def sx_airtimeUs_def)
  qed
qed

lemma sx_tick_cases:
  assumes "sx_tick L sink now r w = (air, r', w')"
  obtains (quiet) "air = []" "sx_duty r' = sx_duty r" "sx_now r' = now" "sx_device r' = None \<longleftrightarrow> sx_device r = None"
      "sx_transmitting r' \<longrightarrow> sx_transmitting r \<and> sx_deadline r' = sx_deadline r \<and> (sx_device r = None \<or> now < sx_deadline r)"
  | (tried) c r1 where "sx_startTransmit L now c r1 = (air, r')" "sx_duty r1 = sx_duty r" "\<not> sx_transmitting r1" "sx_now r1 = now"
      "sx_device r1 \<noteq> None" "sx_device r \<noteq> None"
proof (cases "sx_device r")
  case None
  then show ?thesis using assms quiet by (auto simp: sx_tick_def Let_def)
next
  case (Some c)
  show ?thesis
  proof (cases "sx_transmitting r")
    case True
    then show ?thesis using assms Some quiet
      by (auto simp: sx_tick_def Let_def sx_finishTransmit_def not_le split: prod.splits if_splits)
  next
    case False
    obtain r1 w1 where col: "collect L sink c (r\<lparr>sx_now := now\<rparr>) w = (r1, w1)" by fastforce
    note k = collect_keeps [OF col]
    obtain c1 where c1: "sx_device r1 = Some c1" using k(5) by blast
    have "sx_startTransmit L now c1 r1 = (air, r')"
      using assms Some False col c1 by (auto simp: sx_tick_def Let_def split: prod.splits)
    then show ?thesis using tried k False Some by auto
  qed
qed

lemma sx_tick_charges:
  assumes "sx_tick L sink now r w = (air, r', w')" "duty_inv (sx_duty r) lg t" "duty_sane (sx_duty r)"
    "t \<le> unat now" "unat now < 2 ^ 63"
  shows "duty_inv (sx_duty r') (lg @ slots_at now air) (unat now) \<and> kept_budget (sx_duty r) (sx_duty r')"
proof -
  have stay: "duty_inv (sx_duty r) lg (unat now) \<and> kept_budget (sx_duty r) (sx_duty r)"
    using duty_inv_later assms(2-4) by (auto simp: kept_budget_def)
  show ?thesis using assms(1)
  proof (cases rule: sx_tick_cases)
    case quiet
    then show ?thesis using stay by (simp add: slots_at_def)
  next
    case (tried c r1)
    from tried(1) show ?thesis
    proof (cases rule: sx_startTransmit_cases)
      case none
      then show ?thesis using stay tried(2) by (simp add: slots_at_def)
    next
      case (held ok a)
      then show ?thesis using allow_record_inv(1) [OF assms(2-5), of a ok "sx_duty r'"] tried(2) by (simp add: slots_at_def)
    next
      case (sent frame a d)
      then show ?thesis using allow_record_inv(2) [OF assms(2-5), of a True d] tried(2) by (simp add: slots_at_def)
    qed
  qed
qed

interpretation chip: charging_driver "sx_step L sink" "\<lambda>(r, w). sx_duty r" sx_time for L sink
proof
  fix e s air s'
  assume "sx_time e = None" "sx_step L sink e s = (air, s')"
  then show "air = [] \<and> (case s' of (r, w) \<Rightarrow> sx_duty r) = (case s of (r, w) \<Rightarrow> sx_duty r)"
    by (cases e; cases s) (auto simp: sx_send_def Let_def split: prod.splits)
next
  fix e now s air s' lg t
  assume *: "sx_time e = Some now" "sx_step L sink e s = (air, s')" "duty_inv (case s of (r, w) \<Rightarrow> sx_duty r) lg t"
    "duty_sane (case s of (r, w) \<Rightarrow> sx_duty r)" "t \<le> unat now" "unat now < 2 ^ 63"
  obtain r w r' w' where s: "s = (r, w)" "s' = (r', w')" by (cases s; cases s')
  have e: "e = Sx_Tick now" using *(1) by (cases e) auto
  then obtain air0 where "sx_tick L sink now r w = (air0, r', w')" "air = slots_at now air0"
    using *(2) s by (auto split: prod.splits)
  then show "duty_inv (case s' of (r, w) \<Rightarrow> sx_duty r) (lg @ air) (unat now)
      \<and> kept_budget (case s of (r, w) \<Rightarrow> sx_duty r) (case s' of (r, w) \<Rightarrow> sx_duty r)"
    using sx_tick_charges [of L sink now r w air0 r' w' lg t] *(3-6) s by simp
qed

section \<open>A transmission in flight is young\<close>

text \<open>The newest slot of a log is not older than its airtime and the grace.\<close>

definition in_flight :: "Slot list \<Rightarrow> nat \<Rightarrow> bool" where
  "in_flight lg now \<longleftrightarrow> lg \<noteq> [] \<and> now < unat (slot_at (last lg)) + unat (slot_airtimeUs (last lg)) div 1000 + 500"

definition sx_live :: "Slot list \<Rightarrow> 'c Sx1262Radio \<Rightarrow> bool" where
  "sx_live lg r \<longleftrightarrow> sx_device r \<noteq> None \<and> (sx_transmitting r \<longrightarrow> in_flight lg (unat (sx_now r))
     \<and> unat (sx_deadline r) = unat (slot_at (last lg)) + unat (slot_airtimeUs (last lg)) div 1000 + 500)"

lemma deadline_no_wrap:
  assumes "unat (now :: u64) < 2 ^ 63"
  shows "unat (now + ucast ((a :: u32) div 1000) + 500) = unat now + unat a div 1000 + 500"
proof -
  have "unat (ucast (a div 1000) :: u64) = unat a div 1000" by (simp add: unat_div)
  moreover have "unat a div 1000 < 2 ^ 32" using unat_u32_less [of a] by simp
  ultimately show ?thesis using assms by (simp add: unat_word_ariths)
qed

lemma sx_tick_live:
  assumes "sx_live lg r" "sx_tick L sink now r w = (air, r', w')" "unat now < 2 ^ 63"
  shows "sx_live (lg @ slots_at now air) r'"
  using assms(2)
proof (cases rule: sx_tick_cases)
  case quiet
  then show ?thesis using assms(1) by (auto simp: sx_live_def in_flight_def slots_at_def word_less_nat_alt)
next
  case (tried c r1)
  from tried(1) show ?thesis
  proof (cases rule: sx_startTransmit_cases)
    case none
    then show ?thesis using tried by (simp add: sx_live_def)
  next
    case (held ok a)
    then show ?thesis using tried by (simp add: sx_live_def)
  next
    case (sent frame a d)
    then show ?thesis using tried deadline_no_wrap [OF assms(3), of a] by (simp add: sx_live_def in_flight_def slots_at_def)
  qed
qed

lemma sx_drive_live:
  "sx_live lg r \<Longrightarrow> drive (sx_step L sink) es (r, w) = (air, r', w') \<Longrightarrow> \<forall>n \<in> set (event_times sx_time es). n < 2 ^ 63
     \<Longrightarrow> sx_live (lg @ air) r'"
proof (induction es arbitrary: lg r w air)
  case (Cons e es)
  obtain air1 r1 w1 where s: "sx_step L sink e (r, w) = (air1, r1, w1)" by (metis prod.collapse)
  obtain air2 where d: "drive (sx_step L sink) es (r1, w1) = (air2, r', w')" "air = air1 @ air2"
    using Cons.prems(2) s by (auto split: prod.splits)
  have "sx_live (lg @ air1) r1"
  proof (cases e)
    case (Sx_Send frame priority)
    then show ?thesis using s Cons.prems(1) by (auto simp: sx_send_def sx_live_def Let_def split: prod.splits)
  next
    case (Sx_Tick now)
    then have "unat now < 2 ^ 63" using Cons.prems(3) by (simp add: event_times_def List.map_filter_def)
    then show ?thesis using s Sx_Tick sx_tick_live [OF Cons.prems(1)] by (auto split: prod.splits)
  qed
  moreover have "\<forall>n \<in> set (event_times sx_time es). n < 2 ^ 63"
    using Cons.prems(3) by (cases e) (auto simp: event_times_def List.map_filter_def)
  ultimately show ?case using Cons.IH [OF _ d(1), of "lg @ air1"] d(2) by simp
qed simp

lemma sx_open_new:
  "sx_open L c r = (True, r') \<Longrightarrow> sx_device r' \<noteq> None \<and> sx_transmitting r' = sx_transmitting r \<and> sx_duty r' = sx_duty r
     \<and> sx_params r' = sx_params r"
  by (auto simp: sx_open_def Let_def split: prod.splits if_splits)

text \<open>A chip that answers every call well, for the concrete cases.\<close>

definition willing_chip :: "unit RadioLib" where
  "willing_chip =
     \<lparr>lib_begin = (\<lambda>_ _ c. (0, c)), lib_setDio2AsRfSwitch = (\<lambda>_ c. (0, c)), lib_setRfSwitchPins = (\<lambda>_ _ c. c),
      lib_setCurrentLimit = (\<lambda>_ c. (0, c)), lib_startReceive = (\<lambda>c. (0, c)),
      lib_checkIrq = (\<lambda>i c. (if i = TX_DONE then 0 else 1, c)), lib_getPacketLength = (\<lambda>c. (2, c)),
      lib_readData = (\<lambda>n c. (0, replicate n 7, c)), lib_getRSSI = (\<lambda>c. (- 70, c)), lib_getSNR = (\<lambda>c. (5, c)),
      lib_startTransmit = (\<lambda>_ c. (0, c)), lib_finishTransmit = (\<lambda>c. c)\<rparr>"

lemma willing_chip_opens:
  "sx_open willing_chip () (sx_new options params) = (True, (sx_new options params)\<lparr>sx_device := Some ()\<rparr>)"
  by (simp add: sx_open_def willing_chip_def startListening_def sx_new_def)

text \<open>
  C2. The driver of the chip keeps to its account: after a successful opening, with a limit below 100 percent and a clock that does
  not run back, whatever the chip answers, whatever frames the node hands in and whatever the sink sends from within a tick, the
  transmissions the library reported as started within any window of the configured length, each counted with the airtime the driver
  computes for it, together stay within the configured percentage of the window. (The account leaves out a transmission that the
  library reported as failed after the chip had the order, and at spreading factors 5 and 6 the airtime computed is too short.)
\<close>

theorem chip_duty_cycle_never_exceeded:
  assumes "sx_open L c (sx_new options params) = (True, r0)"
    and "drive (sx_step L sink) es (r0, w0) = (air, r, w)"
    and "unat (dutyCyclePercent params) < 100" and "unat (dutyWindowMs params) * 100000 < 2 ^ 63"
    and "sorted (event_times sx_time es)" and "\<forall>n \<in> set (event_times sx_time es). n < 2 ^ 63"
  shows "airtime_in_window (unat (dutyWindowMs params)) t air
           \<le> unat (dutyWindowMs params) * 1000 * unat (dutyCyclePercent params) div 100"
  using chip.window_kept [OF assms(2) _ assms(3-6)] sx_open_new [OF assms(1)] by (simp add: sx_new_def)

theorem chip_duty_cycle_never_exceeded_witness:
  "airtime_in_window 3600000 5 (fst (drive (sx_step willing_chip (Some (\<lambda>f m w. ([(f, LOW)], w)))) [Sx_Send [1] HIGH, Sx_Tick 5]
     ((sx_new sx1262_options_default params_default)\<lparr>sx_device := Some ()\<rparr>, ()))) \<le> 360000000"
proof -
  obtain air r w where "drive (sx_step willing_chip (Some (\<lambda>f m w. ([(f, LOW)], w)))) [Sx_Send [1] HIGH, Sx_Tick 5]
     ((sx_new sx1262_options_default params_default)\<lparr>sx_device := Some ()\<rparr>, ()) = (air, r, w)" by (metis prod.collapse)
  then show ?thesis
    using chip_duty_cycle_never_exceeded [OF willing_chip_opens _, of _ "[Sx_Send [1] HIGH, Sx_Tick 5]" _ params_default _ air r w 5]
    by (simp add: params_default_def event_times_def List.map_filter_def)
qed

text \<open>
  C30. The chip cannot take the node off the air: in every run after a successful opening the driver still holds its chip, and
  if it is waiting for a transmission to end, then the frame it waits for is the last one it started, and that is no
  longer ago than the airtime of that frame and half a second, whether or not the chip ever reports it finished.
\<close>

theorem chip_transmission_bounded:
  assumes "sx_open L c (sx_new options params) = (True, r0)"
    and "drive (sx_step L sink) es (r0, w0) = (air, r, w)"
    and "\<forall>n \<in> set (event_times sx_time es). n < 2 ^ 63"
  shows "sx_device r \<noteq> None \<and> (sx_transmitting r \<longrightarrow> air \<noteq> []
    \<and> unat (sx_now r) < unat (slot_at (last air)) + unat (slot_airtimeUs (last air)) div 1000 + 500)"
proof -
  have "sx_live [] r0" using sx_open_new [OF assms(1)] by (simp add: sx_live_def sx_new_def)
  from sx_drive_live [OF this assms(2,3)] show ?thesis by (simp add: sx_live_def in_flight_def)
qed

theorem chip_transmission_bounded_witness:
  "sx_device (fst (snd (drive (sx_step willing_chip (None :: unit RxSink option)) [Sx_Send [1] HIGH, Sx_Tick 5, Sx_Tick 9]
     ((sx_new sx1262_options_default params_default)\<lparr>sx_device := Some ()\<rparr>, ())))) \<noteq> None"
proof -
  obtain air r w where "drive (sx_step willing_chip (None :: unit RxSink option)) [Sx_Send [1] HIGH, Sx_Tick 5, Sx_Tick 9]
     ((sx_new sx1262_options_default params_default)\<lparr>sx_device := Some ()\<rparr>, ()) = (air, r, w)" by (metis prod.collapse)
  then show ?thesis
    using chip_transmission_bounded [OF willing_chip_opens, of None "[Sx_Send [1] HIGH, Sx_Tick 5, Sx_Tick 9]" _ params_default _ air r w]
    by (simp add: event_times_def List.map_filter_def)
qed

text \<open>The same limit for the datagram radio.\<close>

theorem udp_duty_cycle_never_exceeded:
  assumes "udp_open inet_pton made bound joined (udp_new options params selfId) = (True, r0)"
    and "drive (udp_step sink) es (r0, w0) = (air, r, w)"
    and "unat (dutyCyclePercent params) < 100" and "unat (dutyWindowMs params) * 100000 < 2 ^ 63"
    and "sorted (event_times udp_time es)" and "\<forall>n \<in> set (event_times udp_time es). n < 2 ^ 63"
  shows "airtime_in_window (unat (dutyWindowMs params)) t air
           \<le> unat (dutyWindowMs params) * 1000 * unat (dutyCyclePercent params) div 100"
proof -
  have "udp_duty r0 = duty_new (dutyCyclePercent params) (dutyWindowMs params)"
    using assms(1) by (auto simp: udp_open_def udp_new_def Let_def split: if_splits option.splits prod.splits)
  then show ?thesis using udp.window_kept [OF assms(2) _ assms(3-6)] by simp
qed

text \<open>
  A frame crosses the datagram radio unchanged: what one node transmits reaches the sink of a node with another sender
  id as the very same bytes, once, and is ignored by the node that sent it.
\<close>

theorem udp_frame_crosses:
  assumes "length (udp_selfId a) = kSenderIdSize" "length (udp_selfId b) = kSenderIdSize" "udp_selfId a \<noteq> udp_selfId b"
    and "frame \<noteq> []" "length frame \<le> MAX_PACKET_FRAME" and "(endpoint, datagram) \<in> set (udp_transmit frame a)"
  shows "drainSocket (Some sink) [datagram] a w = (a, w)
    \<and> drainSocket (Some sink) [datagram] b w =
        (let (sends, w') = sink frame \<lparr>rssi = - 60, snr = 8, meta_at = udp_now b,
               meta_airtimeUs = udp_airtimeUs b (length frame)\<rparr> w
         in (b\<lparr>udp_queue := feed sends (udp_queue b)\<rparr>, w'))"
proof -
  have "datagram = udp_selfId a @ frame" using assms(6) by (auto simp: udp_transmit_def)
  then have "take kDatagramMax datagram = datagram" "take kSenderIdSize datagram = udp_selfId a"
    "drop kSenderIdSize datagram = frame" "\<not> length datagram \<le> kSenderIdSize"
    using assms(1,4,5) by simp_all
  then show ?thesis using assms(3) by (simp add: Let_def split: prod.split)
qed

theorem udp_frame_crosses_witness:
  "\<exists>a b. udp_transmit [5, 6] a = [(\<lparr>ep_address = 1, ep_port = 2\<rparr>, replicate 8 1 @ [5, 6])]
     \<and> snd (drainSocket (Some (\<lambda>frame m w. ([], w @ [frame]))) [replicate 8 1 @ [5, 6]] b []) = [[5, 6]]"
proof -
  let ?o = "\<lparr>bindAddress = [], listenPort = 0, peers = [], multicastGroup = [], multicastPort = 0\<rparr>"
  let ?e = "\<lparr>ep_address = 1, ep_port = 2\<rparr>"
  let ?a = "(udp_new ?o params_default (replicate 8 1))\<lparr>udp_destinations := [?e]\<rparr>"
  let ?b = "udp_new ?o params_default (replicate 8 2)"
  have a: "udp_transmit [5, 6] ?a = [(?e, replicate 8 1 @ [5, 6])]" by (simp add: udp_transmit_def udp_new_def)
  have "drainSocket (Some (\<lambda>frame m w. ([], w @ [frame]))) [replicate 8 1 @ [5, 6]] ?b [] = (?b\<lparr>udp_queue := feed [] (udp_queue ?b)\<rparr>, [[5, 6]])"
    using udp_frame_crosses [of ?a ?b "[5, 6]" ?e "replicate 8 1 @ [5, 6]"] a by (simp add: udp_new_def)
  then show ?thesis using a by (intro exI [of _ ?a] exI [of _ ?b]) simp
qed

end
