(* ===== verification/Mesh_Node.thy ===== *)
theory Mesh_Node
  imports Chip_Radio Room_Runs Room_Storage
begin

text \<open>
  \<^verbatim>\<open>src/src/main.cpp\<close>, the composition root: the adapters between the modules, what an admin command reaches of the
  host, the node's own advert, reading the configuration into each module's settings, and the loop. Which radio a node is
  built with is settled when it is compiled: a \<open>Device\<close> is a record of what the loop calls, and both drivers of
  \<open>Chip_Radio\<close> are one. Log lines are left out; floating point (the position of the node) is a parameter. The wall clock,
  which the source reads at several points of a turn, has one value per turn.
\<close>

unbundle bit_operations_syntax

section \<open>What a command reaches of the host\<close>

text \<open>
  \<open>os\<close> is the operating system's answers, by how often it was asked: how far a file write gets, whether the clock may be
  set. The files are part of the host; \<open>thrown\<close> is set when an exception leaves a handler, which ends the process.
\<close>

record os =
  os_write :: "nat \<Rightarrow> write_outcome"
  os_mayStep :: "nat \<Rightarrow> bool"

record HostAdmin =
  ha_name :: bytes
  ha_overlay :: Overlay
  ha_startedAt :: Millis
  ha_now :: Millis
  ha_rebootAt :: Millis
  ha_advertWanted :: bool
  ha_files :: file_system
  ha_asked :: nat
  ha_thrown :: bool

abbreviation (input) kRebootDelay :: Millis where "kRebootDelay \<equiv> 3000"

definition hostadmin_new :: "bytes \<Rightarrow> Overlay \<Rightarrow> Millis \<Rightarrow> file_system \<Rightarrow> nat \<Rightarrow> HostAdmin" where
  "hostadmin_new name ov startedAt fs asked =
     \<lparr>ha_name = name, ha_overlay = ov, ha_startedAt = startedAt, ha_now = 0, ha_rebootAt = 0, ha_advertWanted = False,
      ha_files = fs, ha_asked = asked, ha_thrown = False\<rparr>"

definition ha_sendAdvert :: "HostAdmin \<Rightarrow> HostAdmin" where
  "ha_sendAdvert h = h\<lparr>ha_advertWanted := True\<rparr>"

definition ha_setClock :: "os \<Rightarrow> u32 \<Rightarrow> HostAdmin \<Rightarrow> bool option \<times> HostAdmin" where
  "ha_setClock os unixSeconds h = (Some (setWall (os_mayStep os (ha_asked h)) unixSeconds), h\<lparr>ha_asked := ha_asked h + 1\<rparr>)"

definition ha_saveSetting :: "os \<Rightarrow> string \<Rightarrow> bytes \<Rightarrow> HostAdmin \<Rightarrow> bool option \<times> HostAdmin" where
  "ha_saveSetting os key v h =
     (let (r, ov, fs) = overlay_set (os_write os (ha_asked h)) key v (ha_overlay h) (ha_files h);
          h = h\<lparr>ha_overlay := ov, ha_files := fs, ha_asked := ha_asked h + 1\<rparr> in
      case r of Inl _ \<Rightarrow> (None, h\<lparr>ha_thrown := True\<rparr>) | Inr ok \<Rightarrow> (Some ok, h))"

definition ha_setNodeName :: "os \<Rightarrow> bytes \<Rightarrow> HostAdmin \<Rightarrow> bool option \<times> HostAdmin" where
  "ha_setNodeName os name h =
     (let (ok, h) = ha_saveSetting os ''node.name'' name h in
      if ok \<noteq> Some True then (ok, h) else (Some True, h\<lparr>ha_name := name\<rparr>))"

definition ha_requestReboot :: "HostAdmin \<Rightarrow> HostAdmin" where
  "ha_requestReboot h = h\<lparr>ha_rebootAt := ha_now h + kRebootDelay\<rparr>"

definition ha_uptime :: "HostAdmin \<Rightarrow> u32" where
  "ha_uptime h = ucast ((ha_now h - ha_startedAt h) div 1000)"

definition ha_tick :: "Millis \<Rightarrow> HostAdmin \<Rightarrow> HostAdmin" where
  "ha_tick now h = h\<lparr>ha_now := now\<rparr>"

definition takeAdvertRequest :: "HostAdmin \<Rightarrow> bool \<times> HostAdmin" where
  "takeAdvertRequest h = (ha_advertWanted h, h\<lparr>ha_advertWanted := False\<rparr>)"

definition rebootDue :: "HostAdmin \<Rightarrow> bool" where
  "rebootDue h \<longleftrightarrow> ha_rebootAt h \<noteq> 0 \<and> ha_now h \<ge> ha_rebootAt h"

definition host_admin :: "os \<Rightarrow> HostAdmin Admin" where
  "host_admin os =
     \<lparr>admin_sendAdvert = ha_sendAdvert, admin_setClock = ha_setClock os, admin_nodeName = ha_name,
      admin_setNodeName = ha_setNodeName os, admin_saveSetting = ha_saveSetting os,
      admin_requestReboot = ha_requestReboot, admin_uptime = ha_uptime\<rparr>"

section \<open>The advert\<close>

record Location =
  loc_known :: bool
  loc_latitude :: u32
  loc_longitude :: u32

text \<open>
  \<open>degrees\<close> is \<^verbatim>\<open>strtod\<close> (no number at all reads as zero, \<open>None\<close> is not-a-number) and \<open>micro\<close> is
  \<^verbatim>\<open>llround(x * 1e6)\<close> cut to 32 bits.
\<close>

definition locationFrom :: "(bytes \<Rightarrow> rat option) \<Rightarrow> (rat option \<Rightarrow> u32) \<Rightarrow> Config \<Rightarrow> Location" where
  "locationFrom degrees micro config =
     (let nowhere = \<lparr>loc_known = False, loc_latitude = 0, loc_longitude = 0\<rparr> in
      if \<not> config_has ''node.lat'' config \<and> \<not> config_has ''node.lon'' config then nowhere else
      if \<not> config_has ''node.lat'' config \<or> \<not> config_has ''node.lon'' config then nowhere else
      let latitude = degrees (cstr (config_get ''node.lat'' [] config));
          longitude = degrees (cstr (config_get ''node.lon'' [] config));
          outside = (\<lambda>x limit. case x of None \<Rightarrow> False | Some d \<Rightarrow> d < - limit \<or> d > limit) in
      if outside latitude 90 \<or> outside longitude 180 then nowhere
      else \<lparr>loc_known = True, loc_latitude = micro latitude, loc_longitude = micro longitude\<rparr>)"

definition appendInt32 :: "bytes \<Rightarrow> u32 \<Rightarrow> bytes" where
  "appendInt32 out bits = out @ [ucast bits, ucast (drop_bit 8 bits), ucast (drop_bit 16 bits), ucast (drop_bit 24 bits)]"

definition advert_appdata :: "bytes \<Rightarrow> NodeType \<Rightarrow> Location \<Rightarrow> bytes" where
  "advert_appdata name type location =
     (let flags = type;
          flags = (if loc_known location then flags OR 0x10 else flags);
          flags = (if name \<noteq> [] then flags OR 0x80 else flags);
          appdata = [flags];
          appdata = (if loc_known location
                     then appendInt32 (appendInt32 appdata (loc_latitude location)) (loc_longitude location) else appdata)
      in appdata @ name)"

definition buildAdvertPayload :: "sodium \<Rightarrow> Store \<Rightarrow> u32 \<Rightarrow> bytes \<Rightarrow> NodeType \<Rightarrow> Location \<Rightarrow> bytes" where
  "buildAdvertPayload S store timestamp name type location =
     (let advert = \<lparr>adv_publicKey = kp_pk (store_self store), adv_timestamp = timestamp, adv_signature = replicate 64 0,
                    adv_appdata = advert_appdata name type location\<rparr> in
      case encodeAdvert advert MAX_PACKET_PAYLOAD of None \<Rightarrow> []
      | Some pl \<Rightarrow>
        let frame = [push_bit 2 (payloadType_code ADVERT) OR routeType_code FLOOD, 0] @ pl;
            signature = packetSign S (kp_sk (store_self store)) frame
        in memcpy pl (PACKET_PUBLIC_KEY_SIZE + PACKET_TIMESTAMP_SIZE) signature)"

section \<open>Receiving\<close>

fun translate :: "Priority \<Rightarrow> Priority" where
  "translate HIGH = HIGH"
| "translate LOW = LOW"
| "translate NORMAL = NORMAL"

text \<open>
  The receiver, with the world behind it. The bus it publishes to is the node's own, which the router and the room see
  only when telemetry is on; otherwise it is \<open>rv_spareBus\<close>.
\<close>

record Receiver =
  rv_world :: "HostAdmin Room world"
  rv_spareBus :: Bus
  rv_echoed :: bool

definition rv_publish :: "EventType \<Rightarrow> u32 \<Rightarrow> Receiver \<Rightarrow> Receiver" where
  "rv_publish type seconds v =
     (case rt_bus (rv_world v) of
        Some b \<Rightarrow> v\<lparr>rv_world := (rv_world v)\<lparr>rt_bus := Some (publish type seconds 0 b)\<rparr>\<rparr>
      | None \<Rightarrow> v\<lparr>rv_spareBus := publish type seconds 0 (rv_spareBus v)\<rparr>)"

definition rememberIfAdvert :: "sodium \<Rightarrow> u32 \<Rightarrow> bytes \<Rightarrow> RxMeta \<Rightarrow> Receiver \<Rightarrow> Receiver" where
  "rememberIfAdvert S wall frame meta v =
     (case parse frame of None \<Rightarrow> v
      | Some parsed \<Rightarrow>
        if payloadType parsed \<noteq> ADVERT then v else
        if \<not> packetVerify S frame then v else
        (case decodeAdvert (payloadView parsed) of None \<Rightarrow> v
         | Some advert \<Rightarrow>
           let store = rt_store (rv_world v); seconds = ucast (meta_at meta div 1000) in
           if adv_publicKey advert = kp_pk (store_self store)
           then (rv_publish AdvertEchoed seconds v)\<lparr>rv_echoed := True\<rparr> else
           let (update, store) = remember advert store;
               v = v\<lparr>rv_world := (rv_world v)\<lparr>rt_store := store\<rparr>\<rparr>;
               v = (if update = ADDED then rv_publish ContactAdded seconds v else v)
           in v\<lparr>rv_world := (rv_world v)\<lparr>rt_store :=
                noteHeard (adv_publicKey advert) wall (of_int (snr meta)) (hopCount parsed) (rt_store (rv_world v))\<rparr>\<rparr>))"

text \<open>The settings that do not change while a node runs.\<close>

record node_setup =
  ns_sodium :: sodium
  ns_random :: random_source
  ns_os :: os
  ns_routing :: Router_Config
  ns_claimedType :: NodeType
  ns_location :: Location
  ns_flushEvery :: Millis
  ns_advertEvery :: Millis
  ns_reportEvery :: Millis
  ns_telemetryOn :: bool

abbreviation surroundings_of :: "node_setup \<Rightarrow> HostAdmin Surroundings" where
  "surroundings_of N \<equiv> node_surroundings (ns_sodium N) (ns_random N) (ns_routing N) (Some (host_admin (ns_os N)))"

text \<open>What the router handed out goes to the radio through the link, and to nobody else.\<close>

definition take_air :: "HostAdmin Room world \<Rightarrow> (bytes \<times> Priority) list \<times> HostAdmin Room world" where
  "take_air w = (map (apsnd translate) (rt_air w), w\<lparr>rt_air := []\<rparr>)"

text \<open>
  Nothing is received any more once an exception has left a handler: it is caught nowhere and ends the process, so the radio
  hands up no further frame, and the turn stops behind the radio's tick (\<open>radio_turn\<close>, \<open>node_turn\<close>).
\<close>

definition receiver_onFrame :: "node_setup \<Rightarrow> u32 \<Rightarrow> Receiver RxSink" where
  "receiver_onFrame N wall frame meta v =
     (if ha_thrown (host (room_of (rv_world v))) then ([], v) else
      let v = rememberIfAdvert (ns_sodium N) wall frame meta v;
          rx = \<lparr>rx_airtime = ucast (meta_airtimeUs meta div 1000), rx_snr = snr meta\<rparr>;
          w = onFrame (ns_sodium N) (ns_random N) (ns_routing N) (room_delegate (surroundings_of N)) frame rx (rv_world v);
          (sends, w) = take_air w
      in (sends, v\<lparr>rv_world := w\<rparr>))"

section \<open>Reading the configuration\<close>

text \<open>
  \<^verbatim>\<open>sscanf\<close> with \<^verbatim>\<open>%x\<close>, limited to \<open>width\<close> characters if there is one: white space, a sign, \<^verbatim>\<open>0x\<close>, digits. The number is
  cut to an unsigned int.
\<close>

definition hex_value :: "byte \<Rightarrow> nat option" where
  "hex_value b =
     (if 48 \<le> b \<and> b \<le> 57 then Some (unat (b - 48))
      else if 97 \<le> b \<and> b \<le> 102 then Some (unat (b - 87))
      else if 65 \<le> b \<and> b \<le> 70 then Some (unat (b - 55)) else None)"

definition scan_hex :: "nat option \<Rightarrow> bytes \<Rightarrow> u32 option" where
  "scan_hex width s =
     (let s = dropWhile is_space s; s = (case width of None \<Rightarrow> s | Some n \<Rightarrow> take n s);
          neg = (s \<noteq> [] \<and> hd s = 45);
          s = (if s \<noteq> [] \<and> (hd s = 45 \<or> hd s = 43) then tl s else s);
          s = (if length s \<ge> 2 \<and> s ! 0 = 48 \<and> (s ! 1 = 120 \<or> s ! 1 = 88) then drop 2 s else s);
          ds = takeWhile (\<lambda>b. hex_value b \<noteq> None) s;
          v = foldl (\<lambda>v d. v * 16 + the (hex_value d)) 0 ds;
          number = (if v \<ge> 2 ^ 64 then - 1 else if neg then - of_nat v else of_nat v :: u64)
      in if ds = [] then None else Some (ucast number))"

abbreviation (input) PACKET_SHARED_SECRET_SIZE :: nat where "PACKET_SHARED_SECRET_SIZE \<equiv> 32"
abbreviation (input) MAX_CHANNELS :: nat where "MAX_CHANNELS \<equiv> 4"
abbreviation (input) MAX_CHANNEL_NAME :: nat where "MAX_CHANNEL_NAME \<equiv> 32"

text \<open>The key of a channel, byte by byte until one cannot be read.\<close>

definition channel_key :: "bytes \<Rightarrow> bytes option" where
  "channel_key hex =
     those (map (\<lambda>i. map_option ucast (scan_hex (Some 2) (cstr (drop (i * 2) hex)))) [0..<PACKET_SHARED_SECRET_SIZE])"

definition channel_entry :: "sodium \<Rightarrow> bytes \<Rightarrow> Channel option" where
  "channel_entry S entry =
     (let name = takeWhile (\<lambda>b. b \<noteq> 58) entry; hex = drop (length name + 1) entry in
      if 58 \<notin> set entry then None else
      if name = [] \<or> length name > MAX_CHANNEL_NAME \<or> length hex \<noteq> PACKET_SHARED_SECRET_SIZE * 2 then None else
      case channel_key hex of None \<Rightarrow> None
      | Some secret \<Rightarrow> Some \<lparr>ch_name = name, ch_secret = secret, ch_hash = channelHashOf S secret\<rparr>)"

fun channels_loop :: "sodium \<Rightarrow> bytes list \<Rightarrow> Channel list \<Rightarrow> Channel list" where
  "channels_loop S [] found = found"
| "channels_loop S (entry # rest) found =
     (case channel_entry S entry of None \<Rightarrow> channels_loop S rest found
      | Some channel \<Rightarrow>
        if length found \<ge> MAX_CHANNELS then found else channels_loop S rest (found @ [channel]))"

definition channelsFrom :: "sodium \<Rightarrow> bytes list \<Rightarrow> Channel list" where
  "channelsFrom S items = channels_loop S items []"

definition nodeTypeFromName :: "bytes \<Rightarrow> Room_NodeType" where
  "nodeTypeFromName name =
     (if name = ascii ''room'' then ROOM
      else if name = ascii ''repeater'' then REPEATER_ONLY
      else if name = ascii ''room-repeater'' then ROOM_REPEATER
      else ROOM)"

fun nameOf_room :: "Room_NodeType \<Rightarrow> string" where
  "nameOf_room REPEATER_ONLY = ''repeater''"
| "nameOf_room ROOM_REPEATER = ''room-repeater''"
| "nameOf_room ROOM = ''room''"

definition nameOf_claim :: "NodeType \<Rightarrow> string" where
  "nameOf_claim type =
     (if type = CHAT then ''chat node'' else if type = REPEATER then ''repeater''
      else if type = ROOM_SERVER then ''room server'' else if type = SENSOR then ''sensor''
      else ''node of no stated type'')"

definition advertisedAs :: "Room_NodeType \<Rightarrow> NodeType" where
  "advertisedAs type = (if keepsBoard type then ROOM_SERVER else REPEATER)"

definition blockedFrom :: "bytes list \<Rightarrow> bytes" where
  "blockedFrom items =
     List.map_filter (\<lambda>entry. case scan_hex None (cstr entry) of None \<Rightarrow> None
       | Some v \<Rightarrow> if v > 0xFF then None else Some (ucast v)) items"

definition levelFromName :: "bytes \<Rightarrow> LogLevel" where
  "levelFromName name =
     (if name = ascii ''error'' then ERROR else if name = ascii ''warn'' then WARN
      else if name = ascii ''debug'' then DEBUG else INFO)"

definition radio_params_from :: "Config \<Rightarrow> Params" where
  "radio_params_from config = params_default
     \<lparr>frequencyHz := of_int (config_getInt ''radio.frequency'' (uint (frequencyHz params_default)) config),
      spreadingFactor := of_int (config_getInt ''radio.spreading_factor'' (uint (spreadingFactor params_default)) config),
      bandwidthHz := of_int (config_getInt ''radio.bandwidth'' (uint (bandwidthHz params_default)) config),
      codingRate := of_int (config_getInt ''radio.coding_rate'' (uint (codingRate params_default)) config),
      dutyCyclePercent := of_int (config_getInt ''radio.duty_cycle'' (uint (dutyCyclePercent params_default)) config)\<rparr>"

definition int32_of :: "int \<Rightarrow> int" where
  "int32_of i = sint (of_int i :: u32)"

definition chip_options_from :: "Config \<Rightarrow> Sx1262Options" where
  "chip_options_from config =
     (let d = sx1262_options_default; num = (\<lambda>key fallback. config_getInt key fallback config) in
      \<lparr>spiBus = of_int (num ''radio.spi_bus'' (uint (spiBus d))),
       spiChipSelect = of_int (num ''radio.spi_cs'' (uint (spiChipSelect d))),
       spiSpeedHz = of_int (num ''radio.spi_speed'' (uint (spiSpeedHz d))),
       gpioChip = of_int (num ''radio.gpio_chip'' (uint (gpioChip d))),
       pinNss = int32_of (num ''radio.pin_nss'' (pinNss d)), pinBusy = int32_of (num ''radio.pin_busy'' (pinBusy d)),
       pinReset = int32_of (num ''radio.pin_reset'' (pinReset d)), pinDio1 = int32_of (num ''radio.pin_dio1'' (pinDio1 d)),
       pinRxEnable = int32_of (num ''radio.pin_rx_enable'' (pinRxEnable d)),
       pinTxEnable = int32_of (num ''radio.pin_tx_enable'' (pinTxEnable d)),
       dio2AsRfSwitch = config_getBool ''radio.dio2_rf_switch'' (dio2AsRfSwitch d) config,
       tcxoMillivolts = num ''radio.tcxo_millivolts'' 0,
       useRegulatorLdo = config_getBool ''radio.regulator_ldo'' (useRegulatorLdo d) config,
       txPowerDbm = sint (of_int (num ''radio.tx_power'' (txPowerDbm d)) :: byte),
       currentLimitMa = num ''radio.current_limit_ma'' (currentLimitMa d)\<rparr>)"

definition udp_options_from :: "Config \<Rightarrow> UdpOptions" where
  "udp_options_from config =
     \<lparr>bindAddress = config_get ''radio.udp_bind'' (ascii ''127.0.0.1'') config,
      listenPort = of_int (config_getInt ''radio.udp_port'' 0 config),
      peers = config_getList ''radio.udp_peers'' config,
      multicastGroup = config_get ''radio.udp_group'' [] config,
      multicastPort = of_int (config_getInt ''radio.udp_group_port'' 4242 config)\<rparr>"

text \<open>A \<^verbatim>\<open>long\<close> read as \<^verbatim>\<open>size_t\<close>.\<close>

definition size_of_long :: "int \<Rightarrow> nat" where
  "size_of_long i = unat (of_int i :: u64)"

definition routing_config_from :: "Config \<Rightarrow> Router_Config" where
  "routing_config_from config =
     (let d = router_config_default in d
      \<lparr>forwardAirtimeFactor := of_int (config_getInt ''routing.forward_airtime_factor'' (uint (forwardAirtimeFactor d)) config),
       forwardJitter := of_int (config_getInt ''routing.forward_jitter'' (uint (forwardJitter d)) config),
       maxRoutes := size_of_long (config_getInt ''routing.max_routes'' (int (maxRoutes d)) config),
       seenSlots := size_of_long (config_getInt ''routing.seen_slots'' (int (seenSlots d)) config),
       seenTtl := of_int (config_getInt ''routing.seen_ttl_ms'' (uint (seenTtl d)) config)\<rparr>)"

definition forwarder_from :: "Room_NodeType \<Rightarrow> Config \<Rightarrow> Policy option" where
  "forwarder_from type config =
     (if \<not> repeats type then None else
      let d = repeater_config_default in
      Some (policy_new
        \<lparr>rc_enabled = config_getBool ''repeater.enabled'' (rc_enabled d) config,
         rc_maxHops = of_int (config_getInt ''repeater.max_hops'' (uint (rc_maxHops d)) config),
         rc_floodPerMinute = of_int (config_getInt ''repeater.flood_per_minute'' (uint (rc_floodPerMinute d)) config),
         rc_dutyCeilingPermille = of_int (config_getInt ''repeater.duty_ceiling'' (uint (rc_dutyCeilingPermille d)) config),
         rc_blocked = blockedFrom (config_getList ''repeater.blocked'' config)\<rparr>))"

definition room_config_from :: "sodium \<Rightarrow> Room_NodeType \<Rightarrow> Config \<Rightarrow> Room_Config" where
  "room_config_from S type config = room_config_default
     \<lparr>room_type := type,
      adminPassword := config_get ''room.admin_password'' [] config,
      guestPassword := config_get ''room.guest_password'' [] config,
      allowAnonymousRead := config_getBool ''room.anonymous_read'' False config,
      channels := (if keepsBoard type then channelsFrom S (config_getList ''room.channels'' config) else [])\<rparr>"

text \<open>
  The settings in force: the operator's file with the overlay laid over it. \<open>None\<close> is a node that refuses to start.
\<close>

definition effective_config :: "float_text \<Rightarrow> string \<Rightarrow> file_system \<Rightarrow> (string \<times> Overlay \<times> Config) option" where
  "effective_config F configPath fs =
     (let (ok, config) = loadFile F configPath fs config_new in
      if \<not> ok then None else
      let dataDir = map (\<lambda>b. char_of (unat b)) (config_get ''node.dir'' (ascii ''./data'') config);
          (ok, ov) = overlay_load F fs (overlay_new (dataDir @ ''/overrides.json'')) in
      if \<not> ok then None else Some (dataDir, ov, applyOverlay ov config))"

section \<open>Devices\<close>

text \<open>What the loop calls of a radio. The third argument of a tick is what the world offers it: datagrams, or nothing.\<close>

record ('i, 'r) Device =
  dev_send :: "bytes \<Rightarrow> Priority \<Rightarrow> 'r \<Rightarrow> bool \<times> 'r"
  dev_tick :: "Receiver RxSink \<Rightarrow> Millis \<Rightarrow> 'i \<Rightarrow> 'r \<Rightarrow> Receiver \<Rightarrow> 'r \<times> Receiver"
  queueDepthOf :: "'r \<Rightarrow> u32"
  usedPermilleOf :: "'r \<Rightarrow> u32 \<times> 'r"

definition udp_device :: "(bytes list, UdpRadio) Device" where
  "udp_device =
     \<lparr>dev_send = udp_send, dev_tick = (\<lambda>sink now inbox r v. snd (udp_tick (Some sink) now inbox r v)),
      queueDepthOf = (\<lambda>r. of_nat (length (entries (udp_queue r)))), usedPermilleOf = udp_usedPermille\<rparr>"

definition chip_device :: "'c RadioLib \<Rightarrow> (unit, 'c Sx1262Radio) Device" where
  "chip_device L =
     \<lparr>dev_send = sx_send, dev_tick = (\<lambda>sink now _ r v. snd (sx_tick L (Some sink) now r v)),
      queueDepthOf = (\<lambda>r. of_nat (length (entries (sx_queue r)))), usedPermilleOf = sx_usedPermille\<rparr>"

section \<open>The loop\<close>

record 'r node =
  nd_receiver :: Receiver
  nd_device :: 'r
  nd_counters :: Counters
  nd_nextFlush :: Millis
  nd_nextAdvert :: Millis
  nd_nextReport :: Millis

abbreviation (input) nd_world :: "'r node \<Rightarrow> HostAdmin Room world" where
  "nd_world n \<equiv> rv_world (nd_receiver n)"

definition on_world :: "(HostAdmin Room world \<Rightarrow> HostAdmin Room world) \<Rightarrow> 'r node \<Rightarrow> 'r node" where
  "on_world f n = n\<lparr>nd_receiver := (nd_receiver n)\<lparr>rv_world := f (nd_world n)\<rparr>\<rparr>"

definition on_host :: "(HostAdmin \<Rightarrow> HostAdmin) \<Rightarrow> 'r node \<Rightarrow> 'r node" where
  "on_host f n = on_world (on_room (\<lambda>r. r\<lparr>host := f (host r)\<rparr>)) n"

abbreviation (input) nd_host :: "'r node \<Rightarrow> HostAdmin" where
  "nd_host n \<equiv> host (room_of (nd_world n))"

definition link_enqueue :: "('i, 'r) Device \<Rightarrow> 'r node \<Rightarrow> 'r node" where
  "link_enqueue D n =
     (let (sends, w) = take_air (nd_world n); n = on_world (\<lambda>_. w) n
      in n\<lparr>nd_device := fold (\<lambda>(frame, priority) r. snd (dev_send D frame priority r)) sends (nd_device n)\<rparr>)"

definition flush_outcome :: "node_setup \<Rightarrow> HostAdmin \<Rightarrow> bool \<times> bool" where
  "flush_outcome N h =
     (let out = os_write (ns_os N) (ha_asked h) in (out = Rename_Fails \<or> out = Written, out \<noteq> Rename_Fails))"

definition flush_store :: "node_setup \<Rightarrow> 'r node \<Rightarrow> bool \<times> 'r node" where
  "flush_store N n =
     (let h = nd_host n; (written, renamed) = flush_outcome N h;
          (ok, fs) = flush written renamed (rt_store (nd_world n)) (ha_files h)
      in (ok, on_host (\<lambda>h. h\<lparr>ha_files := fs, ha_asked := ha_asked h + 1\<rparr>) n))"

definition flush_room :: "node_setup \<Rightarrow> 'r node \<Rightarrow> bool \<times> 'r node" where
  "flush_room N n =
     (let h = nd_host n; (written, renamed) = flush_outcome N h;
          (ok, fs) = room_flush written renamed (room_of (nd_world n)) (ha_files h)
      in (ok, on_host (\<lambda>h. h\<lparr>ha_files := fs, ha_asked := ha_asked h + 1\<rparr>) n))"

definition advert_turn :: "node_setup \<Rightarrow> ('i, 'r) Device \<Rightarrow> Millis \<Rightarrow> u32 \<Rightarrow> 'r node \<Rightarrow> 'r node" where
  "advert_turn N D now wall n =
     (let (wanted, n) = (if now \<ge> nd_nextAdvert n then (True, n)
            else let (w, h) = takeAdvertRequest (nd_host n) in (w, on_host (\<lambda>_. h) n)) in
      if \<not> wanted then n else
      let pl = buildAdvertPayload (ns_sodium N) (rt_store (nd_world n)) wall (ha_name (nd_host n)) (ns_claimedType N) (ns_location N);
          n = (if pl = [] then n else link_enqueue D (on_world (sendFlood (ns_sodium N) ADVERT pl) n))
      in n\<lparr>nd_nextAdvert := now + ns_advertEvery N\<rparr>)"

definition report_turn :: "node_setup \<Rightarrow> ('i, 'r) Device \<Rightarrow> Millis \<Rightarrow> 'r node \<Rightarrow> 'r node" where
  "report_turn N D now n =
     (if \<not> (ns_telemetryOn N \<and> now \<ge> nd_nextReport n) then n else
      case rt_bus (nd_world n) of None \<Rightarrow> n
      | Some b \<Rightarrow>
        let (c, b) = drain (nd_counters n) b; n = on_world (\<lambda>w. w\<lparr>rt_bus := Some b\<rparr>) n;
            (used, r) = usedPermilleOf D (nd_device n)
        in n\<lparr>nd_device := r, nd_counters := observe (queueDepthOf D (nd_device n)) used c, nd_nextReport := now + ns_reportEvery N\<rparr>)"

definition flush_turn :: "node_setup \<Rightarrow> Millis \<Rightarrow> 'r node \<Rightarrow> 'r node" where
  "flush_turn N now n =
     (if now \<ge> nd_nextFlush n
      then (snd (flush_room N (snd (flush_store N n))))\<lparr>nd_nextFlush := now + ns_flushEvery N\<rparr> else n)"

text \<open>Host, radio and router learn the time; \<open>None\<close> is a turn that never ends, which only the retry loop of the router could cause.\<close>

definition radio_turn :: "node_setup \<Rightarrow> ('i, 'r) Device \<Rightarrow> Millis \<Rightarrow> u32 \<Rightarrow> 'i \<Rightarrow> 'r node \<Rightarrow> 'r node option" where
  "radio_turn N D now wall input n =
     (let n = on_host (ha_tick now) n;
          (r, v) = dev_tick D (receiver_onFrame N wall) now input (nd_device n) (nd_receiver n);
          n = n\<lparr>nd_device := r, nd_receiver := v\<rparr> in
      if ha_thrown (nd_host n) then Some n else
      case router_tick (ns_routing N) (room_delegate (surroundings_of N)) now (nd_world n) of None \<Rightarrow> None
      | Some w \<Rightarrow> Some (link_enqueue D (on_world (\<lambda>_. w) n)))"

definition room_turn :: "node_setup \<Rightarrow> ('i, 'r) Device \<Rightarrow> Millis \<Rightarrow> u32 \<Rightarrow> 'r node \<Rightarrow> 'r node" where
  "room_turn N D now wall n =
     (let n = on_world (on_room (setServerTime wall)) n;
          (used, r) = usedPermilleOf D (nd_device n); n = n\<lparr>nd_device := r\<rparr>;
          n = on_world (on_room (setRadioLoad used)) n
      in link_enqueue D (on_world (room_tick (surroundings_of N) now) n))"

text \<open>One turn: whether the loop stops, for a reboot or because an exception ended the process, and the node.\<close>

definition node_turn ::
  "node_setup \<Rightarrow> ('i, 'r) Device \<Rightarrow> Millis \<Rightarrow> u32 \<Rightarrow> 'i \<Rightarrow> 'r node \<Rightarrow> (bool \<times> 'r node) option" where
  "node_turn N D now wall input n =
     (case radio_turn N D now wall input n of None \<Rightarrow> None
      | Some n \<Rightarrow>
        if ha_thrown (nd_host n) then Some (True, n) else
        let n = advert_turn N D now wall (room_turn N D now wall n) in
        if rebootDue (nd_host n) then Some (True, n)
        else Some (False, report_turn N D now (flush_turn N now n)))"

text \<open>What is left to do when the loop has stopped, and the exit status.\<close>

definition node_stop :: "node_setup \<Rightarrow> 'r node \<Rightarrow> nat \<times> 'r node" where
  "node_stop N n =
     (let (saved, n) = flush_store N n in
      if \<not> saved then (1, n) else let (saved, n) = flush_room N n in (if saved then 0 else 1, n))"

section \<open>Starting\<close>

text \<open>
  Everything before the loop, for a device the radio module opened. \<open>ready\<close> is the answer of the crypto backend;
  \<open>made\<close>, \<open>written\<close> and \<open>shut\<close> are those of the system while the identity is read or created.
\<close>

definition node_start ::
  "sodium \<Rightarrow> random_source \<Rightarrow> float_text \<Rightarrow> os \<Rightarrow> (bytes \<Rightarrow> rat option) \<Rightarrow> (rat option \<Rightarrow> u32) \<Rightarrow> bool \<Rightarrow> bool \<Rightarrow> bool \<Rightarrow> bool
     \<Rightarrow> (Config \<Rightarrow> Params \<Rightarrow> 'r option) \<Rightarrow> u32 \<Rightarrow> Millis \<Rightarrow> string \<Rightarrow> file_system \<Rightarrow> (node_setup \<times> 'r node) option" where
  "node_start S src F os degrees micro ready made written shut open_device wall startedAt configPath fs =
     (case effective_config F configPath fs of None \<Rightarrow> None
      | Some (dataDir, ov, config) \<Rightarrow>
        if \<not> ready then None else
        if \<not> wallLooksSynced wall then None else
        let (ok, store, fs, drawn) = loadOrCreate S src made written shut dataDir 0 fs store_new in
        if \<not> ok then None else
        let telemetryOn = config_getBool ''telemetry.enabled'' True config;
            bus = bus_new (if telemetryOn then size_of_long (config_getInt ''telemetry.queue'' 256 config) else 1) in
        (case open_device config (radio_params_from config) of None \<Rightarrow> None
        | Some device \<Rightarrow>
          let routing = routing_config_from config;
              type = nodeTypeFromName (config_get ''node.type'' (ascii ''room'') config);
              admin = hostadmin_new (config_get ''node.name'' (ascii ''room'') config) ov startedAt fs 0;
              (ok, room) = room_load made dataDir fs (room_new (room_config_from S type config) (forwarder_from type config) admin) in
          if \<not> ok then None else
          let world = (router_new routing store (if telemetryOn then Some bus else None) room)\<lparr>rt_drawn := drawn\<rparr> in
          Some
            (\<lparr>ns_sodium = S, ns_random = src, ns_os = os, ns_routing = routing, ns_claimedType = advertisedAs type,
              ns_location = locationFrom degrees micro config,
              ns_flushEvery = of_int (config_getInt ''node.flush_ms'' 60000 config),
              ns_advertEvery = of_int (config_getInt ''node.advert_ms'' 300000 config),
              ns_reportEvery = of_int (config_getInt ''telemetry.report_ms'' 60000 config), ns_telemetryOn = telemetryOn\<rparr>,
             \<lparr>nd_receiver = \<lparr>rv_world = world, rv_spareBus = bus, rv_echoed = False\<rparr>, nd_device = device,
              nd_counters = counters_init, nd_nextFlush = 0, nd_nextAdvert = 0, nd_nextReport = 0\<rparr>)))"

end
