(* ===== verification/Node_Runs.thy ===== *)
theory Node_Runs
  imports Mesh_Node Room_Delivery
begin

text \<open>
  The node over time. Whatever the router does with a frame or a tick is, for the room, a run of \<open>room_reach\<close>; a radio hands
  frames up one after the other (\<open>hearing_device\<close>, interpreted on both drivers); so every turn of the loop of
  \<^verbatim>\<open>main.cpp\<close> ends, the calls on the radio being functions here (\<open>Node_On_Chip\<close> does without that), and what holds along all runs of the room holds along all lives of a node.
\<close>

section \<open>A frame is a run of the room\<close>

lemma fetch_secret_delegate: "rt_delegate (snd (fetch_secret S pk w)) = rt_delegate w"
  by (simp add: fetch_secret_def split: prod.split)

lemma sendPathReturn_delegate: "rt_delegate (sendPathReturn S dest p w) = rt_delegate w"
proof -
  obtain r w1 where f: "fetch_secret S dest w = (r, w1)" by fastforce
  then have "rt_delegate w1 = rt_delegate w" using fetch_secret_delegate [of S dest w] by simp
  then show ?thesis using f by (auto simp: sendPathReturn_def Let_def split: option.split)
qed

lemma installRoute_delegate: "rt_delegate (installRoute config dest p w) = rt_delegate w"
  by (simp add: installRoute_def Let_def split: option.split)

lemma learnRouteFrom_delegate: "rt_delegate (learnRouteFrom S config p sender w) = rt_delegate w"
  by (simp add: learnRouteFrom_def Let_def sendPathReturn_delegate installRoute_delegate)

lemma sendAck_delegate: "rt_delegate (sendAck S dest v pl w) = rt_delegate w"
  by (simp add: sendAck_def)

lemmas router_silent = fetch_secret_delegate learnRouteFrom_delegate installRoute_delegate sendAck_delegate

lemma room_delegate_simps [simp]:
  "onPayload (room_delegate H) = room_onPayload H" "onAnon (room_delegate H) = room_onAnon H"
  "onGroup (room_delegate H) = room_onGroup H" "onTrace (room_delegate H) = (\<lambda>_ _ w. w)"
  "onAck (room_delegate H) = (\<lambda>sid. on_room (room_onAck sid))"
  "shouldAck (room_delegate H) = (\<lambda>type plain w. (room_shouldAck type plain, w))"
  "delegate_shouldForward (room_delegate H) = room_shouldForward"
  by (simp_all add: room_delegate_def)

lemma room_reach_trans: "room_reach H w1 w2 \<Longrightarrow> room_reach H w0 w1 \<Longrightarrow> room_reach H w0 w2"
  by (induction rule: room_reach.induct) (auto intro: room_reach.intros)

lemma room_reach_same: "rt_delegate w' = rt_delegate w \<Longrightarrow> room_reach H w w'"
  by (rule room_reach.router [OF room_reach.start])

lemma try_candidates_reach:
  "room_reach H w0 w \<Longrightarrow> room_reach H w0 (try_candidates S config (room_delegate H) p envelope cs w)"
proof (induction cs arbitrary: w)
  case (Cons c cs)
  obtain r w1 where f: "fetch_secret S (con_pk c) w = (r, w1)" by fastforce
  then have w1: "room_reach H w0 w1"
    using fetch_secret_delegate [of S "con_pk c" w] by (auto intro: room_reach.router [OF Cons.prems])
  then have "room_reach H w0 (rt_publish DecryptFailed 0 w1)" by (auto intro: room_reach.router)
  note next' = Cons.IH [OF w1] Cons.IH [OF this]
  let ?w2 = "if routeType p = FLOOD then learnRouteFrom S config p (con_pk c) w1 else w1"
  have w2: "room_reach H w0 ?w2" using w1 by (auto intro: room_reach.router simp: learnRouteFrom_delegate)
  have "room_reach H w0 (installRoute config (con_pk c) rp ?w2)" for rp
    using w2 by (rule room_reach.router) (simp add: installRoute_delegate)
  moreover have "room_reach H w0 (room_onPayload H c t plain ?w2)" for t plain using w2 by (rule room_reach.payload)
  moreover have "room_reach H w0 (sendAck S (con_pk c) v [] (room_onPayload H c t plain ?w2))" for v t plain
    using calculation(2) by (rule room_reach.router) (simp add: sendAck_delegate)
  ultimately show ?case using f w2 next' by (cases "routeType p = FLOOD") (simp_all add: Let_def split: option.split)
qed simp

lemma decodeAnonReq_key: "decodeAnonReq pl = Some a \<Longrightarrow> length (anon_publicKey a) = PACKET_PUBLIC_KEY_SIZE"
  by (auto simp: decodeAnonReq_def subspan_def split: if_splits)

lemma deliverAnon_reach: "room_reach H w (deliverAnon S config (room_delegate H) p pl w)"
proof (cases "decodeAnonReq pl")
  case (Some a)
  let ?pk = "anon_publicKey a"
  obtain r w1 where f: "fetch_secret S ?pk w = (r, w1)" by fastforce
  then have w1: "room_reach H w w1" using fetch_secret_delegate [of S ?pk w] by (auto intro: room_reach_same)
  let ?w2 = "if routeType p = FLOOD then installRoute config ?pk (reversePath (pathView p) MAX_PATH_SIZE) w1 else w1"
  have "room_reach H w ?w2" using w1 by (auto intro: room_reach.router simp: installRoute_delegate)
  then have "room_reach H w (room_onAnon H ?pk plain ?w2)" for plain
    by (rule room_reach.anon) (rule decodeAnonReq_key [OF Some])
  then show ?thesis using Some f w1
    by (cases "routeType p = FLOOD") (simp_all add: deliverAnon_def Let_def room_reach.start split: option.split)
qed (simp add: deliverAnon_def room_reach.start)

lemma dispatch_reach: "room_reach H w (dispatch S config (room_delegate H) p w)"
proof -
  have "room_reach H w (on_room (room_onAck sid) (w\<lparr>rt_pending := es\<rparr>))" for sid es
    by (intro room_reach.acked room_reach_same) simp
  then have "room_reach H w (handleAck (room_delegate H) pl w)" for pl
    by (simp add: handleAck_def Let_def room_reach.start split: option.split)
  moreover have "room_reach H w (deliverToSelf S config (room_delegate H) p pl w)" for pl
    by (auto simp: deliverToSelf_def Let_def split: option.split intro!: try_candidates_reach room_reach.start)
  moreover have "room_reach H w (room_onGroup H t pl w)" for t pl by (intro room_reach.group room_reach.start)
  ultimately show ?thesis
    by (auto simp: dispatch_def deliverAnon_reach intro: room_reach.start split: PayloadType.split option.split)
qed

lemma considerForwarding_reach: "room_reach H w (considerForwarding src config (room_delegate H) p meta w)"
proof -
  obtain ok w1 where s: "room_shouldForward p w = (ok, w1)" by fastforce
  then have w1: "room_reach H w w1" using room_reach.transit [OF room_reach.start, of H w p] by simp
  have j: "rt_delegate (snd (jitter src config x)) = rt_delegate x" for x :: "'a Room world"
    by (simp add: jitter_def Let_def split: prod.split)
  have "room_reach H w (queueFrame f t q (snd (jitter src config (rt_publish Forwarded 0 w1))))" for f t q
    using w1 by (rule room_reach.router) (simp add: j queueFrame_def)
  then show ?thesis using s w1
    by (auto simp: considerForwarding_def Let_def case_prod_beta split: option.split)
qed

lemma onFrame_reach: "room_reach H w (onFrame S src config (room_delegate H) frame meta w)"
proof (cases "parse frame")
  case (Some p)
  let ?w1 = "rt_publish FrameRx (of_nat (length frame)) w"
  let ?w2 = "rememberSeen S frame ?w1"
  have w12: "room_reach H w (rt_publish FrameDuplicate 0 ?w1)" "room_reach H w ?w2" by (auto intro!: room_reach_same simp: rememberSeen_def)
  have "room_reach H w (considerForwarding src config (room_delegate H) p meta (dispatch S config (room_delegate H) p ?w2))"
    by (rule room_reach_trans [OF considerForwarding_reach]) (rule room_reach_trans [OF dispatch_reach w12(2)])
  then show ?thesis using Some w12 by (simp add: onFrame_def Let_def)
qed (simp add: onFrame_def room_reach.start)

lemma failed_reach: "room_reach H w (on_room (\<lambda>r. fold room_onDeliveryFailed ids r) w)"
proof (induction ids arbitrary: w)
  case Nil
  show ?case by (rule room_reach_same) (simp add: on_room_def)
next
  case (Cons i ids)
  have "room_reach H w (on_room (\<lambda>r. fold room_onDeliveryFailed ids r) (on_room (room_onDeliveryFailed i) w))"
    by (rule room_reach_trans [OF Cons.IH]) (intro room_reach.failed room_reach.start)
  then show ?case by (simp add: on_room_def)
qed

lemma router_tick_reach:
  assumes "router_tick config (room_delegate H) now w = Some w'"
  shows "room_reach H w w'"
proof -
  let ?ids = "map pend_id (filter (\<lambda>e. overdue now e \<and> exhausted config e) (rt_pending w))"
  have "rt_delegate w' = fold room_onDeliveryFailed ?ids (rt_delegate w)"
    using room_clock.tick_spec [of config H now w] assms by auto
  then have "rt_delegate w' = rt_delegate (on_room (\<lambda>r. fold room_onDeliveryFailed ?ids r) w)" by (simp add: on_room_def)
  with failed_reach show ?thesis by (rule room_reach.router)
qed

section \<open>What a turn can do to the world\<close>

definition host_do :: "(HostAdmin \<Rightarrow> HostAdmin) \<Rightarrow> HostAdmin Room world \<Rightarrow> HostAdmin Room world" where
  "host_do f w = on_room (\<lambda>r. r\<lparr>host := f (host r)\<rparr>) w"

definition saved_files :: "file_system \<Rightarrow> HostAdmin \<Rightarrow> HostAdmin" where
  "saved_files fs h = h\<lparr>ha_files := fs, ha_asked := ha_asked h + 1\<rparr>"

text \<open>The steps of a node: runs of the room, the host's clock, the advert request taken, the two files written.\<close>

inductive node_reach :: "node_setup \<Rightarrow> HostAdmin Room world \<Rightarrow> HostAdmin Room world \<Rightarrow> bool" for N w0 where
  booted: "node_reach N w0 w0"
| runs: "node_reach N w0 w \<Longrightarrow> room_reach (surroundings_of N) w w' \<Longrightarrow> node_reach N w0 w'"
| timed: "node_reach N w0 w \<Longrightarrow> node_reach N w0 (host_do (ha_tick now) w)"
| advertised: "node_reach N w0 w \<Longrightarrow> node_reach N w0 (host_do (\<lambda>h. snd (takeAdvertRequest h)) w)"
| contacts_saved: "node_reach N w0 w \<Longrightarrow> flush written renamed (rt_store w) (ha_files (host (room_of w))) = (ok, fs)
    \<Longrightarrow> node_reach N w0 (host_do (saved_files fs) w)"
| room_saved: "node_reach N w0 w \<Longrightarrow> room_flush written renamed (room_of w) (ha_files (host (room_of w))) = (ok, fs)
    \<Longrightarrow> node_reach N w0 (host_do (saved_files fs) w)"

lemma node_reach_same: "node_reach N w0 w \<Longrightarrow> rt_delegate w' = rt_delegate w \<Longrightarrow> node_reach N w0 w'"
  by (blast intro: node_reach.runs room_reach_same)

lemma rv_publish_delegate [simp]: "rt_delegate (rv_world (rv_publish t s v)) = rt_delegate (rv_world v)"
  by (simp add: rv_publish_def split: option.split)

lemma rememberIfAdvert_delegate: "rt_delegate (rv_world (rememberIfAdvert S wall frame meta v)) = rt_delegate (rv_world v)"
  by (simp add: rememberIfAdvert_def Let_def split: option.split prod.split)

lemma receiver_onFrame_reach:
  "node_reach N w0 (rv_world v) \<Longrightarrow> node_reach N w0 (rv_world (snd (receiver_onFrame N wall frame meta v)))"
proof -
  assume r: "node_reach N w0 (rv_world v)"
  let ?v = "rememberIfAdvert (ns_sodium N) wall frame meta v"
  let ?w = "onFrame (ns_sodium N) (ns_random N) (ns_routing N) (room_delegate (surroundings_of N)) frame
      \<lparr>rx_airtime = ucast (meta_airtimeUs meta div 1000), rx_snr = snr meta\<rparr> (rv_world ?v)"
  have "node_reach N w0 (rv_world ?v)" using r by (rule node_reach_same) (rule rememberIfAdvert_delegate)
  then have "node_reach N w0 ?w" by (rule node_reach.runs) (rule onFrame_reach)
  then have "node_reach N w0 (?w\<lparr>rt_air := []\<rparr>)" by (rule node_reach_same) simp
  then show ?thesis using r by (simp add: receiver_onFrame_def Let_def take_air_def)
qed

section \<open>Radios hand frames up one by one\<close>

definition hear :: "'w RxSink \<Rightarrow> (bytes \<times> RxMeta) list \<Rightarrow> 'w \<Rightarrow> 'w" where
  "hear sink frames w = fold (\<lambda>(frame, meta) w. snd (sink frame meta w)) frames w"

locale hearing_device =
  fixes D :: "('i, 'r) Device"
  assumes tick_hears: "\<exists>frames. snd (dev_tick D sink now input r v) = hear sink frames v"
begin

lemma tick_reach:
  assumes "node_reach N w0 (rv_world v)"
  shows "node_reach N w0 (rv_world (snd (dev_tick D (receiver_onFrame N wall) now input r v)))"
proof -
  obtain frames where f: "snd (dev_tick D (receiver_onFrame N wall) now input r v) = hear (receiver_onFrame N wall) frames v"
    using tick_hears by blast
  have "node_reach N w0 (rv_world (hear (receiver_onFrame N wall) frames v))" for frames
    using assms by (induction frames arbitrary: v) (auto simp: hear_def receiver_onFrame_reach)
  then show ?thesis by (simp add: f)
qed

lemma link_enqueue_reach: "node_reach N w0 (nd_world n) \<Longrightarrow> node_reach N w0 (nd_world (link_enqueue D n))"
  by (rule node_reach_same) (auto simp: link_enqueue_def take_air_def on_world_def)

lemma advert_turn_reach:
  assumes "node_reach N w0 (nd_world n)"
  shows "node_reach N w0 (nd_world (advert_turn N D now wall n))"
proof -
  have send: "node_reach N w0 (nd_world (link_enqueue D (on_world (sendFlood S t pl) m)))"
    if "node_reach N w0 (nd_world m)" for m :: "'r node" and S t pl
    by (rule link_enqueue_reach, rule node_reach_same [OF that]) (simp add: on_world_def sendFlood_def)
  have taken: "node_reach N w0 (nd_world (on_host (\<lambda>_. snd (takeAdvertRequest (nd_host n))) n))"
    using node_reach.advertised [OF assms] by (simp add: on_host_def on_world_def host_do_def on_room_def)
  show ?thesis
    using send [OF assms] send [OF taken] assms taken by (simp add: advert_turn_def Let_def case_prod_beta)
qed

lemma flushes_reach:
  assumes "node_reach N w0 (nd_world n)"
  shows "node_reach N w0 (nd_world (snd (flush_store N n)))" and "node_reach N w0 (nd_world (snd (flush_room N n)))"
proof -
  obtain wr re where o: "flush_outcome N (nd_host n) = (wr, re)" by fastforce
  obtain ok fs where f: "flush wr re (rt_store (nd_world n)) (ha_files (nd_host n)) = (ok, fs)" by fastforce
  obtain ok' fs' where f': "room_flush wr re (room_of (nd_world n)) (ha_files (nd_host n)) = (ok', fs')" by fastforce
  show "node_reach N w0 (nd_world (snd (flush_store N n)))"
    using node_reach.contacts_saved [OF assms f] o f
    by (simp add: flush_store_def Let_def on_host_def on_world_def host_do_def saved_files_def)
  show "node_reach N w0 (nd_world (snd (flush_room N n)))"
    using node_reach.room_saved [OF assms f'] o f'
    by (simp add: flush_room_def Let_def on_host_def on_world_def host_do_def saved_files_def)
qed

lemma report_turn_reach: "node_reach N w0 (nd_world n) \<Longrightarrow> node_reach N w0 (nd_world (report_turn N D now n))"
  by (erule node_reach_same) (auto simp: report_turn_def Let_def on_world_def split: option.split prod.split)

lemma flush_turn_reach: "node_reach N w0 (nd_world n) \<Longrightarrow> node_reach N w0 (nd_world (flush_turn N now n))"
  by (auto simp: flush_turn_def intro: flushes_reach)

lemma radio_turn_reach:
  assumes "node_reach N w0 (nd_world n)"
  shows "\<exists>n'. radio_turn N D now wall input n = Some n' \<and> node_reach N w0 (nd_world n')"
proof -
  let ?H = "surroundings_of N"
  define n1 where "n1 = on_host (ha_tick now) n"
  have n1: "node_reach N w0 (nd_world n1)"
    using node_reach.timed [OF assms, of now] by (simp add: n1_def on_host_def on_world_def host_do_def)
  obtain r v where t: "dev_tick D (receiver_onFrame N wall) now input (nd_device n1) (nd_receiver n1) = (r, v)" by fastforce
  have v: "node_reach N w0 (rv_world v)" using tick_reach [OF n1, of wall now input "nd_device n1"] t by simp
  obtain w where w: "router_tick (ns_routing N) (room_delegate ?H) now (rv_world v) = Some w"
    using room_clock.tick_spec [of "ns_routing N" ?H now "rv_world v"] by blast
  have "node_reach N w0 (nd_world (link_enqueue D (on_world (\<lambda>_. w) (n1\<lparr>nd_device := r, nd_receiver := v\<rparr>))))"
    by (rule link_enqueue_reach) (simp add: on_world_def node_reach.runs [OF v router_tick_reach [OF w]])
  then show ?thesis using t w v by (simp add: radio_turn_def Let_def n1_def [symmetric])
qed

lemma room_turn_reach:
  assumes "node_reach N w0 (nd_world n)"
  shows "node_reach N w0 (nd_world (room_turn N D now wall n))"
proof -
  obtain used r' where u: "usedPermilleOf D (nd_device (on_world (on_room (setServerTime wall)) n)) = (used, r')" by fastforce
  have "room_reach (surroundings_of N) (nd_world n) (room_tick (surroundings_of N) now
      (on_room (setRadioLoad used) (on_room (setServerTime wall) (nd_world n))))"
    by (intro room_reach.tick room_reach.load room_reach.clock room_reach.start)
  with assms have "node_reach N w0 (room_tick (surroundings_of N) now
      (on_room (setRadioLoad used) (on_room (setServerTime wall) (nd_world n))))" by (rule node_reach.runs)
  then show ?thesis using u by (auto simp: room_turn_def Let_def on_world_def intro!: link_enqueue_reach)
qed

text \<open>Every turn ends, and ends in a state the steps above reach.\<close>

lemma turn_reach:
  assumes "node_reach N w0 (nd_world n)"
  shows "\<exists>stop n'. node_turn N D now wall input n = Some (stop, n') \<and> node_reach N w0 (nd_world n')"
proof -
  obtain n1 where n1: "radio_turn N D now wall input n = Some n1" "node_reach N w0 (nd_world n1)"
    using radio_turn_reach [OF assms] by blast
  have "node_reach N w0 (nd_world (advert_turn N D now wall (room_turn N D now wall n1)))"
    by (intro advert_turn_reach room_turn_reach n1(2))
  then show ?thesis using n1 by (auto simp: node_turn_def Let_def intro: report_turn_reach flush_turn_reach)
qed

end

section \<open>The two drivers\<close>

lemma hear_simps [simp]: "hear sink [] w = w" "hear sink ((f, m) # fs) w = hear sink fs (snd (sink f m w))"
  by (simp_all add: hear_def)

lemma drainSocket_hears: "\<exists>frames. snd (drainSocket (Some sink) inbox r w) = hear sink frames w"
proof (induction inbox arbitrary: r w)
  case Nil
  show ?case by (rule exI [of _ "[]"]) simp
next
  case (Cons arrived inbox)
  let ?d = "take kDatagramMax arrived" let ?f = "drop kSenderIdSize ?d"
  let ?m = "\<lparr>rssi = - 60, snr = 8, meta_at = udp_now r, meta_airtimeUs = udp_airtimeUs r (length ?f)\<rparr>"
  show ?case
  proof (cases "length ?d \<le> kSenderIdSize \<or> take kSenderIdSize ?d = udp_selfId r")
    case True
    then have "drainSocket (Some sink) (arrived # inbox) r w = drainSocket (Some sink) inbox r w"
      unfolding drainSocket.simps Let_def by auto
    then show ?thesis using Cons.IH by simp
  next
    case False
    obtain sends w' where s: "sink ?f ?m w = (sends, w')" by fastforce
    have step: "drainSocket (Some sink) (arrived # inbox) r w
        = drainSocket (Some sink) inbox (r\<lparr>udp_queue := feed sends (udp_queue r)\<rparr>) w'"
      unfolding drainSocket.simps Let_def using False s by (simp only: if_False de_Morgan_disj option.case prod.case)
    obtain frames where "snd (drainSocket (Some sink) inbox (r\<lparr>udp_queue := feed sends (udp_queue r)\<rparr>) w') = hear sink frames w'"
      using Cons.IH by blast
    then show ?thesis using s step by (intro exI [of _ "(?f, ?m) # frames"]) simp
  qed
qed

interpretation udp_hears: hearing_device udp_device
proof
  fix sink :: "Receiver RxSink" and now inbox r v
  obtain frames where f: "snd (drainSocket (Some sink) inbox (r\<lparr>udp_now := now\<rparr>) v) = hear sink frames v"
    using drainSocket_hears [of sink inbox "r\<lparr>udp_now := now\<rparr>" v] by (elim exE)
  show "\<exists>frames. snd (dev_tick udp_device sink now inbox r v) = hear sink frames v"
  proof (cases "udp_socket r")
    case True
    then show ?thesis using f by (intro exI [of _ frames]) (auto simp: udp_device_def udp_tick_def Let_def split: prod.splits)
  next
    case False
    then show ?thesis by (intro exI [of _ "[]"]) (simp add: udp_device_def udp_tick_def)
  qed
qed

lemma collect_hears: "\<exists>frames. snd (collect L (Some sink) c r w) = hear sink frames w"
proof -
  obtain got c1 where g: "read_frame L c = (got, c1)" by fastforce
  show ?thesis
  proof (cases got)
    case None
    then show ?thesis using g by (intro exI [of _ "[]"]) (simp add: collect_def)
  next
    case (Some frame)
    obtain level c2 where l: "lib_getRSSI L c1 = (level, c2)" by fastforce
    obtain ratio c3 where q: "lib_getSNR L c2 = (ratio, c3)" by fastforce
    show ?thesis using g Some l q
      by (intro exI [of _ "[(frame, \<lparr>rssi = level, snr = ratio, meta_at = sx_now r,
            meta_airtimeUs = sx_airtimeUs r (length frame)\<rparr>)]"]) (simp add: collect_def Let_def case_prod_beta)
  qed
qed

interpretation chip_hears: hearing_device "chip_device L" for L
proof
  fix sink :: "Receiver RxSink" and now and input :: unit and r :: "'a Sx1262Radio" and v
  show "\<exists>frames. snd (dev_tick (chip_device L) sink now input r v) = hear sink frames v"
  proof (cases "\<exists>c. sx_device r = Some c \<and> \<not> sx_transmitting r")
    case True
    then obtain c where c: "sx_device r = Some c" "\<not> sx_transmitting r" by blast
    obtain frames where "snd (collect L (Some sink) c (r\<lparr>sx_now := now\<rparr>) v) = hear sink frames v"
      using collect_hears [of L sink c "r\<lparr>sx_now := now\<rparr>" v] by (elim exE)
    then show ?thesis using c by (intro exI [of _ frames]) (auto simp: chip_device_def sx_tick_def Let_def split: prod.splits option.splits)
  next
    case False
    then show ?thesis by (intro exI [of _ "[]"]) (auto simp: chip_device_def sx_tick_def Let_def split: option.split prod.split)
  qed
qed

section \<open>Lives of a node\<close>

text \<open>The loop over its turns, each with the two clocks and what the radio finds; it stops early for a reboot.\<close>

fun node_run :: "node_setup \<Rightarrow> ('i, 'r) Device \<Rightarrow> (Millis \<times> u32 \<times> 'i) list \<Rightarrow> 'r node \<Rightarrow> (bool \<times> 'r node) option" where
  "node_run N D [] n = Some (False, n)"
| "node_run N D ((now, wall, input) # turns) n =
     (case node_turn N D now wall input n of None \<Rightarrow> None
      | Some (stop, n) \<Rightarrow> if stop then Some (True, n) else node_run N D turns n)"

context hearing_device
begin

lemma run_reach:
  "node_reach N w0 (nd_world n) \<Longrightarrow> \<exists>stop n'. node_run N D turns n = Some (stop, n') \<and> node_reach N w0 (nd_world n')"
proof (induction turns arbitrary: n)
  case (Cons t turns)
  obtain now wall input where t: "t = (now, wall, input)" by (metis prod.collapse)
  obtain stop n1 where n1: "node_turn N D now wall input n = Some (stop, n1)" "node_reach N w0 (nd_world n1)"
    using turn_reach [OF Cons.prems] by blast
  show ?case using Cons.IH [OF n1(2)] n1 t by (cases stop) auto
qed auto

lemma run_reaches: "node_run N D turns n = Some (stop, n') \<Longrightarrow> node_reach N (nd_world n) (nd_world n')"
  using run_reach [where n = n and N = N and turns = turns, OF node_reach.booted] by auto

end

lemma host_do_ok: "room_ok (room_of w) \<Longrightarrow> room_ok (room_of (host_do f w))"
  by (auto simp: host_do_def on_room_def elim: room_ok_cong)

lemma node_reach_ok: "node_reach N w0 w \<Longrightarrow> room_ok (room_of w0) \<Longrightarrow> room_ok (room_of w)"
  by (induction rule: node_reach.induct) (auto simp: host_do_ok intro: routed.reach_ok)

text \<open>A node for the concrete cases.\<close>

definition idle_node :: "'r \<Rightarrow> 'r node" where
  "idle_node device =
     \<lparr>nd_receiver = \<lparr>rv_world = router_new router_config_default store_new None (room_new room_config_default None
        (hostadmin_new [] (overlay_new ''o'') 0 (\<lambda>_. None) 0)), rv_spareBus = bus_new 1, rv_echoed = False\<rparr>,
      nd_device = device, nd_counters = counters_init, nd_nextFlush = 0, nd_nextAdvert = 0, nd_nextReport = 0\<rparr>"

definition test_setup :: node_setup where
  "test_setup =
     \<lparr>ns_sodium = test_sodium, ns_random = (\<lambda>_. 0),
      ns_os = \<lparr>os_write = (\<lambda>_. Written), os_mayStep = (\<lambda>_. True)\<rparr>, ns_routing = router_config_default,
      ns_claimedType = ROOM_SERVER, ns_location = \<lparr>loc_known = False, loc_latitude = 0, loc_longitude = 0\<rparr>,
      ns_flushEvery = 60000, ns_advertEvery = 300000, ns_reportEvery = 60000, ns_telemetryOn = False\<rparr>"

end
