(* ===== verification/Node_Settings.thy ===== *)
theory Node_Settings
  imports Node_Runs "HOL-Library.Sublist"
begin

text \<open>
  What an admin sets over the air: in force at once, in the overlay file before the reply, and in force again after a
  restart. The locale \<open>setting_holder\<close> says what a property of the room must survive to survive every run of it; the
  property here is that the settings in force are those a restart would read.
\<close>

section \<open>What keeps along the runs of a room\<close>

text \<open>A setting that was stored and what the room makes of it.\<close>

inductive takes_effect :: "string \<Rightarrow> bytes \<Rightarrow> 'h Room \<Rightarrow> 'h Room \<Rightarrow> bool" where
  "takes_effect ''room.admin_password'' v r (r\<lparr>room_config := (room_config r)\<lparr>adminPassword := v\<rparr>\<rparr>)"
| "takes_effect ''room.guest_password'' v r (r\<lparr>room_config := (room_config r)\<lparr>guestPassword := v\<rparr>\<rparr>)"
| "takes_effect ''room.anonymous_read'' (ascii (if on then ''true'' else ''false'')) r
     (r\<lparr>room_config := (room_config r)\<lparr>allowAnonymousRead := on\<rparr>\<rparr>)"
| "forwarder r \<noteq> None \<Longrightarrow> takes_effect ''repeater.enabled'' (ascii (if on then ''true'' else ''false'')) r
     (r\<lparr>forwarder := map_option (setEnabled on) (forwarder r)\<rparr>)"
| "forwarder r \<noteq> None \<Longrightarrow> hops \<noteq> 0 \<Longrightarrow> unat hops \<le> MAX_HOP_COUNT
     \<Longrightarrow> takes_effect ''repeater.max_hops'' (take 11 (fmt_u (unat hops))) r
     (r\<lparr>forwarder := map_option (setMaxHops (ucast (hops :: u32))) (forwarder r)\<rparr>)"

locale setting_holder = quiet_sender H for H :: "'h Surroundings" +
  fixes A :: "'h Admin" and P :: "'h Room \<Rightarrow> bool"
  assumes attached: "sur_admin H = Some A"
    and other: "settings_of r' = settings_of r \<Longrightarrow> P r \<Longrightarrow> P r'"
    and told: "P r \<Longrightarrow> P (r\<lparr>host := admin_sendAdvert A (host r)\<rparr>)"
    and rebooted: "P r \<Longrightarrow> P (r\<lparr>host := admin_requestReboot A (host r)\<rparr>)"
    and clocked: "P r \<Longrightarrow> P (r\<lparr>host := snd (admin_setClock A t (host r))\<rparr>)"
    and named: "P r \<Longrightarrow> P (r\<lparr>host := snd (admin_setNodeName A v (host r))\<rparr>)"
    and refused: "P r \<Longrightarrow> k \<noteq> [] \<Longrightarrow> admin_saveSetting A k v (host r) = (ok, h) \<Longrightarrow> ok \<noteq> Some True \<Longrightarrow> P (r\<lparr>host := h\<rparr>)"
    and stored: "P r \<Longrightarrow> admin_saveSetting A k v (host r) = (Some True, h) \<Longrightarrow> takes_effect k v r r' \<Longrightarrow> P (r'\<lparr>host := h\<rparr>)"
begin

abbreviation holds :: "'h Room world \<Rightarrow> bool" where
  "holds w \<equiv> P (room_of w)"

lemma holds_other: "holds w \<Longrightarrow> settings_of (room_of w') = settings_of (room_of w) \<Longrightarrow> holds w'"
  using other by blast

lemma holds_reply [simp]: "holds (sendCliReply H dest reply w) = holds w" "holds (replyf H dest reply w) = holds w"
  by (simp_all add: replyf_def)

lemma holds_on_room: "holds w \<Longrightarrow> settings_of (f (room_of w)) = settings_of (room_of w) \<Longrightarrow> holds (on_room f w)"
  by (rule holds_other) (simp_all add: on_room_def)

lemma holds_tell: "holds w \<Longrightarrow> holds (tell_host H admin_sendAdvert w)" "holds w \<Longrightarrow> holds (tell_host H admin_requestReboot w)"
  by (simp_all add: tell_host_def attached on_room_def told rebooted)

lemma ask_saved:
  assumes "holds w" "k \<noteq> []" "takes_effect k v (room_of w) (f (room_of w))"
    and "\<And>h. f ((room_of w)\<lparr>host := h\<rparr>) = (f (room_of w))\<lparr>host := h\<rparr>"
  obtains (no) ok w1 where "ask_host H (\<lambda>a. admin_saveSetting a k v) w = (ok, w1)" "ok = None \<or> ok = Some False" "holds w1"
  | (yes) w1 where "ask_host H (\<lambda>a. admin_saveSetting a k v) w = (Some True, w1)" "holds (on_room f w1)"
proof -
  obtain ok h where s: "admin_saveSetting A k v (host (room_of w)) = (ok, h)" by fastforce
  have a: "ask_host H (\<lambda>a. admin_saveSetting a k v) w = (ok, on_room (\<lambda>r. r\<lparr>host := h\<rparr>) w)"
    using s by (simp add: ask_host_def attached)
  show thesis
  proof (cases "ok = Some True")
    case True
    then show ?thesis
      using yes a s stored [OF assms(1) _ assms(3), of h] assms(4) by (simp add: on_room_def)
  next
    case False
    then have "holds (on_room (\<lambda>r. r\<lparr>host := h\<rparr>) w)" using refused [OF assms(1,2) s] by (simp add: on_room_def)
    then show ?thesis using False no a by (cases ok) auto
  qed
qed

lemma commandClock_holds: "holds w \<Longrightarrow> holds (commandClock H dest rest w)"
proof -
  assume w: "holds w"
  have ask: "holds (snd (ask_host H (\<lambda>a. admin_setClock a e) w))" for e
    using clocked [OF w, of e] by (simp add: ask_host_def attached on_room_def Let_def case_prod_beta)
  then have "holds (on_room (setServerTime e) (snd (ask_host H (\<lambda>a. admin_setClock a e) w)))" for e
    by (rule holds_on_room) (simp add: setServerTime_def settings_of_def)
  with ask w show ?thesis by (auto simp: commandClock_def Let_def split: option.split prod.split) (metis snd_conv)+
qed

lemma set_name_holds: "holds w \<Longrightarrow> holds (set_name H dest v w)"
proof -
  assume w: "holds w"
  have "holds (snd (ask_host H (\<lambda>a. admin_setNodeName a v) w))"
    using named [OF w, of v] by (simp add: ask_host_def attached on_room_def Let_def case_prod_beta)
  with w show ?thesis by (auto simp: set_name_def holds_tell split: prod.split)
qed

lemma set_password_holds: "holds w \<Longrightarrow> holds (set_password H dest forAdmin v w)"
proof -
  assume w: "holds w"
  let ?k = "if forAdmin then ''room.admin_password'' else ''room.guest_password''"
  let ?f = "\<lambda>r. r\<lparr>room_config := (if forAdmin then (room_config r)\<lparr>adminPassword := v\<rparr> else (room_config r)\<lparr>guestPassword := v\<rparr>)\<rparr>"
  have t: "takes_effect ?k v (room_of w) (?f (room_of w))" by (cases forAdmin) (auto intro: takes_effect.intros)
  show ?thesis using w by (rule_tac ask_saved [where f = ?f, OF w _ t]) (auto simp: set_password_def Let_def)
qed

lemma set_anonymousRead_holds: "holds w \<Longrightarrow> holds (set_anonymousRead H dest v w)"
proof (cases "parseOnOff v")
  case (Some on)
  assume w: "holds w"
  let ?f = "\<lambda>r. r\<lparr>room_config := (room_config r)\<lparr>allowAnonymousRead := on\<rparr>\<rparr>"
  have t: "takes_effect ''room.anonymous_read'' (ascii (if on then ''true'' else ''false'')) (room_of w) (?f (room_of w))"
    by (rule takes_effect.intros)
  show ?thesis using w Some by (rule_tac ask_saved [where f = ?f, OF w _ t]) (auto simp: set_anonymousRead_def Let_def)
qed (simp add: set_anonymousRead_def)

lemma set_repeat_holds: "holds w \<Longrightarrow> holds (set_repeat H dest v w)"
proof (cases "parseOnOff v")
  case (Some on)
  assume w: "holds w"
  let ?f = "\<lambda>r. r\<lparr>forwarder := map_option (setEnabled on) (forwarder r)\<rparr>"
  show ?thesis
  proof (cases "forwarder (room_of w)")
    case None
    then show ?thesis using w Some by (simp add: set_repeat_def)
  next
    case pol: (Some pol)
    have t: "takes_effect ''repeater.enabled'' (ascii (if on then ''true'' else ''false'')) (room_of w) (?f (room_of w))"
      by (rule takes_effect.intros) (simp add: pol)
    show ?thesis using w Some pol by (rule_tac ask_saved [where f = ?f, OF w _ t]) (auto simp: set_repeat_def Let_def)
  qed
qed (simp add: set_repeat_def)

lemma set_hopsMax_holds: "holds w \<Longrightarrow> holds (set_hopsMax H dest v w)"
proof (cases "parseUint32 v")
  case (Some hops)
  assume w: "holds w"
  let ?f = "\<lambda>r. r\<lparr>forwarder := map_option (setMaxHops (ucast hops)) (forwarder r)\<rparr>"
  show ?thesis
  proof (cases "hops = 0 \<or> unat hops > MAX_HOP_COUNT \<or> forwarder (room_of w) = None")
    case True
    then show ?thesis using w Some by (auto simp: set_hopsMax_def)
  next
    case False
    then have t: "takes_effect ''repeater.max_hops'' (take 11 (fmt_u (unat hops))) (room_of w) (?f (room_of w))"
      by (intro takes_effect.intros) auto
    show ?thesis using False w Some by (rule_tac ask_saved [where f = ?f, OF w _ t]) (auto simp: set_hopsMax_def Let_def)
  qed
qed (simp add: set_hopsMax_def)

lemma run_command_holds: "holds w \<Longrightarrow> holds (snd (run_command H dest line w))"
proof -
  assume w: "holds w"
  have "holds (commandSet H dest rest w)" for rest
    using w by (auto simp: commandSet_def Let_def set_name_holds set_password_holds set_anonymousRead_holds set_repeat_holds
        set_hopsMax_holds split: prod.split)
  moreover have "holds (commandGet H dest rest w)" for rest
    using w by (auto simp: commandGet_def Let_def commandClock_holds split: option.split)
  moreover have "holds (commandClear H dest rest w)" for rest
    using w by (auto simp: commandClear_def Let_def intro!: holds_on_room)
      (auto simp: settings_of_def clearStats_def option.map_comp comp_def)
  ultimately show ?thesis
    using w by (auto simp: run_command_def Let_def commandClock_holds holds_tell split: prod.split)
qed

lemma onPayload_holds: "holds w \<Longrightarrow> holds (room_onPayload H c t plain w)"
proof -
  assume w: "holds w"
  have cmd: "holds (snd (handleCommand H i u line w))" for i u line
  proof -
    have "holds (on_room (update_client i (\<lambda>c. c\<lparr>cl_lastCommand := u\<rparr>)) w)" using w by (rule holds_on_room) simp
    then show ?thesis using w by (simp add: handleCommand_def Let_def run_command_holds)
  qed
  have "holds (publishToChannels H p (addPost a u b w))" for p a u b
    using w by (rule holds_other) (simp add: addPost_settings)
  then have "holds (snd (handleText H pk plain w))" for pk
    using w cmd by (simp add: handleText_def Let_def split: option.split)
  moreover have "holds (snd (handleRequest H i plain w))" for i
    using w by (rule holds_other) (simp add: handleRequest_rights)
  ultimately show ?thesis using w by (simp add: room_onPayload_def split: PayloadType.split option.split)
qed

lemma reach_holds: "room_reach H w0 w \<Longrightarrow> holds w0 \<Longrightarrow> holds w"
proof (induction rule: room_reach.induct)
  case (anon w pk plain)
  then show ?case using holds_other onAnon_settings by blast
next
  case (group w t pl)
  then show ?case using holds_other onGroup_settings by blast
next
  case (tick w now)
  then show ?case using holds_other tick_settings by blast
next
  case (transit w p)
  then show ?case using holds_other shouldForward_settings by blast
qed (auto simp: onPayload_holds room_onAck_def room_onDeliveryFailed_def setServerTime_def setRadioLoad_def settings_of_def
    update_client_def intro!: holds_on_room split: option.split)

end

section \<open>Settings in the files\<close>

text \<open>A number printed is read back.\<close>

lemma strtol_decimal:
  assumes "n < 2 ^ 63" shows "strtol (cstr (ascii (decimal n))) = (int n, [])"
proof -
  let ?s = "ascii (decimal n)"
  have d: "list_all is_digit ?s" "digits_value ?s = int n" "?s \<noteq> []" using decimal_digits [of n] by (auto simp: ascii_def)
  have c: "is_digit b \<Longrightarrow> b \<noteq> 0 \<and> \<not> is_space b \<and> b \<noteq> 45 \<and> b \<noteq> 43" for b
    by (auto simp: is_digit_def is_space_def word_le_nat_alt)
  have "cstr ?s = ?s" unfolding cstr_def takeWhile_eq_all_conv using d(1) c by (metis list_all_iff)
  moreover have "is_digit (hd ?s)" using d(1,3) by (cases ?s) simp_all
  then have "dropWhile is_space ?s = ?s" "hd ?s \<noteq> 45" "hd ?s \<noteq> 43" using d(3) c by (cases ?s; simp)+
  moreover have "takeWhile is_digit ?s = ?s" using d(1) by (simp add: list_all_iff takeWhile_eq_all_conv)
  moreover have "dropWhile is_digit ?s = []" using d(1) by (simp add: list_all_iff dropWhile_eq_Nil_conv)
  ultimately show ?thesis using d(2,3) assms by (simp add: strtol_def Let_def del: takeWhile_eq_all_conv dropWhile_eq_Nil_conv)
qed

text \<open>One value changed over the air, on top of everything else.\<close>

definition config_updated :: "string \<Rightarrow> bytes \<Rightarrow> Config \<Rightarrow> Config \<Rightarrow> bool" where
  "config_updated k v C C' \<longleftrightarrow> map_of (cfg_values C') = (map_of (cfg_values C))(k \<mapsto> v)
     \<and> map_of (cfg_lists C') = (map_of (cfg_lists C))(k := None)"

lemma config_updated_get:
  assumes "config_updated k v C C'"
  shows "config_get k' d C' = (if k' = k then v else config_get k' d C)"
    and "config_getList k' C' = (if k' = k then [] else config_getList k' C)"
    and "k' \<noteq> k \<Longrightarrow> config_getInt k' i C' = config_getInt k' i C"
    and "k' \<noteq> k \<Longrightarrow> config_getBool k' b C' = config_getBool k' b C"
    and "v = ascii (if on then ''true'' else ''false'') \<Longrightarrow> config_getBool k b C' = on"
    and "v = ascii (decimal n) \<Longrightarrow> n < 2 ^ 63 \<Longrightarrow> config_getInt k i C' = int n"
  using assms strtol_decimal [of n] decimal_digits [of n]
  by (auto simp: config_updated_def config_get_def config_getList_def config_getInt_def config_getBool_def ascii_def)

lemma applyOverlay_updated:
  assumes "map_sorted (cfg_values c)" "map_sorted (ov_values ov)" "map_sorted (ov_values ov')"
    and "map_of (ov_values ov') = (map_of (ov_values ov))(k \<mapsto> v)"
  shows "config_updated k v (applyOverlay ov c) (applyOverlay ov' c)"
  using applyOverlay_map_of [OF assms(1,2)] applyOverlay_map_of [OF assms(1,3)] assms(4)
  by (auto simp: config_updated_def restrict_map_def fun_eq_iff)

lemma loadFile_sorted: "loadFile F p fs config_new = (True, c) \<Longrightarrow> map_sorted (cfg_values c)"
  by (auto simp: loadFile_def loadFromString_def parse_settings_def split: option.splits Json.splits dest!: flatten_ok(2))

lemma effective_configE:
  assumes "effective_config F p fs = Some (dir, ov, C)"
  obtains c where "loadFile F p fs config_new = (True, c)" "C = applyOverlay ov c" "map_sorted (cfg_values c)"
    "ov_path ov = dir @ ''/overrides.json''" "overlay_saved F ov fs"
    "dir = map (\<lambda>b. char_of (unat b)) (config_get ''node.dir'' (ascii ''./data'') c)"
proof -
  obtain c where c: "loadFile F p fs config_new = (True, c)" "dir = map (\<lambda>b. char_of (unat b)) (config_get ''node.dir'' (ascii ''./data'') c)"
      "overlay_load F fs (overlay_new (dir @ ''/overrides.json'')) = (True, ov)" "C = applyOverlay ov c"
    using assms by (auto simp: effective_config_def Let_def split: prod.splits if_splits)
  have "ov_path ov = dir @ ''/overrides.json''"
    using overlay_load_ok [OF _ c(3)] by (simp add: overlay_ok_def overlay_new_def)
  then show thesis using that c loadFile_sorted [OF c(1)] overlay_load_saved [OF c(3)] by blast
qed

lemma effective_configI:
  assumes "loadFile F p fs config_new = (True, c)" "ov_path ov = dir @ ''/overrides.json''" "overlay_saved F ov fs"
    "dir = map (\<lambda>b. char_of (unat b)) (config_get ''node.dir'' (ascii ''./data'') c)"
  shows "effective_config F p fs = Some (dir, ov, applyOverlay ov c)"
  using assms by (simp add: effective_config_def overlay_saved_def)

lemma effective_config_files:
  assumes "effective_config F p fs = Some (dir, ov, C)" "fs' p = fs p" "fs' (ov_path ov) = fs (ov_path ov)"
  shows "effective_config F p fs' = Some (dir, ov, C)"
  using assms(1)
proof (rule effective_configE)
  fix c assume c: "loadFile F p fs config_new = (True, c)" "C = applyOverlay ov c" "ov_path ov = dir @ ''/overrides.json''"
    "overlay_saved F ov fs" "dir = map (\<lambda>b. char_of (unat b)) (config_get ''node.dir'' (ascii ''./data'') c)"
  have "loadFile F p fs' config_new = (True, c)" using c(1) assms(2) by (simp add: loadFile_def readAll_def)
  moreover have "overlay_saved F ov fs'"
    using c(4) overlay_load_cong [of fs' "ov_path ov" fs F] assms(3) by (simp add: overlay_saved_def)
  ultimately show ?thesis using effective_configI c(2,3,5) by metis
qed

text \<open>What the host does with a setting, seen from the next start.\<close>

lemma saveSetting_effective:
  assumes "effective_config F p (ha_files h) = Some (dir, ha_overlay h, C)"
    and "p \<noteq> ov_path (ha_overlay h)" "p \<noteq> ov_path (ha_overlay h) @ ''.tmp''" "k \<noteq> []"
    and "ha_saveSetting os k v h = (ok, h')" "\<not> ha_thrown h'"
  shows "ov_path (ha_overlay h') = ov_path (ha_overlay h) \<and> (\<exists>C'. effective_config F p (ha_files h') = Some (dir, ha_overlay h', C')
    \<and> (if ok = Some True then config_updated k v C C' else C' = C \<and> ha_overlay h' = ha_overlay h))"
proof -
  obtain c where c: "loadFile F p (ha_files h) config_new = (True, c)" "C = applyOverlay (ha_overlay h) c" "map_sorted (cfg_values c)"
    "ov_path (ha_overlay h) = dir @ ''/overrides.json''" "overlay_saved F (ha_overlay h) (ha_files h)"
    "dir = map (\<lambda>b. char_of (unat b)) (config_get ''node.dir'' (ascii ''./data'') c)"
    using effective_configE [OF assms(1)] by blast
  have o: "overlay_ok (ha_overlay h)" using c(5) by (simp add: overlay_saved_def)
  obtain b where b: "ok = Some b"
    and set: "overlay_set (os_write os (ha_asked h)) k v (ha_overlay h) (ha_files h) = (Inr b, ha_overlay h', ha_files h')"
    using assms(5,6) by (auto simp: ha_saveSetting_def Let_def split: prod.splits sum.splits)
  note sv = overlay_set_saved [OF c(5) assms(4) set]
  have p: "ha_files h' p = ha_files h p" using o assms(4) set
  proof (cases rule: overlay_set_cases)
    case (stored dumped)
    then show ?thesis using writeAtomic_other assms(2,3) by metis
  next
    case (refused dumped)
    then show ?thesis using writeAtomic_fails assms(3) by metis
  qed simp
  have "loadFile F p (ha_files h') config_new = (True, c)" using c(1) p by (simp add: loadFile_def readAll_def)
  then have e: "effective_config F p (ha_files h') = Some (dir, ha_overlay h', applyOverlay (ha_overlay h') c)"
    using sv c(4,6) by (intro effective_configI) simp_all
  have "map_sorted (ov_values (ha_overlay h))" "map_sorted (ov_values (ha_overlay h'))"
    using o sv by (simp_all add: overlay_ok_def overlay_saved_def)
  note sorted = this
  have "ha_overlay h' = ha_overlay h" if "\<not> b"
    using that sv map_sorted_unique [OF sorted(2,1)] Overlay.equality [of "ha_overlay h'" "ha_overlay h"] by simp
  moreover have "config_updated k v C (applyOverlay (ha_overlay h') c)" if b
    using that sv applyOverlay_updated [OF c(3) sorted] c(2) by simp
  ultimately show ?thesis using b e sv c(2) by (cases b) auto
qed

section \<open>The settings in force\<close>

text \<open>The room, the name and the terms of transit are what these settings make of them.\<close>

definition live_settings :: "sodium \<Rightarrow> Config \<Rightarrow> HostAdmin Room \<Rightarrow> bool" where
  "live_settings S C r \<longleftrightarrow> room_config r = room_config_from S (room_type (room_config r)) C
     \<and> ha_name (host r) = config_get ''node.name'' (ascii ''room'') C
     \<and> map_option pol_config (forwarder r) = map_option pol_config (forwarder_from (room_type (room_config r)) C)"

text \<open>
  The files as they are now, read by a node that starts, give the settings that are live. (A node that an exception ended
  is not running any more.)
\<close>

definition in_force :: "sodium \<Rightarrow> float_text \<Rightarrow> string \<Rightarrow> HostAdmin Room \<Rightarrow> bool" where
  "in_force S F p r \<longleftrightarrow> ha_thrown (host r) \<or>
     p \<noteq> ov_path (ha_overlay (host r)) \<and> p \<noteq> ov_path (ha_overlay (host r)) @ ''.tmp''
     \<and> (\<exists>dir C. effective_config F p (ha_files (host r)) = Some (dir, ha_overlay (host r), C) \<and> live_settings S C r)"

lemma small_decimal: "n \<le> MAX_HOP_COUNT \<Longrightarrow> take 11 (fmt_u n) = ascii (decimal n)"
proof -
  assume "n \<le> MAX_HOP_COUNT"
  then have "n div 10 < 10" by simp
  then have "length (decimal n) \<le> 2" by (simp add: decimal.simps [of n] decimal.simps [of "n div 10"])
  then show ?thesis by (simp add: fmt_u_def ascii_def)
qed

text \<open>What each module makes of one changed value.\<close>

lemma room_config_from_updated:
  assumes "config_updated k v C C'"
  shows "k = ''room.admin_password'' \<Longrightarrow> room_config_from S t C' = (room_config_from S t C)\<lparr>adminPassword := v\<rparr>"
    and "k = ''room.guest_password'' \<Longrightarrow> room_config_from S t C' = (room_config_from S t C)\<lparr>guestPassword := v\<rparr>"
    and "k = ''room.anonymous_read'' \<Longrightarrow> v = ascii (if on then ''true'' else ''false'')
      \<Longrightarrow> room_config_from S t C' = (room_config_from S t C)\<lparr>allowAnonymousRead := on\<rparr>"
    and "k \<in> {''node.name'', ''repeater.enabled'', ''repeater.max_hops''} \<Longrightarrow> room_config_from S t C' = room_config_from S t C"
proof -
  note g = config_updated_get(1-4) [OF assms]
  show "k = ''room.admin_password'' \<Longrightarrow> room_config_from S t C' = (room_config_from S t C)\<lparr>adminPassword := v\<rparr>"
    "k = ''room.guest_password'' \<Longrightarrow> room_config_from S t C' = (room_config_from S t C)\<lparr>guestPassword := v\<rparr>"
    by (simp_all add: room_config_from_def g)
  show "room_config_from S t C' = (room_config_from S t C)\<lparr>allowAnonymousRead := on\<rparr>"
    if "k = ''room.anonymous_read''" "v = ascii (if on then ''true'' else ''false'')"
    using that(1) config_updated_get(5) [OF assms that(2)] by (simp add: room_config_from_def g)
  show "k \<in> {''node.name'', ''repeater.enabled'', ''repeater.max_hops''} \<Longrightarrow> room_config_from S t C' = room_config_from S t C"
    by (elim insertE emptyE) (simp_all add: room_config_from_def g)
qed

lemma forwarder_from_updated:
  assumes "config_updated k v C C'"
  shows "k = ''repeater.enabled'' \<Longrightarrow> v = ascii (if on then ''true'' else ''false'')
      \<Longrightarrow> map_option pol_config (forwarder_from t C') = map_option (\<lambda>p. (pol_config p)\<lparr>rc_enabled := on\<rparr>) (forwarder_from t C)"
    and "k = ''repeater.max_hops'' \<Longrightarrow> v = ascii (decimal n) \<Longrightarrow> n < 2 ^ 63
      \<Longrightarrow> map_option pol_config (forwarder_from t C') = map_option (\<lambda>p. pol_config (setMaxHops (of_nat n) p)) (forwarder_from t C)"
    and "k \<in> {''node.name'', ''room.admin_password'', ''room.guest_password'', ''room.anonymous_read''}
      \<Longrightarrow> map_option pol_config (forwarder_from t C') = map_option pol_config (forwarder_from t C)"
proof -
  note g = config_updated_get(1-4) [OF assms] and d = forwarder_from_def policy_new_def setMaxHops_def Let_def
  show "map_option pol_config (forwarder_from t C') = map_option (\<lambda>p. (pol_config p)\<lparr>rc_enabled := on\<rparr>) (forwarder_from t C)"
    if "k = ''repeater.enabled''" "v = ascii (if on then ''true'' else ''false'')"
    using that(1) config_updated_get(5) [OF assms that(2)] by (simp add: d g)
  show "map_option pol_config (forwarder_from t C') = map_option (\<lambda>p. pol_config (setMaxHops (of_nat n) p)) (forwarder_from t C)"
    if "k = ''repeater.max_hops''" "v = ascii (decimal n)" "n < 2 ^ 63"
    using that(1) config_updated_get(6) [OF assms that(2,3)] by (simp add: d g)
  show "k \<in> {''node.name'', ''room.admin_password'', ''room.guest_password'', ''room.anonymous_read''}
      \<Longrightarrow> map_option pol_config (forwarder_from t C') = map_option pol_config (forwarder_from t C)"
    by (elim insertE emptyE) (simp_all add: d g)
qed

lemma live_settingsI:
  assumes "room_config r = room_config_from S t C" "room_type (room_config r) = t"
    "ha_name (host r) = config_get ''node.name'' (ascii ''room'') C"
    "map_option pol_config (forwarder r) = map_option pol_config (forwarder_from t C)"
  shows "live_settings S C r"
  using assms by (simp add: live_settings_def)

lemma map_option_pol: "map_option pol_config x = map_option pol_config y \<Longrightarrow> (\<And>p. pol_config (f p) = g (pol_config p))
    \<Longrightarrow> map_option pol_config (map_option f x) = map_option (\<lambda>p. g (pol_config p)) y"
  by (cases x; cases y) auto

lemma live_settings_effect:
  assumes "takes_effect k v r r'" "config_updated k v C C'" "live_settings S C r" "ha_name h = ha_name (host r)"
  shows "live_settings S C' (r'\<lparr>host := h\<rparr>)"
proof -
  obtain t where t: "room_config r = room_config_from S t C" "room_type (room_config r) = t"
      "ha_name h = config_get ''node.name'' (ascii ''room'') C"
      "map_option pol_config (forwarder r) = map_option pol_config (forwarder_from t C)"
    using assms(3,4) by (auto simp: live_settings_def)
  note rc = room_config_from_updated [where S = S and t = t, OF assms(2)] and fw = forwarder_from_updated [where t = t, OF assms(2)]
  have name: "k \<noteq> ''node.name'' \<Longrightarrow> config_get ''node.name'' (ascii ''room'') C' = ha_name h"
    using config_updated_get(1) [OF assms(2)] t(3) by simp
  show ?thesis using assms(1)
  proof cases
    case (4 on)
    then show ?thesis using t rc(4) fw(1) [of on] name map_option_pol [OF t(4), of "setEnabled on" "rc_enabled_update (\<lambda>_. on)"]
      by (intro live_settingsI [of _ S t]) (simp_all add: setEnabled_def)
  next
    case (5 hops)
    have n: "v = ascii (decimal (unat hops))" "unat hops < 2 ^ 63" using 5 small_decimal unat_u32_less [of hops] by simp_all
    have e: "of_nat (unat hops) = (ucast hops :: byte)" by simp
    show ?thesis using 5 t rc(4) fw(2) [of "unat hops"] n name e
        map_option_pol [OF t(4), of "setMaxHops (ucast hops)" "\<lambda>c. pol_config (setMaxHops (ucast hops) \<lparr>pol_config = c, pol_stats = undefined, pol_buckets = undefined\<rparr>)"]
      by (intro live_settingsI [of _ S t]) (simp_all add: setMaxHops_def)
  qed (use t rc fw(3) name in \<open>auto intro!: live_settingsI [of _ S t]\<close>)
qed

lemma live_settings_named:
  assumes "config_updated ''node.name'' v C C'" "live_settings S C r" "ha_name h = v"
  shows "live_settings S C' (r\<lparr>host := h\<rparr>)"
  using assms(2,3) config_updated_get(1) [OF assms(1)] room_config_from_updated(4) [OF assms(1)] forwarder_from_updated(3) [OF assms(1)]
  by (simp add: live_settings_def)

lemma live_settings_cong: "settings_of r' = settings_of r \<Longrightarrow> live_settings S C r' = live_settings S C r"
  by (simp add: live_settings_def settings_of_def)

lemma in_force_host:
  assumes "in_force S F p r" "ha_overlay h = ha_overlay (host r)" "ha_files h = ha_files (host r)"
    "ha_name h = ha_name (host r)" "ha_thrown h = ha_thrown (host r)"
  shows "in_force S F p (r\<lparr>host := h\<rparr>)"
  using assms by (simp add: in_force_def live_settings_def)

lemma saveSetting_host:
  "ha_saveSetting os k v h = (ok, h') \<Longrightarrow> ha_name h' = ha_name h \<and> (ha_thrown h \<longrightarrow> ha_thrown h') \<and> (ok = Some True \<longrightarrow> ha_thrown h' = ha_thrown h)"
  by (auto simp: ha_saveSetting_def Let_def split: prod.splits sum.splits)

lemma in_force_saved:
  assumes "in_force S F p r" "ha_saveSetting os k v (host r) = (ok, h)" "k \<noteq> []"
    and "\<And>C C'. ok = Some True \<Longrightarrow> config_updated k v C C' \<Longrightarrow> live_settings S C r \<Longrightarrow> live_settings S C' (r'\<lparr>host := h'\<rparr>)"
    and "ha_overlay h' = ha_overlay h" "ha_files h' = ha_files h" "ha_thrown h' = ha_thrown h"
    and "ok \<noteq> Some True \<Longrightarrow> r' = r \<and> h' = h"
  shows "in_force S F p (r'\<lparr>host := h'\<rparr>)"
proof (cases "ha_thrown h")
  case False
  then have t: "\<not> ha_thrown (host r)" using saveSetting_host [OF assms(2)] by blast
  obtain dir C where C: "p \<noteq> ov_path (ha_overlay (host r))" "p \<noteq> ov_path (ha_overlay (host r)) @ ''.tmp''"
      "effective_config F p (ha_files (host r)) = Some (dir, ha_overlay (host r), C)" "live_settings S C r"
    using assms(1) t by (auto simp: in_force_def)
  obtain C' where C': "ov_path (ha_overlay h) = ov_path (ha_overlay (host r))"
      "effective_config F p (ha_files h) = Some (dir, ha_overlay h, C')"
      "if ok = Some True then config_updated k v C C' else C' = C \<and> ha_overlay h = ha_overlay (host r)"
    using saveSetting_effective [OF C(3,1,2) assms(3,2) False] by blast
  have "live_settings S C' (r'\<lparr>host := h'\<rparr>)"
    using C' C(4) assms(4,8) saveSetting_host [OF assms(2)] by (cases "ok = Some True") (auto simp: live_settings_def)
  then show ?thesis using C(1,2) C'(1,2) assms(5,6) by (auto simp: in_force_def)
qed (simp add: in_force_def assms(7))

interpretation node: setting_holder "node_surroundings S src config (Some (host_admin os))" "host_admin os"
  "\<lambda>r. in_force S' F p r" for S src config F os S' p
proof
  fix r :: "HostAdmin Room" and r' t v k h
  show "sur_admin (node_surroundings S src config (Some (host_admin os))) = Some (host_admin os)" by simp
  show "in_force S' F p r'" if "settings_of r' = settings_of r" "in_force S' F p r"
    using that live_settings_cong [OF that(1)] by (simp add: in_force_def settings_of_def)
  assume r: "in_force S' F p r"
  show "in_force S' F p (r\<lparr>host := admin_sendAdvert (host_admin os) (host r)\<rparr>)"
    using r by (auto simp: host_admin_def ha_sendAdvert_def intro: in_force_host)
  show "in_force S' F p (r\<lparr>host := admin_requestReboot (host_admin os) (host r)\<rparr>)"
    using r by (auto simp: host_admin_def ha_requestReboot_def intro: in_force_host)
  show "in_force S' F p (r\<lparr>host := snd (admin_setClock (host_admin os) t (host r))\<rparr>)"
    using r by (auto simp: host_admin_def ha_setClock_def intro: in_force_host)
  show "in_force S' F p (r\<lparr>host := snd (admin_setNodeName (host_admin os) v (host r))\<rparr>)"
  proof -
    obtain ok h1 where s: "ha_saveSetting os ''node.name'' v (host r) = (ok, h1)" by fastforce
    let ?h = "if ok = Some True then h1\<lparr>ha_name := v\<rparr> else h1"
    have "in_force S' F p (r\<lparr>host := ?h\<rparr>)"
      using r s by (intro in_force_saved [OF _ s]) (auto intro: live_settings_named)
    then show "in_force S' F p (r\<lparr>host := snd (admin_setNodeName (host_admin os) v (host r))\<rparr>)"
      using s by (cases "ok = Some True") (simp_all add: host_admin_def ha_setNodeName_def)
  qed
  show "in_force S' F p (r\<lparr>host := h\<rparr>)"
    if "k \<noteq> []" "admin_saveSetting (host_admin os) k v (host r) = (ok, h)" "ok \<noteq> Some True" for ok
    using r that in_force_saved [where ok = ok and r' = r and h' = h] by (auto simp: host_admin_def)
  show "in_force S' F p (r'\<lparr>host := h\<rparr>)"
    if "admin_saveSetting (host_admin os) k v (host r) = (Some True, h)" "takes_effect k v r r'"
  proof -
    have s: "ha_saveSetting os k v (host r) = (Some True, h)" using that(1) by (simp add: host_admin_def)
    have "k \<noteq> []" using that(2) by cases simp_all
    then show "in_force S' F p (r'\<lparr>host := h\<rparr>)"
      using r s live_settings_effect [OF that(2)] saveSetting_host [OF s] by (intro in_force_saved [OF _ s]) auto
  qed
qed

section \<open>Restarts\<close>

text \<open>The configuration is a file of the operator's, none that the node writes.\<close>

definition operators_file :: "string \<Rightarrow> bool" where
  "operators_file p \<longleftrightarrow> \<not> suffix ''.dat'' p \<and> \<not> suffix ''.tmp'' p \<and> \<not> suffix ''.key'' p \<and> \<not> suffix ''/overrides.json'' p"

lemma flush_others:
  assumes "\<not> suffix ''.dat'' q" "\<not> suffix ''.tmp'' q"
  shows "flush written renamed st fs = (ok, fs') \<Longrightarrow> fs' q = fs q"
    and "room_flush written renamed r fs = (ok, fs') \<Longrightarrow> fs' q = fs q"
proof -
  have "q \<noteq> d @ ''/contacts.dat''" "q \<noteq> d @ ''/contacts.dat.tmp''" "q \<noteq> d @ ''/room.dat''" "q \<noteq> d @ ''/room.dat.tmp''" for d
    using assms by (auto simp: suffix_def)
  then show "flush written renamed st fs = (ok, fs') \<Longrightarrow> fs' q = fs q" "room_flush written renamed r fs = (ok, fs') \<Longrightarrow> fs' q = fs q"
    by (auto simp: flush_def writeContacts_def room_flush_def writeState_def Let_def split: if_splits)
qed

lemma in_force_files:
  assumes "in_force S F p r" "operators_file p" "\<And>q. \<not> suffix ''.dat'' q \<Longrightarrow> \<not> suffix ''.tmp'' q \<Longrightarrow> fs q = ha_files (host r) q"
  shows "in_force S F p (r\<lparr>host := saved_files fs (host r)\<rparr>)"
proof (cases "ha_thrown (host r)")
  case False
  let ?ov = "ha_overlay (host r)"
  obtain dir C where C: "p \<noteq> ov_path ?ov" "p \<noteq> ov_path ?ov @ ''.tmp''"
      "effective_config F p (ha_files (host r)) = Some (dir, ?ov, C)" "live_settings S C r"
    using assms(1) False by (auto simp: in_force_def)
  have "ov_path ?ov = dir @ ''/overrides.json''" using C(3) by (rule effective_configE)
  then have "fs p = ha_files (host r) p" "fs (ov_path ?ov) = ha_files (host r) (ov_path ?ov)"
    using assms(2,3) by (auto simp: operators_file_def suffix_def)
  from effective_config_files [OF C(3) this] C(1,2,4) show ?thesis
    by (auto simp: in_force_def saved_files_def live_settings_def)
qed (simp add: in_force_def saved_files_def)

lemma node_reach_in_force:
  assumes "node_reach N w0 w" "operators_file p" "in_force S F p (room_of w0)"
  shows "in_force S F p (room_of w)"
  using assms
proof (induction rule: node_reach.induct)
  case (runs w w')
  then show ?case using node.reach_holds [OF runs.hyps(2)] by blast
next
  case (contacts_saved w written renamed ok fs)
  then show ?case using flush_others(1) by (auto simp: host_do_def on_room_def intro!: in_force_files)
next
  case (room_saved w written renamed ok fs)
  then show ?case using flush_others(2) by (auto simp: host_do_def on_room_def intro!: in_force_files)
qed (auto simp: host_do_def on_room_def ha_tick_def takeAdvertRequest_def intro!: in_force_host)

lemma loadOrCreate_others:
  "loadOrCreate S src made written shut dir pos fs st = (ok, st', fs', pos') \<Longrightarrow> \<not> suffix ''.key'' q \<Longrightarrow> fs' q = fs q"
proof -
  assume l: "loadOrCreate S src made written shut dir pos fs st = (ok, st', fs', pos')" and q: "\<not> suffix ''.key'' q"
  have "q \<noteq> dir @ ''/identity.key''" using q by (auto simp: suffix_def)
  then show "fs' q = fs q" using l
    by (auto simp: loadOrCreate_def saveKeypair_def Let_def split: if_splits option.splits prod.splits)
qed

lemma room_load_settings: "room_load made dir fs r = (ok, r') \<Longrightarrow> settings_of r' = settings_of r"
  by (auto simp: room_load_def readState_def Let_def settings_of_def split: if_splits option.splits prod.splits)

lemma node_start_in_force:
  assumes "node_start S src F os degrees micro ready made written shut open_device wall startedAt p fs = Some (N, n)"
    and "operators_file p"
  shows "in_force S F p (room_of (nd_world n))"
proof -
  obtain dir ov C where C: "effective_config F p fs = Some (dir, ov, C)"
    using assms(1) by (auto simp: node_start_def split: option.splits)
  obtain store fs' drawn where l: "loadOrCreate S src made written shut dir 0 fs store_new = (True, store, fs', drawn)"
    using assms(1) C by (auto simp: node_start_def Let_def split: option.splits if_splits prod.splits)
  let ?t = "nodeTypeFromName (config_get ''node.type'' (ascii ''room'') C)"
  let ?r0 = "room_new (room_config_from S ?t C) (forwarder_from ?t C)
      (hostadmin_new (config_get ''node.name'' (ascii ''room'') C) ov startedAt fs' 0)"
  have ld: "\<exists>r. room_load made dir fs' ?r0 = (True, r) \<and> room_of (nd_world n) = r"
    using assms(1) C l by (auto simp: node_start_def Let_def router_new_def split: option.splits if_splits prod.splits)
  then have set: "settings_of (room_of (nd_world n)) = settings_of ?r0" using room_load_settings by blast
  have path: "ov_path ov = dir @ ''/overrides.json''" using C by (rule effective_configE)
  have ne: "p \<noteq> ov_path ov" "p \<noteq> ov_path ov @ ''.tmp''" using assms(2) path by (auto simp: operators_file_def suffix_def)
  have "fs' p = fs p" "fs' (ov_path ov) = fs (ov_path ov)"
    using loadOrCreate_others [OF l] assms(2) path by (auto simp: operators_file_def suffix_def)
  from effective_config_files [OF C this] have "effective_config F p fs' = Some (dir, ov, C)" .
  moreover have "live_settings S C ?r0" by (rule live_settingsI) (simp_all add: room_new_def hostadmin_new_def room_config_from_def)
  ultimately have "in_force S F p ?r0" using ne by (auto simp: in_force_def room_new_def hostadmin_new_def)
  then show ?thesis using set live_settings_cong [OF set] by (simp add: in_force_def settings_of_def)
qed

text \<open>
  C5. A restart changes nothing an admin can set. From any start, after any turns of the loop, with any commands received and
  any writes failing, the files as they are at that moment give a node that starts on them exactly the settings in force:
  the same passwords, channels and anonymous reading, the same name, the same terms of transit. What could not be stored did
  not come into force. (Unless an exception of the JSON library ended the process.)
\<close>

theorem settings_survive_restart:
  assumes "operators_file p"
    and "node_start S src F os degrees micro ready made written shut open_device wall startedAt p fs = Some (N, n0)"
    and "node_run N (chip_device L) turns n0 = Some (stop, n)" "\<not> ha_thrown (nd_host n)"
  shows "\<exists>dir C. effective_config F p (ha_files (nd_host n)) = Some (dir, ha_overlay (nd_host n), C)
    \<and> room_config_from S (room_type (room_config (room_of (nd_world n)))) C = room_config (room_of (nd_world n))
    \<and> config_get ''node.name'' (ascii ''room'') C = ha_name (nd_host n)
    \<and> map_option pol_config (forwarder_from (room_type (room_config (room_of (nd_world n)))) C)
        = map_option pol_config (forwarder (room_of (nd_world n)))"
proof -
  have "in_force S F p (room_of (nd_world n))"
    using node_reach_in_force [OF chip_hears.run_reaches [OF assms(3)] assms(1) node_start_in_force [OF assms(2,1)]] .
  then show ?thesis using assms(4) unfolding in_force_def live_settings_def by metis
qed

text \<open>For the concrete case: a node on an empty configuration, which admits nobody.\<close>

lemma node_reach_nobody:
  "node_reach N w0 w \<Longrightarrow> admits_nobody (room_of w0) \<Longrightarrow>
     admits_nobody (room_of w) \<and> ha_thrown (host (room_of w)) = ha_thrown (host (room_of w0))"
proof (induction rule: node_reach.induct)
  case (runs w w')
  then show ?case using routed.reach_nobody [OF runs.hyps(2)] by (simp add: settings_of_def)
qed (auto simp: admits_nobody_def host_do_def on_room_def ha_tick_def takeAdvertRequest_def saved_files_def)

definition test_files :: file_system where
  "test_files = [''meshcore.json'' \<mapsto> \<lparr>kf_regular = True, kf_mode = 0x180, kf_content = ascii ''{}''\<rparr>]"

lemma empty_object_read: "json_parse F (ascii ''{}'') = Some (JObject [])"
  using parse_rendered [of F "JObject []" False 0 False] by (simp add: line_break_def)

lemma test_start:
  "\<exists>N n. node_start test_sodium (\<lambda>_. 0) F \<lparr>os_write = (\<lambda>_. Written), os_mayStep = (\<lambda>_. True)\<rparr> (\<lambda>_. None) (\<lambda>_. 0)
     True True True True (\<lambda>_ _. Some device) 1700000000 1 ''meshcore.json'' test_files = Some (N, n)
   \<and> \<not> ha_thrown (nd_host n) \<and> admits_nobody (room_of (nd_world n))"
proof -
  let ?C = "\<lparr>cfg_values = [], cfg_lists = []\<rparr>"
  have e: "effective_config F ''meshcore.json'' test_files = Some (''./data'', overlay_new ''./data/overrides.json'', ?C)"
    using text_of_ascii [of "''./data''"]
    by (simp add: effective_config_def loadFile_def loadFromString_def readAll_def test_files_def parse_settings_def empty_object_read
        config_get_def text_of_def overlay_load_def overlay_new_def applyOverlay_def del: ascii_brackets)
  have l: "\<exists>st fs pos. loadOrCreate test_sodium (\<lambda>_. 0) True True True ''./data'' 0 test_files store_new = (True, st, fs, pos)
      \<and> fs ''./data/room.dat'' = None"
    by (simp add: loadOrCreate_def saveKeypair_def generateKeypair_def randomBytes_def test_files_def test_sodium_def Let_def)
  then show ?thesis
    by (auto simp: node_start_def e Let_def wallLooksSynced_def room_load_def router_new_def room_new_def hostadmin_new_def
        admits_nobody_def room_config_from_def config_get_def config_getBool_def)
qed

theorem settings_survive_restart_witness:
  "\<exists>N n0 stop n dir C.
     node_start test_sodium (\<lambda>_. 0) (\<lambda>_. None) \<lparr>os_write = (\<lambda>_. Written), os_mayStep = (\<lambda>_. True)\<rparr> (\<lambda>_. None) (\<lambda>_. 0)
       True True True True (\<lambda>_ _. Some ((sx_new sx1262_options_default params_default)\<lparr>sx_device := Some ()\<rparr>))
       1700000000 1 ''meshcore.json'' test_files = Some (N, n0)
   \<and> node_run N (chip_device willing_chip) [(5, 1700000000, ()), (70000, 1700000070, ())] n0 = Some (stop, n)
   \<and> effective_config (\<lambda>_. None) ''meshcore.json'' (ha_files (nd_host n)) = Some (dir, ha_overlay (nd_host n), C)
   \<and> config_get ''node.name'' (ascii ''room'') C = ha_name (nd_host n)"
proof -
  let ?turns = "[(5, 1700000000, ()), (70000, 1700000070, ())]"
  let ?chip = "(sx_new sx1262_options_default params_default)\<lparr>sx_device := Some ()\<rparr> :: unit Sx1262Radio"
  obtain N n0 where st: "node_start test_sodium (\<lambda>_. 0) (\<lambda>_. None) \<lparr>os_write = (\<lambda>_. Written), os_mayStep = (\<lambda>_. True)\<rparr> (\<lambda>_. None) (\<lambda>_. 0)
       True True True True (\<lambda>_ _. Some ?chip) 1700000000 1 ''meshcore.json'' test_files = Some (N, n0)"
      "\<not> ha_thrown (nd_host n0)" "admits_nobody (room_of (nd_world n0))" using test_start [of "\<lambda>_. None" ?chip] by blast
  obtain stop n where run: "node_run N (chip_device willing_chip) ?turns n0 = Some (stop, n)"
      "node_reach N (nd_world n0) (nd_world n)"
    using chip_hears.run_reach [where n = n0 and N = N and turns = ?turns and L = willing_chip, OF node_reach.booted] by blast
  have t: "\<not> ha_thrown (nd_host n)" using node_reach_nobody [OF run(2) st(3)] st(2) by simp
  have p: "operators_file ''meshcore.json''" by (simp add: operators_file_def suffix_def)
  show ?thesis using settings_survive_restart [OF p st(1) run(1) t] st(1) run(1) by metis
qed

end
