(* ===== verification/Node_Adverts.thy ===== *)
theory Node_Adverts
  imports Node_Runs
begin

text \<open>
  A node makes itself known: the advert it builds and floods is believed and remembered by whoever receives it. And what
  the composition root gets wrong: a copy that came through a repeater hides a neighbour, a shutdown that cannot save the
  contacts does not save the room, a text that is not UTF-8 ends the process, and half a hex digit passes as a byte.
\<close>

unbundle bit_operations_syntax

section \<open>Building and reading an advert\<close>

text \<open>What libsodium documents of a key pair: signatures are 64 bytes long and verify under the public key.\<close>

definition signs_for :: "sodium \<Rightarrow> KeyPair \<Rightarrow> bool" where
  "signs_for S kp \<longleftrightarrow> length (kp_pk kp) = PACKET_PUBLIC_KEY_SIZE
     \<and> (\<forall>m. length (crypto_sign_detached S (kp_sk kp) m) = PACKET_SIGNATURE_SIZE
            \<and> crypto_sign_verify_detached S (kp_pk kp) m (crypto_sign_detached S (kp_sk kp) m))"

definition own_advert :: "sodium \<Rightarrow> KeyPair \<Rightarrow> u32 \<Rightarrow> bytes \<Rightarrow> Advert" where
  "own_advert S kp timestamp appdata =
     (let blank = \<lparr>adv_publicKey = kp_pk kp, adv_timestamp = timestamp, adv_signature = replicate 64 0, adv_appdata = appdata\<rparr>
      in blank\<lparr>adv_signature := crypto_sign_detached S (kp_sk kp) (signedMessage blank MAX_PACKET_PAYLOAD)\<rparr>)"

lemma advert_type_ok: "type_ok ADVERT"
  by (simp add: type_ok_def payloadType_of_def)

lemma flood_frame:
  assumes "length pl \<le> MAX_PACKET_PAYLOAD"
  shows "buildFrame ADVERT pl False [] = [push_bit 2 (payloadType_code ADVERT) OR routeType_code FLOOD, 0] @ pl"
proof -
  let ?q = "built_packet ADVERT pl False []"
  note q = built_packet_fields [OF advert_type_ok, of "[]" pl False]
  have "serialize ?q MAX_PACKET_FRAME = Some (frame_of ?q)"
    using q(1) length_frame_of [of ?q] by (simp add: serialize_wf wf_packet_def)
  then have "buildFrame ADVERT pl False [] = frame_of ?q" by (simp add: buildFrame_def built_packet_def Let_def)
  moreover have "pathView ?q = []" "payloadView ?q = pl" using q(5,6) assms by simp_all
  moreover have "code_bytes ?q = []" using q(4) by (simp add: code_bytes_def hasTransportCodes_def)
  ultimately show ?thesis by (simp add: frame_of_def built_packet_def Let_def)
qed

lemma flood_parse:
  assumes "length pl \<le> MAX_PACKET_PAYLOAD"
  shows "\<exists>p. parse ([push_bit 2 (payloadType_code ADVERT) OR routeType_code FLOOD, 0] @ pl) = Some p
    \<and> payloadType p = ADVERT \<and> payloadView p = pl \<and> hopCount p = 0"
  using flood_frame [OF assms] buildFrame_parse [OF advert_type_ok, of "[]" pl False]
    built_packet_fields [OF advert_type_ok, of "[]" pl False] assms
  by (auto simp: built_packet_def Let_def)

lemma buildAdvertPayload_encodes:
  assumes "signs_for S (store_self st)" "length (advert_appdata name type location) \<le> 84"
  shows "encodeAdvert (own_advert S (store_self st) timestamp (advert_appdata name type location)) MAX_PACKET_PAYLOAD
      = Some (buildAdvertPayload S st timestamp name type location)"
proof -
  let ?app = "advert_appdata name type location" let ?kp = "store_self st"
  let ?blank = "\<lparr>adv_publicKey = kp_pk ?kp, adv_timestamp = timestamp, adv_signature = replicate 64 0, adv_appdata = ?app\<rparr>"
  let ?pl = "kp_pk ?kp @ writeUint32 timestamp @ replicate 64 0 @ ?app"
  have len: "length (kp_pk ?kp) = 32" "length ?pl \<le> 184" using assms by (simp_all add: signs_for_def)
  have e: "encodeAdvert ?blank MAX_PACKET_PAYLOAD = Some ?pl" using len assms(2) by (simp add: encodeAdvert_def)
  obtain p where p: "parse ([push_bit 2 (payloadType_code ADVERT) OR routeType_code FLOOD, 0] @ ?pl) = Some p"
      "payloadType p = ADVERT" "payloadView p = ?pl" using flood_parse [OF len(2)] by blast
  have "signedMessage ?blank MAX_PACKET_PAYLOAD \<noteq> []" using len assms(2) by (auto simp: signedMessage_def)
  then have "packetSign S (kp_sk ?kp) ([push_bit 2 (payloadType_code ADVERT) OR routeType_code FLOOD, 0] @ ?pl)
      = crypto_sign_detached S (kp_sk ?kp) (signedMessage ?blank MAX_PACKET_PAYLOAD)"
    using p decodeAdvert_encodeAdvert [OF e] by (simp add: packetSign_def sign_def Let_def)
  then have "buildAdvertPayload S st timestamp name type location
      = memcpy ?pl 36 (crypto_sign_detached S (kp_sk ?kp) (signedMessage ?blank MAX_PACKET_PAYLOAD))"
    unfolding buildAdvertPayload_def Let_def using e by simp
  then show ?thesis using len assms by (simp add: encodeAdvert_def own_advert_def Let_def memcpy_def signs_for_def)
qed

lemma own_advert_simps [simp]:
  "adv_publicKey (own_advert S kp ts app) = kp_pk kp" "adv_timestamp (own_advert S kp ts app) = ts"
  "adv_appdata (own_advert S kp ts app) = app"
  by (simp_all add: own_advert_def Let_def)

text \<open>A frame that carries the advert is believed, whatever hops it has collected.\<close>

lemma own_advert_verifies:
  assumes "signs_for S kp" "length app \<le> 84" "parse frame = Some p" "payloadType p = ADVERT"
    and "decodeAdvert (payloadView p) = Some (own_advert S kp ts app)"
  shows "packetVerify S frame"
proof -
  let ?a = "own_advert S kp ts app"
  have "signedMessage ?a MAX_PACKET_PAYLOAD = signedMessage (?a\<lparr>adv_signature := replicate 64 0\<rparr>) MAX_PACKET_PAYLOAD"
    "signedMessage ?a MAX_PACKET_PAYLOAD \<noteq> []"
    using assms(1,2) by (auto simp: signedMessage_def signs_for_def)
  then show ?thesis using assms by (simp add: packetVerify_def Let_def verify_def own_advert_def signs_for_def)
qed

lemma appendInt32_eq: "appendInt32 out v = out @ writeUint32 v"
  by (simp add: appendInt32_def writeUint32_def)

lemma applyAppdata_own:
  "applyAppdata c (advert_appdata name (advertisedAs t) location) =
    c\<lparr>con_type := advertisedAs t, con_hasLocation := loc_known location,
      con_latitude := (if loc_known location then loc_latitude location else 0),
      con_longitude := (if loc_known location then loc_longitude location else 0), con_name := take MAX_CONTACT_NAME name\<rparr>"
proof -
  have cut: "take (min (length name) 64) name = take 64 name" by (simp add: min_def)
  have r1: "readUint32 (f # writeUint32 a @ post) (Suc 0) = a" for f a post using readUint32_at [of "[f]" 1 a post] by simp
  have r2: "readUint32 (f # writeUint32 a @ writeUint32 b @ post) 5 = b" for f a b post
    using readUint32_at [of "f # writeUint32 a" 5 b post] by simp
  have "advertisedAs t = 2 \<or> advertisedAs t = 3" by (simp add: advertisedAs_def)
  then show ?thesis
    by (elim disjE; cases "loc_known location"; cases "name = []")
      (simp_all add: applyAppdata_def advert_appdata_def Let_def appendInt32_eq subspan_def r1 r2 r1 [where post = "[]", simplified]
        r2 [where post = "[]", simplified] cut)
qed

section \<open>Being remembered\<close>

text \<open>The frame carries this advert, however many hops it came through.\<close>

definition carries_advert :: "sodium \<Rightarrow> Store \<Rightarrow> u32 \<Rightarrow> bytes \<Rightarrow> NodeType \<Rightarrow> Location \<Rightarrow> bytes \<Rightarrow> byte \<Rightarrow> bool" where
  "carries_advert S sender ts name type location frame hops \<longleftrightarrow>
     (case parse frame of None \<Rightarrow> False
      | Some p \<Rightarrow> payloadType p = ADVERT \<and> payloadView p = buildAdvertPayload S sender ts name type location \<and> hopCount p = hops)"

lemma rv_publish_store [simp]: "rt_store (rv_world (rv_publish t s v)) = rt_store (rv_world v)"
  by (simp add: rv_publish_def split: option.split)

lemma rememberIfAdvert_store:
  assumes "signs_for S (store_self sender)" "length (advert_appdata name type location) \<le> 84"
    and "carries_advert S sender ts name type location frame hops"
    and "kp_pk (store_self sender) \<noteq> kp_pk (store_self (rt_store (rv_world v)))"
  shows "rt_store (rv_world (rememberIfAdvert S wall frame meta v)) =
    noteHeard (kp_pk (store_self sender)) wall (of_int (snr meta)) hops
      (snd (remember (own_advert S (store_self sender) ts (advert_appdata name type location)) (rt_store (rv_world v))))"
proof -
  let ?a = "own_advert S (store_self sender) ts (advert_appdata name type location)"
  obtain p where p: "parse frame = Some p" "payloadType p = ADVERT" "hopCount p = hops"
      "payloadView p = buildAdvertPayload S sender ts name type location"
    using assms(3) by (auto simp: carries_advert_def split: option.splits)
  have d: "decodeAdvert (payloadView p) = Some ?a"
    using decodeAdvert_encodeAdvert [OF buildAdvertPayload_encodes [OF assms(1,2)]] p(4) by simp
  have "packetVerify S frame" by (rule own_advert_verifies [OF assms(1,2) p(1,2) d])
  then show ?thesis using p d assms(4) by (simp add: rememberIfAdvert_def Let_def split: prod.split)
qed

lemma advert_known:
  assumes "contacts_ok st" "length (adv_publicKey a) = PACKET_PUBLIC_KEY_SIZE"
    and "\<And>c. contact_map st (adv_publicKey a) = Some c \<Longrightarrow> con_timestamp c < adv_timestamp a"
  shows "\<exists>c. contact_map (snd (remember a st)) (adv_publicKey a) = Some (contact_of c a) \<and> contacts_ok (snd (remember a st))"
  by (rule remember_cases [OF assms(1), of a]) (use assms(2,3) in \<open>auto simp: not_le [symmetric]\<close>)

lemma encodeAdvert_length: "encodeAdvert a n = Some bs \<Longrightarrow> length bs \<le> MAX_PACKET_PAYLOAD"
  by (auto simp: encodeAdvert_def Let_def split: if_splits)

lemma reindex_self: "store_self (reindex st) = store_self st"
proof -
  have "store_self (fold indexContact is s) = store_self s" for "is" s
    by (induction "is" arbitrary: s) (simp_all add: indexContact_def Let_def)
  then show ?thesis by (simp add: reindex_def)
qed

lemma flood_carries:
  assumes "signs_for S (store_self sender)" "length (advert_appdata name type location) \<le> 84" "length hops \<le> MAX_HOP_COUNT"
  shows "carries_advert S sender ts name type location
     (buildFrame ADVERT (buildAdvertPayload S sender ts name type location) False hops) (of_nat (length hops))"
proof -
  let ?pl = "buildAdvertPayload S sender ts name type location"
  have "length ?pl \<le> 184" by (rule encodeAdvert_length [OF buildAdvertPayload_encodes [OF assms(1,2)]])
  then show ?thesis
    using buildFrame_parse [OF advert_type_ok assms(3), of ?pl False] built_packet_fields [OF advert_type_ok assms(3), of ?pl False]
    by (simp add: carries_advert_def) (simp add: built_packet_def Let_def)
qed

text \<open>
  C16. A node makes itself known. The advert a node builds, with a name that leaves its application data within 84 bytes, is handed to
  the radio as one frame that carries it. Every node of another key that receives a frame carrying it, over whatever hops, and
  whose store holds no advert of that key as new or newer, ends up with a contact under that key that has the name (cut to 64
  bytes), the type, the position if one was sent, and the time the sender put in, and when, how well and over how many hops it was
  heard.
\<close>

theorem advert_introduces_node:
  assumes "signs_for S (store_self sender)" "length (advert_appdata name (advertisedAs t) location) \<le> 84"
    and "carries_advert S sender ts name (advertisedAs t) location frame hops"
    and "contacts_ok (rt_store (rv_world v))"
    and "kp_pk (store_self sender) \<noteq> kp_pk (store_self (rt_store (rv_world v)))"
    and "\<forall>c. contact_map (rt_store (rv_world v)) (kp_pk (store_self sender)) = Some c \<longrightarrow> con_timestamp c < ts"
  shows "(\<exists>out. rt_air (sendFlood S ADVERT (buildAdvertPayload S sender ts name (advertisedAs t) location) u) = rt_air u @ [(out, NORMAL)]
        \<and> carries_advert S sender ts name (advertisedAs t) location out 0)
    \<and> (\<exists>c. contact_map (rt_store (rv_world (rememberIfAdvert S wall frame meta v))) (kp_pk (store_self sender)) = Some c
        \<and> con_name c = take MAX_CONTACT_NAME name \<and> con_type c = advertisedAs t \<and> con_timestamp c = ts
        \<and> con_hasLocation c = loc_known location
        \<and> (loc_known location \<longrightarrow> con_latitude c = loc_latitude location \<and> con_longitude c = loc_longitude location)
        \<and> con_lastHeard c = wall \<and> con_snr c = of_int (snr meta) \<and> con_hops c = hops)"
proof -
  let ?pl = "buildAdvertPayload S sender ts name (advertisedAs t) location" let ?pk = "kp_pk (store_self sender)"
  let ?a = "own_advert S (store_self sender) ts (advert_appdata name (advertisedAs t) location)"
  have "carries_advert S sender ts name (advertisedAs t) location (buildFrame ADVERT ?pl False []) 0"
    using flood_carries [OF assms(1,2), of "[]" ts] by simp
  then have "\<exists>out. rt_air (sendFlood S ADVERT ?pl u) = rt_air u @ [(out, NORMAL)] \<and> carries_advert S sender ts name (advertisedAs t) location out 0"
    by (simp add: sendFlood_def)
  moreover obtain c where c: "contact_map (snd (remember ?a (rt_store (rv_world v)))) ?pk = Some (contact_of c ?a)"
      "contacts_ok (snd (remember ?a (rt_store (rv_world v))))"
    using advert_known [OF assms(4), of ?a] assms(1,6) by (auto simp: signs_for_def)
  ultimately show ?thesis
    using rememberIfAdvert_store [OF assms(1,2,3,5), of wall meta] noteHeard_ok(2) [OF c(2)] by (simp add: contact_of_def applyAppdata_own)
qed

text \<open>
  C38. A neighbour stops being one when a repeater passes its advert on: a node whose advert was just received off its own
  transmitter is a neighbour, and after the same advert has come in once more through another node it is not.
\<close>

theorem relayed_copy_hides_neighbour:
  assumes "signs_for S (store_self sender)" "length (advert_appdata name (advertisedAs t) location) \<le> 84"
    and "carries_advert S sender ts name (advertisedAs t) location direct 0"
    and "carries_advert S sender ts name (advertisedAs t) location relayed hops" "hops \<noteq> 0"
    and "contacts_ok (rt_store (rv_world v))"
    and "kp_pk (store_self sender) \<noteq> kp_pk (store_self (rt_store (rv_world v)))"
    and "\<forall>c. contact_map (rt_store (rv_world v)) (kp_pk (store_self sender)) = Some c \<longrightarrow> con_timestamp c < ts"
    and "wall \<noteq> 0"
  shows "let v1 = rememberIfAdvert S wall direct meta v; v2 = rememberIfAdvert S wall' relayed meta' v1;
           pk = kp_pk (store_self sender)
         in (\<exists>c. contact_map (rt_store (rv_world v1)) pk = Some c \<and> isNeighbour c)
          \<and> (\<exists>c. contact_map (rt_store (rv_world v2)) pk = Some c \<and> \<not> isNeighbour c)"
proof -
  let ?a = "own_advert S (store_self sender) ts (advert_appdata name (advertisedAs t) location)"
  let ?pk = "kp_pk (store_self sender)" let ?st = "rt_store (rv_world v)"
  let ?v1 = "rememberIfAdvert S wall direct meta v" let ?st1 = "rt_store (rv_world ?v1)"
  obtain c where c: "contact_map (snd (remember ?a ?st)) ?pk = Some (contact_of c ?a)" "contacts_ok (snd (remember ?a ?st))"
    using advert_known [OF assms(6), of ?a] assms(1,8) by (auto simp: signs_for_def)
  have st1: "?st1 = noteHeard ?pk wall (of_int (snr meta)) 0 (snd (remember ?a ?st))"
    by (rule rememberIfAdvert_store [OF assms(1,2,3,7)])
  have ok1: "contacts_ok ?st1" unfolding st1 by (rule noteHeard_ok(1) [OF c(2)])
  have m1: "contact_map ?st1 ?pk = Some ((contact_of c ?a)\<lparr>con_lastHeard := wall, con_snr := of_int (snr meta), con_hops := 0\<rparr>)"
    using noteHeard_ok(2) [OF c(2)] c(1) st1 by simp
  have "store_self (snd (remember ?a ?st)) = store_self ?st"
    by (simp add: remember_def Let_def allocateSlot_def update_contact_def indexContact_def reindex_self split: option.split)
  then have self: "store_self ?st1 = store_self ?st" unfolding st1 by (simp add: noteHeard_def update_contact_def split: option.split)
  have stale: "remember ?a ?st1 = (STALE, ?st1)" using remember_known(1) [OF ok1, of ?a] m1 by simp
  have "rt_store (rv_world (rememberIfAdvert S wall' relayed meta' ?v1)) = noteHeard ?pk wall' (of_int (snr meta')) hops ?st1"
    using rememberIfAdvert_store [OF assms(1,2,4), of ?v1 wall' meta'] assms(7) self stale by simp
  then show ?thesis using m1 noteHeard_ok(2) [OF ok1] assms(5,9) by (simp add: Let_def isNeighbour_def)
qed

section \<open>Concrete adverts\<close>

definition hill_sender :: Store where
  "hill_sender = store_new\<lparr>store_self := \<lparr>kp_pk = replicate 32 1, kp_sk = replicate 32 1 @ replicate 32 1\<rparr>\<rparr>"

lemma hill_sender_signs: "signs_for test_sodium (store_self hill_sender)"
  by (auto simp: signs_for_def hill_sender_def test_sodium_def min_def)

definition hill_receiver :: Receiver where
  "hill_receiver = \<lparr>rv_world = router_new router_config_default store_new None (room_new room_config_default None
     (hostadmin_new [] (overlay_new ''o'') 0 (\<lambda>_. None) 0)), rv_spareBus = bus_new 1, rv_echoed = False\<rparr>"

lemma hill_receiver_simps: "rt_store (rv_world hill_receiver) = store_new"
  by (simp add: hill_receiver_def router_new_def)

definition nowhere :: Location where
  "nowhere = \<lparr>loc_known = False, loc_latitude = 0, loc_longitude = 0\<rparr>"

lemma test_appdata: "length (advert_appdata (ascii ''hilltop'') type nowhere) \<le> 84"
  by (simp add: advert_appdata_def nowhere_def ascii_def)

lemma test_unknown: "kp_pk (store_self hill_sender) \<noteq> kp_pk (store_self store_new)" "contact_map store_new k = None"
  by (simp_all add: hill_sender_def store_new_def contact_map_def replicate_eq_replicate)

theorem advert_introduces_node_witness:
  "\<exists>c. contact_map (rt_store (rv_world (rememberIfAdvert test_sodium 1700000000
       (buildFrame ADVERT (buildAdvertPayload test_sodium hill_sender 5 (ascii ''hilltop'') (advertisedAs ROOM) nowhere) False [9])
       rxmeta_init hill_receiver))) (replicate 32 1) = Some c \<and> con_name c = ascii ''hilltop'' \<and> con_hops c = 1"
proof -
  let ?f = "buildFrame ADVERT (buildAdvertPayload test_sodium hill_sender 5 (ascii ''hilltop'') (advertisedAs ROOM) nowhere) False [9]"
  have f: "carries_advert test_sodium hill_sender 5 (ascii ''hilltop'') (advertisedAs ROOM) nowhere ?f 1"
    using flood_carries [OF hill_sender_signs test_appdata, of "[9]"] by simp
  have "kp_pk (store_self hill_sender) = replicate 32 1" "take 64 (ascii ''hilltop'') = ascii ''hilltop''"
    by (simp_all add: hill_sender_def ascii_def)
  then show ?thesis
    using advert_introduces_node [OF hill_sender_signs test_appdata f, of hill_receiver "rv_world hill_receiver" 1700000000 rxmeta_init] test_unknown
    by (auto simp: hill_receiver_simps store_new_ok(1))
qed

theorem relayed_copy_hides_neighbour_witness:
  "\<exists>direct relayed. \<exists>c. contact_map (rt_store (rv_world (rememberIfAdvert test_sodium 1700000001 relayed rxmeta_init
       (rememberIfAdvert test_sodium 1700000000 direct rxmeta_init hill_receiver)))) (replicate 32 1) = Some c \<and> \<not> isNeighbour c"
proof -
  let ?pl = "buildAdvertPayload test_sodium hill_sender 5 (ascii ''hilltop'') (advertisedAs ROOM) nowhere"
  have d: "carries_advert test_sodium hill_sender 5 (ascii ''hilltop'') (advertisedAs ROOM) nowhere (buildFrame ADVERT ?pl False []) 0"
    and r: "carries_advert test_sodium hill_sender 5 (ascii ''hilltop'') (advertisedAs ROOM) nowhere (buildFrame ADVERT ?pl False [9]) 1"
    using flood_carries [OF hill_sender_signs test_appdata, of "[]"] flood_carries [OF hill_sender_signs test_appdata, of "[9]"] by simp_all
  have "kp_pk (store_self hill_sender) = replicate 32 1" by (simp add: hill_sender_def)
  then show ?thesis
    using relayed_copy_hides_neighbour [OF hill_sender_signs test_appdata d r, of hill_receiver 1700000000 rxmeta_init 1700000001 rxmeta_init]
      test_unknown by (auto simp: hill_receiver_simps store_new_ok(1) Let_def)
qed

section \<open>Stopping, and texts the host cannot take\<close>

text \<open>
  A shutdown that cannot save the contacts does not try to save the room: if the write of the contacts fails, the exit status
  says so and the room's file is as it was, even where writing it would have succeeded.
\<close>

theorem shutdown_skips_room:
  assumes "store_dir (rt_store (nd_world n)) \<noteq> []" "room_dir (room_of (nd_world n)) \<noteq> []"
    and "os_write (ns_os N) (ha_asked (nd_host n)) = Write_Fails" "os_write (ns_os N) (ha_asked (nd_host n) + 1) = Written"
  shows "let (status, n') = node_stop N n; file = room_dir (room_of (nd_world n)) @ ''/room.dat''
     in status = 1 \<and> ha_files (nd_host n') file = ha_files (nd_host n) file
      \<and> fst (flush_room N n') = True"
proof -
  let ?file = "room_dir (room_of (nd_world n)) @ ''/room.dat''"
  have "last ?file \<noteq> last (store_dir (rt_store (nd_world n)) @ ''/contacts.dat.tmp'')" by simp
  then have "?file \<noteq> store_dir (rt_store (nd_world n)) @ ''/contacts.dat.tmp''" by metis
  then show ?thesis using assms
    by (simp add: node_stop_def flush_store_def flush_room_def flush_outcome_def flush_def writeContacts_def room_flush_def
        writeState_def on_host_def on_world_def on_room_def Let_def)
qed

lemma map_insert_member: "(k, v) \<in> set (map_insert k v m)"
  by (induction k v m rule: map_insert.induct) auto

lemma unwritable_overlay:
  assumes "\<not> utf8_text v"
  shows "json_dump2 (JObject (map (apsnd JString) (map_insert k v m))) = None"
proof -
  let ?v = "JObject (map (apsnd JString) (map_insert k v m))"
  have "(k, JString v) \<in> set (map (apsnd JString) (map_insert k v m))" using map_insert_member [of k v m] by force
  then have "\<not> all_utf8 ?v" using assms by (force simp: utf8_scalar_values)
  moreover have "well_typed ?v" by auto
  ultimately show ?thesis by (simp only: json_dump2_def dump_text_exact) simp
qed

text \<open>
  C39. A name that is not UTF-8 ends the process: the JSON library throws on the text, the exception leaves the command
  (\<open>ha_thrown\<close>), and nothing is stored.
\<close>

theorem unwritable_name_ends_process:
  assumes "v \<noteq> []" "length v \<le> MAX_NODE_NAME" "\<not> utf8_text v"
  shows "let w' = set_name (node_surroundings S src config (Some (host_admin os))) dest v w
     in ha_thrown (host (room_of w')) \<and> ha_files (host (room_of w')) = ha_files (host (room_of w))"
  using assms unwritable_overlay [OF assms(3)] by (simp add: set_name_def Let_def ask_host_def host_admin_def ha_setNodeName_def
      ha_saveSetting_def overlay_set_def overlay_save_def on_room_def)

theorem unwritable_name_ends_process_witness:
  "let w = nd_world (idle_node ());
       w' = set_name (node_surroundings test_sodium (\<lambda>_. 0) router_config_default
         (Some (host_admin \<lparr>os_write = (\<lambda>_. Written), os_mayStep = (\<lambda>_. True)\<rparr>))) (replicate 32 2) [0x6D, 0xFF] w
   in ha_thrown (host (room_of w')) \<and> ha_files (host (room_of w')) = ha_files (host (room_of w))"
proof -
  have "\<not> utf8_text [0x6D, 0xFF]" unfolding utf8_scalar_values [symmetric] by (simp add: lead_simps)
  then show ?thesis unfolding Let_def by (intro unwritable_name_ends_process [unfolded Let_def]) simp_all
qed

text \<open>Half a digit is taken for a byte of a channel key: \<^verbatim>\<open>1g\<close> reads as 1.\<close>

theorem half_digit_key_accepted: "channel_key (concat (replicate 32 (ascii ''1g''))) = Some (replicate 32 1)"
proof -
  have scan: "scan_hex (Some 2) (cstr (49 # 103 # rest)) = Some 1" for rest
    by (simp add: cstr_def scan_hex_def is_space_def hex_value_def Let_def)
  have dr: "drop (i * 2) (concat (replicate n [a, b])) = concat (replicate (n - i) [a, b])" for i n and a b :: byte
  proof (induction i arbitrary: n)
    case (Suc i)
    then show ?case by (cases n) simp_all
  qed simp
  have all: "those (map (\<lambda>_. Some x) xs) = Some (replicate (length xs) x)" for x :: byte and xs :: "nat list"
    by (induction xs) simp_all
  have "map_option ucast (scan_hex (Some 2) (cstr (drop (i * 2) (concat (replicate 32 (ascii ''1g'')))))) = Some (1 :: byte)"
    if "i < 32" for i
  proof -
    have k: "32 - i = Suc (31 - i)" using that by simp
    have "concat (replicate (Suc (31 - i)) (ascii ''1g'')) = 49 # 103 # concat (replicate (31 - i) (ascii ''1g''))" by (simp add: ascii_def)
    moreover have "drop (i * 2) (concat (replicate 32 (ascii ''1g''))) = concat (replicate (32 - i) (ascii ''1g''))"
      using dr [of i 32 49 103] by (simp add: ascii_def)
    ultimately show ?thesis by (simp only: k scan) simp
  qed
  then have "channel_key (concat (replicate 32 (ascii ''1g''))) = those (map (\<lambda>_. Some 1) [0..<32])"
    unfolding channel_key_def by (intro arg_cong [where f = those] map_cong [OF refl]) (metis atLeastLessThan_iff set_upt)
  then show ?thesis by (simp only: all) simp
qed

end
