(* ===== verification/Radio_Module.thy ===== *)
theory Radio_Module
  imports MC_Prelude Float_Round "HOL-Library.Monad_Syntax" "HOL-Library.Sublist"
begin

text \<open>
  The bottom of the vendored RadioLib: the Raspberry Pi hardware layer \<^verbatim>\<open>hal/RPi/PiHal.h\<close> and the SPI half of \<^verbatim>\<open>Module.cpp\<close>.
  Below it is lgpio, which is not in the repository: it is a record of functions that answer each call from everything that was
  called before, so any hardware and any clock is such a record. The state keeps the calls made, with their answers.

  A call of the library gives \<open>None\<close> when it has no defined result: it waits for ever, or it reads outside an array.
  The result code of a call is an integer, 0 for \<^verbatim>\<open>RADIOLIB_ERR_NONE\<close>; an out parameter is an argument with its
  value before the call and part of the result.
\<close>

section \<open>lgpio\<close>

datatype lg_call =
    GpiochipOpen | GpiochipClose int | SpiOpen | SpiClose int
  | ClaimInput u32 | ClaimOutput u32 | GpioWrite u32 u32 | GpioRead u32 int
  | SleepMs u64 | SleepUs u64 | Timestamp u64 | SchedYield | SpiXfer bytes bytes

type_synonym history = "lg_call list"

record lgpio =
  lg_gpiochipOpen :: "history \<Rightarrow> int"
  lg_spiOpen :: "history \<Rightarrow> int"
  lg_gpioRead :: "history \<Rightarrow> u32 \<Rightarrow> int"
  lg_timestamp :: "history \<Rightarrow> u64"
  lg_spiXfer :: "history \<Rightarrow> bytes \<Rightarrow> nat \<Rightarrow> byte"

abbreviation (input) RADIOLIB_NC :: u32 where "RADIOLIB_NC \<equiv> 0xFFFFFFFF"
abbreviation (input) PI_MAX_USER_GPIO :: nat where "PI_MAX_USER_GPIO \<equiv> 31"

section \<open>State\<close>

text \<open>
  \<^verbatim>\<open>SPIConfig_t\<close>. Widths are in bytes, where the code keeps bits and divides by eight. \<^verbatim>\<open>checkStatusCb\<close> is never set by the
  modules a node is built with, and is left out.
\<close>

record SPIConfig =
  spi_stream :: bool
  spi_err :: int
  spi_read :: u16
  spi_write :: u16
  spi_nop :: u16
  spi_status :: u16
  width_addr :: nat
  width_cmd :: nat
  width_status :: nat
  spi_statusPos :: nat
  spi_parse :: "(byte \<Rightarrow> int) option"
  spi_timeout :: u64

definition spiConfig_default :: SPIConfig where
  "spiConfig_default =
     \<lparr>spi_stream = False, spi_err = - 1, spi_read = 0, spi_write = 0x80, spi_nop = 0, spi_status = 0, width_addr = 1,
      width_cmd = 0, width_status = 1, spi_statusPos = 0, spi_parse = None, spi_timeout = 1000\<rparr>"

text \<open>A row of the RF switch table: a mode and the level of each pin.\<close>

type_synonym RfSwitchMode = "byte \<times> u32 list"

record Module =
  gpioHandle :: int
  spiHandle :: int
  calls :: history
  csPin :: u32
  irqPin :: u32
  rstPin :: u32
  gpioPin :: u32
  rfSwitchPins :: "u32 list"
  rfSwitchTable :: "RfSwitchMode list"
  spiConfig :: SPIConfig

section \<open>The hardware layer\<close>

definition called :: "lg_call \<Rightarrow> 'a Module_scheme \<Rightarrow> 'a Module_scheme" where
  "called c d = d\<lparr>calls := calls d @ [c]\<rparr>"

definition spiBegin :: "lgpio \<Rightarrow> 'a Module_scheme \<Rightarrow> 'a Module_scheme" where
  "spiBegin G d = (if spiHandle d < 0 then called SpiOpen (d\<lparr>spiHandle := lg_spiOpen G (calls d)\<rparr>) else d)"

definition spiEnd :: "'a Module_scheme \<Rightarrow> 'a Module_scheme" where
  "spiEnd d = (if spiHandle d \<ge> 0 then called (SpiClose (spiHandle d)) (d\<lparr>spiHandle := - 1\<rparr>) else d)"

definition hal_init :: "lgpio \<Rightarrow> 'a Module_scheme \<Rightarrow> 'a Module_scheme" where
  "hal_init G d =
     (if gpioHandle d \<noteq> - 1 then d else
      let d = called GpiochipOpen (d\<lparr>gpioHandle := lg_gpiochipOpen G (calls d)\<rparr>) in
      if gpioHandle d < 0 then d else spiBegin G d)"

definition hal_term :: "'a Module_scheme \<Rightarrow> 'a Module_scheme" where
  "hal_term d = (let d = spiEnd d in (called (GpiochipClose (gpioHandle d)) d)\<lparr>gpioHandle := - 1\<rparr>)"

text \<open>\<^verbatim>\<open>pinFlags\<close> has one entry for each of 32 pins and is read without a check.\<close>

definition pinMode :: "u32 \<Rightarrow> bool \<Rightarrow> 'a Module_scheme \<Rightarrow> 'a Module_scheme option" where
  "pinMode pin output d =
     (if pin = RADIOLIB_NC then Some d else if unat pin > PI_MAX_USER_GPIO then None
      else Some (called (if output then ClaimOutput pin else ClaimInput pin) d))"

definition digitalWrite :: "u32 \<Rightarrow> u32 \<Rightarrow> 'a Module_scheme \<Rightarrow> 'a Module_scheme" where
  "digitalWrite pin level d = (if pin = RADIOLIB_NC then d else called (GpioWrite pin level) d)"

definition digitalRead :: "lgpio \<Rightarrow> u32 \<Rightarrow> 'a Module_scheme \<Rightarrow> u32 \<times> 'a Module_scheme" where
  "digitalRead G pin d =
     (if pin = RADIOLIB_NC then (0, d) else
      let result = lg_gpioRead G (calls d) pin in (of_int result, called (GpioRead pin result) d))"

definition hal_delay :: "u64 \<Rightarrow> 'a Module_scheme \<Rightarrow> 'a Module_scheme" where
  "hal_delay ms d = called (if ms = 0 then SchedYield else SleepMs ms) d"

definition delayMicroseconds :: "u64 \<Rightarrow> 'a Module_scheme \<Rightarrow> 'a Module_scheme" where
  "delayMicroseconds us d = called (if us = 0 then SchedYield else SleepUs us) d"

definition hal_yield :: "'a Module_scheme \<Rightarrow> 'a Module_scheme" where
  "hal_yield d = called SchedYield d"

text \<open>Both clocks are cut to 32 bits before they are returned as an \<^verbatim>\<open>unsigned long\<close> of 64.\<close>

definition hal_millis :: "lgpio \<Rightarrow> 'a Module_scheme \<Rightarrow> u64 \<times> 'a Module_scheme" where
  "hal_millis G d = (let t = lg_timestamp G (calls d) in (ucast (ucast (t div 1000000) :: u32), called (Timestamp t) d))"

definition hal_micros :: "lgpio \<Rightarrow> 'a Module_scheme \<Rightarrow> u64 \<times> 'a Module_scheme" where
  "hal_micros G d = (let t = lg_timestamp G (calls d) in (ucast (ucast (t div 1000) :: u32), called (Timestamp t) d))"

definition spiTransfer :: "lgpio \<Rightarrow> bytes \<Rightarrow> 'a Module_scheme \<Rightarrow> bytes \<times> 'a Module_scheme" where
  "spiTransfer G out d =
     (let buffIn = map (lg_spiXfer G (calls d) out) [0..<length out] in (buffIn, called (SpiXfer out buffIn) d))"

section \<open>SPI transfers\<close>

text \<open>\<^verbatim>\<open>Module::init\<close> and \<^verbatim>\<open>Module::term\<close>.\<close>

definition module_init :: "lgpio \<Rightarrow> 'a Module_scheme \<Rightarrow> 'a Module_scheme option" where
  "module_init G d = do { d \<leftarrow> pinMode (csPin d) True (hal_init G d); Some (digitalWrite (csPin d) 1 d) }"

definition module_term :: "'a Module_scheme \<Rightarrow> 'a Module_scheme" where
  "module_term d = hal_term d"

text \<open>The bytes of a number of \<open>n\<close> bytes, highest first, as the loops over a command or an address write them.\<close>

definition be_bytes :: "nat \<Rightarrow> u32 \<Rightarrow> bytes" where
  "be_bytes n v = map (\<lambda>i. ucast (drop_bit (8 * i) v)) (rev [0..<n])"

text \<open>The transfer itself, with the chip selected.\<close>

definition spi_exchange :: "lgpio \<Rightarrow> bytes \<Rightarrow> 'a Module_scheme \<Rightarrow> bytes \<times> 'a Module_scheme" where
  "spi_exchange G buffOut d =
     (let (buffIn, d) = spiTransfer G buffOut (digitalWrite (csPin d) 0 d) in (buffIn, digitalWrite (csPin d) 1 d))"

text \<open>The wait for the BUSY line, with a limit: whether the line was seen low.\<close>

partial_function (option) wait_gpio :: "lgpio \<Rightarrow> u64 \<Rightarrow> 'a Module_scheme \<Rightarrow> (bool \<times> 'a Module_scheme) option" where
  "wait_gpio G start d =
     (let (level, d) = digitalRead G (gpioPin d) d in
      if level = 0 then Some (True, d) else
      let (now, d) = hal_millis G (hal_yield d) in
      if now - start \<ge> spi_timeout (spiConfig d) then Some (False, d) else wait_gpio G start d)"

declare wait_gpio.simps [code]

definition wait_before :: "lgpio \<Rightarrow> bool \<Rightarrow> 'a Module_scheme \<Rightarrow> (bool \<times> 'a Module_scheme) option" where
  "wait_before G waitForGpio d =
     (if \<not> waitForGpio then Some (True, d) else
      if gpioPin d = RADIOLIB_NC then Some (True, hal_delay 50 d) else
      let (start, d) = hal_millis G d in wait_gpio G start d)"

definition wait_after :: "lgpio \<Rightarrow> bool \<Rightarrow> 'a Module_scheme \<Rightarrow> (bool \<times> 'a Module_scheme) option" where
  "wait_after G waitForGpio d =
     (if \<not> waitForGpio then Some (True, d) else
      if gpioPin d = RADIOLIB_NC then Some (True, hal_delay 1 d) else
      let (start, d) = hal_millis G (delayMicroseconds 1 d) in wait_gpio G start d)"

abbreviation (input) RADIOLIB_ERR_SPI_CMD_TIMEOUT :: int where "RADIOLIB_ERR_SPI_CMD_TIMEOUT \<equiv> - 705"

text \<open>What is sent: the command, then the data or as many no-operations as are to be read behind the status.\<close>

definition stream_out :: "SPIConfig \<Rightarrow> bytes \<Rightarrow> bool \<Rightarrow> bytes \<Rightarrow> nat \<Rightarrow> bytes" where
  "stream_out cfg cmd write dataOut numBytes =
     cmd @ (if write then take numBytes dataOut else replicate (numBytes + width_status cfg) (ucast (spi_nop cfg)))"

definition SPItransferStream ::
  "lgpio \<Rightarrow> bytes \<Rightarrow> bool \<Rightarrow> bytes \<Rightarrow> bytes \<Rightarrow> nat \<Rightarrow> bool \<Rightarrow> 'a Module_scheme \<Rightarrow> (int \<times> bytes \<times> 'a Module_scheme) option" where
  "SPItransferStream G cmd write dataOut dataIn numBytes waitForGpio d =
     do { (ready, d) \<leftarrow> wait_before G waitForGpio d;
          if \<not> ready then Some (RADIOLIB_ERR_SPI_CMD_TIMEOUT, dataIn, d) else do {
          let (buffIn, d) = spi_exchange G (stream_out (spiConfig d) cmd write dataOut numBytes) d;
          (ready, d) \<leftarrow> wait_after G waitForGpio d;
          let state = (if \<not> ready then RADIOLIB_ERR_SPI_CMD_TIMEOUT else
                       case spi_parse (spiConfig d) of None \<Rightarrow> 0
                       | Some parse \<Rightarrow> if numBytes > 0 then parse (buffIn ! spi_statusPos (spiConfig d)) else 0);
          Some (state,
                if write then dataIn else memcpy dataIn 0 (take numBytes (drop (length cmd + width_status (spiConfig d)) buffIn)),
                d) } }"

definition SPIreadStream :: "lgpio \<Rightarrow> bytes \<Rightarrow> bytes \<Rightarrow> nat \<Rightarrow> bool \<Rightarrow> 'a Module_scheme \<Rightarrow> (int \<times> bytes \<times> 'a Module_scheme) option" where
  "SPIreadStream G cmd data numBytes waitForGpio d = SPItransferStream G cmd False [] data numBytes waitForGpio d"

definition SPIwriteStream :: "lgpio \<Rightarrow> bytes \<Rightarrow> bytes \<Rightarrow> bool \<Rightarrow> 'a Module_scheme \<Rightarrow> (int \<times> 'a Module_scheme) option" where
  "SPIwriteStream G cmd data waitForGpio d =
     do { (state, _, d) \<leftarrow> SPItransferStream G cmd True data [] (length data) waitForGpio d; Some (state, d) }"

definition SPIcheckStream :: "lgpio \<Rightarrow> 'a Module_scheme \<Rightarrow> (int \<times> 'a Module_scheme) option" where
  "SPIcheckStream G d =
     do { let cmd = be_bytes (width_cmd (spiConfig d)) (ucast (spi_status (spiConfig d)));
          (state, status, d) \<leftarrow> SPItransferStream G cmd False [] [0] 1 True d;
          if state \<noteq> 0 then Some (state, d) else
          Some (state, case spi_parse (spiConfig d) of None \<Rightarrow> d
            | Some parse \<Rightarrow> d\<lparr>spiConfig := (spiConfig d)\<lparr>spi_err := parse (status ! 0)\<rparr>\<rparr>) }"

text \<open>The older register protocol, for modules without streams.\<close>

definition SPItransfer ::
  "lgpio \<Rightarrow> u16 \<Rightarrow> u32 \<Rightarrow> bytes \<Rightarrow> bytes \<Rightarrow> nat \<Rightarrow> 'a Module_scheme \<Rightarrow> bytes \<times> 'a Module_scheme" where
  "SPItransfer G cmd reg dataOut dataIn numBytes d =
     (let cfg = spiConfig d;
          head = (if width_addr cfg \<le> 1 then [ucast (reg OR ucast cmd)]
                  else [ucast (drop_bit 8 reg OR ucast cmd), ucast reg]);
          body = (if cmd = spi_write cfg then take numBytes dataOut else replicate numBytes (ucast (spi_nop cfg)));
          (buffIn, d) = spi_exchange G (head @ body) d
      in (if cmd = spi_read cfg then memcpy dataIn 0 (take numBytes (drop (width_addr cfg) buffIn)) else dataIn, d))"

definition reg_cmd :: "SPIConfig \<Rightarrow> u16 \<Rightarrow> u32 \<Rightarrow> bytes" where
  "reg_cmd cfg cmd reg = be_bytes (width_cmd cfg) (ucast cmd) @ be_bytes (width_addr cfg) reg"

definition SPIreadRegisterBurst ::
  "lgpio \<Rightarrow> u32 \<Rightarrow> nat \<Rightarrow> bytes \<Rightarrow> 'a Module_scheme \<Rightarrow> (bytes \<times> 'a Module_scheme) option" where
  "SPIreadRegisterBurst G reg numBytes inBytes d =
     (let cfg = spiConfig d in
      if \<not> spi_stream cfg then Some (SPItransfer G (spi_read cfg) reg [] inBytes numBytes d) else
      do { (_, inBytes, d) \<leftarrow> SPItransferStream G (reg_cmd cfg (spi_read cfg) reg) False [] inBytes numBytes True d;
           Some (inBytes, d) })"

definition SPIwriteRegisterBurst :: "lgpio \<Rightarrow> u32 \<Rightarrow> bytes \<Rightarrow> 'a Module_scheme \<Rightarrow> 'a Module_scheme option" where
  "SPIwriteRegisterBurst G reg data d =
     (let cfg = spiConfig d in
      if \<not> spi_stream cfg then Some (snd (SPItransfer G (spi_write cfg) reg data [] (length data) d)) else
      do { (_, _, d) \<leftarrow> SPItransferStream G (reg_cmd cfg (spi_write cfg) reg) True data [] (length data) True d; Some d })"

text \<open>The single-register forms are the burst forms at one byte.\<close>

definition SPIreadRegister :: "lgpio \<Rightarrow> u32 \<Rightarrow> 'a Module_scheme \<Rightarrow> (byte \<times> 'a Module_scheme) option" where
  "SPIreadRegister G reg d = do { (resp, d) \<leftarrow> SPIreadRegisterBurst G reg 1 [0] d; Some (resp ! 0, d) }"

definition SPIwriteRegister :: "lgpio \<Rightarrow> u32 \<Rightarrow> byte \<Rightarrow> 'a Module_scheme \<Rightarrow> 'a Module_scheme option" where
  "SPIwriteRegister G reg data d = SPIwriteRegisterBurst G reg [data] d"

section \<open>The RF switch\<close>

abbreviation (input) MODE_IDLE :: byte where "MODE_IDLE \<equiv> 1"
abbreviation (input) MODE_RX :: byte where "MODE_RX \<equiv> 2"
abbreviation (input) MODE_TX :: byte where "MODE_TX \<equiv> 3"

fun claim_outputs :: "u32 list \<Rightarrow> 'a Module_scheme \<Rightarrow> 'a Module_scheme option" where
  "claim_outputs [] d = Some d"
| "claim_outputs (pin # pins) d = do { d \<leftarrow> pinMode pin True d; claim_outputs pins d }"

definition setRfSwitchTable :: "u32 list \<Rightarrow> RfSwitchMode list \<Rightarrow> 'a Module_scheme \<Rightarrow> 'a Module_scheme option" where
  "setRfSwitchTable pins table d = claim_outputs pins (d\<lparr>rfSwitchPins := pins, rfSwitchTable := table\<rparr>)"

definition setRfSwitchPins :: "u32 \<Rightarrow> u32 \<Rightarrow> 'a Module_scheme \<Rightarrow> 'a Module_scheme option" where
  "setRfSwitchPins rxEn txEn d =
     setRfSwitchTable [rxEn, txEn, RADIOLIB_NC, RADIOLIB_NC, RADIOLIB_NC]
       [(MODE_IDLE, [0, 0, 0, 0, 0]), (MODE_RX, [1, 0, 0, 0, 0]), (MODE_TX, [0, 1, 0, 0, 0])] d"

definition findRfSwitchMode :: "byte \<Rightarrow> 'a Module_scheme \<Rightarrow> RfSwitchMode option" where
  "findRfSwitchMode mode d = find (\<lambda>row. fst row = mode) (rfSwitchTable d)"

fun write_pins :: "(u32 \<times> u32) list \<Rightarrow> 'a Module_scheme \<Rightarrow> 'a Module_scheme" where
  "write_pins [] d = d"
| "write_pins ((pin, value) # rest) d = write_pins rest (if bit pin 31 then d else digitalWrite pin value d)"

definition setRfSwitchState :: "byte \<Rightarrow> 'a Module_scheme \<Rightarrow> 'a Module_scheme" where
  "setRfSwitchState mode d =
     (case findRfSwitchMode mode d of None \<Rightarrow> d | Some row \<Rightarrow> write_pins (zip (rfSwitchPins d) (snd row)) d)"

end
