(* ===== verification/Sx126x_Commands.thy ===== *)
theory Sx126x_Commands
  imports Radio_Module
begin

text \<open>
  The SX126x driver of RadioLib, first part: the object's fields (\<^verbatim>\<open>SX126x.h\<close>), the commands of
  \<^verbatim>\<open>SX126x_commands.cpp\<close>, and from \<^verbatim>\<open>SX126x.cpp\<close> the reading of the status byte and the workarounds for the chip's known
  limitations that the commands call. Floating-point fields hold the number they stand for (\<open>Float_Round\<close>).
  \<open>checked\<close> is \<^verbatim>\<open>RADIOLIB_ASSERT\<close>: an error ends the function and is its result.
\<close>

section \<open>The object\<close>

datatype RadioMode = MODE_NONE_STAGED | MODE_RX_STAGED | MODE_TX_STAGED

text \<open>The settings of the two other modems, and the state of the LR-FHSS encoder.\<close>

record Gfsk =
  bitRate :: u32
  preambleDetLength :: byte
  crcTypeFSK :: byte
  syncWordLength :: byte
  whitening :: byte
  fsk_packetType :: byte
  preambleLengthFSK :: u16

record LrFhss =
  lrFhssCr :: byte
  lrFhssBw :: byte
  lrFhssHdrCount :: byte
  lrFhssSyncWord :: bytes
  lrFhssGridNonFcc :: bool
  lrFhssNgrid :: u16
  lrFhssLfsrState :: u16
  lrFhssPoly :: u16
  lrFhssSeed :: u16
  lrFhssHopSeqId :: u16
  lrFhssFrameBitsRem :: u64
  lrFhssFrameHopsRem :: u64
  lrFhssHopNum :: u64

record Sx126x = Module +
  standbyXOSC :: bool
  tcxoVoltage :: rat
  useRegulatorLDO :: bool
  resetOnStartup :: bool
  chipType :: bytes
  x_bandwidth :: byte
  freqMHz :: rat
  txMode :: byte
  x_spreadingFactor :: byte
  x_codingRate :: byte
  ldrOptimize :: byte
  crcTypeLoRa :: byte
  headerType :: byte
  preambleLengthLoRa :: u16
  bandwidthKhz :: rat
  ldroAuto :: bool
  tcxoDelay :: u32
  x_pwr :: byte
  dio2RfSwitch :: bool
  implicitLen :: nat
  invertIQEnabled :: byte
  rxTimeout :: u32
  stagedMode :: RadioMode
  fsk :: Gfsk
  lr :: LrFhss

text \<open>A call on the object, with the object last.\<close>

type_synonym 'a run = "Sx126x \<Rightarrow> ('a \<times> Sx126x) option"

definition checked :: "int run \<Rightarrow> int run \<Rightarrow> int run" where
  "checked f g d = do { (state, d) \<leftarrow> f d; if state \<noteq> 0 then Some (state, d) else g d }"

abbreviation (input) done_ok :: "int run" where "done_ok \<equiv> \<lambda>d. Some (0, d)"

text \<open>Constructors: \<^verbatim>\<open>Module\<close>, \<^verbatim>\<open>PhysicalLayer\<close>, \<^verbatim>\<open>SX126x\<close> and \<^verbatim>\<open>SX1262\<close>, whose version register reads SX1261.\<close>

definition sx1262_new :: "u32 \<Rightarrow> u32 \<Rightarrow> u32 \<Rightarrow> u32 \<Rightarrow> Sx126x" where
  "sx1262_new cs irq rst gpio =
     \<lparr>gpioHandle = - 1, spiHandle = - 1, calls = [], csPin = cs, irqPin = irq, rstPin = rst, gpioPin = gpio,
      rfSwitchPins = replicate 5 RADIOLIB_NC, rfSwitchTable = [], spiConfig = spiConfig_default,
      standbyXOSC = False, tcxoVoltage = float32 (16 / 10), useRegulatorLDO = False, resetOnStartup = True,
      chipType = [83, 88, 49, 50, 54, 49], x_bandwidth = 0, freqMHz = 0, txMode = MODE_TX, x_spreadingFactor = 0,
      x_codingRate = 0, ldrOptimize = 0, crcTypeLoRa = 0, headerType = 0, preambleLengthLoRa = 0, bandwidthKhz = 0,
      ldroAuto = True, tcxoDelay = 0, x_pwr = 0, dio2RfSwitch = False, implicitLen = 0,
      invertIQEnabled = 0, rxTimeout = 0, stagedMode = MODE_NONE_STAGED,
      fsk = \<lparr>bitRate = 0, preambleDetLength = 0, crcTypeFSK = 0, syncWordLength = 0, whitening = 0, fsk_packetType = 0,
        preambleLengthFSK = 0\<rparr>,
      lr = \<lparr>lrFhssCr = 1, lrFhssBw = 6, lrFhssHdrCount = 3, lrFhssSyncWord = [0x12, 0xAD, 0x10, 0x1B],
        lrFhssGridNonFcc = False, lrFhssNgrid = 0, lrFhssLfsrState = 0, lrFhssPoly = 0, lrFhssSeed = 0, lrFhssHopSeqId = 0,
        lrFhssFrameBitsRem = 0, lrFhssFrameHopsRem = 0, lrFhssHopNum = 0\<rparr>\<rparr>"

section \<open>The status byte\<close>

abbreviation (input) RADIOLIB_ERR_CHIP_NOT_FOUND :: int where "RADIOLIB_ERR_CHIP_NOT_FOUND \<equiv> - 2"
abbreviation (input) RADIOLIB_ERR_SPI_CMD_INVALID :: int where "RADIOLIB_ERR_SPI_CMD_INVALID \<equiv> - 706"
abbreviation (input) RADIOLIB_ERR_SPI_CMD_FAILED :: int where "RADIOLIB_ERR_SPI_CMD_FAILED \<equiv> - 707"

definition SPIparseStatus :: "byte \<Rightarrow> int" where
  "SPIparseStatus status =
     (if status AND 14 = 6 then RADIOLIB_ERR_SPI_CMD_TIMEOUT else if status AND 14 = 8 then RADIOLIB_ERR_SPI_CMD_INVALID else
      if status AND 14 = 10 then RADIOLIB_ERR_SPI_CMD_FAILED else
      if status = 0 \<or> status = 0xFF then RADIOLIB_ERR_CHIP_NOT_FOUND else 0)"

section \<open>Commands\<close>

text \<open>
  A command has a one-byte code (\<^verbatim>\<open>SPIwriteStream\<close> writes it at the configured width). Numbers go out highest byte first.
\<close>

definition cmd_code :: "u16 \<Rightarrow> Sx126x \<Rightarrow> bytes" where
  "cmd_code cmd d = be_bytes (width_cmd (spiConfig d)) (ucast cmd)"

definition write_cmd :: "lgpio \<Rightarrow> u16 \<Rightarrow> bytes \<Rightarrow> int run" where
  "write_cmd G cmd data d = SPIwriteStream G (cmd_code cmd d) data True d"

definition read_cmd :: "lgpio \<Rightarrow> u16 \<Rightarrow> bytes \<Rightarrow> (int \<times> bytes) run" where
  "read_cmd G cmd data d =
     do { (state, data, d) \<leftarrow> SPIreadStream G (cmd_code cmd d) data (length data) True d; Some ((state, data), d) }"

definition calibrate :: "lgpio \<Rightarrow> byte \<Rightarrow> int run" where
  "calibrate G params = write_cmd G 0x89 [params]"

definition sleep :: "lgpio \<Rightarrow> bool \<Rightarrow> int run" where
  "sleep G retainConfig d =
     do { let d = setRfSwitchState MODE_IDLE d;
          (state, d) \<leftarrow> SPIwriteStream G (cmd_code 0x84 d) [if retainConfig then 4 else 0] False d;
          Some (state, hal_delay 1 d) }"

definition standby_mode :: "lgpio \<Rightarrow> byte \<Rightarrow> bool \<Rightarrow> int run" where
  "standby_mode G mode wakeup d =
     do { let d = setRfSwitchState MODE_IDLE d;
          d \<leftarrow> (if wakeup then do { (_, d) \<leftarrow> SPIwriteStream G (cmd_code 0 d) [] False d; Some d } else Some d);
          write_cmd G 0x80 [mode] d }"

definition standby :: "lgpio \<Rightarrow> int run" where
  "standby G d = standby_mode G (if standbyXOSC d then 1 else 0) True d"

definition setTx :: "lgpio \<Rightarrow> u32 \<Rightarrow> int run" where
  "setTx G timeout = write_cmd G 0x83 (be_bytes 3 timeout)"

definition setRx :: "lgpio \<Rightarrow> u32 \<Rightarrow> int run" where
  "setRx G timeout = write_cmd G 0x82 (be_bytes 3 timeout)"

definition setPaConfig :: "lgpio \<Rightarrow> byte \<Rightarrow> byte \<Rightarrow> byte \<Rightarrow> byte \<Rightarrow> int run" where
  "setPaConfig G paDutyCycle deviceSel hpMax paLut = write_cmd G 0x95 [paDutyCycle, hpMax, deviceSel, paLut]"

text \<open>Writing a register never reports an error.\<close>

definition writeRegister :: "lgpio \<Rightarrow> u16 \<Rightarrow> bytes \<Rightarrow> int run" where
  "writeRegister G addr data d = do { d \<leftarrow> SPIwriteRegisterBurst G (ucast addr) data d; Some (0, d) }"

definition readRegister :: "lgpio \<Rightarrow> u16 \<Rightarrow> bytes \<Rightarrow> (int \<times> bytes) run" where
  "readRegister G addr data d =
     do { (data, d) \<leftarrow> SPIreadRegisterBurst G (ucast addr) (length data) data d;
          (state, d) \<leftarrow> SPIcheckStream G d;
          Some ((state, data), d) }"

definition writeBuffer :: "lgpio \<Rightarrow> bytes \<Rightarrow> byte \<Rightarrow> int run" where
  "writeBuffer G data offset = SPIwriteStream G [0x0E, offset] data True"

definition readBuffer :: "lgpio \<Rightarrow> bytes \<Rightarrow> nat \<Rightarrow> byte \<Rightarrow> (int \<times> bytes) run" where
  "readBuffer G data numBytes offset d =
     do { (state, data, d) \<leftarrow> SPIreadStream G [0x1E, offset] data numBytes True d; Some ((state, data), d) }"

definition setDioIrqParams :: "lgpio \<Rightarrow> u16 \<Rightarrow> u16 \<Rightarrow> int run" where
  "setDioIrqParams G irqMask dio1Mask =
     write_cmd G 0x08 (be_bytes 2 (ucast irqMask) @ be_bytes 2 (ucast dio1Mask) @ [0, 0, 0, 0])"

abbreviation (input) IRQ_ALL :: u16 where "IRQ_ALL \<equiv> 0x43FF"

definition clearIrqStatus :: "lgpio \<Rightarrow> int run" where
  "clearIrqStatus G = write_cmd G 0x02 (be_bytes 2 (ucast IRQ_ALL))"

definition setRfFrequency :: "lgpio \<Rightarrow> u32 \<Rightarrow> int run" where
  "setRfFrequency G frf = write_cmd G 0x86 (be_bytes 4 frf)"

definition calibrateImage_raw :: "lgpio \<Rightarrow> bytes \<Rightarrow> int run" where
  "calibrateImage_raw G data = write_cmd G 0x98 data"

definition getPacketType :: "lgpio \<Rightarrow> byte run" where
  "getPacketType G d = do { ((_, data), d) \<leftarrow> read_cmd G 0x11 [0xFF] d; Some (data ! 0, d) }"

definition setTxParams :: "lgpio \<Rightarrow> byte \<Rightarrow> byte \<Rightarrow> int run" where
  "setTxParams G pwr rampTime d =
     do { (state, d) \<leftarrow> write_cmd G 0x8E [pwr, rampTime] d; Some (state, if state = 0 then d\<lparr>x_pwr := pwr\<rparr> else d) }"

text \<open>A symbol of 16 ms or longer turns the low data rate optimization on.\<close>

definition ldro_for :: "byte \<Rightarrow> rat \<Rightarrow> byte" where
  "ldro_for sf bw = (if float32 (2 ^ unat sf / bw) \<ge> 16 then 1 else 0)"

definition setModulationParams :: "lgpio \<Rightarrow> byte \<Rightarrow> byte \<Rightarrow> byte \<Rightarrow> byte \<Rightarrow> int run" where
  "setModulationParams G sf bw cr ldro d =
     (let d = d\<lparr>ldrOptimize := if ldroAuto d then ldro_for (x_spreadingFactor d) (bandwidthKhz d) else ldro\<rparr>
      in write_cmd G 0x8B [sf, bw, cr, ldrOptimize d] d)"

definition setPacketParamsFSK ::
  "lgpio \<Rightarrow> u16 \<Rightarrow> byte \<Rightarrow> byte \<Rightarrow> byte \<Rightarrow> byte \<Rightarrow> byte \<Rightarrow> byte \<Rightarrow> byte \<Rightarrow> int run" where
  "setPacketParamsFSK G preambleLen preambleDetectorLen crcType syncWordLen addrCmp whiten packType payloadLen =
     write_cmd G 0x8C (be_bytes 2 (ucast preambleLen)
       @ [preambleDetectorLen, syncWordLen, addrCmp, packType, payloadLen, crcType, whiten])"

definition setPacketParamsBPSK :: "lgpio \<Rightarrow> byte \<Rightarrow> u16 \<Rightarrow> u16 \<Rightarrow> u16 \<Rightarrow> int run" where
  "setPacketParamsBPSK G payloadLen rampUpDelay rampDownDelay payloadLenBits =
     checked (write_cmd G 0x8C [payloadLen])
       (writeRegister G 0x00F0 (be_bytes 2 (ucast rampUpDelay) @ be_bytes 2 (ucast rampDownDelay) @ be_bytes 2 (ucast payloadLenBits)))"

definition setBufferBaseAddress :: "lgpio \<Rightarrow> int run" where
  "setBufferBaseAddress G = write_cmd G 0x8F [0, 0]"

definition setRegulatorMode :: "lgpio \<Rightarrow> byte \<Rightarrow> int run" where
  "setRegulatorMode G mode = write_cmd G 0x96 [mode]"

definition getPacketStatus :: "lgpio \<Rightarrow> u32 run" where
  "getPacketStatus G d =
     do { ((_, data), d) \<leftarrow> read_cmd G 0x14 [0, 0, 0] d;
          Some (push_bit 16 (ucast (data ! 0)) OR push_bit 8 (ucast (data ! 1)) OR ucast (data ! 2), d) }"

definition getDeviceErrors :: "lgpio \<Rightarrow> u16 run" where
  "getDeviceErrors G d =
     do { ((_, data), d) \<leftarrow> read_cmd G 0x17 [0, 0] d; Some (push_bit 8 (ucast (data ! 0)) OR ucast (data ! 1), d) }"

definition clearDeviceErrors :: "lgpio \<Rightarrow> int run" where
  "clearDeviceErrors G = write_cmd G 0x07 [0, 0]"

definition getIrqFlags :: "lgpio \<Rightarrow> u32 run" where
  "getIrqFlags G d =
     do { ((_, data), d) \<leftarrow> read_cmd G 0x12 [0, 0] d; Some (push_bit 8 (ucast (data ! 0)) OR ucast (data ! 1), d) }"

section \<open>Known limitations of the chip\<close>

abbreviation (input) PACKET_TYPE_GFSK :: byte where "PACKET_TYPE_GFSK \<equiv> 0"
abbreviation (input) PACKET_TYPE_LORA :: byte where "PACKET_TYPE_LORA \<equiv> 1"
abbreviation (input) PACKET_TYPE_BPSK :: byte where "PACKET_TYPE_BPSK \<equiv> 2"
abbreviation (input) PACKET_TYPE_LR_FHSS :: byte where "PACKET_TYPE_LR_FHSS \<equiv> 3"

definition fixSensitivity :: "lgpio \<Rightarrow> int run" where
  "fixSensitivity G d =
     do { ((state, cfg), d) \<leftarrow> readRegister G 0x0889 [0] d;
          if state \<noteq> 0 then Some (state, d) else do {
          (modem, d) \<leftarrow> getPacketType G d;
          writeRegister G 0x0889
            [if modem = PACKET_TYPE_LORA \<and> \<bar>float32 (bandwidthKhz d - 500)\<bar> \<le> float32 (1 / 1000)
             then cfg ! 0 AND 0xFB else cfg ! 0 OR 0x04] d } }"

definition fixPaClamping :: "lgpio \<Rightarrow> bool \<Rightarrow> int run" where
  "fixPaClamping G enable d =
     do { ((state, cfg), d) \<leftarrow> readRegister G 0x08D8 [0] d;
          if state \<noteq> 0 then Some (state, d) else
          writeRegister G 0x08D8 [if enable then cfg ! 0 OR 0x1E else cfg ! 0 AND NOT 0x1E OR 0x08] d }"

definition fixInvertedIQ :: "lgpio \<Rightarrow> byte \<Rightarrow> int run" where
  "fixInvertedIQ G iqConfig d =
     do { ((state, cfg), d) \<leftarrow> readRegister G 0x0736 [0] d;
          if state \<noteq> 0 then Some (state, d) else
          writeRegister G 0x0736 [if iqConfig = 1 then cfg ! 0 AND 0xFB else cfg ! 0 OR 0x04] d }"

definition setPacketParams :: "lgpio \<Rightarrow> u16 \<Rightarrow> byte \<Rightarrow> byte \<Rightarrow> byte \<Rightarrow> byte \<Rightarrow> int run" where
  "setPacketParams G preambleLen crcType payloadLen hdrType invertIQ =
     checked (fixInvertedIQ G invertIQ)
       (write_cmd G 0x8C (be_bytes 2 (ucast preambleLen) @ [hdrType, payloadLen, crcType, invertIQ]))"

end
