(* ===== verification/Lr_Fhss.thy ===== *)
theory Lr_Fhss
  imports Sx126x_Commands
begin

text \<open>
  The LR-FHSS modem of the SX126x driver: \<^verbatim>\<open>SX126x_LR_FHSS.cpp\<close>, with the checksum of \<^verbatim>\<open>utils/CRC.cpp\<close> and the
  convolutional code of \<^verbatim>\<open>utils/ConvCode.cpp\<close>. A mesh node never selects this modem, but \<^verbatim>\<open>stageMode\<close> asks the chip which one is
  active. Arrays have their size, and an access outside one has no result. Bit counts stay far below 16 bits and are natural numbers.
\<close>

section \<open>Bits of an array\<close>

definition get_bits :: "bytes \<Rightarrow> nat \<Rightarrow> bool list option" where
  "get_bits A n = (if n \<le> 8 * length A then Some (map (\<lambda>k. bit (A ! (k div 8)) (7 - k mod 8)) [0..<n]) else None)"

definition put_bit :: "nat \<Rightarrow> bool \<Rightarrow> bytes \<Rightarrow> bytes option" where
  "put_bit k b A =
     (if k div 8 < length A
      then Some (A[k div 8 := if b then A ! (k div 8) OR push_bit (7 - k mod 8) 1 else A ! (k div 8) AND NOT (push_bit (7 - k mod 8) 1)])
      else None)"

fun put_bits :: "nat \<Rightarrow> bool list \<Rightarrow> bytes \<Rightarrow> bytes option" where
  "put_bits k [] A = Some A"
| "put_bits k (b # bs) A = do { A \<leftarrow> put_bit k b A; put_bits (Suc k) bs A }"

section \<open>Checksum and convolutional code\<close>

definition crc_shift :: "nat \<Rightarrow> u32 \<Rightarrow> u32 \<Rightarrow> u32" where
  "crc_shift width poly crc = (if bit crc (width - 1) then push_bit 1 crc XOR poly else push_bit 1 crc)"

definition crc_checksum :: "nat \<Rightarrow> u32 \<Rightarrow> u32 \<Rightarrow> u32 \<Rightarrow> bytes \<Rightarrow> u32" where
  "crc_checksum width poly init out buff =
     (foldl (\<lambda>crc b. (crc_shift width poly ^^ 8) (crc XOR push_bit (width - 8) (ucast b))) init buff XOR out)
       AND drop_bit (32 - width) 0xFFFFFFFF"

definition ConvCodeTable1_3 :: "u32 list" where
  "ConvCodeTable1_3 =
     [0x07347043, 0x61521625, 0x16256152, 0x70430734, 0x43703407, 0x25165261, 0x52612516, 0x34074370,
      0x70430734, 0x16256152, 0x61521625, 0x07347043, 0x34074370, 0x52612516, 0x25165261, 0x43703407]"

definition ConvCodeTable1_2 :: "u32 list" where
  "ConvCodeTable1_2 = [0x03122130, 0x21300312, 0x30211203, 0x12033021]"

definition conv_nibble :: "nat \<Rightarrow> nat \<Rightarrow> bool \<Rightarrow> u32" where
  "conv_nibble rate enc b =
     drop_bit ((3 - enc mod 4) * 8 + (if b then 0 else 4)) ((if rate = 2 then ConvCodeTable1_2 else ConvCodeTable1_3) ! (enc div 4))
       AND 0x0F"

definition conv_bytes :: "nat \<Rightarrow> u32 \<Rightarrow> bytes" where
  "conv_bytes rate w = (if rate = 3 then [ucast (drop_bit 16 w)] else []) @ [ucast (drop_bit 8 w), ucast w]"

fun conv_encode :: "nat \<Rightarrow> nat \<Rightarrow> nat \<Rightarrow> u32 \<Rightarrow> bool list \<Rightarrow> bytes \<times> nat" where
  "conv_encode rate i enc w [] = (if i mod 8 \<noteq> 0 then conv_bytes rate w else [], enc)"
| "conv_encode rate i enc w (b # bs) =
     (let w = w OR push_bit ((7 - i mod 8) * rate) (conv_nibble rate enc b);
          enc = (enc * 2 + (if b then 1 else 0)) mod (if rate = 2 then 16 else 64)
      in if i mod 8 = 7 then let (out, enc) = conv_encode rate (Suc i) enc 0 bs in (conv_bytes rate w @ out, enc)
         else conv_encode rate (Suc i) enc w bs)"

section \<open>The packet\<close>

abbreviation (input) LR_FHSS_HEADER_BITS :: nat where "LR_FHSS_HEADER_BITS \<equiv> 114"
abbreviation (input) LR_FHSS_FRAG_BITS :: nat where "LR_FHSS_FRAG_BITS \<equiv> 48"
abbreviation (input) LR_FHSS_BLOCK_BITS :: nat where "LR_FHSS_BLOCK_BITS \<equiv> 50"

definition LrFhssHeaderInterleaver :: "nat list" where
  "LrFhssHeaderInterleaver =
     [0, 18, 36, 54, 72, 4, 22, 40, 58, 76, 8, 26, 44, 62, 12, 30, 48, 66, 16, 34, 52, 70, 1, 19, 37, 55, 73, 5, 23, 41, 59, 77,
      9, 27, 45, 63, 13, 31, 49, 67, 17, 35, 53, 71, 2, 20, 38, 56, 74, 6, 24, 42, 60, 78, 10, 28, 46, 64, 14, 32, 50, 68, 3, 21,
      39, 57, 75, 7, 25, 43, 61, 79, 11, 29, 47, 65, 15, 33, 51, 69]"

definition whiten_next :: "byte \<Rightarrow> byte" where
  "whiten_next lfsr =
     push_bit 1 lfsr OR (drop_bit 7 (lfsr AND 0x80) XOR (drop_bit 5 (lfsr AND 0x20) XOR (drop_bit 4 (lfsr AND 0x10) XOR drop_bit 3 (lfsr AND 0x08))))"

fun whiten :: "byte \<Rightarrow> bytes \<Rightarrow> bytes" where
  "whiten lfsr [] = []"
| "whiten lfsr (b # bs) =
     (let u = b XOR lfsr in (push_bit 4 (u AND 0x0F) OR drop_bit 4 (u AND 0xF0)) # whiten (whiten_next lfsr) bs)"

text \<open>Puncturing keeps the bits the matrix of the coding rate marks.\<close>

definition puncture_matrix :: "byte \<Rightarrow> bool list option" where
  "puncture_matrix cr =
     (let matrix = [True, True, False, False, True, False, True, False, False, False, True, False, True, False, False]
      in if cr = 0 then Some (take 15 matrix) else if cr = 1 then Some (take 6 matrix) else if cr = 2 then Some (take 3 matrix) else None)"

definition puncture :: "bool list \<Rightarrow> bool list \<Rightarrow> bool list" where
  "puncture matrix bits = map snd (filter (\<lambda>(i, b). matrix ! (i mod length matrix)) (enumerate 0 bits))"

text \<open>The order in which the interleaver visits the bits: strides of twice the rounded-up root of their number.\<close>

fun isqrt_up :: "nat \<Rightarrow> nat \<Rightarrow> nat \<Rightarrow> nat" where
  "isqrt_up 0 step n = step"
| "isqrt_up (Suc fuel) step n = (if step * step < n then isqrt_up fuel (Suc step) n else step)"

definition interleave_next :: "nat \<Rightarrow> nat \<Rightarrow> nat \<Rightarrow> nat \<times> nat \<times> nat \<Rightarrow> nat \<times> nat \<times> nat" where
  "interleave_next nb step step_v pq =
     (case pq of (pos, st_idx, st_idx_init) \<Rightarrow>
      let pos = pos + step in
      if pos \<ge> nb then
        let st_idx = st_idx + step_v; (st_idx, st_idx_init) = (if st_idx \<ge> step then (st_idx_init + 1, st_idx_init + 1) else (st_idx, st_idx_init))
        in (st_idx, st_idx, st_idx_init)
      else (pos, st_idx, st_idx_init))"

fun interleave_row :: "nat \<Rightarrow> nat \<Rightarrow> nat \<Rightarrow> bool list \<Rightarrow> nat \<Rightarrow> nat \<times> nat \<times> nat \<Rightarrow> nat \<Rightarrow> bytes \<Rightarrow> ((nat \<times> nat \<times> nat) \<times> bytes) option" where
  "interleave_row nb step step_v bits k pq 0 out = Some (pq, out)"
| "interleave_row nb step step_v bits k pq (Suc n) out =
     (if fst pq < length bits then do { out \<leftarrow> put_bit k (bits ! fst pq) out;
        interleave_row nb step step_v bits (Suc k) (interleave_next nb step step_v pq) n out } else None)"

text \<open>Rows of up to 48 bits, each behind two guard bits; \<open>bits\<close> are all those of the temporary array.\<close>

function interleave :: "nat \<Rightarrow> nat \<Rightarrow> nat \<Rightarrow> bool list \<Rightarrow> nat \<Rightarrow> nat \<Rightarrow> nat \<times> nat \<times> nat \<Rightarrow> bytes \<Rightarrow> (nat \<times> bytes) option" where
  "interleave nb step step_v bits left row pq out =
     (if left = 0 then Some (row, out) else
      let width = min left LR_FHSS_FRAG_BITS in
      do { out \<leftarrow> put_bits row [False, False] out;
           (pq, out) \<leftarrow> interleave_row nb step step_v bits (row + 2) pq width out;
           interleave nb step step_v bits (left - LR_FHSS_FRAG_BITS) (row + 2 + width) pq out })"
  by pat_completeness auto
termination
  by (relation "measure (\<lambda>(nb, step, step_v, bits, left, row, pq, out). left)") auto

declare interleave.simps [simp del]

definition lr_header :: "LrFhss \<Rightarrow> nat \<Rightarrow> nat \<Rightarrow> bytes" where
  "lr_header L len i =
     (let h3 = push_bit 4 (ucast (lrFhssHopSeqId L AND 0x000F) :: byte) AND NOT 0x0C OR push_bit 2 (lrFhssHdrCount L - of_nat i - 1);
          raw = [of_nat len,
                 push_bit 3 (lrFhssCr L) OR push_bit 2 (if lrFhssGridNonFcc L then 1 else 0) OR push_bit 1 1 OR drop_bit 3 (lrFhssBw L),
                 push_bit 5 (lrFhssBw L AND 0x07) OR ucast (drop_bit 4 (lrFhssHopSeqId L)),
                 h3]
      in raw @ [ucast (crc_checksum 8 0x2F 0xFF 0 raw)])"

text \<open>The code runs twice over the header, the second time from the state the first left.\<close>

definition lr_coded_header :: "bytes \<Rightarrow> bool list option" where
  "lr_coded_header raw =
     do { bits \<leftarrow> get_bits raw 40;
          let (_, enc) = conv_encode 2 0 0 0 bits;
          let (coded, _) = conv_encode 2 0 enc 0 bits;
          get_bits coded 80 }"

fun lr_headers :: "LrFhss \<Rightarrow> nat \<Rightarrow> nat \<Rightarrow> nat \<Rightarrow> bytes \<Rightarrow> bytes option" where
  "lr_headers L len i 0 out = Some out"
| "lr_headers L len i (Suc n) out =
     do { coded \<leftarrow> lr_coded_header (lr_header L len i);
          sync \<leftarrow> get_bits (lrFhssSyncWord L) 32;
          let base = i * LR_FHSS_HEADER_BITS;
          out \<leftarrow> put_bits base [False, False] out;
          out \<leftarrow> put_bits (base + 2) (map ((!) coded) (take 40 LrFhssHeaderInterleaver)) out;
          out \<leftarrow> put_bits (base + 2 + 40 + 32) (map ((!) coded) (drop 40 LrFhssHeaderInterleaver)) out;
          out \<leftarrow> put_bits (base + 2 + 40) sync out;
          lr_headers L len (Suc i) n out }"

definition lr_length_bits :: "byte \<Rightarrow> nat \<Rightarrow> nat" where
  "lr_length_bits cr len =
     (let n = (len + 2) * 8 + 6 in
      if cr = 0 then (n * 6 + 4) div 5 else if cr = 1 then n * 3 div 2 else if cr = 2 then n * 2 else if cr = 3 then n * 3 else n)"

text \<open>
  The payload, whitened and with its checksum, into the frame buffer of 255 bytes (where it must fit), then through the code into
  a temporary array of 608. Gives the frame, its length in bytes and bits, and the number of hops.
\<close>

definition buildLRFHSSPacket :: "LrFhss \<Rightarrow> bytes \<Rightarrow> (bytes \<times> nat \<times> nat \<times> nat) option" where
  "buildLRFHSSPacket L payload =
     (if length payload + 3 > 255 then None else
      let white = whiten 0xFF payload; crc = crc_checksum 16 0x755B 0xFFFF 0 white;
          in_bits = 8 * (length payload + 2) + 6;
          (coded, _) = conv_encode 3 0 0 0 (the (get_bits (white @ [ucast (drop_bit 8 crc), ucast crc, 0]) in_bits));
          tmp = coded @ replicate (608 - length coded) 0;
          row0 = LR_FHSS_HEADER_BITS * unat (lrFhssHdrCount L)
      in if length coded > 608 then None else do {
           (nb, out, tmp) \<leftarrow> (if lrFhssCr L = 3 then Some (3 * in_bits, replicate 255 0, tmp) else do {
              matrix \<leftarrow> puncture_matrix (lrFhssCr L);
              bits \<leftarrow> get_bits tmp (3 * in_bits);
              let kept = puncture matrix bits;
              out \<leftarrow> put_bits 0 kept (replicate 255 0);
              Some (length kept, out, memcpy tmp 0 (take ((length kept + 7) div 8) out)) });
           bits \<leftarrow> get_bits tmp (8 * 608);
           let step = isqrt_up nb 0 nb;
           (_, out) \<leftarrow> interleave nb (2 * step) (step div 2) bits nb row0 (0, 0, 0) out;
           out \<leftarrow> lr_headers L (length payload) 0 (unat (lrFhssHdrCount L)) out;
           let n = lr_length_bits (lrFhssCr L) (length payload);
           let out_bits = row0 + n div LR_FHSS_FRAG_BITS * LR_FHSS_BLOCK_BITS
             + (if n mod LR_FHSS_FRAG_BITS > 0 then n mod LR_FHSS_FRAG_BITS + 2 else 0);
           Some (out, (out_bits + 7) div 8, out_bits, (n + 47) div 48 + unat (lrFhssHdrCount L)) })"

section \<open>Hopping\<close>

abbreviation (input) RADIOLIB_ERR_INVALID_DATA_SHAPING :: int where "RADIOLIB_ERR_INVALID_DATA_SHAPING \<equiv> - 106"

text \<open>The tables are read before the sequence number is checked.\<close>

definition resetLRFHSS :: "LrFhss \<Rightarrow> (int \<times> LrFhss) option" where
  "resetLRFHSS L =
     (let numChan = [80, 176, 280, 376, 688, 792, 1480, 1584, 3120, 3224]; seq = unat (lrFhssHopSeqId L) in
      if unat (lrFhssBw L) \<ge> length numChan then None else
      let ngrid = numChan ! unat (lrFhssBw L) div (if lrFhssGridNonFcc L then 8 else 52) :: nat;
          L = L\<lparr>lrFhssNgrid := of_nat ngrid, lrFhssLfsrState := 6\<rparr> in
      if ngrid \<in> {10, 22, 28, 30, 35, 47, 60, 62} then
        (if seq div 64 \<ge> 6 then None else
         Some (if seq \<ge> 384 then RADIOLIB_ERR_INVALID_DATA_SHAPING else 0,
           L\<lparr>lrFhssLfsrState := if ngrid \<in> {60, 62} then 56 else 6,
             lrFhssPoly := [33, 45, 48, 51, 54, 57] ! (seq div 64), lrFhssSeed := lrFhssHopSeqId L AND 0x3F\<rparr>))
      else if ngrid \<in> {86, 99} then
        (if seq div 128 \<ge> 4 then None else
         Some (0, L\<lparr>lrFhssPoly := [65, 68, 71, 72] ! (seq div 128), lrFhssSeed := lrFhssHopSeqId L AND 0x7F\<rparr>))
      else if ngrid \<in> {185, 198} then
        (if seq div 256 \<ge> 2 then None else
         Some (0, L\<lparr>lrFhssPoly := [142, 149] ! (seq div 256), lrFhssSeed := lrFhssHopSeqId L AND 0xFF\<rparr>))
      else if ngrid \<in> {390, 403} then Some (0, L\<lparr>lrFhssPoly := 264, lrFhssSeed := lrFhssHopSeqId L\<rparr>)
      else Some (RADIOLIB_ERR_INVALID_DATA_SHAPING, L))"

definition lfsr_step :: "u16 \<Rightarrow> u16 \<Rightarrow> u16" where
  "lfsr_step poly state = (if bit state 0 then drop_bit 1 state XOR poly else drop_bit 1 state)"

partial_function (option) stepLRFHSS :: "LrFhss \<Rightarrow> (u16 \<times> LrFhss) option" where
  "stepLRFHSS L =
     (let state = lfsr_step (lrFhssPoly L) (lrFhssLfsrState L); L = L\<lparr>lrFhssLfsrState := state\<rparr>;
          hop = (if lrFhssSeed L \<noteq> state then lrFhssSeed L XOR state else lrFhssSeed L)
      in if hop > lrFhssNgrid L then stepLRFHSS L else Some (hop, L))"

declare stepLRFHSS.simps [code]

text \<open>The frequency word: \<^verbatim>\<open>freqMHz * 2^25 / 32\<close>, as an unsigned number.\<close>

definition frf_of :: "rat \<Rightarrow> u32" where
  "frf_of mhz = of_int (ftrunc (float32 (float32 (mhz * 2 ^ 25) / 32)))"

definition hop_frequency :: "rat \<Rightarrow> u16 \<Rightarrow> LrFhss \<Rightarrow> u32" where
  "hop_frequency mhz hop L =
     (let ngrid = lrFhssNgrid L; t = sint (hop - 1);
          t = (if t \<ge> sint (drop_bit 1 ngrid) then sint (of_int t - ngrid :: u16) else t);
          nb = (if lrFhssGridNonFcc L then 8 else 52) :: u32;
          offset = (1 + ucast ngrid mod 2) * (nb div 2);
          raw = frf_of mhz - of_int t * (if lrFhssGridNonFcc L then 4096 else 26624) - offset * 512;
          hdr = unat (lrFhssHdrCount L)
      in if unat (lrFhssHopNum L) < hdr \<and> (hdr - unat (lrFhssHopNum L)) mod 2 = 0 then raw + 256 else raw)"

definition setLRFHSSHop :: "lgpio \<Rightarrow> byte \<Rightarrow> int run" where
  "setLRFHSSHop G index d =
     (if lrFhssFrameHopsRem (lr d) = 0 then Some (0, d) else
      do { (hop, L) \<leftarrow> stepLRFHSS (lr d);
           let d = d\<lparr>lr := L\<rparr>;
           (state, d) \<leftarrow> writeRegister G (0x038A + ucast index * 6) (be_bytes 4 (hop_frequency (freqMHz d) hop L)) d;
           if state \<noteq> 0 then Some (state, d) else do {
           let numSymbols = (if index = 0 then 115 else if index < lrFhssHdrCount L then 114 else
             if lrFhssFrameBitsRem L < 50 then ucast (lrFhssFrameBitsRem L) else 50 :: u16);
           (state, d) \<leftarrow> writeRegister G (0x0388 + ucast index * 6) (be_bytes 2 (ucast numSymbols)) d;
           if state \<noteq> 0 then Some (state, d) else
           Some (0, d\<lparr>lr := L\<lparr>lrFhssFrameBitsRem := lrFhssFrameBitsRem L - ucast numSymbols,
             lrFhssFrameHopsRem := lrFhssFrameHopsRem L - 1, lrFhssHopNum := lrFhssHopNum L + 1\<rparr>\<rparr>) } })"

fun hop_skip :: "nat \<Rightarrow> LrFhss \<Rightarrow> LrFhss option" where
  "hop_skip 0 L = Some L"
| "hop_skip (Suc n) L = do { (_, L) \<leftarrow> stepLRFHSS L; hop_skip n L }"

fun hop_table :: "lgpio \<Rightarrow> nat \<Rightarrow> nat \<Rightarrow> int run" where
  "hop_table G i 0 = done_ok"
| "hop_table G i (Suc n) = checked (setLRFHSSHop G (of_nat i)) (hop_table G (Suc i) n)"

text \<open>The LR-FHSS branch of \<^verbatim>\<open>stageMode\<close>, from the reset of the hopping to the initial table.\<close>

definition stage_LRFHSS :: "lgpio \<Rightarrow> bytes \<Rightarrow> int run" where
  "stage_LRFHSS G payload d =
     do { (state, L) \<leftarrow> resetLRFHSS (lr d);
          if state \<noteq> 0 then Some (state, d\<lparr>lr := L\<rparr>) else do {
          L \<leftarrow> hop_skip (4 - unat (lrFhssHdrCount L)) L;
          (frame, frameLen, bitsRem, hopsRem) \<leftarrow> buildLRFHSSPacket L payload;
          let d = d\<lparr>lr := L\<lparr>lrFhssFrameBitsRem := of_nat bitsRem, lrFhssFrameHopsRem := of_nat hopsRem, lrFhssHopNum := 0\<rparr>\<rparr>;
          checked (writeBuffer G (take (frameLen mod 256) frame) 0)
            (checked (writeRegister G 0x0385 [1, of_nat frameLen, of_nat hopsRem])
              (hop_table G 0 (min (hopsRem mod 256) 16))) d } }"

end
