(* ===== verification/Sx126x_Modes.thy ===== *)
theory Sx126x_Modes
  imports Lr_Fhss
begin

text \<open>
  Receiving and transmitting with the SX126x: from \<^verbatim>\<open>SX126x.cpp\<close> staging and launching a mode, reading a packet, signal levels and the
  interrupt flags, and from \<^verbatim>\<open>PhysicalLayer.cpp\<close> what is common to all modules. These are the calls a mesh node makes while it runs.
\<close>

section \<open>Interrupts\<close>

text \<open>\<^verbatim>\<open>irqMap\<close>: the flag of the chip for each interrupt of the library, by its number.\<close>

definition irqMap :: "u32 list" where
  "irqMap = [1, 2, 4, 8, 16, 32, 64, 128, 256, 512]"

abbreviation (input) RADIOLIB_IRQ_TX_DONE :: nat where "RADIOLIB_IRQ_TX_DONE \<equiv> 0"
abbreviation (input) RADIOLIB_IRQ_RX_DONE :: nat where "RADIOLIB_IRQ_RX_DONE \<equiv> 1"

fun map_flags :: "nat \<Rightarrow> u32 list \<Rightarrow> u32 \<Rightarrow> u32" where
  "map_flags i [] irq = 0"
| "map_flags i (flag # flags) irq = (if bit irq i \<and> flag \<noteq> 0x1F then flag else 0) OR map_flags (Suc i) flags irq"

definition getIrqMapped :: "u32 \<Rightarrow> u32" where
  "getIrqMapped irq = map_flags 0 irqMap irq"

abbreviation (input) RADIOLIB_ERR_UNSUPPORTED :: int where "RADIOLIB_ERR_UNSUPPORTED \<equiv> - 25"

definition checkIrq :: "lgpio \<Rightarrow> nat \<Rightarrow> int run" where
  "checkIrq G irq d =
     (if irq > 9 \<or> irqMap ! irq = 0x1F then Some (RADIOLIB_ERR_UNSUPPORTED, d) else
      do { (flags, d) \<leftarrow> getIrqFlags G d; Some (if flags AND irqMap ! irq \<noteq> 0 then 1 else 0, d) })"

section \<open>Staging\<close>

abbreviation (input) MAX_SX126X_PACKET :: nat where "MAX_SX126X_PACKET \<equiv> 255"
abbreviation (input) RADIOLIB_ERR_UNKNOWN :: int where "RADIOLIB_ERR_UNKNOWN \<equiv> - 1"
abbreviation (input) RADIOLIB_ERR_PACKET_TOO_LONG :: int where "RADIOLIB_ERR_PACKET_TOO_LONG \<equiv> - 4"

definition fsk_packet_params :: "lgpio \<Rightarrow> byte \<Rightarrow> int run" where
  "fsk_packet_params G payloadLen d =
     setPacketParamsFSK G (preambleLengthFSK (fsk d)) (preambleDetLength (fsk d)) (crcTypeFSK (fsk d)) (syncWordLength (fsk d))
       0 (whitening (fsk d)) (fsk_packetType (fsk d)) payloadLen d"

definition lora_packet_params :: "lgpio \<Rightarrow> byte \<Rightarrow> int run" where
  "lora_packet_params G payloadLen d =
     setPacketParams G (preambleLengthLoRa d) (crcTypeLoRa d) payloadLen (headerType d) (invertIQEnabled d) d"

text \<open>
  The receive case of \<^verbatim>\<open>stageMode\<close>. The result of setting the packet parameters is not checked; it is returned at the end,
  behind the assignments that follow.
\<close>

definition rx_packet_params :: "lgpio \<Rightarrow> byte \<Rightarrow> int run" where
  "rx_packet_params G modem d =
     (if modem = PACKET_TYPE_LORA then lora_packet_params G (of_nat (implicitLen d)) d
      else fsk_packet_params G (if fsk_packetType (fsk d) = 0 then of_nat (implicitLen d) else 255) d)"

definition stage_rx :: "lgpio \<Rightarrow> u32 \<Rightarrow> u32 \<Rightarrow> u32 \<Rightarrow> nat \<Rightarrow> int run" where
  "stage_rx G timeout irqFlags irqMask len d =
     (let d = (if headerType d = 1 \<and> len \<noteq> 0 then d\<lparr>implicitLen := len\<rparr> else d);
          irqMask = (if timeout \<noteq> 0xFFFFFF then irqMask OR push_bit 9 1 else irqMask)
      in checked (standby G)
          (checked (setDioIrqParams G (ucast (getIrqMapped irqFlags)) (ucast (getIrqMapped irqMask)))
            (checked (setBufferBaseAddress G)
              (checked (clearIrqStatus G)
                (\<lambda>d. do { (modem, d) \<leftarrow> getPacketType G d;
                     if modem \<noteq> PACKET_TYPE_LORA \<and> modem \<noteq> PACKET_TYPE_GFSK then Some (RADIOLIB_ERR_UNKNOWN, d) else do {
                     (state, d) \<leftarrow> rx_packet_params G modem d;
                     Some (state, d\<lparr>rxTimeout := if timeout = 0xFFFFFFFF then 0xFFFFFF else timeout, stagedMode := MODE_RX_STAGED\<rparr>) } })))) d)"

text \<open>The packet parameters for a frame to send, by the modem that is active.\<close>

definition tx_packet_params :: "lgpio \<Rightarrow> byte \<Rightarrow> nat \<Rightarrow> int run" where
  "tx_packet_params G modem len d =
     (if modem = PACKET_TYPE_LORA then lora_packet_params G (of_nat len) d else
      if modem = PACKET_TYPE_GFSK then fsk_packet_params G (of_nat len) d else
      if modem = PACKET_TYPE_BPSK then
        setPacketParamsBPSK G (of_nat len) (if bitRate (fsk d) = 100 then 0x370F else 0x092F)
          (if bitRate (fsk d) = 100 then 0x1D70 else 0x04E1) (of_nat (8 * len)) d else
      if modem \<noteq> PACKET_TYPE_LR_FHSS then Some (RADIOLIB_ERR_UNKNOWN, d) else Some (0, d))"

definition stage_tx :: "lgpio \<Rightarrow> bytes \<Rightarrow> int run" where
  "stage_tx G frame d =
     (if length frame > MAX_SX126X_PACKET then Some (RADIOLIB_ERR_PACKET_TOO_LONG, d) else
      do { (modem, d) \<leftarrow> getPacketType G d;
           checked (tx_packet_params G modem (length frame))
             (checked (if modem \<noteq> PACKET_TYPE_LR_FHSS then setDioIrqParams G 0x201 0x001 else setDioIrqParams G 0x4001 0x4001)
               (checked (setBufferBaseAddress G)
                 (checked (if modem \<noteq> PACKET_TYPE_LR_FHSS then writeBuffer G frame 0 else stage_LRFHSS G frame)
                   (checked (clearIrqStatus G)
                     (checked (fixSensitivity G)
                       (\<lambda>d. Some (0, d\<lparr>stagedMode := MODE_TX_STAGED\<rparr>))))))) d })"

section \<open>Launching\<close>

text \<open>The wait for the end of the ramp-up has no limit.\<close>

partial_function (option) wait_ramp :: "lgpio \<Rightarrow> Sx126x \<Rightarrow> Sx126x option" where
  "wait_ramp G d =
     (let (level, d) = digitalRead G (gpioPin d) d in if level = 0 then Some d else wait_ramp G (hal_yield d))"

declare wait_ramp.simps [code]

definition launchMode :: "lgpio \<Rightarrow> int run" where
  "launchMode G d =
     (case stagedMode d of
        MODE_RX_STAGED \<Rightarrow>
          do { (state, d) \<leftarrow> setRx G (rxTimeout d) (setRfSwitchState MODE_RX d); Some (state, d\<lparr>stagedMode := MODE_NONE_STAGED\<rparr>) }
      | MODE_TX_STAGED \<Rightarrow>
          checked (setTx G 0) (\<lambda>d. do { d \<leftarrow> wait_ramp G d; Some (0, d\<lparr>stagedMode := MODE_NONE_STAGED\<rparr>) }) (setRfSwitchState (txMode d) d)
      | MODE_NONE_STAGED \<Rightarrow> Some (RADIOLIB_ERR_UNSUPPORTED, d))"

text \<open>Flags and mask of a reception: done, timeout, checksum error, header valid and header error; the pin rises for done.\<close>

definition startReceive :: "lgpio \<Rightarrow> int run" where
  "startReceive G = checked (stage_rx G 0xFFFFFF 0x272 0x002 0) (launchMode G)"

definition startTransmit :: "lgpio \<Rightarrow> bytes \<Rightarrow> int run" where
  "startTransmit G frame = checked (stage_tx G frame) (launchMode G)"

definition finishTransmit :: "lgpio \<Rightarrow> int run" where
  "finishTransmit G = checked (clearIrqStatus G) (standby G)"

section \<open>A received packet\<close>

text \<open>\<^verbatim>\<open>getPacketLength(update, offset)\<close>; the offset is asked for or not.\<close>

definition packetLength :: "lgpio \<Rightarrow> bool \<Rightarrow> (nat \<times> byte) run" where
  "packetLength G wantOffset d =
     do { (modem, d) \<leftarrow> getPacketType G d;
          if modem = PACKET_TYPE_LORA \<and> headerType d = 1 \<and> \<not> wantOffset then Some ((implicitLen d, 0), d) else do {
          ((_, status), d) \<leftarrow> read_cmd G 0x13 [0, 0] d;
          Some ((unat (status ! 0), status ! 1), d) } }"

definition getPacketLength :: "lgpio \<Rightarrow> nat run" where
  "getPacketLength G d = do { ((len, _), d) \<leftarrow> packetLength G False d; Some (len, d) }"

abbreviation (input) RADIOLIB_ERR_RX_TIMEOUT :: int where "RADIOLIB_ERR_RX_TIMEOUT \<equiv> - 6"
abbreviation (input) RADIOLIB_ERR_CRC_MISMATCH :: int where "RADIOLIB_ERR_CRC_MISMATCH \<equiv> - 7"

abbreviation (input) CHIP_IRQ_TIMEOUT :: u32 where "CHIP_IRQ_TIMEOUT \<equiv> 0x200"
abbreviation (input) CHIP_IRQ_CRC_ERR :: u32 where "CHIP_IRQ_CRC_ERR \<equiv> 0x40"
abbreviation (input) CHIP_IRQ_HEADER_ERR :: u32 where "CHIP_IRQ_HEADER_ERR \<equiv> 0x20"
abbreviation (input) CHIP_IRQ_HEADER_VALID :: u32 where "CHIP_IRQ_HEADER_VALID \<equiv> 0x10"

definition damaged :: "u32 \<Rightarrow> bool" where
  "damaged irq \<longleftrightarrow> irq AND CHIP_IRQ_CRC_ERR \<noteq> 0 \<or> (irq AND CHIP_IRQ_HEADER_ERR \<noteq> 0 \<and> irq AND CHIP_IRQ_HEADER_VALID = 0)"

text \<open>\<open>data\<close> is the caller's buffer, \<open>len\<close> what it may hold, with 0 for whatever was received.\<close>

definition readData :: "lgpio \<Rightarrow> bytes \<Rightarrow> nat \<Rightarrow> (int \<times> bytes) run" where
  "readData G data len d =
     do { (state, d) \<leftarrow> SPIcheckStream G d;
          (irq, d) \<leftarrow> getIrqFlags G d;
          if state = RADIOLIB_ERR_SPI_CMD_TIMEOUT \<and> irq AND CHIP_IRQ_TIMEOUT \<noteq> 0 then Some ((RADIOLIB_ERR_RX_TIMEOUT, data), d) else
          if state \<noteq> 0 then Some ((state, data), d) else do {
          ((got, offset), d) \<leftarrow> packetLength G True d;
          ((state, data), d) \<leftarrow> readBuffer G data (if len \<noteq> 0 \<and> len < got then len else got) offset d;
          if state \<noteq> 0 then Some ((state, data), d) else do {
          (state, d) \<leftarrow> clearIrqStatus G d;
          Some ((if damaged irq then RADIOLIB_ERR_CRC_MISMATCH else state, data), d) } } }"

section \<open>Signal levels\<close>

text \<open>Half a decibel and a quarter of one are exact in a \<^verbatim>\<open>float\<close>.\<close>

definition getRSSI :: "lgpio \<Rightarrow> rat run" where
  "getRSSI G d = do { (status, d) \<leftarrow> getPacketStatus G d; Some (- of_nat (unat (ucast status :: byte)) / 2, d) }"

definition getSNR :: "lgpio \<Rightarrow> rat run" where
  "getSNR G d =
     do { (modem, d) \<leftarrow> getPacketType G d;
          if modem \<noteq> PACKET_TYPE_LORA then Some (- 20, d) else do {
          (status, d) \<leftarrow> getPacketStatus G d;
          let snrPkt = unat (ucast (drop_bit 8 status) :: byte);
          Some (if snrPkt < 128 then of_nat snrPkt / 4 else (of_nat snrPkt - 256) / 4, d) } }"

end
