(* ===== verification/Sx126x_Config.thy ===== *)
theory Sx126x_Config
  imports Sx126x_Modes
begin

text \<open>
  Starting an SX1262: from \<^verbatim>\<open>SX126x.cpp\<close> reset, search for the chip and set-up, from \<^verbatim>\<open>SX126x_config.cpp\<close> the LoRa settings and from
  \<^verbatim>\<open>SX1262.cpp\<close> \<^verbatim>\<open>begin\<close>, frequency and power. The settings of the other modems are not modelled: a mesh node starts
  the chip in LoRa and never changes that.
\<close>

section \<open>Reset\<close>

partial_function (option) reset_verify :: "lgpio \<Rightarrow> u64 \<Rightarrow> Sx126x \<Rightarrow> (int \<times> Sx126x) option" where
  "reset_verify G start d =
     do { (state, d) \<leftarrow> standby G d;
          if state = 0 then Some (0, d) else
          let (now, d) = hal_millis G d in
          if now - start \<ge> 1000 then Some (state, d) else reset_verify G start (hal_delay 10 d) }"

declare reset_verify.simps [code]

definition reset :: "lgpio \<Rightarrow> bool \<Rightarrow> int run" where
  "reset G verify d =
     do { d \<leftarrow> pinMode (rstPin d) True d;
          let d = digitalWrite (rstPin d) 1 (hal_delay 1 (digitalWrite (rstPin d) 0 d));
          if \<not> verify then Some (0, d) else let (start, d) = hal_millis G d in reset_verify G start d }"

text \<open>Up to ten tries to read the version; \<^verbatim>\<open>strncmp\<close> stops at a zero byte.\<close>

definition version_matches :: "bytes \<Rightarrow> bytes \<Rightarrow> bool" where
  "version_matches verStr version \<longleftrightarrow> takeWhile (\<lambda>b. b \<noteq> 0) (take 6 verStr) = takeWhile (\<lambda>b. b \<noteq> 0) (take 6 version)"

fun findChip :: "lgpio \<Rightarrow> nat \<Rightarrow> bool run" where
  "findChip G 0 d = Some (False, d)"
| "findChip G (Suc tries) d =
     do { d \<leftarrow> (if resetOnStartup d then do { (_, d) \<leftarrow> reset G True d; Some d } else Some d);
          (version, d) \<leftarrow> SPIreadRegisterBurst G 0x0320 16 (replicate 16 0) d;
          if version_matches (chipType d) version then Some (True, d) else findChip G tries (hal_delay 10 d) }"

section \<open>Set-up\<close>

abbreviation (input) XOSC_START_ERR :: u16 where "XOSC_START_ERR \<equiv> 0x20"
abbreviation (input) RADIOLIB_ERR_INVALID_TCXO_VOLTAGE :: int where "RADIOLIB_ERR_INVALID_TCXO_VOLTAGE \<equiv> - 703"

text \<open>The voltages the oscillator supply can give, with their codes.\<close>

definition near :: "rat \<Rightarrow> rat \<Rightarrow> bool" where
  "near x y \<longleftrightarrow> \<bar>float32 (x - y)\<bar> \<le> float32 (1 / 1000)"

fun tcxo_code :: "rat \<Rightarrow> (rat \<times> byte) list \<Rightarrow> byte option" where
  "tcxo_code voltage [] = None"
| "tcxo_code voltage ((v, code) # rest) = (if near voltage (float32 v) then Some code else tcxo_code voltage rest)"

definition tcxo_table :: "(rat \<times> byte) list" where
  "tcxo_table = [(16 / 10, 0), (17 / 10, 1), (18 / 10, 2), (22 / 10, 3), (24 / 10, 4), (27 / 10, 5), (3, 6), (33 / 10, 7)]"

definition setTCXO :: "lgpio \<Rightarrow> rat \<Rightarrow> u32 \<Rightarrow> int run" where
  "setTCXO G voltage delay d =
     do { (_, d) \<leftarrow> standby G d;
          (errors, d) \<leftarrow> getDeviceErrors G d;
          d \<leftarrow> (if errors AND XOSC_START_ERR \<noteq> 0 then do { (_, d) \<leftarrow> clearDeviceErrors G d; Some d } else Some d);
          if near voltage 0 then reset G True d else
          case tcxo_code voltage tcxo_table of None \<Rightarrow> Some (RADIOLIB_ERR_INVALID_TCXO_VOLTAGE, d)
          | Some code \<Rightarrow>
            write_cmd G 0x97 (code # be_bytes 3 (of_int (ftrunc (float32 (float32 (of_nat (unat delay)) / (15625 / 1000))))))
              (d\<lparr>tcxoDelay := delay\<rparr>) }"

text \<open>The wait for the end of the calibration has no limit either; it is that of a transmission.\<close>

definition sx_config :: "lgpio \<Rightarrow> byte \<Rightarrow> int run" where
  "sx_config G modem d =
     checked (\<lambda>d. if resetOnStartup d then setBufferBaseAddress G d else Some (0, d))
      (checked (write_cmd G 0x8A [modem])
       (checked (\<lambda>d. write_cmd G 0x93 [if standbyXOSC d then 0x30 else 0x20] d)
        (checked (\<lambda>d. write_cmd G 0x88 [3, x_spreadingFactor d + 13, 10, 0, 0, 0, 0] d)
         (checked (\<lambda>d. do { (state, d) \<leftarrow> clearIrqStatus G d; (state', d) \<leftarrow> setDioIrqParams G 0 0 d; Some (state OR state', d) })
          (checked (calibrate G 0x7F)
           (\<lambda>d. do { d \<leftarrow> wait_ramp G (hal_delay 5 d); SPIcheckStream G d })))))) d"

definition setRegulator :: "lgpio \<Rightarrow> int run" where
  "setRegulator G d = setRegulatorMode G (if useRegulatorLDO d then 0 else 1) d"

definition set_spiConfig :: "SPIConfig \<Rightarrow> SPIConfig" where
  "set_spiConfig cfg = cfg\<lparr>spi_stream := True, spi_read := 0x1D, spi_write := 0x0D, spi_nop := 0, spi_status := 0xC0,
     width_addr := 2, width_cmd := 1, spi_statusPos := 1, spi_parse := Some SPIparseStatus\<rparr>"

text \<open>A failed configuration with the oscillator's error flag is tried once more with the crystal.\<close>

definition config_with_retry :: "lgpio \<Rightarrow> byte \<Rightarrow> int run" where
  "config_with_retry G modem d =
     do { (state, d) \<leftarrow> sx_config G modem d;
          if state = 0 then Some (0, d) else do {
          (_, d) \<leftarrow> standby G d;
          (errors, d) \<leftarrow> getDeviceErrors G d;
          if state = RADIOLIB_ERR_SPI_CMD_FAILED \<and> errors AND XOSC_START_ERR \<noteq> 0
          then checked (setTCXO G 0 5000) (sx_config G modem) (d\<lparr>tcxoVoltage := 0\<rparr>)
          else Some (state, d) } }"

definition modSetup :: "lgpio \<Rightarrow> byte \<Rightarrow> int run" where
  "modSetup G modem d =
     do { d \<leftarrow> module_init G d;
          d \<leftarrow> pinMode (irqPin d) False d;
          d \<leftarrow> pinMode (gpioPin d) False d;
          (found, d) \<leftarrow> findChip G 10 (d\<lparr>spiConfig := set_spiConfig (spiConfig d)\<rparr>);
          if \<not> found then Some (RADIOLIB_ERR_CHIP_NOT_FOUND, module_term d) else
          checked (\<lambda>d. if tcxoVoltage d > 0 then setTCXO G (tcxoVoltage d) 5000 d else Some (0, d))
            (checked (config_with_retry G modem) (setRegulator G)) d }"

section \<open>LoRa settings\<close>

abbreviation (input) RADIOLIB_ERR_INVALID_BANDWIDTH :: int where "RADIOLIB_ERR_INVALID_BANDWIDTH \<equiv> - 8"
abbreviation (input) RADIOLIB_ERR_INVALID_SPREADING_FACTOR :: int where "RADIOLIB_ERR_INVALID_SPREADING_FACTOR \<equiv> - 9"
abbreviation (input) RADIOLIB_ERR_INVALID_CODING_RATE :: int where "RADIOLIB_ERR_INVALID_CODING_RATE \<equiv> - 10"
abbreviation (input) RADIOLIB_ERR_INVALID_FREQUENCY :: int where "RADIOLIB_ERR_INVALID_FREQUENCY \<equiv> - 12"
abbreviation (input) RADIOLIB_ERR_INVALID_OUTPUT_POWER :: int where "RADIOLIB_ERR_INVALID_OUTPUT_POWER \<equiv> - 13"
abbreviation (input) RADIOLIB_ERR_INVALID_CURRENT_LIMIT :: int where "RADIOLIB_ERR_INVALID_CURRENT_LIMIT \<equiv> - 17"
abbreviation (input) RADIOLIB_ERR_WRONG_MODEM :: int where "RADIOLIB_ERR_WRONG_MODEM \<equiv> - 20"

text \<open>Every LoRa setting begins by asking whether LoRa is the active modem.\<close>

definition in_lora :: "lgpio \<Rightarrow> int run \<Rightarrow> int run" where
  "in_lora G f d =
     do { (modem, d) \<leftarrow> getPacketType G d; if modem \<noteq> PACKET_TYPE_LORA then Some (RADIOLIB_ERR_WRONG_MODEM, d) else f d }"

definition update_modulation :: "lgpio \<Rightarrow> int run" where
  "update_modulation G d = setModulationParams G (x_spreadingFactor d) (x_bandwidth d) (x_codingRate d) (ldrOptimize d) d"

text \<open>The code of a bandwidth, found by half its kilohertz rounded down.\<close>

definition bandwidth_table :: "(nat \<times> byte) list" where
  "bandwidth_table = [(3, 0), (5, 8), (7, 1), (10, 9), (15, 2), (20, 0x0A), (31, 3), (62, 4), (125, 5), (250, 6)]"

definition bw_div2 :: "rat \<Rightarrow> nat" where
  "bw_div2 bw = nat (ftrunc (float32 (float32 (bw / 2) + float32 (1 / 100))))"

definition setBandwidth :: "lgpio \<Rightarrow> rat \<Rightarrow> int run" where
  "setBandwidth G bw = in_lora G (\<lambda>d.
     if \<not> (0 \<le> bw \<and> bw \<le> 510) then Some (RADIOLIB_ERR_INVALID_BANDWIDTH, d) else
     case map_of bandwidth_table (bw_div2 bw) of None \<Rightarrow> Some (RADIOLIB_ERR_INVALID_BANDWIDTH, d)
     | Some code \<Rightarrow> update_modulation G (d\<lparr>x_bandwidth := code, bandwidthKhz := bw\<rparr>))"

definition setSpreadingFactor :: "lgpio \<Rightarrow> byte \<Rightarrow> int run" where
  "setSpreadingFactor G sf = in_lora G (\<lambda>d.
     if \<not> (5 \<le> sf \<and> sf \<le> 12) then Some (RADIOLIB_ERR_INVALID_SPREADING_FACTOR, d)
     else update_modulation G (d\<lparr>x_spreadingFactor := sf\<rparr>))"

definition setCodingRate :: "lgpio \<Rightarrow> byte \<Rightarrow> bool \<Rightarrow> int run" where
  "setCodingRate G cr longInterleave = in_lora G (\<lambda>d.
     if \<not> (4 \<le> cr \<and> cr \<le> 8) then Some (RADIOLIB_ERR_INVALID_CODING_RATE, d) else
     if longInterleave \<and> cr = 7 then Some (RADIOLIB_ERR_INVALID_CODING_RATE, d) else
     update_modulation G (d\<lparr>x_codingRate :=
       if \<not> longInterleave then cr - 4 else if cr = 4 then 0 else if cr = 8 then 7 else cr\<rparr>))"

definition setSyncWord :: "lgpio \<Rightarrow> byte \<Rightarrow> byte \<Rightarrow> int run" where
  "setSyncWord G syncWord controlBits = in_lora G (\<lambda>d.
     writeRegister G 0x0740 [syncWord AND 0xF0 OR drop_bit 4 (controlBits AND 0xF0),
       push_bit 4 (syncWord AND 0x0F) OR controlBits AND 0x0F] d)"

definition setCurrentLimit :: "lgpio \<Rightarrow> rat \<Rightarrow> int run" where
  "setCurrentLimit G currentLimit d =
     (if \<not> (0 \<le> currentLimit \<and> currentLimit \<le> 140) then Some (RADIOLIB_ERR_INVALID_CURRENT_LIMIT, d)
      else writeRegister G 0x08E7 [of_int (ftrunc (float32 (currentLimit / (5 / 2))))] d)"

text \<open>The preamble length and the checksum are set for whichever of the two modems is active.\<close>

definition setPreambleLength :: "lgpio \<Rightarrow> u16 \<Rightarrow> int run" where
  "setPreambleLength G preambleLength d =
     do { (modem, d) \<leftarrow> getPacketType G d;
          if modem = PACKET_TYPE_LORA then
            (let d = d\<lparr>preambleLengthLoRa := preambleLength\<rparr> in lora_packet_params G (of_nat (implicitLen d)) d)
          else if modem = PACKET_TYPE_GFSK then
            (let maxDet = min (ucast (syncWordLength (fsk d))) preambleLength;
                 det = (if maxDet \<ge> 32 then 7 else if maxDet \<ge> 24 then 6 else if maxDet \<ge> 16 then 5 else if maxDet > 0 then 4 else 0);
                 d = d\<lparr>fsk := (fsk d)\<lparr>preambleLengthFSK := preambleLength, preambleDetLength := det\<rparr>\<rparr>
             in fsk_packet_params G (if fsk_packetType (fsk d) = 0 then of_nat (implicitLen d) else 255) d)
          else Some (RADIOLIB_ERR_UNKNOWN, d) }"

abbreviation (input) RADIOLIB_ERR_INVALID_CRC_CONFIGURATION :: int where "RADIOLIB_ERR_INVALID_CRC_CONFIGURATION \<equiv> - 701"

definition setCRC :: "lgpio \<Rightarrow> byte \<Rightarrow> u16 \<Rightarrow> u16 \<Rightarrow> bool \<Rightarrow> int run" where
  "setCRC G len initial polynomial inverted d =
     do { (modem, d) \<leftarrow> getPacketType G d;
          if modem = PACKET_TYPE_GFSK then
            (if len > 2 then Some (RADIOLIB_ERR_INVALID_CRC_CONFIGURATION, d) else
             let d = d\<lparr>fsk := (fsk d)\<lparr>crcTypeFSK := if len = 0 then 1 else (if len = 1 then 0 else 2) OR (if inverted then 4 else 0)\<rparr>\<rparr>
             in checked (fsk_packet_params G (if fsk_packetType (fsk d) = 0 then of_nat (implicitLen d) else 255))
                 (checked (writeRegister G 0x06BC (be_bytes 2 (ucast initial)))
                   (writeRegister G 0x06BE (be_bytes 2 (ucast polynomial)))) d)
          else if modem = PACKET_TYPE_LORA then
            (let d = d\<lparr>crcTypeLoRa := if len \<noteq> 0 then 1 else 0\<rparr> in lora_packet_params G (of_nat (implicitLen d)) d)
          else Some (RADIOLIB_ERR_UNKNOWN, d) }"

definition invertIQ :: "lgpio \<Rightarrow> bool \<Rightarrow> int run" where
  "invertIQ G enable = in_lora G (\<lambda>d.
     let d = d\<lparr>invertIQEnabled := if enable then 1 else 0\<rparr> in lora_packet_params G (of_nat (implicitLen d)) d)"

definition setDio2AsRfSwitch :: "lgpio \<Rightarrow> bool \<Rightarrow> int run" where
  "setDio2AsRfSwitch G enable d = write_cmd G 0x9D [if enable then 1 else 0] (d\<lparr>dio2RfSwitch := enable\<rparr>)"

text \<open>\<^verbatim>\<open>SX126x::begin\<close>.\<close>

definition sx126x_begin :: "lgpio \<Rightarrow> byte \<Rightarrow> byte \<Rightarrow> u16 \<Rightarrow> int run" where
  "sx126x_begin G cr syncWord preambleLength d =
     checked (modSetup G PACKET_TYPE_LORA)
      (checked (setCodingRate G cr False)
       (checked (setSyncWord G syncWord 0x44)
        (checked (setPreambleLength G preambleLength)
         (checked (setCurrentLimit G 60)
          (checked (setDio2AsRfSwitch G True)
           (checked (setCRC G 2 0x1D0F 0x1021 True)
             (invertIQ G False)))))))
      (d\<lparr>bandwidthKhz := 500, x_spreadingFactor := 9, x_bandwidth := 6, x_codingRate := 3, ldrOptimize := 0, crcTypeLoRa := 1,
         preambleLengthLoRa := preambleLength, tcxoDelay := 0, headerType := 0, implicitLen := 255\<rparr>)"

section \<open>Frequency and power\<close>

definition image_bytes :: "rat \<Rightarrow> bytes" where
  "image_bytes freq =
     (let band = ftrunc freq in
      if 902 \<le> band \<and> band \<le> 928 then [0xE1, 0xE9] else if 863 \<le> band \<and> band \<le> 870 then [0xD7, 0xDB] else
      if 779 \<le> band \<and> band \<le> 787 then [0xC1, 0xC5] else if 470 \<le> band \<and> band \<le> 510 then [0x75, 0x81] else
      if 430 \<le> band \<and> band \<le> 440 then [0x6B, 0x6F] else
      let lo = of_int \<lfloor>float32 (float32 (float32 (freq - 4) - 1) / 4)\<rfloor> :: byte;
          hi = of_int \<lceil>float32 (float32 (float32 (freq + 4) + 1) / 4)\<rceil> :: byte
      in [if lo mod 2 \<noteq> 0 then lo else lo - 1, if hi mod 2 \<noteq> 0 then hi else hi + 1])"

definition calibrateImage :: "lgpio \<Rightarrow> rat \<Rightarrow> int run" where
  "calibrateImage G freq = calibrateImage_raw G (image_bytes freq)"

definition setFrequencyRaw :: "lgpio \<Rightarrow> rat \<Rightarrow> int run" where
  "setFrequencyRaw G freq d = setRfFrequency G (frf_of freq) (d\<lparr>freqMHz := freq\<rparr>)"

definition setFrequency :: "lgpio \<Rightarrow> rat \<Rightarrow> bool \<Rightarrow> int run" where
  "setFrequency G freq skipCalibration d =
     (if \<not> (150 \<le> freq \<and> freq \<le> 960) then Some (RADIOLIB_ERR_INVALID_FREQUENCY, d) else
      checked (\<lambda>d. if \<not> skipCalibration \<and> \<bar>float32 (freq - freqMHz d)\<bar> \<ge> 20 then calibrateImage G freq d else Some (0, d))
        (setFrequencyRaw G freq) d)"

text \<open>Duty cycle, \<^verbatim>\<open>hpMax\<close> and power value for each power from -9 dBm.\<close>

definition paOptTable :: "(byte \<times> byte \<times> int) list" where
  "paOptTable =
     [(2, 2, - 5), (2, 1, 0), (1, 1, 3), (1, 2, 0), (1, 1, 6), (1, 2, 3), (2, 2, 2), (4, 1, 6),
      (1, 1, 11), (2, 1, 11), (1, 1, 14), (2, 1, 14), (1, 1, 20), (1, 1, 22), (2, 2, 11), (3, 1, 21),
      (1, 2, 17), (4, 2, 13), (1, 2, 20), (1, 2, 22), (2, 2, 21), (3, 2, 21), (1, 4, 19), (1, 4, 20),
      (3, 3, 20), (2, 5, 19), (1, 6, 22), (2, 5, 22), (3, 5, 22), (3, 6, 22), (4, 6, 22), (4, 7, 22)]"

definition setOutputPower_raw :: "lgpio \<Rightarrow> int \<Rightarrow> byte \<Rightarrow> byte \<Rightarrow> byte \<Rightarrow> int run" where
  "setOutputPower_raw G dbm paDutyCycle hpMax deviceSel d =
     do { ((state, ocp), d) \<leftarrow> readRegister G 0x08E7 [0] d;
          if state \<noteq> 0 then Some (state, d) else
          checked (setPaConfig G paDutyCycle deviceSel hpMax 1)
            (checked (setTxParams G (of_int dbm) 4) (writeRegister G 0x08E7 ocp)) d }"

definition setOutputPower :: "lgpio \<Rightarrow> int \<Rightarrow> int run" where
  "setOutputPower G dbm d =
     (if \<not> (- 9 \<le> dbm \<and> dbm \<le> 22) then Some (RADIOLIB_ERR_INVALID_OUTPUT_POWER, d) else
      case paOptTable ! nat (dbm + 9) of (paDutyCycle, hpMax, paVal) \<Rightarrow> setOutputPower_raw G paVal paDutyCycle hpMax 0 d)"

text \<open>\<^verbatim>\<open>SX1262::begin\<close>.\<close>

definition sx1262_begin ::
  "lgpio \<Rightarrow> rat \<Rightarrow> rat \<Rightarrow> byte \<Rightarrow> byte \<Rightarrow> byte \<Rightarrow> int \<Rightarrow> u16 \<Rightarrow> rat \<Rightarrow> bool \<Rightarrow> int run" where
  "sx1262_begin G freq bw sf cr syncWord dbm preambleLength tcxo ldo d =
     checked (sx126x_begin G cr syncWord preambleLength)
      (checked (setSpreadingFactor G sf)
       (checked (setBandwidth G bw)
        (checked (setFrequency G freq False)
         (checked (fixPaClamping G True)
           (setOutputPower G dbm)))))
      (d\<lparr>tcxoVoltage := tcxo, useRegulatorLDO := ldo\<rparr>)"

end
