(* ===== verification/Spi_Bus.thy ===== *)
theory Spi_Bus
  imports Sx126x_Config
begin

text \<open>
  What a call of the library leaves behind: calls of lgpio are only ever added to the history, and of the fields of the object
  few change. \<open>adds d d' fs\<close> says that between the two states exactly the frames \<open>fs\<close> went over the SPI bus and nothing
  else of the object changed; \<open>emits\<close> and \<open>silent\<close> lift this to the orders among those frames, the commands that change what
  the chip does, and compose along \<open>checked\<close>.
\<close>

section \<open>Frames on the bus\<close>

fun frame_of :: "lg_call \<Rightarrow> bytes option" where
  "frame_of (SpiXfer out _) = Some out"
| "frame_of _ = None"

definition frames :: "history \<Rightarrow> bytes list" where
  "frames h = List.map_filter frame_of h"

lemma frames_simps [simp]:
  "frames [] = []" "frames (c # h) = (case frame_of c of None \<Rightarrow> [] | Some f \<Rightarrow> [f]) @ frames h" "frames (h @ h') = frames h @ frames h'"
  by (simp_all add: frames_def List.map_filter_def split: option.splits)

text \<open>The object without its history and the last status.\<close>

definition view :: "'a Module_scheme \<Rightarrow> 'a Module_scheme" where
  "view d = d\<lparr>calls := [], spiConfig := (spiConfig d)\<lparr>spi_err := 0\<rparr>\<rparr>"

definition adds :: "'a Module_scheme \<Rightarrow> 'a Module_scheme \<Rightarrow> bytes list \<Rightarrow> bool" where
  "adds d d' fs \<longleftrightarrow> view d' = view d \<and> (\<exists>ext. calls d' = calls d @ ext \<and> frames ext = fs)"

lemma adds_refl [simp, intro]: "adds d d []"
  by (simp add: adds_def)

lemma adds_trans: "adds a b xs \<Longrightarrow> adds b c ys \<Longrightarrow> adds a c (xs @ ys)"
  by (fastforce simp: adds_def)

lemma adds_trans_Nil: "adds a b [] \<Longrightarrow> adds b c ys \<Longrightarrow> adds a c ys"
  using adds_trans by fastforce

lemma adds_called: "adds d (called c d) (case frame_of c of None \<Rightarrow> [] | Some f \<Rightarrow> [f])"
  by (auto simp: adds_def called_def view_def)

lemma view_fields [simp]:
  "csPin (view d) = csPin d" "gpioPin (view d) = gpioPin d" "irqPin (view d) = irqPin d" "rstPin (view d) = rstPin d"
  "rfSwitchPins (view d) = rfSwitchPins d" "rfSwitchTable (view d) = rfSwitchTable d"
  "spiConfig (view d) = (spiConfig d)\<lparr>spi_err := 0\<rparr>"
  by (simp_all add: view_def)

lemma adds_view: "adds d d' fs \<Longrightarrow> view d' = view d"
  by (simp add: adds_def)

lemma adds_pins: "adds d d' fs \<Longrightarrow> gpioPin d' = gpioPin d" "adds d d' fs \<Longrightarrow> csPin d' = csPin d"
  by (metis adds_view view_fields(1,2))+

section \<open>The hardware layer\<close>

lemma digitalWrite_adds [intro]: "adds d (digitalWrite pin level d) []"
  using adds_called [of d "GpioWrite pin level"] by (simp add: digitalWrite_def)

lemma digitalRead_adds: "digitalRead G pin d = (level, d') \<Longrightarrow> adds d d' []"
  using adds_called [of d "GpioRead pin (lg_gpioRead G (calls d) pin)"] by (auto simp: digitalRead_def Let_def split: if_splits)

lemma hal_yield_adds [intro]: "adds d (hal_yield d) []"
  using adds_called [of d SchedYield] by (simp add: hal_yield_def)

lemma hal_delay_adds [intro]: "adds d (hal_delay ms d) []"
  using adds_called [of d SchedYield] adds_called [of d "SleepMs ms"] by (simp add: hal_delay_def)

lemma delayMicroseconds_adds [intro]: "adds d (delayMicroseconds us d) []"
  using adds_called [of d SchedYield] adds_called [of d "SleepUs us"] by (simp add: delayMicroseconds_def)

lemma hal_millis_adds: "hal_millis G d = (t, d') \<Longrightarrow> adds d d' []"
  using adds_called [of d "Timestamp (lg_timestamp G (calls d))"] by (auto simp: hal_millis_def Let_def)

lemma spi_exchange_adds:
  assumes "spi_exchange G out d = (buffIn, d')"
  shows "adds d d' [out]"
proof -
  let ?d1 = "digitalWrite (csPin d) 0 d"
  let ?d2 = "called (SpiXfer out buffIn) ?d1"
  have r: "d' = digitalWrite (csPin ?d2) 1 ?d2"
    using assms by (auto simp: spi_exchange_def spiTransfer_def Let_def called_def)
  have "adds ?d1 ?d2 [out]" using adds_called [of ?d1 "SpiXfer out buffIn"] by simp
  then have "adds d ?d2 [out]" by (rule adds_trans_Nil [OF digitalWrite_adds])
  from adds_trans [OF this digitalWrite_adds] show ?thesis by (simp add: r)
qed

lemma wait_gpio_adds_snd:
  assumes "wait_gpio G start d = Some r"
  shows "adds d (snd r) []"
proof (rule wait_gpio.raw_induct [where P = "\<lambda>_ _ d r. adds d (snd r) []", OF _ assms])
  fix f G start d r
  assume IH: "\<And>G start d r. f G start d = Some r \<Longrightarrow> adds d (snd r) []"
    and r: "(let (level, d) = digitalRead G (gpioPin d) d
        in if level = 0 then Some (True, d)
           else let (now, d) = hal_millis G (hal_yield d)
                in if spi_timeout (spiConfig d) \<le> now - start then Some (False, d) else f G start d) = Some r"
  obtain l d1 where rd: "digitalRead G (gpioPin d) d = (l, d1)" by fastforce
  obtain t d2 where m: "hal_millis G (hal_yield d1) = (t, d2)" by fastforce
  have a1: "adds d d1 []" using digitalRead_adds [OF rd] .
  have a2: "adds d d2 []" using adds_trans_Nil [OF a1 adds_trans_Nil [OF hal_yield_adds hal_millis_adds [OF m]]] .
  show "adds d (snd r) []" using IH r rd m a1 adds_trans_Nil [OF a2] a2 by (auto split: if_splits)
qed

lemma wait_gpio_adds: "wait_gpio G start d = Some (b, d') \<Longrightarrow> adds d d' []"
  using wait_gpio_adds_snd by fastforce

lemma wait_before_adds: "wait_before G w d = Some (b, d') \<Longrightarrow> adds d d' []"
  by (auto simp: wait_before_def dest!: hal_millis_adds wait_gpio_adds intro: adds_trans_Nil split: if_splits prod.splits)

lemma wait_after_adds: "wait_after G w d = Some (b, d') \<Longrightarrow> adds d d' []"
  by (auto simp: wait_after_def dest!: hal_millis_adds wait_gpio_adds intro: adds_trans_Nil split: if_splits prod.splits)

lemma transfer_adds:
  assumes "SPItransferStream G cmd write dataOut dataIn n w d = Some (s, data, d')"
  shows "s = - 705 \<and> data = dataIn \<and> adds d d' [] \<or> adds d d' [stream_out (spiConfig d) cmd write dataOut n]"
proof -
  obtain b d1 where b: "wait_before G w d = Some (b, d1)" using assms by (auto simp: SPItransferStream_def bind_eq_Some_conv)
  have a1: "adds d d1 []" using wait_before_adds [OF b] .
  then have c: "stream_out (spiConfig d1) cmd write dataOut n = stream_out (spiConfig d) cmd write dataOut n"
    using adds_view [OF a1] by (metis (no_types, lifting) SPIConfig.select_convs SPIConfig.surjective SPIConfig.update_convs stream_out_def view_fields(7))
  show ?thesis
  proof (cases b)
    case False
    then show ?thesis using assms b a1 by (auto simp: SPItransferStream_def)
  next
    case True
    obtain buffIn d2 where e: "spi_exchange G (stream_out (spiConfig d) cmd write dataOut n) d1 = (buffIn, d2)" by fastforce
    obtain b' where "wait_after G w d2 = Some (b', d')"
      using assms b True e by (auto simp: SPItransferStream_def bind_eq_Some_conv c)
    then have "adds d d' [stream_out (spiConfig d) cmd write dataOut n]"
      using adds_trans_Nil [OF a1 adds_trans [OF spi_exchange_adds [OF e] wait_after_adds]] by fastforce
    then show ?thesis by simp
  qed
qed

section \<open>Orders\<close>

text \<open>
  Frames that only ask (status, packet type, interrupt flags, buffer and packet status, levels, errors), that read or write registers
  or read the buffer, and the no-operation that wakes the chip, are not orders.
\<close>

definition is_order :: "bytes \<Rightarrow> bool" where
  "is_order f \<longleftrightarrow> f \<noteq> [] \<and> hd f \<notin> set [0x00, 0x0D, 0x1D, 0x1E, 0xC0, 0x11, 0x12, 0x13, 0x14, 0x15, 0x17]"

definition orders :: "history \<Rightarrow> bytes list" where
  "orders h = filter is_order (frames h)"

lemma orders_append [simp]: "orders (h @ h') = orders h @ orders h'"
  by (simp add: orders_def)

text \<open>The SPI configuration \<^verbatim>\<open>modSetup\<close> leaves.\<close>

definition sx_ready :: "'a Module_scheme \<Rightarrow> bool" where
  "sx_ready d \<longleftrightarrow> spiConfig (view d) = (set_spiConfig spiConfig_default)\<lparr>spi_err := 0\<rparr>"

lemma ready_config:
  assumes "sx_ready d"
  shows "spi_stream (spiConfig d)" "spi_read (spiConfig d) = 0x1D" "spi_write (spiConfig d) = 0x0D" "spi_nop (spiConfig d) = 0"
    "spi_status (spiConfig d) = 0xC0" "width_addr (spiConfig d) = 2" "width_cmd (spiConfig d) = 1" "width_status (spiConfig d) = 1"
    "spi_statusPos (spiConfig d) = 1" "spi_parse (spiConfig d) = Some SPIparseStatus" "spi_timeout (spiConfig d) = 1000"
proof -
  have e: "(spiConfig d)\<lparr>spi_err := 0\<rparr> = (set_spiConfig spiConfig_default)\<lparr>spi_err := 0\<rparr>"
    using assms by (simp add: sx_ready_def)
  note c = arg_cong [OF e]
  show "spi_stream (spiConfig d)" "spi_read (spiConfig d) = 0x1D" "spi_write (spiConfig d) = 0x0D" "spi_nop (spiConfig d) = 0"
    "spi_status (spiConfig d) = 0xC0" "width_addr (spiConfig d) = 2" "width_cmd (spiConfig d) = 1" "width_status (spiConfig d) = 1"
    "spi_statusPos (spiConfig d) = 1" "spi_parse (spiConfig d) = Some SPIparseStatus" "spi_timeout (spiConfig d) = 1000"
    using c [of spi_stream] c [of spi_read] c [of spi_write] c [of spi_nop] c [of spi_status] c [of width_addr] c [of width_cmd]
      c [of width_status] c [of spi_statusPos] c [of spi_parse] c [of spi_timeout]
    by (simp_all add: set_spiConfig_def spiConfig_default_def)
qed

lemma adds_ready: "adds d d' fs \<Longrightarrow> sx_ready d \<Longrightarrow> sx_ready d'"
  by (simp add: adds_def sx_ready_def)

lemma ready_view [simp]: "sx_ready (view d) \<longleftrightarrow> sx_ready d"
  by (simp add: sx_ready_def)

text \<open>
  From an object that looks like \<open>v\<close>: a call that succeeds gives exactly the orders \<open>os\<close>, one that fails a prefix of them;
  a silent call gives none, whatever its result.
\<close>

definition emits :: "Sx126x \<Rightarrow> int run \<Rightarrow> bytes list \<Rightarrow> bool" where
  "emits v f os \<longleftrightarrow> (\<forall>d s d'. view d = v \<longrightarrow> f d = Some (s, d') \<longrightarrow>
     (\<exists>fs. adds d d' fs \<and> (if s = 0 then filter is_order fs = os else prefix (filter is_order fs) os)))"

definition silent :: "Sx126x \<Rightarrow> 'a run \<Rightarrow> bool" where
  "silent v f \<longleftrightarrow> (\<forall>d r d'. view d = v \<longrightarrow> f d = Some (r, d') \<longrightarrow> (\<exists>fs. adds d d' fs \<and> filter is_order fs = []))"

lemma emitsD:
  assumes "emits v f os" "view d = v" "f d = Some (s, d')"
  obtains fs where "adds d d' fs" "s = 0 \<longrightarrow> filter is_order fs = os" "prefix (filter is_order fs) os"
  using assms unfolding emits_def by (metis prefix_order.refl)

lemma silentD:
  assumes "silent v f" "view d = v" "f d = Some (r, d')"
  obtains fs where "adds d d' fs" "filter is_order fs = []"
  using assms unfolding silent_def by metis

lemma emits_checked:
  assumes "emits v f a" "emits v g b"
  shows "emits v (checked f g) (a @ b)"
  unfolding emits_def
proof (intro allI impI)
  fix d s d'
  assume v: "view d = v" and r: "checked f g d = Some (s, d')"
  obtain s1 d1 where f: "f d = Some (s1, d1)" using r by (auto simp: checked_def bind_eq_Some_conv)
  obtain fs where fs: "adds d d1 fs" "s1 = 0 \<longrightarrow> filter is_order fs = a" "prefix (filter is_order fs) a"
    using emitsD [OF assms(1) v f] .
  show "\<exists>fs. adds d d' fs \<and> (if s = 0 then filter is_order fs = a @ b else prefix (filter is_order fs) (a @ b))"
  proof (cases "s1 = 0")
    case False
    then have "s = s1" "d' = d1" using r f by (auto simp: checked_def)
    then show ?thesis using fs(1,3) False by (auto intro: prefix_prefix)
  next
    case True
    then have g: "g d1 = Some (s, d')" using r f by (simp add: checked_def)
    have v1: "view d1 = v" using adds_view [OF fs(1)] v by simp
    obtain gs where gs: "adds d1 d' gs" "s = 0 \<longrightarrow> filter is_order gs = b" "prefix (filter is_order gs) b"
      using emitsD [OF assms(2) v1 g] .
    then show ?thesis using adds_trans [OF fs(1) gs(1)] fs(2) True by (intro exI [of _ "fs @ gs"]) auto
  qed
qed

lemma emits_ok: "emits v done_ok []"
  by (auto simp: emits_def)

lemma emits_error: "s \<noteq> 0 \<Longrightarrow> emits v (\<lambda>d. Some (s, d)) os"
  by (auto simp: emits_def)

lemma emits_silent: "silent v f \<Longrightarrow> emits v f []"
  unfolding emits_def silent_def by (metis prefix_order.refl)

text \<open>A call whose first step is silent and whose continuation depends on what that step found.\<close>

lemma emits_after:
  assumes "silent v f" "\<And>r d d'. view d = v \<Longrightarrow> f d = Some (r, d') \<Longrightarrow> emits v (g r) os"
  shows "emits v (\<lambda>d. do { (r, d) \<leftarrow> f d; g r d }) os"
  unfolding emits_def
proof (intro allI impI)
  fix d s d'
  assume v: "view d = v" and r: "do { (r, d) \<leftarrow> f d; g r d } = Some (s, d')"
  obtain x d1 where f: "f d = Some (x, d1)" and g: "g x d1 = Some (s, d')" using r by (auto simp: bind_eq_Some_conv)
  obtain fs where fs: "adds d d1 fs" "filter is_order fs = []" using silentD [OF assms(1) v f] .
  have v1: "view d1 = v" using adds_view [OF fs(1)] v by simp
  obtain gs where gs: "adds d1 d' gs" "s = 0 \<longrightarrow> filter is_order gs = os" "prefix (filter is_order gs) os"
    using emitsD [OF assms(2) [OF v f] v1 g] .
  then show "\<exists>fs. adds d d' fs \<and> (if s = 0 then filter is_order fs = os else prefix (filter is_order fs) os)"
    using adds_trans [OF fs(1) gs(1)] fs(2) by (intro exI [of _ "fs @ gs"]) auto
qed

lemma silent_after:
  assumes "silent v f" "\<And>r. silent v (g r)"
  shows "silent v (\<lambda>d. do { (r, d) \<leftarrow> f d; g r d })"
  unfolding silent_def
proof (intro allI impI)
  fix d s d'
  assume v: "view d = v" and r: "do { (r, d) \<leftarrow> f d; g r d } = Some (s, d')"
  obtain x d1 where f: "f d = Some (x, d1)" and g: "g x d1 = Some (s, d')" using r by (auto simp: bind_eq_Some_conv)
  obtain fs where fs: "adds d d1 fs" "filter is_order fs = []" using silentD [OF assms(1) v f] .
  have v1: "view d1 = v" using adds_view [OF fs(1)] v by simp
  obtain gs where "adds d1 d' gs" "filter is_order gs = []" using silentD [OF assms(2) v1 g] .
  then show "\<exists>fs. adds d d' fs \<and> filter is_order fs = []"
    using adds_trans [OF fs(1)] fs(2) by (intro exI [of _ "fs @ gs"]) auto
qed

lemma silent_return: "silent v (\<lambda>d. Some (r, d))"
  by (auto simp: silent_def)

lemma silent_map: "silent v f \<Longrightarrow> silent v (\<lambda>d. do { (r, d) \<leftarrow> f d; Some (g r, d) })"
  by (rule silent_after [OF _ silent_return])

end
