(* ===== verification/Sx126x_Orders.thy ===== *)
theory Sx126x_Orders
  imports Spi_Bus
begin

text \<open>
  The orders each call gives the chip, and what a chip that obeys them does: the frames it puts on the air.
\<close>

section \<open>Commands\<close>

lemma is_order_Cons [simp]:
  "is_order (c # f) \<longleftrightarrow> c \<notin> set [0x00, 0x0D, 0x1D, 0x1E, 0xC0, 0x11, 0x12, 0x13, 0x14, 0x15, 0x17]"
  by (simp add: is_order_def)

lemma be_bytes_simps [simp]: "be_bytes 0 v = []" "be_bytes (Suc n) v = ucast (drop_bit (8 * n) v) # be_bytes n v"
  by (simp_all add: be_bytes_def)

lemma be_bytes_num [simp]:
  "be_bytes 1 v = [ucast v]" "be_bytes 2 v = [ucast (drop_bit 8 v), ucast v]"
  "be_bytes 3 v = [ucast (drop_bit 16 v), ucast (drop_bit 8 v), ucast v]"
  "be_bytes 4 v = [ucast (drop_bit 24 v), ucast (drop_bit 16 v), ucast (drop_bit 8 v), ucast v]"
  by (simp_all add: be_bytes_def upt_rec)

lemma write_pins_adds: "adds d (write_pins ps d) []"
proof (induction ps arbitrary: d)
  case (Cons p ps)
  then show ?case by (cases p) (auto intro: adds_trans_Nil [OF digitalWrite_adds])
qed simp

lemma setRfSwitchState_adds [intro]: "adds d (setRfSwitchState mode d) []"
  using write_pins_adds by (auto simp: setRfSwitchState_def split: option.splits)

lemma ucast_narrow [simp]: "(ucast (ucast (c :: u16) :: u32) :: byte) = ucast c"
  by (rule bit_word_eqI) (auto simp: bit_ucast_iff)

lemma cmd_code_ready: "sx_ready d \<Longrightarrow> cmd_code c d = [ucast c]"
  using ready_config(7) [of d] by (simp add: cmd_code_def)

lemma stream_write: "stream_out cfg cmd True data (length data) = cmd @ data"
  by (simp add: stream_out_def)

lemma SPIwriteStream_cases:
  assumes "SPIwriteStream G cmd data w d = Some (s, d')"
  shows "s \<noteq> 0 \<and> adds d d' [] \<or> adds d d' [cmd @ data]"
  using assms transfer_adds [of G cmd True data "[]" "length data" w d s]
  by (fastforce simp: SPIwriteStream_def bind_eq_Some_conv stream_write)

lemma write_stream_emits:
  assumes "\<And>d. view d = v \<Longrightarrow> cmd d = c" "is_order (c @ data)"
  shows "emits v (\<lambda>d. SPIwriteStream G (cmd d) data w d) [c @ data]"
  unfolding emits_def
proof (intro allI impI)
  fix d s d'
  assume "view d = v" "SPIwriteStream G (cmd d) data w d = Some (s, d')"
  from SPIwriteStream_cases [OF this(2)] assms(1) [OF this(1)]
  consider "s \<noteq> 0" "adds d d' []" | "adds d d' [c @ data]" by auto
  then show "\<exists>fs. adds d d' fs \<and> (if s = 0 then filter is_order fs = [c @ data] else prefix (filter is_order fs) [c @ data])"
  proof cases
    case 1
    then show ?thesis by (intro exI [of _ "[]"]) simp
  next
    case 2
    then show ?thesis using assms(2) by (intro exI [of _ "[c @ data]"]) simp
  qed
qed

lemma write_cmd_emits:
  assumes "sx_ready v" "is_order (ucast cmd # data)"
  shows "emits v (write_cmd G cmd data) [ucast cmd # data]"
proof -
  have "cmd_code cmd d = [ucast cmd]" if "view d = v" for d
    using that assms(1) cmd_code_ready by (metis ready_view)
  from write_stream_emits [of v "cmd_code cmd", OF this, of data G True] show ?thesis
    using assms(2) by (simp add: write_cmd_def [abs_def])
qed

lemma transfer_silent:
  assumes "SPItransferStream G cmd write dataOut dataIn n w d = Some (s, data, d')" "cmd \<noteq> []" "\<not> is_order [hd cmd]"
  shows "\<exists>fs. adds d d' fs \<and> filter is_order fs = []"
proof -
  have "\<not> is_order (stream_out (spiConfig d) cmd write dataOut n)"
    using assms(2,3) by (cases cmd) (simp_all add: stream_out_def)
  then show ?thesis using transfer_adds [OF assms(1)] by (metis filter.simps)
qed

lemma read_cmd_silent:
  assumes "sx_ready v" "\<not> is_order [ucast cmd]"
  shows "silent v (read_cmd G cmd data)"
  unfolding silent_def
proof (intro allI impI)
  fix d r d'
  assume "view d = v" and r: "read_cmd G cmd data d = Some (r, d')"
  then have "cmd_code cmd d = [ucast cmd]" using assms(1) cmd_code_ready by (metis ready_view)
  moreover obtain s x where t: "SPItransferStream G (cmd_code cmd d) False [] data (length data) True d = Some (s, x, d')"
    using r by (auto simp: read_cmd_def SPIreadStream_def bind_eq_Some_conv)
  ultimately show "\<exists>fs. adds d d' fs \<and> filter is_order fs = []" using assms(2) by (intro transfer_silent [OF t]) simp_all
qed

lemma silent_read:
  assumes "sx_ready v" "\<not> is_order [ucast cmd]"
  shows "silent v (\<lambda>d. do { ((state, x), d) \<leftarrow> read_cmd G cmd data d; Some (g x, d) })"
  using assms by (intro silent_after read_cmd_silent) (auto simp: silent_return split: prod.split)

lemma getPacketType_silent: "sx_ready v \<Longrightarrow> silent v (getPacketType G)"
  unfolding getPacketType_def [abs_def] by (rule silent_read) simp_all

lemma getIrqFlags_silent: "sx_ready v \<Longrightarrow> silent v (getIrqFlags G)"
  unfolding getIrqFlags_def [abs_def] by (rule silent_read) simp_all

lemma getPacketStatus_silent: "sx_ready v \<Longrightarrow> silent v (getPacketStatus G)"
  unfolding getPacketStatus_def [abs_def] by (rule silent_read) simp_all

lemma SPIcheckStream_silent: "sx_ready v \<Longrightarrow> silent v (SPIcheckStream G)"
  unfolding silent_def
proof (intro allI impI)
  fix d r d'
  assume v: "sx_ready v" "view d = v" and r: "SPIcheckStream G d = Some (r, d')"
  note rd = ready_config [of d] 
  have ready: "sx_ready d" using v by (metis ready_view)
  obtain x d1 where t: "SPItransferStream G [0xC0] False [] [0] 1 True d = Some (r, x, d1)"
    and d': "d' = d1 \<or> (\<exists>e. d' = d1\<lparr>spiConfig := (spiConfig d1)\<lparr>spi_err := e\<rparr>\<rparr>)"
    using r rd(7,5) [OF ready] by (auto simp: SPIcheckStream_def bind_eq_Some_conv split: if_splits option.splits)
  obtain fs where "adds d d1 fs" "filter is_order fs = []" using transfer_silent [OF t] by auto
  moreover have "adds d1 d' []" using d' by (auto simp: adds_def view_def)
  ultimately show "\<exists>fs. adds d d' fs \<and> filter is_order fs = []" using adds_trans by fastforce
qed

lemma writeRegister_silent:
  assumes "sx_ready v"
  shows "silent v (writeRegister G addr data)"
  unfolding silent_def
proof (intro allI impI)
  fix d r d'
  assume "view d = v" and r: "writeRegister G addr data d = Some (r, d')"
  then have ready: "sx_ready d" using assms by (metis ready_view)
  note rc = ready_config [OF ready]
  obtain s x where t: "SPItransferStream G (reg_cmd (spiConfig d) 0x0D (ucast addr)) True data [] (length data) True d = Some (s, x, d')"
    using r rc by (auto simp: writeRegister_def SPIwriteRegisterBurst_def bind_eq_Some_conv)
  show "\<exists>fs. adds d d' fs \<and> filter is_order fs = []"
    by (rule transfer_silent [OF t]) (simp_all add: reg_cmd_def rc)
qed

lemma readRegister_silent:
  assumes "sx_ready v"
  shows "silent v (readRegister G addr data)"
proof -
  have "silent v (\<lambda>d. SPIreadRegisterBurst G (ucast addr) (length data) data d)"
    unfolding silent_def
  proof (intro allI impI)
    fix d r d'
    assume "view d = v" and r: "SPIreadRegisterBurst G (ucast addr) (length data) data d = Some (r, d')"
    then have ready: "sx_ready d" using assms by (metis ready_view)
    note rc = ready_config [OF ready]
    obtain s where t: "SPItransferStream G (reg_cmd (spiConfig d) 0x1D (ucast addr)) False [] data (length data) True d = Some (s, r, d')"
      using r rc by (auto simp: SPIreadRegisterBurst_def bind_eq_Some_conv)
    show "\<exists>fs. adds d d' fs \<and> filter is_order fs = []"
      by (rule transfer_silent [OF t]) (simp_all add: reg_cmd_def rc)
  qed
  from silent_after [OF this silent_map [OF SPIcheckStream_silent [OF assms]]] show ?thesis
    by (simp add: readRegister_def [abs_def])
qed

lemma silent_readRegister:
  assumes "sx_ready v" "\<And>cfg. silent v (g cfg)"
  shows "silent v (\<lambda>d. do { ((state, cfg), d) \<leftarrow> readRegister G addr data d; if state \<noteq> 0 then Some (state, d) else g cfg d })"
proof (rule silent_after [OF readRegister_silent [OF assms(1)]])
  fix r :: "int \<times> bytes"
  show "silent v (case r of (state, cfg) \<Rightarrow> \<lambda>d. if state \<noteq> 0 then Some (state, d) else g cfg d)"
    using assms(2) by (cases r; cases "fst r = 0") (auto simp: silent_return)
qed

lemma fixInvertedIQ_silent: "sx_ready v \<Longrightarrow> silent v (fixInvertedIQ G iq)"
  unfolding fixInvertedIQ_def [abs_def] by (rule silent_readRegister) (auto intro: writeRegister_silent)

lemma fixPaClamping_silent: "sx_ready v \<Longrightarrow> silent v (fixPaClamping G enable)"
  unfolding fixPaClamping_def [abs_def] by (rule silent_readRegister) (auto intro: writeRegister_silent)

lemma fixSensitivity_silent:
  assumes "sx_ready v"
  shows "silent v (fixSensitivity G)"
proof -
  have w: "silent v (\<lambda>d. writeRegister G 0x0889 [f d] d)" for f
    using writeRegister_silent [OF assms, of G "0x0889"] unfolding silent_def by blast
  show ?thesis
    unfolding fixSensitivity_def [abs_def]
    by (rule silent_readRegister [OF assms], rule silent_after [OF getPacketType_silent [OF assms]], rule w)
qed

text \<open>The packet parameters of LoRa as an order.\<close>

definition lora_order :: "Sx126x \<Rightarrow> byte \<Rightarrow> bytes" where
  "lora_order v len =
     [0x8C, ucast (drop_bit 8 (preambleLengthLoRa v)), ucast (preambleLengthLoRa v), headerType v, len, crcTypeLoRa v, invertIQEnabled v]"

lemma view_settings [simp]:
  "preambleLengthLoRa (view d) = preambleLengthLoRa d" "headerType (view d) = headerType d" "crcTypeLoRa (view d) = crcTypeLoRa d"
  "invertIQEnabled (view d) = invertIQEnabled d" "implicitLen (view d) = implicitLen d" "fsk (view d) = fsk d" "lr (view d) = lr d"
  "standbyXOSC (view d) = standbyXOSC d" "txMode (view d) = txMode d" "rxTimeout (view d) = rxTimeout d" "stagedMode (view d) = stagedMode d"
  by (simp_all add: view_def)

lemma ucast_shift8 [simp]: "(ucast (drop_bit 8 (ucast (c :: u16) :: u32)) :: byte) = ucast (drop_bit 8 c)"
  by (rule bit_word_eqI) (auto simp: bit_ucast_iff bit_drop_bit_eq)

lemma setPacketParams_emits:
  assumes "sx_ready v"
  shows "emits v (setPacketParams G pre crc len hdr iq) [[0x8C, ucast (drop_bit 8 pre), ucast pre, hdr, len, crc, iq]]"
proof -
  have "emits v (write_cmd G 0x8C (be_bytes 2 (ucast pre) @ [hdr, len, crc, iq]))
      [[0x8C, ucast (drop_bit 8 pre), ucast pre, hdr, len, crc, iq]]"
    using write_cmd_emits [OF assms, of "0x8C" "be_bytes 2 (ucast pre) @ [hdr, len, crc, iq]" G] by simp
  from emits_checked [OF emits_silent [OF fixInvertedIQ_silent [OF assms]] this] show ?thesis
    unfolding setPacketParams_def by simp
qed

lemma emits_at_view:
  assumes "\<And>d. view d = v \<Longrightarrow> f d = g d" "emits v g os"
  shows "emits v f os"
  using assms unfolding emits_def by metis

lemma lora_params_emits: "sx_ready v \<Longrightarrow> emits v (lora_packet_params G len) [lora_order v len]"
  unfolding lora_order_def
  by (rule emits_at_view [OF _ setPacketParams_emits]) (auto simp: lora_packet_params_def)

lemma setDioIrqParams_emits:
  "sx_ready v \<Longrightarrow> emits v (setDioIrqParams G irq dio1)
     [[0x08, ucast (drop_bit 8 irq), ucast irq, ucast (drop_bit 8 dio1), ucast dio1, 0, 0, 0, 0]]"
  using write_cmd_emits [of v "0x08" "be_bytes 2 (ucast irq) @ be_bytes 2 (ucast dio1) @ [0, 0, 0, 0]" G]
  by (simp add: setDioIrqParams_def)

lemma setBufferBaseAddress_emits: "sx_ready v \<Longrightarrow> emits v (setBufferBaseAddress G) [[0x8F, 0, 0]]"
  using write_cmd_emits [of v "0x8F" "[0, 0]" G] by (simp add: setBufferBaseAddress_def)

lemma clearIrqStatus_emits:
  assumes "sx_ready v"
  shows "emits v (clearIrqStatus G) [[0x02, 0x43, 0xFF]]"
proof -
  have low: "(17407 :: byte) = 0xFF" by simp
  show ?thesis
    using write_cmd_emits [OF assms, of "0x02" "be_bytes 2 (ucast (0x43FF :: u16))" G] by (simp add: clearIrqStatus_def low)
qed

lemma writeBuffer_emits: "emits v (writeBuffer G data offset) [0x0E # offset # data]"
  using write_stream_emits [of v "\<lambda>_. [0x0E, offset]" "[0x0E, offset]" data G True] by (simp add: writeBuffer_def [abs_def])

lemma setTx_emits: "sx_ready v \<Longrightarrow> emits v (setTx G 0) [[0x83, 0, 0, 0]]"
  using write_cmd_emits [of v "0x83" "be_bytes 3 0" G] by (simp add: setTx_def)

lemma setRx_emits: "sx_ready v \<Longrightarrow> emits v (setRx G t) [0x82 # be_bytes 3 t]"
  using write_cmd_emits [of v "0x82" "be_bytes 3 t" G] by (simp add: setRx_def)

lemma standby_emits:
  assumes "sx_ready v"
  shows "emits v (standby G) [[0x80, if standbyXOSC v then 1 else 0]]"
proof -
  have "emits v (standby_mode G mode True) [[0x80, mode]]" for mode
    unfolding emits_def
  proof (intro allI impI)
    fix d s d'
    assume v: "view d = v" and r: "standby_mode G mode True d = Some (s, d')"
    let ?d1 = "setRfSwitchState MODE_IDLE d"
    obtain n d2 where n: "SPIwriteStream G (cmd_code 0 ?d1) [] False ?d1 = Some (n, d2)" and w: "write_cmd G 0x80 [mode] d2 = Some (s, d')"
      using r by (auto simp: standby_mode_def Let_def bind_eq_Some_conv)
    have a1: "adds d ?d1 []" by auto
    have r1: "sx_ready ?d1" using adds_ready [OF a1] assms v by (metis ready_view)
    obtain fs where fs: "adds ?d1 d2 fs" "filter is_order fs = []"
      using SPIwriteStream_cases [OF n] cmd_code_ready [OF r1, of 0] by auto
    have a2: "adds d d2 fs" using adds_trans_Nil [OF a1 fs(1)] .
    have v2: "view d2 = v" using adds_view [OF a2] v by simp
    obtain gs where "adds d2 d' gs" "s = 0 \<longrightarrow> filter is_order gs = [[0x80, mode]]" "prefix (filter is_order gs) [[0x80, mode]]"
      using emitsD [OF write_cmd_emits [OF assms, of "0x80" "[mode]" G] v2 w] by auto
    then show "\<exists>fs. adds d d' fs \<and> (if s = 0 then filter is_order fs = [[0x80, mode]] else prefix (filter is_order fs) [[0x80, mode]])"
      using adds_trans [OF a2] fs(2) by (intro exI [of _ "fs @ gs"]) auto
  qed
  then show ?thesis by (rule emits_at_view [rotated]) (auto simp: standby_def)
qed

section \<open>Sending\<close>

text \<open>A chip in LoRa mode says so when asked.\<close>

definition lora_chip :: "lgpio \<Rightarrow> bool" where
  "lora_chip G \<longleftrightarrow> (\<forall>h. lg_spiXfer G h [0x11, 0, 0] 2 = 1)"

lemma spi_exchange_value:
  "spi_exchange G out d = (buffIn, d') \<Longrightarrow> \<exists>h. buffIn = map (lg_spiXfer G h out) [0..<length out]"
  by (auto simp: spi_exchange_def spiTransfer_def Let_def)

lemma slice_upt: "take n (drop k (map f [0..<k + n])) = map (\<lambda>i. f (k + i)) [0..<n]"
  by (rule nth_equalityI) simp_all

text \<open>What is read is what some transfer of the request gave back, or the buffer as it was when the chip did not get ready.\<close>

lemma transfer_reads:
  assumes "SPItransferStream G cmd False [] dataIn n w d = Some (s, data, d')" "sx_ready d"
  shows "data = dataIn \<and> s \<noteq> 0 \<or>
    (\<exists>h. data = memcpy dataIn 0 (map (\<lambda>i. lg_spiXfer G h (cmd @ replicate (n + 1) 0) (length cmd + 1 + i)) [0..<n]))"
proof -
  obtain b d1 where b: "wait_before G w d = Some (b, d1)" using assms(1) by (auto simp: SPItransferStream_def bind_eq_Some_conv)
  have r1: "sx_ready d1" using adds_ready [OF wait_before_adds [OF b] assms(2)] .
  note rc = ready_config [OF r1]
  show ?thesis
  proof (cases b)
    case False
    then show ?thesis using assms(1) b by (auto simp: SPItransferStream_def)
  next
    case True
    let ?out = "cmd @ replicate (n + 1) 0"
    have o: "stream_out (spiConfig d1) cmd False [] n = ?out" using rc by (simp add: stream_out_def)
    obtain buffIn d2 where e: "spi_exchange G ?out d1 = (buffIn, d2)" by fastforce
    have r2: "sx_ready d2" using adds_ready [OF spi_exchange_adds [OF e] r1] .
    obtain b' where wa: "wait_after G w d2 = Some (b', d')"
      and dt: "data = memcpy dataIn 0 (take n (drop (length cmd + width_status (spiConfig d')) buffIn))"
      using assms(1) b True e by (auto simp: SPItransferStream_def o bind_eq_Some_conv)
    have "width_status (spiConfig d') = 1" using ready_config(8) adds_ready [OF wait_after_adds [OF wa] r2] by blast
    moreover obtain h where "buffIn = map (lg_spiXfer G h ?out) [0..<length ?out]" using spi_exchange_value [OF e] by blast
    ultimately have "data = memcpy dataIn 0 (take n (drop (length cmd + 1) (map (lg_spiXfer G h ?out) [0..<(length cmd + 1) + n])))"
      using dt by (simp add: ac_simps del: upt_Suc)
    then have "data = memcpy dataIn 0 (map (\<lambda>i. lg_spiXfer G h ?out (length cmd + 1 + i)) [0..<n])"
      unfolding slice_upt .
    then show ?thesis by blast
  qed
qed

lemma getPacketType_lora:
  assumes "lora_chip G" "sx_ready d" "getPacketType G d = Some (m, d')"
  shows "m = 1 \<or> m = 0xFF"
proof -
  obtain s x where "SPItransferStream G [0x11] False [] [0xFF] 1 True d = Some (s, x, d')" "m = x ! 0"
    using assms(3) cmd_code_ready [OF assms(2), of "0x11"]
    by (auto simp: getPacketType_def read_cmd_def SPIreadStream_def bind_eq_Some_conv)
  from transfer_reads [OF this(1) assms(2)] this(2) show ?thesis
    using assms(1) by (auto simp: lora_chip_def memcpy_def numeral_2_eq_2)
qed

lemma checkedE:
  assumes "checked f g d = Some (s, d')"
  obtains (err) "s \<noteq> 0" "f d = Some (s, d')" | (ok) d1 where "f d = Some (0, d1)" "g d1 = Some (s, d')"
  using assms by (auto simp: checked_def bind_eq_Some_conv split: if_splits)

lemma checked_assoc: "checked (checked f g) h = checked f (checked g h)"
  by (rule ext) (auto simp: checked_def split: Option.bind_split)

definition stage_orders :: "Sx126x \<Rightarrow> bytes \<Rightarrow> bytes list" where
  "stage_orders v frame =
     [lora_order v (of_nat (length frame)), [0x08, 2, 1, 0, 1, 0, 0, 0, 0], [0x8F, 0, 0], 0x0E # 0 # frame, [0x02, 0x43, 0xFF]]"

lemma stage_tx_emits:
  assumes "sx_ready v"
  shows "emits v (checked (lora_packet_params G (of_nat (length frame))) (checked (setDioIrqParams G 0x201 0x001)
      (checked (setBufferBaseAddress G) (checked (writeBuffer G frame 0) (checked (clearIrqStatus G) (fixSensitivity G))))))
    (stage_orders v frame)"
proof -
  note parts = emits_checked [OF lora_params_emits [OF assms, of G "of_nat (length frame)"] emits_checked [OF setDioIrqParams_emits [OF assms, of G "0x201" "0x001"]
    emits_checked [OF setBufferBaseAddress_emits [OF assms] emits_checked [OF writeBuffer_emits [of v G frame 0]
    emits_checked [OF clearIrqStatus_emits [OF assms] emits_silent [OF fixSensitivity_silent [OF assms]]]]]]]
  have n: "(0x201 :: byte) = 1" "(513 :: byte) = 1" by simp_all
  show ?thesis using parts by (simp add: stage_orders_def n)
qed

lemma stage_tx_orders:
  assumes "lora_chip G" "sx_ready d" "stage_tx G frame d = Some (s, d')"
  obtains d1 fs where "adds d d1 fs" "s = 0 \<longrightarrow> d' = d1\<lparr>stagedMode := MODE_TX_STAGED\<rparr> \<and> filter is_order fs = stage_orders d frame"
    "s \<noteq> 0 \<longrightarrow> d' = d1 \<and> prefix (filter is_order fs) (stage_orders d frame)" "length frame \<le> 255 \<or> s \<noteq> 0 \<and> fs = []"
proof (cases "length frame > 255")
  case True
  then show ?thesis using assms(3) by (intro that [of d "[]"]) (auto simp: stage_tx_def)
next
  case short: False
  let ?P = "checked (lora_packet_params G (of_nat (length frame))) (checked (setDioIrqParams G 0x201 0x001)
      (checked (setBufferBaseAddress G) (checked (writeBuffer G frame 0) (checked (clearIrqStatus G) (fixSensitivity G)))))"
  obtain m d0 where m: "getPacketType G d = Some (m, d0)" using assms(3) short by (auto simp: stage_tx_def bind_eq_Some_conv)
  obtain fs where fs: "adds d d0 fs" "filter is_order fs = []"
    using silentD [OF getPacketType_silent refl m] assms(2) by auto
  have so: "stage_orders d frame = stage_orders (view d0) frame"
    using adds_view [OF fs(1)] by (simp add: stage_orders_def lora_order_def)
  from getPacketType_lora [OF assms(1,2) m] show ?thesis
  proof
    assume "m = 0xFF"
    then show ?thesis using assms(3) short m fs
      by (intro that [of d0 fs]) (auto simp: stage_tx_def tx_packet_params_def checked_def)
  next
    assume "m = 1"
    moreover have "tx_packet_params G 1 n = lora_packet_params G (of_nat n)" for n
      by (rule ext) (simp add: tx_packet_params_def)
    ultimately have "checked ?P (\<lambda>d. Some (0, d\<lparr>stagedMode := MODE_TX_STAGED\<rparr>)) d0 = Some (s, d')"
      using assms(3) short m unfolding checked_assoc by (simp add: stage_tx_def)
    then obtain s1 d1 where p: "?P d0 = Some (s1, d1)"
      and r: "s1 \<noteq> 0 \<and> s = s1 \<and> d' = d1 \<or> s1 = 0 \<and> s = 0 \<and> d' = d1\<lparr>stagedMode := MODE_TX_STAGED\<rparr>"
      by (rule checkedE) auto
    have "sx_ready (view d0)" using adds_ready [OF fs(1) assms(2)] by simp
    from emitsD [OF stage_tx_emits [OF this] refl p]
    obtain gs where "adds d0 d1 gs" "s1 = 0 \<longrightarrow> filter is_order gs = stage_orders d frame" "prefix (filter is_order gs) (stage_orders d frame)"
      using so by metis
    then show ?thesis using r fs short adds_trans [OF fs(1)] by (intro that [of d1 "fs @ gs"]) auto
  qed
qed

lemma wait_ramp_adds:
  assumes "wait_ramp G d = Some d'"
  shows "adds d d' []"
proof (rule wait_ramp.raw_induct [where P = "\<lambda>_ d d'. adds d d' []", OF _ assms])
  fix f G d d'
  assume IH: "\<And>G d d'. f G d = Some d' \<Longrightarrow> adds d d' []"
    and r: "(let (level, d) = digitalRead G (gpioPin d) d in if level = 0 then Some d else f G (hal_yield d)) = Some d'"
  obtain l d1 where rd: "digitalRead G (gpioPin d) d = (l, d1)" by fastforce
  then show "adds d d' []"
    using r IH [of G "hal_yield d1" d'] digitalRead_adds [OF rd] adds_trans_Nil [OF digitalRead_adds [OF rd] adds_trans_Nil [OF hal_yield_adds [of d1]]]
    by (auto split: if_splits)
qed

lemma launch_tx_orders:
  assumes "sx_ready d" "stagedMode d = MODE_TX_STAGED" "launchMode G d = Some (s, d')"
  shows "\<exists>d1 fs. adds d d1 fs \<and> (d' = d1 \<or> d' = d1\<lparr>stagedMode := MODE_NONE_STAGED\<rparr>)
    \<and> (if s = 0 then filter is_order fs = [[0x83, 0, 0, 0]] else prefix (filter is_order fs) [[0x83, 0, 0, 0]])"
proof -
  let ?d1 = "setRfSwitchState (txMode d) d"
  have a1: "adds d ?d1 []" by auto
  have r1: "sx_ready (view ?d1)" using adds_ready [OF a1 assms(1)] by simp
  obtain s1 d2 where t: "setTx G 0 ?d1 = Some (s1, d2)"
    and r: "s1 \<noteq> 0 \<and> s = s1 \<and> d' = d2 \<or> s1 = 0 \<and> s = 0 \<and> (\<exists>d3. wait_ramp G d2 = Some d3 \<and> d' = d3\<lparr>stagedMode := MODE_NONE_STAGED\<rparr>)"
    using assms(2,3) by (auto simp: launchMode_def checked_def bind_eq_Some_conv split: if_splits)
  obtain fs where fs: "adds ?d1 d2 fs" "s1 = 0 \<longrightarrow> filter is_order fs = [[0x83, 0, 0, 0]]" "prefix (filter is_order fs) [[0x83, 0, 0, 0]]"
    using emitsD [OF setTx_emits [OF r1] refl t] by metis
  have a2: "adds d d2 fs" using adds_trans_Nil [OF a1 fs(1)] .
  show ?thesis
  proof (cases "s1 = 0")
    case True
    then obtain d3 where d3: "wait_ramp G d2 = Some d3" "d' = d3\<lparr>stagedMode := MODE_NONE_STAGED\<rparr>" "s = 0" using r by auto
    then show ?thesis using adds_trans [OF a2 wait_ramp_adds [OF d3(1)]] fs(2) True by (intro exI [of _ d3] exI [of _ fs]) simp
  next
    case False
    then show ?thesis using r a2 fs(3) by (intro exI [of _ d2] exI [of _ fs]) auto
  qed
qed

definition transmit_orders :: "Sx126x \<Rightarrow> bytes \<Rightarrow> bytes list" where
  "transmit_orders v frame = stage_orders v frame @ [[0x83, 0, 0, 0]]"

lemma staged_simps [simp]:
  "view (d\<lparr>stagedMode := m\<rparr>) = (view d)\<lparr>stagedMode := m\<rparr>" "calls (d\<lparr>stagedMode := m\<rparr>) = calls d" "sx_ready (d\<lparr>stagedMode := m\<rparr>) = sx_ready d"
  by (simp_all add: view_def sx_ready_def)

lemma startTransmit_orders:
  assumes "lora_chip G" "sx_ready d" "startTransmit G frame d = Some (s, d')"
  obtains ext where "calls d' = calls d @ ext" "s = 0 \<longrightarrow> orders ext = transmit_orders d frame"
    "prefix (orders ext) (transmit_orders d frame)" "length frame \<le> 255 \<or> orders ext = []" "sx_ready d'"
    "view d' = view d \<or> (\<exists>m. view d' = (view d)\<lparr>stagedMode := m\<rparr>)"
proof -
  obtain s1 d1 where st: "stage_tx G frame d = Some (s1, d1)"
    and r: "s1 \<noteq> 0 \<and> s = s1 \<and> d' = d1 \<or> s1 = 0 \<and> launchMode G d1 = Some (s, d')"
    using assms(3) by (auto simp: startTransmit_def checked_def bind_eq_Some_conv split: if_splits)
  obtain d2 fs where a: "adds d d2 fs"
      and ok: "s1 = 0 \<longrightarrow> d1 = d2\<lparr>stagedMode := MODE_TX_STAGED\<rparr> \<and> filter is_order fs = stage_orders d frame"
      and err: "s1 \<noteq> 0 \<longrightarrow> d1 = d2 \<and> prefix (filter is_order fs) (stage_orders d frame)" and len: "length frame \<le> 255 \<or> s1 \<noteq> 0 \<and> fs = []"
    using stage_tx_orders [OF assms(1,2) st] by metis
  obtain e1 where e1: "calls d2 = calls d @ e1" "frames e1 = fs" using a by (auto simp: adds_def)
  show ?thesis
  proof (cases "s1 = 0")
    case False
    then show ?thesis using r err e1 len adds_view [OF a] adds_ready [OF a assms(2)]
      by (intro that [of e1]) (auto simp: orders_def transmit_orders_def intro: prefix_prefix)
  next
    case True
    then have l: "launchMode G d1 = Some (s, d')" and d1: "d1 = d2\<lparr>stagedMode := MODE_TX_STAGED\<rparr>" using r ok by auto
    have r1: "sx_ready d1" using adds_ready [OF a assms(2)] d1 by simp
    obtain d3 gs where b: "adds d1 d3 gs" "d' = d3 \<or> d' = d3\<lparr>stagedMode := MODE_NONE_STAGED\<rparr>"
      "if s = 0 then filter is_order gs = [[0x83, 0, 0, 0]] else prefix (filter is_order gs) [[0x83, 0, 0, 0]]"
      using launch_tx_orders [OF r1 _ l] d1 by auto
    obtain e2 where e2: "calls d3 = calls d1 @ e2" "frames e2 = gs" using b(1) by (auto simp: adds_def)
    have "view d3 = (view d)\<lparr>stagedMode := MODE_TX_STAGED\<rparr>" using adds_view [OF b(1)] adds_view [OF a] d1 by simp
    moreover have "sx_ready d3" using adds_ready [OF b(1) r1] .
    ultimately show ?thesis using b(2,3) e1 e2 True ok len d1
      by (intro that [of "e1 @ e2"]) (auto simp: orders_def transmit_orders_def prefix_Cons split: if_splits)
  qed
qed

section \<open>What the chip does\<close>

text \<open>
  The part of the chip's documented behaviour a transmission rests on: a data buffer of 256 bytes that is written from a given offset
  with wrap-around, the start of the transmit area in it, the payload length of the packet parameters, and the order to transmit,
  which sends that many bytes from that start. \<open>on_air\<close> is what a chip has sent that was given the orders of a history.
\<close>

record Chip =
  chip_buffer :: "nat \<Rightarrow> byte"
  chip_txBase :: nat
  chip_payload :: nat
  chip_aired :: "bytes list"

definition buffer_write :: "nat \<Rightarrow> bytes \<Rightarrow> (nat \<Rightarrow> byte) \<Rightarrow> nat \<Rightarrow> byte" where
  "buffer_write offset data b i = (let j = (i + 256 - offset) mod 256 in if j < length data then data ! j else b i)"

definition chip_obeys :: "bytes \<Rightarrow> Chip \<Rightarrow> Chip" where
  "chip_obeys order c =
     (let op = hd order; arg = tl order in
      if op = 0x0E then c\<lparr>chip_buffer := buffer_write (unat (arg ! 0)) (tl arg) (chip_buffer c)\<rparr> else
      if op = 0x8F then c\<lparr>chip_txBase := unat (arg ! 0)\<rparr> else
      if op = 0x8C then c\<lparr>chip_payload := unat (arg ! 3)\<rparr> else
      if op = 0x83 then
        c\<lparr>chip_aired := chip_aired c @ [map (\<lambda>i. chip_buffer c ((chip_txBase c + i) mod 256)) [0..<chip_payload c]]\<rparr>
      else c)"

definition chip_after :: "history \<Rightarrow> Chip" where
  "chip_after h = fold chip_obeys (orders h) \<lparr>chip_buffer = (\<lambda>_. 0), chip_txBase = 0, chip_payload = 0, chip_aired = []\<rparr>"

definition on_air :: "history \<Rightarrow> bytes list" where
  "on_air h = chip_aired (chip_after h)"

lemma chip_after_append: "chip_after (h @ ext) = fold chip_obeys (orders ext) (chip_after h)"
  by (simp add: chip_after_def)

lemma aired_unless_ordered: "\<forall>f \<in> set os. hd f \<noteq> 0x83 \<Longrightarrow> chip_aired (fold chip_obeys os c) = chip_aired c"
proof (induction os arbitrary: c)
  case (Cons f os)
  then have "chip_aired (chip_obeys f c) = chip_aired c" by (simp add: chip_obeys_def Let_def)
  then show ?case using Cons by simp
qed simp

lemma aired_transmit:
  assumes "length frame \<le> 255"
  shows "chip_aired (fold chip_obeys (transmit_orders v frame) c) = chip_aired c @ [frame]"
proof -
  have "unat (of_nat (length frame) :: byte) = length frame" using assms by (simp add: unat_of_nat)
  moreover have "map (\<lambda>i. buffer_write 0 frame b (i mod 256)) [0..<length frame] = frame" for b
    using assms by (intro nth_equalityI) (simp_all add: buffer_write_def)
  ultimately show ?thesis
    by (simp add: transmit_orders_def stage_orders_def chip_obeys_def lora_order_def)
qed

text \<open>
  Whatever the chip answers and however long it takes, as long as it reports the LoRa modem: a call of startTransmit that returns
  has put exactly the frame it was given on the air, or it reports an error and then nothing went out, except that the order to
  transmit itself may already have been given; and it reports success only when the frame went out.
\<close>

lemma startTransmit_airs:
  assumes "lora_chip G" "sx_ready d" "startTransmit G frame d = Some (s, d')"
  shows "on_air (calls d') = on_air (calls d) @ [frame] \<or> s \<noteq> 0 \<and> on_air (calls d') = on_air (calls d)" "sx_ready d'" "gpioPin d' = gpioPin d"
proof -
  obtain ext where ext: "calls d' = calls d @ ext" "s = 0 \<longrightarrow> orders ext = transmit_orders d frame"
    "prefix (orders ext) (transmit_orders d frame)" "length frame \<le> 255 \<or> orders ext = []" "sx_ready d'"
    "view d' = view d \<or> (\<exists>m. view d' = (view d)\<lparr>stagedMode := m\<rparr>)"
    using startTransmit_orders [OF assms] by metis
  have quiet: "chip_aired (fold chip_obeys (orders ext) c) = chip_aired c" if "prefix (orders ext) (stage_orders d frame)" for c
  proof (rule aired_unless_ordered)
    have "set (orders ext) \<subseteq> set (stage_orders d frame)" using that set_mono_prefix by blast
    then show "\<forall>f \<in> set (orders ext). hd f \<noteq> 0x83" by (auto simp: stage_orders_def lora_order_def)
  qed
  from ext(3) have "orders ext = transmit_orders d frame \<or> prefix (orders ext) (stage_orders d frame)"
    by (simp add: transmit_orders_def)
  then show "on_air (calls d') = on_air (calls d) @ [frame] \<or> s \<noteq> 0 \<and> on_air (calls d') = on_air (calls d)"
  proof
    assume "orders ext = transmit_orders d frame"
    then show ?thesis using ext(1,4) aired_transmit [of frame d "chip_after (calls d)"]
      by (auto simp: on_air_def chip_after_append transmit_orders_def)
  next
    assume p: "prefix (orders ext) (stage_orders d frame)"
    then have "orders ext \<noteq> transmit_orders d frame" by (auto simp: transmit_orders_def dest: prefix_length_le)
    then show ?thesis using ext(1,2) quiet [OF p] by (simp add: on_air_def chip_after_append)
  qed
  show "sx_ready d'" using ext(5) .
  have "gpioPin (view d') = gpioPin (view d)" using ext(6) by (auto simp del: view_fields)
  then show "gpioPin d' = gpioPin d" by simp
qed

end
