(* ===== verification/Sx126x_Waits.thy ===== *)
theory Sx126x_Waits
  imports Sx126x_Orders
begin

text \<open>
  Which calls come back. Every transfer waits for the chip's BUSY line, before and after, for at most a second by the clock of the
  hardware layer; so with a clock that runs, every call a node makes returns, even with a chip that never gets ready. The two
  waits without that limit, behind the order to transmit and in the set-up, do not.
\<close>

section \<open>The clock\<close>

definition millis_at :: "lgpio \<Rightarrow> history \<Rightarrow> u64" where
  "millis_at G h = ucast (ucast (lg_timestamp G h div 1000000) :: u32)"

text \<open>
  From every point there is a later one at which the clock shows that a second has passed, and still shows it two calls of lgpio later.
  Later means without a transfer in between, since a waiting call makes none. The clock may wrap.
\<close>

definition clock_runs :: "lgpio \<Rightarrow> bool" where
  "clock_runs G \<longleftrightarrow> (\<forall>h. \<exists>n. \<forall>ext. frames ext = [] \<longrightarrow> n \<le> length ext \<longrightarrow> length ext \<le> n + 2
     \<longrightarrow> 1000 \<le> millis_at G (h @ ext) - millis_at G h)"

lemma hal_millis_eq: "hal_millis G d = (millis_at G (calls d), called (Timestamp (lg_timestamp G (calls d))) d)"
  by (simp add: hal_millis_def millis_at_def Let_def)

lemma wait_gpio_ends:
  assumes "\<forall>ext. frames ext = [] \<longrightarrow> n \<le> length ext \<longrightarrow> length ext \<le> n + 2 \<longrightarrow> 1000 \<le> millis_at G (h @ ext) - start"
  shows "sx_ready d \<Longrightarrow> gpioPin d \<noteq> RADIOLIB_NC \<Longrightarrow> calls d = h @ ext \<Longrightarrow> frames ext = [] \<Longrightarrow> length ext \<le> n
    \<Longrightarrow> \<exists>r. wait_gpio G start d = Some r"
proof (induction "n - length ext" arbitrary: d ext rule: less_induct)
  case less
  let ?l = "lg_gpioRead G (calls d) (gpioPin d)"
  let ?d1 = "called (GpioRead (gpioPin d) ?l) d"
  let ?d2 = "hal_yield ?d1"
  let ?ext = "ext @ [GpioRead (gpioPin d) ?l, SchedYield]"
  have rd: "digitalRead G (gpioPin d) d = (of_int ?l, ?d1)" using less.prems(2) by (simp add: digitalRead_def Let_def)
  have c2: "calls ?d2 = h @ ?ext" using less.prems(3) by (simp add: hal_yield_def called_def)
  let ?t = "lg_timestamp G (calls ?d2)"
  let ?d3 = "called (Timestamp ?t) ?d2"
  have a: "adds d ?d3 []"
    using adds_trans_Nil [OF digitalRead_adds [OF rd] adds_trans_Nil [OF hal_yield_adds adds_called [of ?d2 "Timestamp ?t"]]] by simp
  have t: "spi_timeout (spiConfig ?d3) = 1000" using ready_config(11) adds_ready [OF a less.prems(1)] by blast
  have step: "wait_gpio G start d = (if (of_int ?l :: u32) = 0 then Some (True, ?d1) else
      if millis_at G (calls ?d2) - start \<ge> 1000 then Some (False, ?d3) else wait_gpio G start ?d3)"
    by (subst wait_gpio.simps) (simp add: rd hal_millis_eq t)
  show ?case
  proof (cases "n \<le> length ext + 2")
    case True
    then have "1000 \<le> millis_at G (calls ?d2) - start" using assms less.prems(4,5) c2 by simp
    then show ?thesis using step by auto
  next
    case False
    have "\<exists>r. wait_gpio G start ?d3 = Some r"
    proof (rule less.hyps [where ext = "?ext @ [Timestamp ?t]"])
      show "sx_ready ?d3" using adds_ready [OF a less.prems(1)] .
      show "gpioPin ?d3 \<noteq> RADIOLIB_NC" using adds_pins(1) [OF a] less.prems(2) by simp
      show "calls ?d3 = h @ ?ext @ [Timestamp ?t]" using c2 by (simp add: called_def)
    qed (use False less.prems(4) in auto)
    then show ?thesis using step by auto
  qed
qed

lemma wait_gpio_from_now:
  assumes "clock_runs G" "sx_ready d" "gpioPin d \<noteq> RADIOLIB_NC" "hal_millis G d = (start, d1)"
  shows "\<exists>r. wait_gpio G start d1 = Some r"
proof -
  obtain n where n: "\<forall>ext. frames ext = [] \<longrightarrow> n \<le> length ext \<longrightarrow> length ext \<le> n + 2
     \<longrightarrow> 1000 \<le> millis_at G (calls d @ ext) - millis_at G (calls d)"
    using assms(1) unfolding clock_runs_def by blast
  have e: "start = millis_at G (calls d)" "calls d1 = calls d @ [Timestamp (lg_timestamp G (calls d))]"
    using assms(4) by (auto simp: hal_millis_eq called_def)
  have a: "adds d d1 []" using hal_millis_adds [OF assms(4)] .
  have n1: "\<forall>ext. frames ext = [] \<longrightarrow> n - 1 \<le> length ext \<longrightarrow> length ext \<le> n - 1 + 2
     \<longrightarrow> 1000 \<le> millis_at G (calls d1 @ ext) - start" if "n \<noteq> 0"
    using n that e by auto
  show ?thesis
  proof (cases "n = 0")
    case True
    then have "1000 \<le> millis_at G (calls d @ []) - millis_at G (calls d)"
      using n [rule_format, of "[]"] by simp
    then show ?thesis by simp
  next
    case False
    from wait_gpio_ends [OF n1 [OF False] adds_ready [OF a assms(2)] _ _ _, of "[]"] show ?thesis
      using adds_pins(1) [OF a] assms(3) by simp
  qed
qed

lemma wait_before_ends: "clock_runs G \<Longrightarrow> sx_ready d \<Longrightarrow> \<exists>r. wait_before G w d = Some r"
  using wait_gpio_from_now by (auto simp: wait_before_def split: prod.split)

lemma wait_after_ends:
  assumes "clock_runs G" "sx_ready d"
  shows "\<exists>r. wait_after G w d = Some r"
proof -
  have "adds d (delayMicroseconds 1 d) []" by auto
  then have "sx_ready (delayMicroseconds 1 d)" "gpioPin (delayMicroseconds 1 d) = gpioPin d"
    using adds_ready assms(2) adds_pins(1) by blast+
  then show ?thesis using wait_gpio_from_now [OF assms(1), of "delayMicroseconds 1 d"]
    by (auto simp: wait_after_def split: prod.split)
qed

lemma transfer_ends:
  assumes "clock_runs G" "sx_ready d"
  shows "\<exists>s data d'. SPItransferStream G cmd write dataOut dataIn n w d = Some (s, data, d')"
proof -
  obtain b d1 where b: "wait_before G w d = Some (b, d1)" using wait_before_ends [OF assms] by force
  show ?thesis
  proof (cases b)
    case True
    obtain buffIn d2 where e: "spi_exchange G (stream_out (spiConfig d1) cmd write dataOut n) d1 = (buffIn, d2)" by fastforce
    have "sx_ready d2" using adds_ready [OF spi_exchange_adds [OF e] adds_ready [OF wait_before_adds [OF b] assms(2)]] .
    then obtain b' d3 where "wait_after G w d2 = Some (b', d3)" using wait_after_ends [OF assms(1)] by force
    then show ?thesis using b True e by (simp add: SPItransferStream_def)
  qed (use b in \<open>simp add: SPItransferStream_def\<close>)
qed

section \<open>Calls that end\<close>

text \<open>
  A call that comes back from every state with the SPI configuration of the chip, to one that still has it, without a frame put on the
  air. Any frames but the order to transmit may have gone over the bus.
\<close>

definition ends :: "'a run \<Rightarrow> bool" where
  "ends f \<longleftrightarrow> (\<forall>d. sx_ready d \<longrightarrow> (\<exists>r d'. f d = Some (r, d') \<and> sx_ready d' \<and> gpioPin d' = gpioPin d \<and> on_air (calls d') = on_air (calls d)))"

lemma endsD:
  assumes "ends f" "sx_ready d"
  obtains r d' where "f d = Some (r, d')" "sx_ready d'" "gpioPin d' = gpioPin d" "on_air (calls d') = on_air (calls d)"
  using assms unfolding ends_def by blast

lemma ends_returns: "ends f \<Longrightarrow> sx_ready d \<Longrightarrow> f d \<noteq> None"
  using endsD by fastforce

lemma adds_quiet:
  assumes "adds d d' fs" "\<forall>f \<in> set (filter is_order fs). hd f \<noteq> 0x83"
  shows "on_air (calls d') = on_air (calls d)"
proof -
  obtain ext where "calls d' = calls d @ ext" "frames ext = fs" using assms(1) by (auto simp: adds_def)
  then show ?thesis using aired_unless_ordered [OF assms(2)] by (simp add: on_air_def chip_after_append orders_def)
qed

lemma endsI:
  assumes "\<And>d. sx_ready d \<Longrightarrow> f d \<noteq> None"
    "\<And>d r d'. sx_ready d \<Longrightarrow> f d = Some (r, d') \<Longrightarrow> \<exists>fs. adds d d' fs \<and> (\<forall>f \<in> set (filter is_order fs). hd f \<noteq> 0x83)"
  shows "ends f"
  unfolding ends_def
proof (intro allI impI)
  fix d :: Sx126x
  assume r: "sx_ready d"
  then obtain x d' where f: "f d = Some (x, d')" using assms(1) by fastforce
  then show "\<exists>r d'. f d = Some (r, d') \<and> sx_ready d' \<and> gpioPin d' = gpioPin d \<and> on_air (calls d') = on_air (calls d)"
    using assms(2) [OF r f] adds_ready adds_pins(1) adds_quiet r by blast
qed

lemma ends_emits:
  assumes "\<And>v. sx_ready v \<Longrightarrow> emits v f (os v)" "\<And>d. sx_ready d \<Longrightarrow> f d \<noteq> None" "\<And>v. \<forall>f \<in> set (os v). hd f \<noteq> 0x83"
  shows "ends f"
proof (rule endsI [OF assms(2)])
  fix d r d'
  assume d: "sx_ready d" "f d = Some (r, d')"
  then have "sx_ready (view d)" by simp
  from emitsD [OF assms(1) [OF this] refl d(2)] obtain fs where "adds d d' fs" "prefix (filter is_order fs) (os (view d))" by metis
  then show "\<exists>fs. adds d d' fs \<and> (\<forall>f \<in> set (filter is_order fs). hd f \<noteq> 0x83)" using assms(3) set_mono_prefix by blast
qed

lemma ends_silent:
  assumes "\<And>v. sx_ready v \<Longrightarrow> silent v f" "\<And>d. sx_ready d \<Longrightarrow> f d \<noteq> None"
  shows "ends f"
proof (rule endsI [OF assms(2)])
  fix d r d'
  assume d: "sx_ready d" "f d = Some (r, d')"
  then have "sx_ready (view d)" by simp
  from silentD [OF assms(1) [OF this] refl d(2)] obtain fs where "adds d d' fs" "filter is_order fs = []" by metis
  then show "\<exists>fs. adds d d' fs \<and> (\<forall>f \<in> set (filter is_order fs). hd f \<noteq> 0x83)" by (metis empty_iff empty_set)
qed

lemma ends_checked:
  assumes "ends f" "ends g"
  shows "ends (checked f g)"
  unfolding ends_def
proof (intro allI impI)
  fix d :: Sx126x
  assume "sx_ready d"
  then obtain s d1 where f: "f d = Some (s, d1)" "sx_ready d1" "gpioPin d1 = gpioPin d" "on_air (calls d1) = on_air (calls d)"
    by (rule endsD [OF assms(1)])
  from f(2) obtain r d2 where "g d1 = Some (r, d2)" "sx_ready d2" "gpioPin d2 = gpioPin d1" "on_air (calls d2) = on_air (calls d1)"
    by (rule endsD [OF assms(2)])
  with f show "\<exists>r d'. checked f g d = Some (r, d') \<and> sx_ready d' \<and> gpioPin d' = gpioPin d \<and> on_air (calls d') = on_air (calls d)"
    by (cases "s = 0") (simp_all add: checked_def)
qed

lemma ends_after_if:
  assumes "ends f" "\<And>d r d'. sx_ready d \<Longrightarrow> f d = Some (r, d') \<Longrightarrow> P r" "\<And>r. P r \<Longrightarrow> ends (g r)"
  shows "ends (\<lambda>d. do { (r, d) \<leftarrow> f d; g r d })"
  unfolding ends_def
proof (intro allI impI)
  fix d :: Sx126x
  assume d: "sx_ready d"
  then obtain x d1 where f: "f d = Some (x, d1)" "sx_ready d1" "gpioPin d1 = gpioPin d" "on_air (calls d1) = on_air (calls d)"
    by (rule endsD [OF assms(1)])
  from f(2) obtain r d2 where "g x d1 = Some (r, d2)" "sx_ready d2" "gpioPin d2 = gpioPin d1" "on_air (calls d2) = on_air (calls d1)"
    by (rule endsD [OF assms(3) [OF assms(2) [OF d f(1)]]])
  with f show "\<exists>r d'. do { (r, d) \<leftarrow> f d; g r d } = Some (r, d') \<and> sx_ready d' \<and> gpioPin d' = gpioPin d \<and> on_air (calls d') = on_air (calls d)"
    by simp
qed

lemma ends_after: "ends f \<Longrightarrow> (\<And>r. ends (g r)) \<Longrightarrow> ends (\<lambda>d. do { (r, d) \<leftarrow> f d; g r d })"
  by (rule ends_after_if [where P = "\<lambda>_. True"]) auto

lemma ends_after_pair: "ends f \<Longrightarrow> (\<And>a b. ends (g a b)) \<Longrightarrow> ends (\<lambda>d. do { ((a, b), d) \<leftarrow> f d; g a b d })"
  using ends_after [of f "\<lambda>(a, b). g a b"] by (simp add: split_def)

lemma ends_return: "ends (\<lambda>d. Some (r d, d))"
  by (simp add: ends_def)

lemma ends_update:
  "(\<And>d. sx_ready (k d) = sx_ready d) \<Longrightarrow> (\<And>d. gpioPin (k d) = gpioPin d) \<Longrightarrow> (\<And>d. calls (k d) = calls d) \<Longrightarrow> ends (\<lambda>d. Some (r, k d))"
  by (simp add: ends_def)

lemma ends_if: "ends f \<Longrightarrow> ends g \<Longrightarrow> ends (\<lambda>d. if c d then f d else g d)"
  by (simp add: ends_def)

text \<open>Arguments read from the object the call works on.\<close>

lemma ends_reading: "(\<And>x. ends (g x)) \<Longrightarrow> ends (\<lambda>d. g (h d) d)"
  by (simp add: ends_def)

lemma ready_staged [simp]: "sx_ready (d\<lparr>rxTimeout := t\<rparr>) = sx_ready d" "sx_ready (d\<lparr>stagedMode := m\<rparr>) = sx_ready d"
  by (simp_all add: sx_ready_def view_def)

lemma write_stream_ends: "clock_runs G \<Longrightarrow> sx_ready d \<Longrightarrow> SPIwriteStream G cmd data w d \<noteq> None"
  using transfer_ends [of G d cmd True data "[]" "length data" w] by (auto simp: SPIwriteStream_def)

lemma write_cmd_ends: "clock_runs G \<Longrightarrow> is_order (ucast cmd # data) \<Longrightarrow> (ucast cmd :: byte) \<noteq> 0x83 \<Longrightarrow> ends (write_cmd G cmd data)"
  by (rule ends_emits [OF write_cmd_emits]) (simp_all add: write_cmd_def write_stream_ends del: not_None_eq)

lemma read_cmd_ends:
  assumes "clock_runs G" "\<not> is_order [ucast cmd]"
  shows "ends (read_cmd G cmd data)"
proof (rule ends_silent [OF read_cmd_silent [OF _ assms(2)]])
  fix d :: Sx126x
  assume "sx_ready d"
  from transfer_ends [OF assms(1) this, of "cmd_code cmd d" False "[]" data "length data" True]
  show "read_cmd G cmd data d \<noteq> None" by (auto simp: read_cmd_def SPIreadStream_def)
qed

lemma check_stream_ends:
  assumes "clock_runs G"
  shows "ends (SPIcheckStream G)"
proof (rule ends_silent [OF SPIcheckStream_silent])
  fix d :: Sx126x
  assume "sx_ready d"
  from transfer_ends [OF assms this, of "be_bytes (width_cmd (spiConfig d)) (ucast (spi_status (spiConfig d)))" False "[]" "[0]" 1 True]
  show "SPIcheckStream G d \<noteq> None" by (auto simp: SPIcheckStream_def Let_def)
qed

lemma writeRegister_ends:
  assumes "clock_runs G"
  shows "ends (writeRegister G addr data)"
proof (rule ends_silent [OF writeRegister_silent])
  fix d :: Sx126x
  assume r: "sx_ready d"
  from transfer_ends [OF assms r, of "reg_cmd (spiConfig d) (spi_write (spiConfig d)) (ucast addr)" True data "[]" "length data" True]
  show "writeRegister G addr data d \<noteq> None"
    using ready_config(1) [OF r] by (auto simp: writeRegister_def SPIwriteRegisterBurst_def Let_def)
qed

lemma readRegister_ends:
  assumes "clock_runs G"
  shows "ends (readRegister G addr data)"
proof (rule ends_silent [OF readRegister_silent])
  fix d :: Sx126x
  assume r: "sx_ready d"
  obtain s x d1 where t: "SPItransferStream G (reg_cmd (spiConfig d) (spi_read (spiConfig d)) (ucast addr)) False [] data (length data) True d = Some (s, x, d1)"
    using transfer_ends [OF assms r] by blast
  have "sx_ready d1" using transfer_adds [OF t] adds_ready r by blast
  then have "SPIcheckStream G d1 \<noteq> None" by (rule ends_returns [OF check_stream_ends [OF assms]])
  then show "readRegister G addr data d \<noteq> None"
    using t ready_config(1) [OF r] by (auto simp: readRegister_def SPIreadRegisterBurst_def Let_def)
qed

lemma read_ends:
  assumes "clock_runs G" "\<not> is_order [ucast cmd]"
  shows "ends (\<lambda>d. do { ((state, x), d) \<leftarrow> read_cmd G cmd data d; Some (g x, d) })"
  using assms by (intro ends_after read_cmd_ends) (auto simp: ends_return split: prod.split)

lemma query_ends:
  assumes "clock_runs G"
  shows "ends (getPacketType G)" "ends (getIrqFlags G)" "ends (getPacketStatus G)"
  unfolding getPacketType_def [abs_def] getIrqFlags_def [abs_def] getPacketStatus_def [abs_def]
  by (rule read_ends [OF assms]; simp)+

lemma fixInvertedIQ_ends:
  assumes "clock_runs G"
  shows "ends (fixInvertedIQ G iq)"
  unfolding fixInvertedIQ_def [abs_def]
proof (rule ends_after [OF readRegister_ends [OF assms]])
  fix r :: "int \<times> bytes"
  show "ends (case r of (state, cfg) \<Rightarrow> \<lambda>d. if state \<noteq> 0 then Some (state, d) else
      writeRegister G 0x0736 [if iq = 1 then cfg ! 0 AND 0xFB else cfg ! 0 OR 0x04] d)"
    using writeRegister_ends [OF assms] by (cases r; cases "fst r = 0") (simp_all add: ends_return)
qed

lemma params_ends:
  assumes "clock_runs G"
  shows "ends (setPacketParams G pre crc len hdr iq)" "ends (setPacketParamsFSK G pre det crc' sync addr wh pt len)"
  unfolding setPacketParams_def setPacketParamsFSK_def
  by (intro ends_checked fixInvertedIQ_ends write_cmd_ends assms; simp)+

lemma modem_params_ends:
  assumes "clock_runs G"
  shows "ends (lora_packet_params G len)" "ends (fsk_packet_params G len)" "ends (rx_packet_params G modem)"
  using params_ends [OF assms] unfolding rx_packet_params_def ends_def lora_packet_params_def fsk_packet_params_def by auto

lemma standby_ends:
  assumes "clock_runs G"
  shows "ends (standby G)"
proof (rule ends_emits [where os = "\<lambda>v. [[0x80, if standbyXOSC v then 1 else 0]]", OF standby_emits])
  fix d :: Sx126x
  assume r: "sx_ready d"
  let ?d1 = "setRfSwitchState MODE_IDLE d"
  have "adds d ?d1 []" by auto
  then have r1: "sx_ready ?d1" using adds_ready r by blast
  obtain n d2 where n: "SPIwriteStream G (cmd_code 0 ?d1) [] False ?d1 = Some (n, d2)"
    using write_stream_ends [OF assms r1, of "cmd_code 0 ?d1" "[]" False] by auto
  have "sx_ready d2" using SPIwriteStream_cases [OF n] adds_ready r1 by metis
  then show "standby G d \<noteq> None"
    using n write_stream_ends [OF assms] by (auto simp: standby_def standby_mode_def write_cmd_def Let_def)
qed simp_all

lemma command_ends:
  assumes "clock_runs G"
  shows "ends (clearIrqStatus G)" "ends (setBufferBaseAddress G)" "ends (setDioIrqParams G a b)" "ends (setRx G t)"
  unfolding clearIrqStatus_def setBufferBaseAddress_def setDioIrqParams_def setRx_def
  by (intro write_cmd_ends assms; simp)+

section \<open>The calls of a running node\<close>

lemma stage_rx_ends:
  assumes "clock_runs G"
  shows "ends (stage_rx G timeout flags msk 0)"
  unfolding stage_rx_def [abs_def] Let_def
  by (simp only: simp_thms if_False)
    (intro ends_checked standby_ends command_ends ends_after query_ends ends_if ends_return modem_params_ends ends_update assms; simp)

lemma launch_rx:
  assumes "clock_runs G" "sx_ready d" "stagedMode d = MODE_RX_STAGED"
  obtains s d' where "launchMode G d = Some (s, d')" "sx_ready d'" "gpioPin d' = gpioPin d" "on_air (calls d') = on_air (calls d)"
proof -
  let ?d = "setRfSwitchState MODE_RX d"
  have a: "adds d ?d []" by auto
  then have "sx_ready ?d" using adds_ready assms(2) by blast
  then obtain s d' where "setRx G (rxTimeout d) ?d = Some (s, d')" "sx_ready d'" "gpioPin d' = gpioPin ?d" "on_air (calls d') = on_air (calls ?d)"
    by (rule endsD [OF command_ends(4) [OF assms(1)]])
  then show ?thesis using assms(3) adds_pins(1) [OF a] adds_quiet [OF a] by (intro that [of s "d'\<lparr>stagedMode := MODE_NONE_STAGED\<rparr>"]) (simp_all add: launchMode_def)
qed

lemma checked_ok: "checked f g d = Some (0, d') \<Longrightarrow> \<exists>d1. g d1 = Some (0, d')"
  by (auto simp: checked_def bind_eq_Some_conv split: if_splits)

lemma stage_rx_stages:
  assumes "stage_rx G timeout flags msk 0 d = Some (0, d')"
  shows "stagedMode d' = MODE_RX_STAGED"
  using assms unfolding stage_rx_def Let_def
  by (auto dest!: checked_ok simp: bind_eq_Some_conv split: if_splits prod.splits)

lemma startReceive_ends:
  assumes "clock_runs G"
  shows "ends (startReceive G)"
  unfolding ends_def
proof (intro allI impI)
  fix d :: Sx126x
  assume "sx_ready d"
  then obtain s d1 where st: "stage_rx G 0xFFFFFF 0x272 0x002 0 d = Some (s, d1)" "sx_ready d1" "gpioPin d1 = gpioPin d"
    "on_air (calls d1) = on_air (calls d)" by (rule endsD [OF stage_rx_ends [OF assms]])
  show "\<exists>r d'. startReceive G d = Some (r, d') \<and> sx_ready d' \<and> gpioPin d' = gpioPin d \<and> on_air (calls d') = on_air (calls d)"
  proof (cases "s = 0")
    case True
    then have "stagedMode d1 = MODE_RX_STAGED" using stage_rx_stages st(1) by blast
    from launch_rx [OF assms st(2) this] obtain r d' where "launchMode G d1 = Some (r, d')" "sx_ready d'" "gpioPin d' = gpioPin d1"
      "on_air (calls d') = on_air (calls d1)" by metis
    then show ?thesis using st True by (simp add: startReceive_def checked_def)
  qed (use st in \<open>simp add: startReceive_def checked_def\<close>)
qed

lemma packetLength_ends: "clock_runs G \<Longrightarrow> ends (packetLength G offset)"
  unfolding packetLength_def [abs_def]
  by (intro ends_after query_ends ends_if ends_return read_cmd_ends) (auto intro: ends_return split: prod.split)

lemma readBuffer_ends:
  assumes "clock_runs G" 
  shows "ends (readBuffer G data n offset)"
proof (rule endsI)
  fix d :: Sx126x
  assume "sx_ready d"
  from transfer_ends [OF assms this, of "[0x1E, offset]" False "[]" data n True]
  show "readBuffer G data n offset d \<noteq> None" by (auto simp: readBuffer_def SPIreadStream_def)
next
  fix d r d'
  assume "readBuffer G data n offset d = Some (r, d')"
  then obtain s x where "SPItransferStream G [0x1E, offset] False [] data n True d = Some (s, x, d')"
    by (auto simp: readBuffer_def SPIreadStream_def bind_eq_Some_conv)
  from transfer_silent [OF this] obtain fs where "adds d d' fs" "filter is_order fs = []" by auto
  then show "\<exists>fs. adds d d' fs \<and> (\<forall>f \<in> set (filter is_order fs). hd f \<noteq> 0x83)" by (metis empty_iff empty_set)
qed

lemma readData_ends: "clock_runs G \<Longrightarrow> ends (readData G data len)"
  unfolding readData_def [abs_def]
  by (intro ends_after_pair ends_after check_stream_ends query_ends ends_if ends_return packetLength_ends readBuffer_ends command_ends)

lemma level_ends:
  assumes "clock_runs G"
  shows "ends (getRSSI G)" "ends (getSNR G)" "ends (getPacketLength G)" "ends (checkIrq G irq)" "ends (finishTransmit G)"
  unfolding getRSSI_def [abs_def] getSNR_def [abs_def] Let_def getPacketLength_def [abs_def] checkIrq_def [abs_def] finishTransmit_def
  by (intro ends_after_pair ends_after query_ends ends_if ends_return packetLength_ends ends_checked command_ends standby_ends assms)+

section \<open>The ramp-up\<close>

text \<open>The BUSY line falls at some time after every point, if only the line is polled.\<close>

definition busy_falls :: "lgpio \<Rightarrow> u32 \<Rightarrow> bool" where
  "busy_falls G pin \<longleftrightarrow> (\<forall>h. \<exists>n. \<forall>ext. frames ext = [] \<longrightarrow> n \<le> length ext \<longrightarrow> length ext \<le> n + 1
     \<longrightarrow> lg_gpioRead G (h @ ext) pin = 0)"

lemma wait_ramp_ends_by:
  assumes "\<forall>ext. frames ext = [] \<longrightarrow> n \<le> length ext \<longrightarrow> length ext \<le> n + 1 \<longrightarrow> lg_gpioRead G (h @ ext) pin = 0"
  shows "gpioPin d = pin \<Longrightarrow> calls d = h @ ext \<Longrightarrow> frames ext = [] \<Longrightarrow> length ext \<le> n + 1 \<Longrightarrow> \<exists>d'. wait_ramp G d = Some d'"
proof (induction "n + 1 - length ext" arbitrary: d ext rule: less_induct)
  case less
  let ?l = "lg_gpioRead G (calls d) (gpioPin d)"
  let ?d1 = "called (GpioRead (gpioPin d) ?l) d"
  obtain l d1 where rd: "digitalRead G (gpioPin d) d = (l, d1)" by fastforce
  then have d1: "l = 0 \<or> (l = of_int ?l \<and> d1 = ?d1)"
    by (auto simp: digitalRead_def Let_def split: if_splits)
  have step: "wait_ramp G d = (if l = 0 then Some d1 else wait_ramp G (hal_yield d1))"
    by (subst wait_ramp.simps) (simp add: rd)
  show ?case
  proof (cases "l = 0 \<or> n \<le> length ext")
    case True
    then have "l = 0" using d1 assms less.prems by auto
    then show ?thesis using step by simp
  next
    case False
    have "\<exists>d'. wait_ramp G (hal_yield ?d1) = Some d'"
      by (rule less.hyps [where ext = "ext @ [GpioRead (gpioPin d) ?l, SchedYield]"])
        (use False less.prems in \<open>auto simp: hal_yield_def called_def\<close>)
    then show ?thesis using step d1 False by auto
  qed
qed

lemma wait_ramp_ends:
  assumes "busy_falls G (gpioPin d)"
  shows "\<exists>d'. wait_ramp G d = Some d'"
proof -
  obtain n where "\<forall>ext. frames ext = [] \<longrightarrow> n \<le> length ext \<longrightarrow> length ext \<le> n + 1 \<longrightarrow> lg_gpioRead G (calls d @ ext) (gpioPin d) = 0"
    using assms unfolding busy_falls_def by blast
  from wait_ramp_ends_by [OF this, of d "[]"] show ?thesis by simp
qed

text \<open>A line that reads high from a point on, whatever else is done.\<close>

definition stays_busy :: "lgpio \<Rightarrow> Sx126x \<Rightarrow> bool" where
  "stays_busy G d \<longleftrightarrow> gpioPin d \<noteq> RADIOLIB_NC \<and> (\<forall>ext. lg_gpioRead G (calls d @ ext) (gpioPin d) = 1)"

lemma stays_busy_polled:
  assumes "stays_busy G d" "digitalRead G (gpioPin d) d = (l, d1)"
  shows "l \<noteq> 0" "stays_busy G (hal_yield d1)"
  using assms by (auto simp: stays_busy_def digitalRead_def Let_def hal_yield_def called_def dest: spec [of _ "[]"])

lemma wait_ramp_stuck:
  assumes "stays_busy G d"
  shows "wait_ramp G d = None"
proof (cases "wait_ramp G d")
  case (Some d')
  have "\<not> stays_busy G d"
  proof (rule wait_ramp.raw_induct [where P = "\<lambda>G d d'. \<not> stays_busy G d", OF _ Some])
    fix f G d d'
    assume IH: "\<And>G d d'. f G d = Some d' \<Longrightarrow> \<not> stays_busy G d"
      and r: "(let (level, d) = digitalRead G (gpioPin d) d in if level = 0 then Some d else f G (hal_yield d)) = Some d'"
    obtain l d1 where "digitalRead G (gpioPin d) d = (l, d1)" by fastforce
    then show "\<not> stays_busy G d" using r IH stays_busy_polled by fastforce
  qed
  then show ?thesis using assms by blast
qed

section \<open>Transmitting\<close>

lemma fixSensitivity_ends:
  assumes "clock_runs G"
  shows "ends (fixSensitivity G)"
proof -
  have "ends (\<lambda>d. writeRegister G addr (h d) d)" for addr h
    using ends_reading [of "writeRegister G addr" h] writeRegister_ends [OF assms] by blast
  then show ?thesis unfolding fixSensitivity_def [abs_def]
    by (intro ends_after_pair ends_after readRegister_ends ends_if ends_return query_ends assms)
qed

lemma writeBuffer_ends: "clock_runs G \<Longrightarrow> ends (writeBuffer G frame offset)"
  by (rule ends_emits [OF writeBuffer_emits]) (simp_all add: writeBuffer_def write_stream_ends del: not_None_eq)

lemma stage_tx_ends:
  assumes "clock_runs G" "lora_chip G"
  shows "ends (stage_tx G frame)"
proof -
  have "ends (lora_packet_params G n)" for n
    unfolding lora_packet_params_def [abs_def] ends_def using endsD [OF params_ends(1) [OF assms(1)]] by blast
  then have p: "ends (tx_packet_params G m n)" if "m = 1 \<or> m = 0xFF" for m n
    using that by (auto simp: tx_packet_params_def [abs_def] ends_return)
  show ?thesis unfolding stage_tx_def [abs_def]
  proof (intro ends_if ends_return ends_after_if [where P = "\<lambda>m. m = 1 \<or> m = 0xFF"])
    show "ends (getPacketType G)" using query_ends(1) [OF assms(1)] .
    show "m = 1 \<or> m = 0xFF" if "sx_ready d" "getPacketType G d = Some (m, d')" for d m d'
      using getPacketType_lora [OF assms(2) that] .
  next
    fix m :: byte
    assume m: "m = 1 \<or> m = 0xFF"
    then have b: "m \<noteq> 3" by auto
    show "ends (checked (tx_packet_params G m (length frame))
             (checked (if m \<noteq> 3 then setDioIrqParams G 0x201 0x001 else setDioIrqParams G 0x4001 0x4001)
               (checked (setBufferBaseAddress G)
                 (checked (if m \<noteq> 3 then writeBuffer G frame 0 else stage_LRFHSS G frame)
                   (checked (clearIrqStatus G)
                     (checked (fixSensitivity G)
                       (\<lambda>d. Some (0, d\<lparr>stagedMode := MODE_TX_STAGED\<rparr>))))))))"
      using b by (auto intro!: ends_checked p m command_ends writeBuffer_ends fixSensitivity_ends ends_update assms(1))
  qed
qed

lemma launch_tx:
  assumes "clock_runs G" "sx_ready d" "stagedMode d = MODE_TX_STAGED"
  obtains s d1 where "setTx G 0 (setRfSwitchState (txMode d) d) = Some (s, d1)" "gpioPin d1 = gpioPin d"
    "launchMode G d = (if s \<noteq> 0 then Some (s, d1) else do { d \<leftarrow> wait_ramp G d1; Some (0, d\<lparr>stagedMode := MODE_NONE_STAGED\<rparr>) })"
proof -
  let ?d = "setRfSwitchState (txMode d) d"
  have a: "adds d ?d []" by auto
  then have r: "sx_ready ?d" using adds_ready assms(2) by blast
  obtain s d1 where t: "setTx G 0 ?d = Some (s, d1)"
    using write_stream_ends [OF assms(1) r] by (fastforce simp: setTx_def write_cmd_def)
  have "gpioPin d1 = gpioPin d"
    using emitsD [OF setTx_emits refl t] r adds_pins(1) adds_pins(1) [OF a] by (metis ready_view)
  then show ?thesis using that [OF t] t assms(3) by (simp add: launchMode_def checked_def)
qed

lemma stage_tx_stages: "stage_tx G frame d = Some (0, d') \<Longrightarrow> stagedMode d' = MODE_TX_STAGED"
  unfolding stage_tx_def by (auto dest!: checked_ok simp: bind_eq_Some_conv split: if_splits prod.splits)

lemma startTransmit_ends:
  assumes "clock_runs G" "lora_chip G" "busy_falls G (gpioPin d)" "sx_ready d"
  shows "startTransmit G frame d \<noteq> None"
proof -
  obtain s d1 where st: "stage_tx G frame d = Some (s, d1)" "sx_ready d1"
    using endsD [OF stage_tx_ends [OF assms(1,2)] assms(4)] by blast
  have "launchMode G d1 \<noteq> None" if "s = 0"
  proof -
    have p: "gpioPin d1 = gpioPin d"
      by (rule stage_tx_orders [OF assms(2,4) st(1)]) (use adds_pins(1) that in auto)
    have "stagedMode d1 = MODE_TX_STAGED" using stage_tx_stages st(1) that by blast
    from launch_tx [OF assms(1) st(2) this] obtain s' d3 where l: "gpioPin d3 = gpioPin d1"
      "launchMode G d1 = (if s' \<noteq> 0 then Some (s', d3) else do { d \<leftarrow> wait_ramp G d3; Some (0, d\<lparr>stagedMode := MODE_NONE_STAGED\<rparr>) })"
      by metis
    obtain d4 where "wait_ramp G d3 = Some d4" using wait_ramp_ends [of G d3] assms(3) l(1) p by auto
    then show ?thesis using l(2) by simp
  qed
  then show ?thesis using st(1) by (cases "s = 0") (auto simp: startTransmit_def checked_def)
qed

text \<open>
  C15. Every call a node makes while it runs returns, whatever the chip answers and even if it never gets ready, as long as the clock
  runs: starting to receive, asking for an interrupt, the packet's length, its bytes and its levels, and ending a transmission.
  Starting one returns if moreover the chip reports the LoRa modem and its BUSY line falls at some time.
\<close>

theorem radio_calls_return:
  assumes "clock_runs G" "sx_ready d"
  shows "startReceive G d \<noteq> None \<and> checkIrq G irq d \<noteq> None \<and> getPacketLength G d \<noteq> None \<and> readData G data len d \<noteq> None
    \<and> getRSSI G d \<noteq> None \<and> getSNR G d \<noteq> None \<and> finishTransmit G d \<noteq> None
    \<and> (lora_chip G \<and> busy_falls G (gpioPin d) \<longrightarrow> startTransmit G frame d \<noteq> None)"
  using ends_returns [OF startReceive_ends [OF assms(1)] assms(2)] startTransmit_ends [OF assms(1) _ _ assms(2)] ends_returns [OF readData_ends [OF assms(1)] assms(2)]
    level_ends [OF assms(1), THEN ends_returns, OF assms(2)] by blast

text \<open>
  C40. A chip that takes the order to transmit and then holds its BUSY line high keeps the call of startTransmit from ever returning:
  the wait behind the order has no limit, and no timeout of the driver above it applies.
\<close>

theorem stuck_busy_never_returns:
  assumes "stage_tx G frame d = Some (0, d1)" "setTx G 0 (setRfSwitchState (txMode d1) d1) = Some (0, d2)" "stays_busy G d2"
  shows "startTransmit G frame d = None"
  using assms stage_tx_stages [OF assms(1)] wait_ramp_stuck [OF assms(3)]
  by (simp add: startTransmit_def checked_def launchMode_def)

section \<open>A chip to try them on\<close>

text \<open>
  A chip that is always ready, has the LoRa modem active and accepts everything, on a host whose clock moves a second with every call
  and wraps after 2^20 of them; and that chip on a host whose clock
  stands, hanging from the n-th call on.
\<close>

definition good_chip :: lgpio where
  "good_chip = \<lparr>lg_gpiochipOpen = (\<lambda>h. 0), lg_spiOpen = (\<lambda>h. 0), lg_gpioRead = (\<lambda>h pin. 0), lg_timestamp = (\<lambda>h. of_int (1000000000 * (int (length h) mod 1048576))),
     lg_spiXfer = (\<lambda>h out i. if out = [0x11, 0, 0] \<and> i = 2 then 1 else 0x20)\<rparr>"

definition hanging_chip :: "int \<Rightarrow> lgpio" where
  "hanging_chip n = good_chip\<lparr>lg_gpioRead := (\<lambda>h pin. if n \<le> int (length h) then 1 else 0), lg_timestamp := (\<lambda>h. 0)\<rparr>"

definition good_dev :: Sx126x where
  "good_dev = (sx1262_new 21 16 18 20)\<lparr>spiConfig := set_spiConfig spiConfig_default\<rparr>"

lemma good_millis: "unat (millis_at good_chip h) = 1000 * (length h mod 2 ^ 20)"
proof -
  define k where "k = length h mod 1048576"
  have k: "k < 1048576" by (simp add: k_def)
  have u: "unat (of_nat (1000000000 * k) :: u64) = 1000000000 * k" using k by (subst unat_of_nat) simp
  then have "unat (of_nat (1000000000 * k) div (1000000 :: u64)) = 1000 * k" by (subst unat_div) simp
  moreover have "of_int (1000000000 * (int (length h) mod 1048576)) = (of_nat (1000000000 * k) :: u64)"
    by (metis k_def of_int_of_nat_eq of_nat_mult of_nat_numeral zmod_int)
  ultimately show ?thesis using k by (simp add: millis_at_def good_chip_def unsigned_ucast_eq take_bit_eq_mod unat_mod del: of_nat_mult flip: k_def)
qed

lemma good_clock: "clock_runs good_chip"
  unfolding clock_runs_def
proof (intro allI exI [of _ "1 :: nat"] impI)
  fix h ext :: history
  assume e: "1 \<le> length ext" "length ext \<le> 1 + 2"
  define a b where "a = length h mod 2 ^ 20" and "b = length (h @ ext) mod 2 ^ 20"
  have "b \<noteq> a"
  proof
    assume "b = a"
    then have "2 ^ 20 dvd length ext"
      using mod_eq_dvd_iff_nat [of "length h" "length (h @ ext)" "2 ^ 20"] by (simp add: a_def b_def)
    then show False using e by (auto dest: dvd_imp_le)
  qed
  moreover have "a < 2 ^ 20" "b < 2 ^ 20" by (simp_all add: a_def b_def)
  moreover have "unat (millis_at good_chip h) = 1000 * a" "unat (millis_at good_chip (h @ ext)) = 1000 * b"
    using good_millis [of h] good_millis [of "h @ ext"] by (simp_all only: a_def b_def)
  ultimately show "1000 \<le> millis_at good_chip (h @ ext) - millis_at good_chip h"
    by (simp add: word_le_nat_alt unat_sub_if') arith
qed

lemma good_chip_lora: "lora_chip good_chip" "busy_falls good_chip pin"
  by (simp_all add: lora_chip_def busy_falls_def good_chip_def)

lemma good_dev_ready: "sx_ready good_dev"
  by (simp add: sx_ready_def good_dev_def)

theorem radio_calls_return_witness:
  "clock_runs good_chip \<and> sx_ready good_dev \<and> lora_chip good_chip \<and> busy_falls good_chip (gpioPin good_dev)
   \<and> readData good_chip (replicate 256 0) 256 good_dev \<noteq> None \<and> startTransmit good_chip [1, 2] good_dev \<noteq> None"
  using radio_calls_return [OF good_clock good_dev_ready, of 0 "replicate 256 0" 256 "[1, 2]"] good_clock good_dev_ready good_chip_lora by blast

lemma hanging_run:
  "case stage_tx (hanging_chip 112) [1, 2] good_dev of None \<Rightarrow> False | Some (s, d1) \<Rightarrow> s = 0 \<and>
     (case setTx (hanging_chip 112) 0 (setRfSwitchState (txMode d1) d1) of None \<Rightarrow> False
      | Some (t, d2) \<Rightarrow> t = 0 \<and> 112 \<le> int (length (calls d2)) \<and> gpioPin d2 = 20)"
  by code_simp

theorem stuck_busy_never_returns_witness: "startTransmit (hanging_chip 112) [1, 2] good_dev = None"
proof -
  obtain d1 d2 where r: "stage_tx (hanging_chip 112) [1, 2] good_dev = Some (0, d1)"
    "setTx (hanging_chip 112) 0 (setRfSwitchState (txMode d1) d1) = Some (0, d2)" "112 \<le> int (length (calls d2))" "gpioPin d2 = 20"
    using hanging_run by (cases "stage_tx (hanging_chip 112) [1, 2] good_dev") (force split: option.splits prod.splits)+
  have "stays_busy (hanging_chip 112) d2" using r(3,4) by (simp add: stays_busy_def hanging_chip_def)
  then show ?thesis by (rule stuck_busy_never_returns [OF r(1,2)])
qed

lemma good_transmit: "map_option fst (startTransmit good_chip [1, 2] good_dev) = Some 0"
  by code_simp

end
