(* ===== verification/Sx1262_Driver.thy ===== *)
theory Sx1262_Driver
  imports Chip_Radio Sx126x_Waits
begin

text \<open>
  The driver of a node on top of RadioLib: the calls \<^verbatim>\<open>src/src/radio/sx1262_radio.cpp\<close> makes are those of the library's model, and
  what the driver takes for sent is what the chip put on the air.
\<close>

section \<open>A library that sends what it is told\<close>

text \<open>Everything a driver got through, as a list of frames with what each was charged.\<close>

fun sx_run :: "'c RadioLib \<Rightarrow> 'w RxSink option \<Rightarrow> sx_event list \<Rightarrow> 'c Sx1262Radio \<Rightarrow> 'w \<Rightarrow> (bytes \<times> u32) list \<times> 'c Sx1262Radio \<times> 'w" where
  "sx_run L sink [] r w = ([], r, w)"
| "sx_run L sink (Sx_Send frame priority # es) r w = sx_run L sink es (snd (sx_send frame priority r)) w"
| "sx_run L sink (Sx_Tick now # es) r w =
     (let (air, r, w) = sx_tick L sink now r w; (later, r, w) = sx_run L sink es r w in (air @ later, r, w))"

locale sending_library =
  fixes L :: "'c RadioLib" and ok :: "'c \<Rightarrow> bool" and aired :: "'c \<Rightarrow> bytes list"
  assumes receive: "ok c \<Longrightarrow> lib_startReceive L c = (s, c') \<Longrightarrow> ok c' \<and> aired c' = aired c"
    and irq: "ok c \<Longrightarrow> lib_checkIrq L i c = (s, c') \<Longrightarrow> ok c' \<and> aired c' = aired c"
    and packet: "ok c \<Longrightarrow> lib_getPacketLength L c = (n, c') \<Longrightarrow> ok c' \<and> aired c' = aired c"
    and data: "ok c \<Longrightarrow> lib_readData L n c = (s, frame, c') \<Longrightarrow> ok c' \<and> aired c' = aired c"
    and level: "ok c \<Longrightarrow> lib_getRSSI L c = (v, c') \<Longrightarrow> ok c' \<and> aired c' = aired c"
    and ratio: "ok c \<Longrightarrow> lib_getSNR L c = (v, c') \<Longrightarrow> ok c' \<and> aired c' = aired c"
    and finish: "ok c \<Longrightarrow> ok (lib_finishTransmit L c) \<and> aired (lib_finishTransmit L c) = aired c"
    and transmit: "ok c \<Longrightarrow> lib_startTransmit L frame c = (s, c')
      \<Longrightarrow> ok c' \<and> (aired c' = aired c @ [frame] \<or> s \<noteq> 0 \<and> aired c' = aired c)"
begin

lemma listening:
  assumes "ok c" "startListening L c = (b, c')"
  shows "ok c' \<and> aired c' = aired c"
  using receive [OF assms(1)] assms(2) by (fastforce simp: startListening_def split: prod.splits)

lemma reading:
  assumes "ok c" "read_frame L c = (got, c')"
  shows "ok c' \<and> aired c' = aired c"
proof -
  obtain d c1 where i: "lib_checkIrq L RX_DONE c = (d, c1)" by fastforce
  obtain n c2 where p: "lib_getPacketLength L c1 = (n, c2)" by fastforce
  obtain s frame c3 where r: "lib_readData L (if n > MAX_PACKET_FRAME then MAX_PACKET_FRAME else n) c2 = (s, frame, c3)" by (metis prod.collapse)
  obtain b c4 where l: "startListening L c3 = (b, c4)" by fastforce
  have c1: "ok c1 \<and> aired c1 = aired c" using irq [OF assms(1) i] .
  then have c2: "ok c2 \<and> aired c2 = aired c" using packet [OF _ p] by simp
  then have c3: "ok c3 \<and> aired c3 = aired c" using data [OF _ r] by simp
  then have "ok c4 \<and> aired c4 = aired c" using listening [OF _ l] by simp
  then show ?thesis using c1 i p r l assms(2) by (auto simp: read_frame_def Let_def split: if_splits)
qed

lemma collecting:
  assumes "ok c" "collect L sink c r w = (r', w')"
  shows "\<exists>c'. sx_device r' = Some c' \<and> ok c' \<and> aired c' = aired c"
proof -
  obtain got c1 where g: "read_frame L c = (got, c1)" by fastforce
  obtain v c2 where l: "lib_getRSSI L c1 = (v, c2)" by fastforce
  obtain u c3 where n: "lib_getSNR L c2 = (u, c3)" by fastforce
  have c1: "ok c1 \<and> aired c1 = aired c" using reading [OF assms(1) g] .
  then have c2: "ok c2 \<and> aired c2 = aired c" using level [OF _ l] by simp
  then have "ok c3 \<and> aired c3 = aired c" using ratio [OF _ n] by simp
  then show ?thesis using c1 g l n assms(2) by (auto simp: collect_def Let_def split: option.splits prod.splits)
qed

lemma sending:
  assumes "ok c" "sx_device r = Some c" "sx_startTransmit L now c r = (air, r')"
  shows "\<exists>c' sent. sx_device r' = Some c' \<and> ok c' \<and> aired c' = aired c @ sent \<and> subseq (map fst air) sent \<and> length sent \<le> 1"
proof (cases "pop (sx_queue r)")
  case (Some e)
  obtain priority frame q where e: "e = ((priority, frame), q)" by (metis prod.collapse)
  obtain al d where al: "allows now (airtimeUsFor (sx_params r) (length frame)) (sx_duty r) = (al, d)" by fastforce
  obtain s c1 where st: "lib_startTransmit L frame c = (s, c1)" by fastforce
  obtain b c2 where l: "startListening L c1 = (b, c2)" by fastforce
  have c1: "ok c1 \<and> (aired c1 = aired c @ [frame] \<or> s \<noteq> 0 \<and> aired c1 = aired c)" using transmit [OF assms(1) st] .
  then have c2: "ok c2 \<and> aired c2 = aired c1" using listening [OF _ l] by simp
  consider "air = []" "sx_device r' = Some c" | "air = []" "sx_device r' = Some c2" "s \<noteq> 0" | a where "air = [(frame, a)]" "sx_device r' = Some c1" "s = 0"
    using assms(2,3) Some e al st l by (auto simp: sx_startTransmit_def Let_def sx_airtimeUs_def split: if_splits)
  then show ?thesis
  proof cases
    case 1
    then show ?thesis using assms(1) by auto
  next
    case 2
    then show ?thesis using c1 c2 by auto
  next
    case (3 a)
    then show ?thesis using c1 by auto
  qed
qed (use assms in \<open>auto simp: sx_startTransmit_def\<close>)

lemma ticking:
  assumes "ok c" "sx_device r = Some c" "sx_tick L sink now r w = (air, r', w')"
  shows "\<exists>c' sent. sx_device r' = Some c' \<and> ok c' \<and> aired c' = aired c @ sent \<and> subseq (map fst air) sent \<and> length sent \<le> 1"
proof (cases "sx_transmitting r")
  case True
  obtain d c1 where i: "lib_checkIrq L TX_DONE c = (d, c1)" by fastforce
  obtain b c2 where l: "startListening L (lib_finishTransmit L c1) = (b, c2)" by fastforce
  have c1: "ok c1 \<and> aired c1 = aired c" using irq [OF assms(1) i] .
  then have "ok c2 \<and> aired c2 = aired c" using finish [of c1] listening [OF _ l] by simp
  then show ?thesis using True assms(2,3) i l c1
    by (auto simp: sx_tick_def Let_def sx_finishTransmit_def split: if_splits)
next
  case False
  obtain r1 w1 where col: "collect L sink c (r\<lparr>sx_now := now\<rparr>) w = (r1, w1)" by fastforce
  from collecting [OF assms(1) col] obtain c1 where c1: "sx_device r1 = Some c1" "ok c1" "aired c1 = aired c" by blast
  then have "sx_startTransmit L now c1 r1 = (air, r')"
    using assms(2,3) False col by (auto simp: sx_tick_def Let_def split: prod.splits)
  from sending [OF c1(2,1) this] show ?thesis using c1(3) by simp
qed

lemma running:
  "ok c \<Longrightarrow> sx_device r = Some c \<Longrightarrow> sx_run L sink es r w = (air, r', w')
     \<Longrightarrow> \<exists>c' sent. sx_device r' = Some c' \<and> ok c' \<and> aired c' = aired c @ sent \<and> subseq (map fst air) sent
       \<and> length sent \<le> length (filter (\<lambda>e. sx_time e \<noteq> None) es)"
proof (induction es arbitrary: c r w air r' w')
  case (Cons e es)
  show ?case
  proof (cases e)
    case (Sx_Send frame priority)
    have "sx_device (snd (sx_send frame priority r)) = Some c" using Cons.prems(2) by (simp add: sx_send_def split: prod.splits)
    with Cons.IH Cons.prems(1,3) Sx_Send show ?thesis by simp
  next
    case (Sx_Tick now)
    obtain air1 r1 w1 where t: "sx_tick L sink now r w = (air1, r1, w1)" by (metis prod.collapse)
    obtain air2 r2 w2 where u: "sx_run L sink es r1 w1 = (air2, r2, w2)" by (metis prod.collapse)
    have res: "air = air1 @ air2" "r' = r2" using Cons.prems(3) Sx_Tick t u by auto
    obtain c1 sent1 where c1: "sx_device r1 = Some c1" "ok c1" "aired c1 = aired c @ sent1" "subseq (map fst air1) sent1" "length sent1 \<le> 1"
      using ticking [OF Cons.prems(1,2) t] by blast
    obtain c2 sent2 where c2: "sx_device r2 = Some c2" "ok c2" "aired c2 = aired c1 @ sent2" "subseq (map fst air2) sent2"
      "length sent2 \<le> length (filter (\<lambda>e. sx_time e \<noteq> None) es)"
      using Cons.IH [OF c1(2,1) u] by blast
    then show ?thesis using c1 res list_emb_append_mono Sx_Tick by (intro exI [of _ c2] exI [of _ "sent1 @ sent2"]) auto
  qed
qed auto

end

section \<open>RadioLib\<close>

text \<open>
  The floats the driver hands over: megahertz, kilohertz and volts. A call that never returns has no result to be given back;
  \<open>sx1262_ok\<close> is the state in which all of them return.
\<close>

definition frequencyMhz :: "u32 \<Rightarrow> rat" where
  "frequencyMhz hz = float32 (float64 (of_nat (unat hz) / 1000000))"

definition bandwidth_kHz :: "u32 \<Rightarrow> rat" where
  "bandwidth_kHz hz = float32 (float64 (of_nat (unat hz) / 1000))"

definition irq_number :: "irq \<Rightarrow> nat" where
  "irq_number i = (case i of RX_DONE \<Rightarrow> RADIOLIB_IRQ_RX_DONE | TX_DONE \<Rightarrow> RADIOLIB_IRQ_TX_DONE)"

definition device_new :: "Sx1262Options \<Rightarrow> Sx126x" where
  "device_new options = sx1262_new (pinOrNone (pinNss options)) (pinOrNone (pinDio1 options)) (pinOrNone (pinReset options)) (pinOrNone (pinBusy options))"

definition sx1262_lib :: "lgpio \<Rightarrow> Sx126x RadioLib" where
  "sx1262_lib G =
     \<lparr>lib_begin = (\<lambda>options params d. the (sx1262_begin G (frequencyMhz (frequencyHz params)) (bandwidth_kHz (bandwidthHz params))
        (spreadingFactor params) (codingRate params) (syncWord params) (txPowerDbm options) (ucast (preambleSymbols params))
        (float32 (of_int (tcxoMillivolts options) / 1000)) (useRegulatorLdo options) d)),
      lib_setDio2AsRfSwitch = (\<lambda>enable d. the (setDio2AsRfSwitch G enable d)),
      lib_setRfSwitchPins = (\<lambda>rxEn txEn d. the (setRfSwitchPins rxEn txEn d)),
      lib_setCurrentLimit = (\<lambda>ma d. the (setCurrentLimit G (of_int ma) d)),
      lib_startReceive = (\<lambda>d. the (startReceive G d)),
      lib_checkIrq = (\<lambda>i d. the (checkIrq G (irq_number i) d)),
      lib_getPacketLength = (\<lambda>d. the (getPacketLength G d)),
      lib_readData = (\<lambda>len d. let ((state, data), d) = the (readData G (replicate MAX_PACKET_FRAME 0) len d) in (state, data, d)),
      lib_getRSSI = (\<lambda>d. let (v, d) = the (getRSSI G d) in (lround v, d)),
      lib_getSNR = (\<lambda>d. let (v, d) = the (getSNR G d) in (lround v, d)),
      lib_startTransmit = (\<lambda>frame d. the (startTransmit G frame d)),
      lib_finishTransmit = (\<lambda>d. snd (the (finishTransmit G d)))\<rparr>"

definition sx1262_ok :: "lgpio \<Rightarrow> Sx126x \<Rightarrow> bool" where
  "sx1262_ok G d \<longleftrightarrow> clock_runs G \<and> lora_chip G \<and> busy_falls G (gpioPin d) \<and> sx_ready d"

lemma ends_the:
  assumes "clock_runs G \<Longrightarrow> ends f" "sx1262_ok G d" "the (f d) = (r, d')"
  shows "sx1262_ok G d' \<and> on_air (calls d') = on_air (calls d)"
proof -
  have "sx_ready d" "ends f" using assms(1,2) by (simp_all add: sx1262_ok_def)
  then obtain x d1 where "f d = Some (x, d1)" "sx_ready d1" "gpioPin d1 = gpioPin d" "on_air (calls d1) = on_air (calls d)"
    using endsD by blast
  then show ?thesis using assms(2,3) by (simp add: sx1262_ok_def)
qed

lemma startTransmit_the:
  assumes "sx1262_ok G d" "the (startTransmit G frame d) = (s, d')"
  shows "sx1262_ok G d' \<and> (on_air (calls d') = on_air (calls d) @ [frame] \<or> s \<noteq> 0 \<and> on_air (calls d') = on_air (calls d))"
proof -
  have ok: "clock_runs G" "lora_chip G" "busy_falls G (gpioPin d)" "sx_ready d" using assms(1) by (simp_all add: sx1262_ok_def)
  then have "startTransmit G frame d = Some (s, d')" using startTransmit_ends [OF ok, of frame] assms(2) by auto
  from startTransmit_airs [OF ok(2,4) this] show ?thesis using ok by (simp add: sx1262_ok_def)
qed

interpretation lib: sending_library "sx1262_lib G" "sx1262_ok G" "\<lambda>d. on_air (calls d)" for G
proof (unfold_locales, goal_cases)
  case (1 c s c')
  then show ?case using ends_the [of G "startReceive G", OF startReceive_ends] by (auto simp: sx1262_lib_def Let_def split: prod.splits)
next
  case (2 c i s c')
  then show ?case using ends_the [of G "checkIrq G (irq_number i)", OF level_ends(4)] by (auto simp: sx1262_lib_def Let_def split: prod.splits)
next
  case (3 c n c')
  then show ?case using ends_the [of G "getPacketLength G", OF level_ends(3)] by (auto simp: sx1262_lib_def Let_def split: prod.splits)
next
  case (4 c n s frame c')
  then show ?case using ends_the [of G "readData G (replicate MAX_PACKET_FRAME 0) n", OF readData_ends] by (auto simp: sx1262_lib_def Let_def split: prod.splits)
next
  case (5 c v c')
  then show ?case using ends_the [of G "getRSSI G", OF level_ends(1)] by (auto simp: sx1262_lib_def Let_def split: prod.splits)
next
  case (6 c v c')
  then show ?case using ends_the [of G "getSNR G", OF level_ends(2)] by (auto simp: sx1262_lib_def Let_def split: prod.splits)
next
  case (7 c)
  then show ?case using ends_the [of G "finishTransmit G" c "fst (the (finishTransmit G c))", OF level_ends(5)] by (simp add: sx1262_lib_def)
next
  case (8 c frame s c')
  then show ?case using startTransmit_the by (simp add: sx1262_lib_def)
qed

section \<open>What goes on the air\<close>

text \<open>
  C3. The driver on top of the library and a chip that obeys its orders, through any sequence of sends and ticks: the frames that went on
  the air include, in order, every frame the driver took for sent and charged to the duty cycle, and a tick puts at most one frame on
  the air.
\<close>

theorem driver_airs_what_it_charges:
  assumes "sx1262_ok G d" "sx_device r = Some d" "sx_run (sx1262_lib G) sink es r w = (air, r', w')"
  shows "\<exists>d' sent. sx_device r' = Some d' \<and> sx1262_ok G d' \<and> on_air (calls d') = on_air (calls d) @ sent \<and> subseq (map fst air) sent
    \<and> length sent \<le> length (filter (\<lambda>e. sx_time e \<noteq> None) es)"
  using assms by (rule lib.running)

definition good_radio :: "Sx126x Sx1262Radio" where
  "good_radio = (sx_new sx1262_options_default params_default)\<lparr>sx_device := Some good_dev\<rparr>"

definition demo_events :: "sx_event list" where
  "demo_events = [Sx_Send [1, 2, 3] NORMAL, Sx_Tick 1000]"

lemma demo_airtime: "airtimeUsFor params_default 3 = 1089536"
proof -
  have "symbolUs params_default = of_int 32768" using symbolUs_whole [of params_default 16] by (simp add: params_default_def)
  from airtime_whole_symbols [OF this, of 3] show ?thesis
    by (simp add: symbols_x4_def coded_symbols_def Let_def params_default_def)
qed

lemma demo_status: "fst (the (startTransmit good_chip [1, 2, 3] (snd (read_frame (sx1262_lib good_chip) good_dev)))) = 0"
  by code_simp

lemma demo_queue: "map_option fst (pop (sx_queue (snd (sx_send [1, 2, 3] NORMAL good_radio)))) = Some (NORMAL, [1, 2, 3])"
  by code_simp

lemma demo_allows: "fst (allows 1000 1089536 (duty_new 10 3600000))"
  by code_simp

lemma demo_tick: "\<exists>a r w. sx_tick (sx1262_lib good_chip) (None :: unit RxSink option) 1000 (snd (sx_send [1, 2, 3] NORMAL good_radio)) () = ([([1, 2, 3], a)], r, w)"
proof -
  let ?r = "snd (sx_send [1, 2, 3] NORMAL good_radio)"
  obtain got c where c: "read_frame (sx1262_lib good_chip) good_dev = (got, c)" by fastforce
  obtain c' where s: "lib_startTransmit (sx1262_lib good_chip) [1, 2, 3] c = (0, c')"
    using demo_status c by (cases "the (startTransmit good_chip [1, 2, 3] c)") (simp add: sx1262_lib_def)
  obtain q where q: "pop (sx_queue ?r) = Some ((NORMAL, [1, 2, 3]), q)" using demo_queue by auto
  have f: "sx_device ?r = Some good_dev" "sx_params ?r = params_default" "sx_duty ?r = duty_new 10 3600000" "\<not> sx_transmitting ?r"
    by (simp_all add: sx_send_def good_radio_def sx_new_def params_default_def split: prod.splits)
  obtain u where a: "allows 1000 1089536 (duty_new 10 3600000) = (True, u)" using demo_allows by (metis prod.collapse)
  have "airtimeUsFor params_default (Suc (Suc (Suc 0))) = 1089536" using demo_airtime by (simp add: numeral_3_eq_3)
  then show ?thesis
    by (simp add: sx_tick_def Let_def f collect_def c s q a sx_startTransmit_def sx_airtimeUs_def split: option.splits)
qed


theorem driver_airs_what_it_charges_witness:
  "\<exists>air r' w' d' sent. sx_run (sx1262_lib good_chip) (None :: unit RxSink option) demo_events good_radio () = (air, r', w')
     \<and> map fst air = [[1, 2, 3]] \<and> sx_device r' = Some d' \<and> on_air (calls d') = on_air (calls good_dev) @ sent \<and> subseq [[1, 2, 3]] sent"
proof -
  obtain a r1 where t: "sx_tick (sx1262_lib good_chip) (None :: unit RxSink option) 1000 (snd (sx_send [1, 2, 3] NORMAL good_radio)) () = ([([1, 2, 3], a)], r1, ())"
    using demo_tick by auto
  then have r: "sx_run (sx1262_lib good_chip) (None :: unit RxSink option) demo_events good_radio () = ([([1, 2, 3], a)], r1, ())"
    by (simp add: demo_events_def)
  have "sx1262_ok good_chip good_dev" by (simp add: sx1262_ok_def good_clock good_chip_lora good_dev_ready)
  moreover have "sx_device good_radio = Some good_dev" by (simp add: good_radio_def)
  ultimately show ?thesis using driver_airs_what_it_charges [OF _ _ r] r by fastforce
qed

section \<open>The frequency\<close>

text \<open>A float of at least 128 MHz is a whole number of the chip's steps, and the computation of the frequency word is exact.\<close>

lemma frf_exact:
  assumes "x = float32 y" "128 \<le> y" "0 \<le> x" "x < 1024"
  shows "of_nat (unat (frf_of x)) = x * 2 ^ 20"
proof -
  have f: "fits 24 x" unfolding assms(1) by (rule fround_fits) simp
  obtain m where "x * 2 powi (int 24 - 1 - 7) = of_int m" using fround_whole [of 7 y 24] assms(1,2) by auto
  then have m: "x * 2 ^ 20 = of_int (16 * m)" by simp
  have "float32 (x * 2 ^ 25) / 32 = x * 2 ^ 20" using fround_exact [OF fits_scaled [OF f, of 25]] by simp
  moreover have "float32 (x * 2 ^ 20) = x * 2 ^ 20" using fround_exact [OF fits_scaled [OF f, of 20]] by simp
  ultimately have "frf_of x = of_int (ftrunc (of_int (16 * m)))" by (simp only: frf_of_def m)
  also have "ftrunc (of_int (16 * m)) = 16 * m" by (simp add: ftrunc_def del: of_int_mult)
  finally have r: "frf_of x = of_int (16 * m)" .
  have "of_int (16 * m) < (of_int (2 ^ 30) :: rat)" "of_int 0 \<le> (of_int (16 * m) :: rat)" using assms(3,4) m by (simp_all flip: m)
  then have b: "16 * m < 2 ^ 30" "0 \<le> 16 * m" unfolding of_int_less_iff of_int_le_iff by auto
  then have "int (unat (frf_of x)) = 16 * m" unfolding r by (simp add: uint_word_of_int del: of_int_mult)
  then show ?thesis using m by (metis of_int_of_nat_eq)
qed

lemma frequency_error:
  assumes "150000000 \<le> unat hz" "unat hz \<le> 960000000"
  shows "\<bar>of_nat (unat (frf_of (frequencyMhz hz))) * 1000000 / 2 ^ 20 - of_nat (unat hz)\<bar> < (31 :: rat)"
proof -
  define q :: rat where "q = of_nat (unat hz) / 1000000"
  define y where "y = float64 q"
  define x where "x = float32 y"
  have h: "150000000 \<le> (of_nat (unat hz) :: rat)" "of_nat (unat hz) \<le> (960000000 :: rat)" 
    using of_nat_mono [OF assms(1), where 'a = rat] of_nat_mono [OF assms(2), where 'a = rat] by (simp_all only: of_nat_numeral)
  then have q: "150 \<le> q" "q \<le> 960" by (simp_all add: q_def)
  have "\<bar>y - q\<bar> \<le> 2 powi (10 - 1 - int 53)" unfolding y_def by (rule fround_error) (use q in simp)
  then have y: "\<bar>y - q\<bar> \<le> 1 / 17592186044416" by (simp add: power_int_def power_divide)
  have yb: "149 \<le> y" "y \<le> 961" using y q by linarith+
  have "\<bar>x - y\<bar> \<le> 2 powi (10 - 1 - int 24)" unfolding x_def by (rule fround_error) (use yb in simp)
  then have x: "\<bar>x - y\<bar> \<le> 1 / 32768" by (simp add: power_int_def power_divide)
  have "of_nat (unat (frf_of x)) = x * 2 ^ 20" by (rule frf_exact [OF x_def]; use x yb in linarith)
  then have "of_nat (unat (frf_of x)) * 1000000 / 2 ^ 20 = x * 1000000" by simp
  moreover have "\<bar>x * 1000000 - q * 1000000\<bar> < 31" using x y by linarith
  ultimately show ?thesis by (simp add: frequencyMhz_def x_def y_def q_def)
qed

lemma write_cmd_gives:
  assumes "clock_runs G" "sx_ready d" "is_order (ucast cmd # data)" "(ucast cmd :: byte) \<noteq> 0x83"
  shows "\<exists>s d' ext. write_cmd G cmd data d = Some (s, d') \<and> calls d' = calls d @ ext \<and> sx_ready d'
    \<and> (s = 0 \<longrightarrow> orders ext = [ucast cmd # data])"
proof -
  obtain s d' where w: "write_cmd G cmd data d = Some (s, d')" "sx_ready d'"
    using endsD [OF write_cmd_ends [OF assms(1,3,4)] assms(2)] by metis
  have "sx_ready (view d)" using assms(2) by simp
  from emitsD [OF write_cmd_emits [OF this assms(3)] refl w(1)]
  obtain fs where fs: "adds d d' fs" "s = 0 \<longrightarrow> filter is_order fs = [ucast cmd # data]" by metis
  then obtain ext where "calls d' = calls d @ ext" "frames ext = fs" by (auto simp: adds_def)
  then show ?thesis using w fs(2) by (auto simp: orders_def)
qed

text \<open>
  C18. Setting the frequency of the configuration returns, and if it reports success then the last order it gave the chip carries a
  frequency word that is less than 31 Hz away from the configured frequency: more than the chip's step of 0.95 Hz, since the driver
  goes through a float of megahertz.
\<close>

theorem frequency_tuned:
  assumes "clock_runs G" "sx_ready d" "150000000 \<le> unat hz" "unat hz \<le> 960000000"
  shows "\<exists>s d' ext. setFrequency G (frequencyMhz hz) False d = Some (s, d') \<and> calls d' = calls d @ ext \<and> (s = 0 \<longrightarrow> orders ext \<noteq> []
    \<and> (\<exists>frf. last (orders ext) = 0x86 # be_bytes 4 frf \<and> \<bar>of_nat (unat frf) * 1000000 / 2 ^ 20 - of_nat (unat hz)\<bar> < (31 :: rat)))"
proof -
  let ?x = "frequencyMhz hz" and ?frf = "frf_of (frequencyMhz hz)"
  have e: "\<bar>of_nat (unat ?frf) * 1000000 / 2 ^ 20 - of_nat (unat hz)\<bar> < (31 :: rat)" using frequency_error [OF assms(3,4)] .
  show ?thesis
  proof (cases "150 \<le> ?x \<and> ?x \<le> 960")
    case False
    then show ?thesis by (auto simp: setFrequency_def)
  next
    case True
    let ?f = "\<lambda>d. if \<not> False \<and> \<bar>float32 (?x - freqMHz d)\<bar> \<ge> 20 then calibrateImage G ?x d else Some (0, d)"
    obtain s0 d0 e0 where c: "calibrateImage G ?x d = Some (s0, d0)" "calls d0 = calls d @ e0" "sx_ready d0"
      using write_cmd_gives [OF assms(1,2), of "0x98" "image_bytes ?x"] unfolding calibrateImage_def calibrateImage_raw_def by auto
    obtain s1 d1 e1 where f: "?f d = Some (s1, d1)" "calls d1 = calls d @ e1" "sx_ready d1"
    proof (cases "20 \<le> \<bar>float32 (?x - freqMHz d)\<bar>")
      case True
      then show ?thesis using c by (intro that [of s0 d0 e0]) simp_all
    next
      case False
      then show ?thesis using assms(2) by (intro that [of 0 d "[]"]) simp_all
    qed
    have "sx_ready (d1\<lparr>freqMHz := ?x\<rparr>)" using f(3) by (simp add: sx_ready_def view_def)
    then obtain s2 d2 e2 where g: "setFrequencyRaw G ?x d1 = Some (s2, d2)" "calls d2 = calls d1 @ e2" "s2 = 0 \<longrightarrow> orders e2 = [0x86 # be_bytes 4 ?frf]"
      using write_cmd_gives [OF assms(1), of "d1\<lparr>freqMHz := ?x\<rparr>" "0x86" "be_bytes 4 ?frf"] unfolding setFrequencyRaw_def setRfFrequency_def by auto
    have r: "setFrequency G ?x False d = checked ?f (setFrequencyRaw G ?x) d" using True by (simp add: setFrequency_def)
    show ?thesis
    proof (cases "s1 = 0")
      case True
      then show ?thesis using f g e r by (intro exI [of _ s2] exI [of _ d2] exI [of _ "e1 @ e2"]) (auto simp: checked_def)
    next
      case False
      then show ?thesis using f r by (intro exI [of _ s1] exI [of _ d1] exI [of _ e1]) (auto simp: checked_def)
    qed
  qed
qed

lemma demo_mhz: "frequencyMhz 869525000 = 7123149 / 8192"
proof -
  have "float32 (float64 (869525000 / 1000000)) = 7123149 / 8192" by code_simp
  then show ?thesis by (simp add: frequencyMhz_def)
qed

lemma demo_frf: "frf_of (7123149 / 8192) = 911763072"
  by code_simp

lemma demo_frequency: "map_option fst (setFrequency good_chip (7123149 / 8192) False good_dev) = Some 0"
  by code_simp

lemma default_frequency_off: "24 < \<bar>of_nat (unat (frf_of (frequencyMhz 869525000))) * 1000000 / 2 ^ 20 - (869525000 :: rat)\<bar>"
  by (simp add: demo_mhz demo_frf)

theorem frequency_tuned_witness:
  "\<exists>d' ext frf. setFrequency good_chip (frequencyMhz 869525000) False good_dev = Some (0, d') \<and> calls d' = calls good_dev @ ext
     \<and> last (orders ext) = 0x86 # be_bytes 4 frf \<and> \<bar>of_nat (unat frf) * 1000000 / 2 ^ 20 - 869525000\<bar> < (31 :: rat)"
proof -
  obtain d' where d: "setFrequency good_chip (frequencyMhz 869525000) False good_dev = Some (0, d')" using demo_frequency by (auto simp: demo_mhz)
  have "150000000 \<le> unat (869525000 :: u32)" "unat (869525000 :: u32) \<le> 960000000" by simp_all
  from frequency_tuned [OF good_clock good_dev_ready this] show ?thesis using d by auto
qed

end
