(* ===== verification/Node_On_Chip.thy ===== *)
theory Node_On_Chip
  imports Node_Runs Sx1262_Driver
begin

text \<open>
  The loop of \<^verbatim>\<open>main.cpp\<close> over the radio library itself, whose calls need not return. \<open>sx1262_calls\<close> keeps the chip behind the
  driver as an option: \<open>None\<close> once a call has not returned, and from then on for ever. A run of the node on the chip has a result
  only if every call in it has returned (\<open>chip_run\<close>).
\<close>

section \<open>Calls that may not return\<close>

definition awaited :: "('c \<Rightarrow> ('x \<times> 'c) option) \<Rightarrow> 'x \<Rightarrow> 'c option \<Rightarrow> 'x \<times> 'c option" where
  "awaited f unknown x = (case Option.bind x f of None \<Rightarrow> (unknown, None) | Some (r, d) \<Rightarrow> (r, Some d))"

definition sx1262_calls :: "lgpio \<Rightarrow> Sx126x option RadioLib" where
  "sx1262_calls G =
     \<lparr>lib_begin = (\<lambda>options params. awaited (sx1262_begin G (frequencyMhz (frequencyHz params)) (bandwidth_kHz (bandwidthHz params))
        (spreadingFactor params) (codingRate params) (syncWord params) (txPowerDbm options) (ucast (preambleSymbols params))
        (float32 (of_int (tcxoMillivolts options) / 1000)) (useRegulatorLdo options)) 0),
      lib_setDio2AsRfSwitch = (\<lambda>enable. awaited (setDio2AsRfSwitch G enable) 0),
      lib_setRfSwitchPins = (\<lambda>rxEn txEn x. Option.bind x (setRfSwitchPins rxEn txEn)),
      lib_setCurrentLimit = (\<lambda>ma. awaited (setCurrentLimit G (of_int ma)) 0),
      lib_startReceive = awaited (startReceive G) 0,
      lib_checkIrq = (\<lambda>i. awaited (checkIrq G (irq_number i)) 0),
      lib_getPacketLength = awaited (getPacketLength G) 0,
      lib_readData = (\<lambda>len x. let ((state, data), x) = awaited (readData G (replicate MAX_PACKET_FRAME 0) len) (0, []) x in (state, data, x)),
      lib_getRSSI = (\<lambda>x. let (v, x) = awaited (getRSSI G) 0 x in (lround v, x)),
      lib_getSNR = (\<lambda>x. let (v, x) = awaited (getSNR G) 0 x in (lround v, x)),
      lib_startTransmit = (\<lambda>frame. awaited (startTransmit G frame) (- 1)),
      lib_finishTransmit = (\<lambda>x. snd (awaited (finishTransmit G) 0 x))\<rparr>"

text \<open>No call has hung so far, and in this state none will.\<close>

definition answering :: "lgpio \<Rightarrow> Sx126x option \<Rightarrow> bool" where
  "answering G x \<longleftrightarrow> (\<exists>d. x = Some d \<and> sx1262_ok G d)"

lemma awaited_ends:
  assumes "clock_runs G \<Longrightarrow> ends f" "answering G x" "awaited f u x = (r, x')"
  shows "answering G x' \<and> on_air (calls (the x')) = on_air (calls (the x))"
proof -
  obtain d where d: "x = Some d" "sx1262_ok G d" using assms(2) by (auto simp: answering_def)
  then have "sx_ready d" "ends f" using assms(1) by (simp_all add: sx1262_ok_def)
  then obtain y d1 where "f d = Some (y, d1)" "sx_ready d1" "gpioPin d1 = gpioPin d" "on_air (calls d1) = on_air (calls d)"
    using endsD by blast
  then show ?thesis using assms(3) d by (auto simp: answering_def awaited_def sx1262_ok_def)
qed

lemma awaited_transmit:
  assumes "answering G x" "awaited (startTransmit G frame) u x = (s, x')"
  shows "answering G x' \<and> (on_air (calls (the x')) = on_air (calls (the x)) @ [frame] \<or> s \<noteq> 0 \<and> on_air (calls (the x')) = on_air (calls (the x)))"
proof -
  obtain d where d: "x = Some d" "sx1262_ok G d" using assms(1) by (auto simp: answering_def)
  then have ok: "clock_runs G" "lora_chip G" "busy_falls G (gpioPin d)" "sx_ready d" by (simp_all add: sx1262_ok_def)
  obtain r d' where t: "startTransmit G frame d = Some (r, d')" using startTransmit_ends [OF ok, of frame] by auto
  from startTransmit_airs [OF ok(2,4) t] show ?thesis using assms(2) d t by (auto simp: answering_def awaited_def sx1262_ok_def)
qed

interpretation awaiting: sending_library "sx1262_calls G" "answering G" "\<lambda>x. on_air (calls (the x))" for G
proof (unfold_locales, goal_cases)
  case (1 c s c')
  then show ?case using awaited_ends [of G "startReceive G", OF startReceive_ends] by (simp add: sx1262_calls_def)
next
  case (2 c i s c')
  then show ?case using awaited_ends [of G "checkIrq G (irq_number i)", OF level_ends(4)] by (simp add: sx1262_calls_def)
next
  case (3 c n c')
  then show ?case using awaited_ends [of G "getPacketLength G", OF level_ends(3)] by (simp add: sx1262_calls_def)
next
  case (4 c n s frame c')
  then show ?case using awaited_ends [of G "readData G (replicate MAX_PACKET_FRAME 0) n", OF readData_ends]
    by (auto simp: sx1262_calls_def Let_def split: prod.splits)
next
  case (5 c v c')
  then show ?case using awaited_ends [of G "getRSSI G", OF level_ends(1)] by (auto simp: sx1262_calls_def Let_def split: prod.splits)
next
  case (6 c v c')
  then show ?case using awaited_ends [of G "getSNR G", OF level_ends(2)] by (auto simp: sx1262_calls_def Let_def split: prod.splits)
next
  case (7 c)
  then show ?case using awaited_ends [of G "finishTransmit G" c 0 "fst (awaited (finishTransmit G) 0 c)", OF level_ends(5)]
    by (simp add: sx1262_calls_def)
next
  case (8 c frame s c')
  then show ?case using awaited_transmit by (simp add: sx1262_calls_def)
qed

text \<open>A call that has not returned is never followed by one that does.\<close>

lemma awaited_None [simp]: "awaited f u None = (u, None)"
  by (simp add: awaited_def)

interpretation hung: sending_library "sx1262_calls G" "\<lambda>x. x = None" "\<lambda>_. []" for G
  by unfold_locales (auto simp: sx1262_calls_def)

section \<open>What a run of the node does to its radio\<close>

locale lasting_device =
  fixes D :: "('i, 'r) Device" and lasts :: "'r \<Rightarrow> bool"
  assumes send_lasts: "lasts r \<Longrightarrow> lasts (snd (dev_send D frame priority r))"
    and tick_lasts: "lasts r \<Longrightarrow> lasts (fst (dev_tick D sink now input r v))"
    and used_lasts: "lasts r \<Longrightarrow> lasts (snd (usedPermilleOf D r))"
begin

lemma link_lasts: "lasts (nd_device n) \<Longrightarrow> lasts (nd_device (link_enqueue D n))"
proof -
  have "lasts r \<Longrightarrow> lasts (fold (\<lambda>(frame, priority) r. snd (dev_send D frame priority r)) sends r)" for sends r
    by (induction sends arbitrary: r) (auto simp: send_lasts)
  then show "lasts (nd_device n) \<Longrightarrow> ?thesis" by (simp add: link_enqueue_def on_world_def case_prod_beta Let_def)
qed

lemma radio_turn_lasts:
  assumes "lasts (nd_device n)" "radio_turn N D now wall input n = Some n'"
  shows "lasts (nd_device n')"
proof -
  obtain r v where t: "dev_tick D (receiver_onFrame N wall) now input (nd_device n) (nd_receiver (on_host (ha_tick now) n)) = (r, v)"
    by fastforce
  have r: "lasts r" using tick_lasts [OF assms(1)] t by (metis fst_conv)
  have "nd_device (on_host (ha_tick now) n) = nd_device n" by (simp add: on_host_def on_world_def)
  then show ?thesis using assms(2) t r
    by (auto simp: radio_turn_def Let_def on_world_def split: if_splits option.splits intro!: link_lasts)
qed

lemma room_turn_lasts: "lasts (nd_device n) \<Longrightarrow> lasts (nd_device (room_turn N D now wall n))"
  using used_lasts [of "nd_device n"] by (auto simp: room_turn_def Let_def on_world_def split: prod.splits intro!: link_lasts)

lemma advert_turn_lasts: "lasts (nd_device n) \<Longrightarrow> lasts (nd_device (advert_turn N D now wall n))"
  by (auto simp: advert_turn_def Let_def on_host_def on_world_def split: prod.splits intro!: link_lasts)

lemma report_turn_lasts: "lasts (nd_device n) \<Longrightarrow> lasts (nd_device (report_turn N D now n))"
  using used_lasts [of "nd_device n"] by (auto simp: report_turn_def Let_def on_world_def split: prod.splits option.splits)

lemma flush_turn_device: "nd_device (flush_turn N now n) = nd_device n"
  by (simp add: flush_turn_def flush_room_def flush_store_def Let_def on_host_def on_world_def case_prod_beta)

lemma node_turn_lasts: "lasts (nd_device n) \<Longrightarrow> node_turn N D now wall input n = Some (stop, n') \<Longrightarrow> lasts (nd_device n')"
  by (auto simp: node_turn_def Let_def flush_turn_device split: option.splits if_splits
      intro!: report_turn_lasts advert_turn_lasts room_turn_lasts dest: radio_turn_lasts)

lemma node_run_lasts: "lasts (nd_device n) \<Longrightarrow> node_run N D turns n = Some (stop, n') \<Longrightarrow> lasts (nd_device n')"
proof (induction turns arbitrary: n)
  case (Cons t turns)
  then show ?case by (cases t) (auto dest: node_turn_lasts split: option.splits prod.splits if_splits)
qed simp

end

definition chip_answers :: "lgpio \<Rightarrow> Sx126x option Sx1262Radio \<Rightarrow> bool" where
  "chip_answers G r \<longleftrightarrow> (\<exists>x. sx_device r = Some x \<and> answering G x)"

interpretation chip_lasts: lasting_device "chip_device (sx1262_calls G)" "chip_answers G" for G
proof (unfold_locales, goal_cases)
  case (1 r frame priority)
  then show ?case by (simp add: chip_answers_def chip_device_def sx_send_def split: prod.splits)
next
  case (2 r sink now input v)
  then obtain x where x: "answering G x" "sx_device r = Some x" by (auto simp: chip_answers_def)
  obtain air r' v' where t: "sx_tick (sx1262_calls G) (Some sink) now r v = (air, r', v')" by (metis prod.collapse)
  from awaiting.ticking [OF x t] show ?case using t by (auto simp: chip_answers_def chip_device_def)
next
  case (3 r)
  then show ?case by (simp add: chip_answers_def chip_device_def sx_usedPermille_def Let_def split: prod.splits)
qed

interpretation hung_lasts: lasting_device "chip_device (sx1262_calls G)" "\<lambda>r. sx_device r = Some None" for G
proof (unfold_locales, goal_cases)
  case (2 r sink now input v)
  obtain air r' v' where t: "sx_tick (sx1262_calls G) (Some sink) now r v = (air, r', v')" by (metis prod.collapse)
  from hung.ticking [OF refl 2 t] show ?case using t by (auto simp: chip_device_def)
qed (simp_all add: chip_device_def sx_send_def sx_usedPermille_def Let_def split: prod.splits)

section \<open>Every turn ends\<close>

definition chip_run ::
  "node_setup \<Rightarrow> lgpio \<Rightarrow> (Millis \<times> u32 \<times> unit) list \<Rightarrow> Sx126x option Sx1262Radio node \<Rightarrow> (bool \<times> Sx126x option Sx1262Radio node) option" where
  "chip_run N G turns n =
     (case node_run N (chip_device (sx1262_calls G)) turns n of None \<Rightarrow> None
      | Some (stop, n) \<Rightarrow> if sx_device (nd_device n) = Some None then None else Some (stop, n))"

lemma hung_run: "sx_device (nd_device n) = Some None \<Longrightarrow> chip_run N G turns n = None"
  using hung_lasts.node_run_lasts [of n N G turns] by (auto simp: chip_run_def split: option.split)

text \<open>
  C14. The loop of a node does not hang. On the chip, if its clock runs, it reports the LoRa modem and its BUSY line falls after an
  order (without which a call to the library may not return), and on the datagram radio without a condition, whatever is received and
  whatever the clocks show: every turn ends, every call to the radio library in it having returned, and the room it leaves behind is
  well-formed if the first one was.
\<close>

theorem node_turns_end:
  assumes "room_ok (room_of (nd_world n))" "sx_device (nd_device n) = Some (Some d)" "sx1262_ok G d" "room_ok (room_of (nd_world m))"
  shows "(\<exists>stop n'. chip_run N G turns n = Some (stop, n') \<and> room_ok (room_of (nd_world n')))
    \<and> (\<exists>stop m'. node_run N udp_device turns' m = Some (stop, m') \<and> room_ok (room_of (nd_world m')))"
proof -
  obtain stop n' where n': "node_run N (chip_device (sx1262_calls G)) turns n = Some (stop, n')" "node_reach N (nd_world n) (nd_world n')"
    using chip_hears.run_reach [where n = n and N = N and turns = turns and L = "sx1262_calls G", OF node_reach.booted] by blast
  have "chip_answers G (nd_device n)" using assms(2,3) by (simp add: chip_answers_def answering_def)
  then have "chip_answers G (nd_device n')" using chip_lasts.node_run_lasts n'(1) by blast
  then have "chip_run N G turns n = Some (stop, n')" using n'(1) by (auto simp: chip_run_def chip_answers_def answering_def)
  moreover obtain stop' m' where m': "node_run N udp_device turns' m = Some (stop', m')" "node_reach N (nd_world m) (nd_world m')"
    using udp_hears.run_reach [where n = m and N = N and turns = turns', OF node_reach.booted] by blast
  ultimately show ?thesis using m' node_reach_ok [OF n'(2) assms(1)] node_reach_ok [OF m'(2) assms(4)] by blast
qed

theorem node_turns_end_witness:
  "(\<exists>stop n'. chip_run test_setup good_chip [(5, 1700000000, ()), (9, 1700000000, ())]
       (idle_node ((sx_new sx1262_options_default params_default)\<lparr>sx_device := Some (Some good_dev)\<rparr>)) = Some (stop, n')
     \<and> room_ok (room_of (nd_world n')))
   \<and> (\<exists>stop m'. node_run test_setup udp_device [(5, 1700000000, [replicate 9 7])]
       (idle_node ((udp_new \<lparr>bindAddress = [], listenPort = 0, peers = [], multicastGroup = [], multicastPort = 0\<rparr> params_default
          (replicate 8 1))\<lparr>udp_socket := True\<rparr>)) = Some (stop, m')
     \<and> room_ok (room_of (nd_world m')))"
proof (rule node_turns_end)
  show "sx1262_ok good_chip good_dev" by (simp add: sx1262_ok_def good_clock good_chip_lora good_dev_ready)
qed (simp_all add: idle_node_def router_new_def room_new_ok)

end
