(* ===== verification/Sx126x_Airtime.thy ===== *)
theory Sx126x_Airtime
  imports Sx1262_Driver
begin

text \<open>
  The time a frame is on the air, computed twice: by \<^verbatim>\<open>radio::airtimeUsFor\<close> for the duty cycle, in doubles, and by the library in integers
  (\<^verbatim>\<open>SX126x::calculateTimeOnAir\<close>, its LoRa case). The driver does not ask the library; the two agree for the spreading factors a mesh uses.
\<close>

section \<open>The library\<close>

definition symbolLength_us :: "byte \<Rightarrow> rat \<Rightarrow> u32" where
  "symbolLength_us sf bw = of_int (ftrunc (float32 (float32 (of_int (uint (push_bit (unat sf) 10000 :: u32))) / float32 (bw * 10))))"

definition calculateTimeOnAir :: "byte \<Rightarrow> rat \<Rightarrow> byte \<Rightarrow> u16 \<Rightarrow> bool \<Rightarrow> bool \<Rightarrow> bool \<Rightarrow> nat \<Rightarrow> u32" where
  "calculateTimeOnAir sf bw cr preambleLength crcEnabled implicitHeader ldrOptimise len =
     (let short = (sf = 5 \<or> sf = 6);
          sfDivisor = (if ldrOptimise then 4 * (sf - 2) else 4 * sf);
          bitCount = sint (of_int (8 * int len + (if crcEnabled then 16 else 0) - 4 * uint sf + (if short then 0 else 8)
            + (if implicitHeader then 0 else 20)) :: u16);
          bitCount = (if bitCount < 0 then 0 else bitCount);
          nPreCodedSymbols = of_int ((bitCount + (uint sfDivisor - 1)) div uint sfDivisor) :: u16;
          nSymbol_x4 = (ucast preambleLength + 8) * 4 + (if short then 25 else 17) + ucast nPreCodedSymbols * ucast cr * 4
      in symbolLength_us sf bw * nSymbol_x4 div 4)"

section \<open>Symbols\<close>

text \<open>The bandwidths of the chip at which a symbol is a whole number of microseconds.\<close>

definition whole_bandwidths :: "u32 list" where
  "whole_bandwidths = [31250, 62500, 125000, 250000, 500000]"

lemma whole_factor:
  assumes "hz \<in> set whole_bandwidths"
  obtains k :: int where "k \<in> {2, 4, 8, 16, 32}" "of_nat (unat hz) = (1000000 / of_int k :: rat)"
proof -
  from assms consider "hz = 31250" | "hz = 62500" | "hz = 125000" | "hz = 250000" | "hz = 500000"
    unfolding whole_bandwidths_def by auto
  then show ?thesis
  proof cases
    case 1 then show ?thesis by (intro that [of 32]) simp_all
  next
    case 2 then show ?thesis by (intro that [of 16]) simp_all
  next
    case 3 then show ?thesis by (intro that [of 8]) simp_all
  next
    case 4 then show ?thesis by (intro that [of 4]) simp_all
  next
    case 5 then show ?thesis by (intro that [of 2]) simp_all
  qed
qed

lemma whole_kHz:
  assumes "of_nat (unat hz) = (1000000 / of_int k :: rat)" "k \<in> {2, 4, 8, 16, 32}"
  shows "bandwidth_kHz hz = 1000 / of_int k"
proof -
  have m: "(1000 / of_int k :: rat) = of_int (4000 div k) / 4" "\<bar>4000 div k\<bar> < 2 ^ 24" "\<bar>4000 div k\<bar> < 2 ^ 53" using assms(2) by auto
  have q: "(of_nat (unat hz) / 1000 :: rat) = of_int (4000 div k) / 4" unfolding assms(1) m(1) [symmetric] by simp
  show ?thesis unfolding bandwidth_kHz_def q float_quarters(1) [OF m(2)] float_quarters(2) [OF m(3)] using m(1) by simp
qed

lemma symbol_exact:
  assumes "of_nat (unat hz) = (1000000 / of_int k :: rat)" "k \<in> {2, 4, 8, 16, 32}" "unat sf \<le> 12"
  shows "symbolLength_us sf (bandwidth_kHz hz) = of_int (k * 2 ^ unat sf)"
proof -
  let ?p = "(2 :: int) ^ unat sf"
  have p: "?p \<le> 2 ^ 12" "0 < ?p" using power_increasing [OF assms(3), of "2 :: int"] by simp_all
  have "push_bit (unat sf) 10000 = (of_int (10000 * ?p) :: u32)" by (simp add: push_bit_eq_mult)
  then have u: "uint (push_bit (unat sf) 10000 :: u32) = 10000 * ?p" using p by (simp add: uint_word_of_int del: of_int_mult)
  have "float32 (of_int (10000 * 2 ^ n)) = of_int (10000 * 2 ^ n)" for n
    using fround_exact [OF fits_scaled [OF fits_whole [of 10000 24], of "int n"]] by simp
  then have a: "float32 (of_int (10000 * ?p)) = of_int (10000 * ?p)" .
  have b: "float32 (1000 / of_int k * 10) = 10000 / of_int k"
  proof -
    have m: "(1000 / of_int k * 10 :: rat) = of_int (40000 div k) / 4" "(10000 / of_int k :: rat) = of_int (40000 div k) / 4"
      "\<bar>40000 div k\<bar> < 2 ^ 24" using assms(2) by auto
    show ?thesis unfolding m(1,2) by (rule float_quarters(1) [OF m(3)])
  qed
  have "k * ?p \<le> 32 * 4096" using assms(2) p by (intro mult_mono) auto
  moreover have "0 < k * ?p" using assms(2) p by auto
  ultimately have c: "float32 (of_int (k * ?p)) = of_int (k * ?p)" by (intro fround_exact fits_whole) simp
  have "(of_int (10000 * ?p) / (10000 / of_int k) :: rat) = of_int (k * ?p)" using assms(2) by auto
  then show ?thesis unfolding symbolLength_us_def whole_kHz [OF assms(1,2)] u a b
    using c \<open>0 < k * ?p\<close> by (simp add: ftrunc_def del: of_int_mult)
qed

section \<open>The payload\<close>

text \<open>The low data rate optimization, on in one as in the other: no symbol lasts 16 ms exactly.\<close>

lemma symbol_16ms:
  assumes "0 \<le> t" "t < 1024" "t \<le> 159 / 10 \<or> 161 / 10 \<le> t"
  shows "float32 t \<ge> 16 \<longleftrightarrow> t > 16"
proof -
  have "\<bar>float32 t - t\<bar> \<le> 2 powi (10 - 1 - int 24)" by (rule fround_error) (use assms in simp)
  then have "\<bar>float32 t - t\<bar> \<le> 1 / 32768" by (simp add: power_int_def power_divide)
  then show ?thesis using assms(3) by linarith
qed

lemma symbol_range:
  assumes "k \<in> {2, 4, 8, 16, 32}" "n \<le> 12"
  shows "0 \<le> (of_int (k * 2 ^ n) / 1000 :: rat)" "of_int (k * 2 ^ n) / 1000 < (1024 :: rat)"
    "of_int (k * 2 ^ n) / 1000 \<le> (159 / 10 :: rat) \<or> 161 / 10 \<le> (of_int (k * 2 ^ n) / 1000 :: rat)"
    "of_int (k * 2 ^ n) / 1000 > (16 :: rat) \<longleftrightarrow> k * 2 ^ n > 16000"
proof -
  have "n \<in> {0, 1, 2, 3, 4, 5, 6, 7, 8, 9, 10, 11, 12}" unfolding insert_iff empty_iff using assms(2) by arith
  then show "0 \<le> (of_int (k * 2 ^ n) / 1000 :: rat)" "of_int (k * 2 ^ n) / 1000 < (1024 :: rat)"
    "of_int (k * 2 ^ n) / 1000 \<le> (159 / 10 :: rat) \<or> 161 / 10 \<le> (of_int (k * 2 ^ n) / 1000 :: rat)"
    "of_int (k * 2 ^ n) / 1000 > (16 :: rat) \<longleftrightarrow> k * 2 ^ n > 16000"
    using assms(1) by auto
qed

lemma low_rate_agrees:
  assumes "of_nat (unat hz) = (1000000 / of_int k :: rat)" "k \<in> {2, 4, 8, 16, 32}" "unat sf \<le> 12"
  shows "ldro_for sf (bandwidth_kHz hz) = 1 \<longleftrightarrow> k * 2 ^ unat sf > 16000"
proof -
  note t = symbol_range [OF assms(2,3)]
  have q: "2 ^ unat sf / bandwidth_kHz hz = of_int (k * 2 ^ unat sf) / 1000" unfolding whole_kHz [OF assms(1,2)] using assms(2) by auto
  have "float32 (2 ^ unat sf / bandwidth_kHz hz) \<ge> 16 \<longleftrightarrow> k * 2 ^ unat sf > 16000"
    unfolding q using symbol_16ms [OF t(1-3)] t(4) by blast
  then show ?thesis by (simp add: ldro_for_def)
qed

lemma sint_small: "- 32768 \<le> n \<Longrightarrow> n < 32768 \<Longrightarrow> sint (of_int n :: u16) = n"
  by (simp add: int_word_sint)

lemma symbols_x4_bounds:
  assumes "7 \<le> sf" "sf \<le> 12" "0 \<le> len" "len \<le> 255" "0 \<le> pre" "pre < 256" "0 \<le> cr" "cr \<le> 8"
  shows "0 \<le> symbols_x4 sf low pre cr len" "symbols_x4 sf low pre cr len < 8192"
proof -
  have s5: "5 \<le> sf" using assms(1) by simp
  note c = coded_symbols_bounds [OF s5 assms(2-4), of low]
  have "coded_symbols sf low len * cr \<le> 175 * 8" using c assms(7,8) by (intro mult_mono) auto
  moreover have "0 \<le> coded_symbols sf low len * cr" using c assms(7) by simp
  ultimately show "0 \<le> symbols_x4 sf low pre cr len" "symbols_x4 sf low pre cr len < 8192"
    using assms(5,6) by (simp_all add: symbols_x4_def)
qed

lemma library_symbols:
  assumes "7 \<le> uint sf" "uint sf \<le> 12" "len \<le> 255"
  shows "calculateTimeOnAir sf bw cr (ucast (pre :: byte)) True False low len
    = symbolLength_us sf bw * of_int (symbols_x4 (uint sf) low (uint pre) (uint cr) (int len)) div 4"
proof -
  let ?c = "coded_symbols (uint sf) low (int len)" and ?n = "8 * int len - 4 * uint sf + 44"
  have short: "sf \<noteq> 5" "sf \<noteq> 6" using assms(1) by auto
  have n: "sint (of_int (8 * int len + 16 - 4 * uint sf + 8 + 20) :: u16) = ?n"
    using assms by (subst sint_small) auto
  have "(if low then 4 * (sf - 2) else 4 * sf) = of_int (4 * (uint sf - (if low then 2 else 0)))" by simp
  then have d: "uint (if low then 4 * (sf - 2) else 4 * sf) = 4 * (uint sf - (if low then 2 else 0))"
    using assms(1,2) by (simp add: uint_word_of_int del: of_int_mult of_int_diff)
  have s5: "5 \<le> uint sf" using assms(1) by simp
  note cb = coded_symbols_bounds [OF s5 assms(2), of "int len" low]
  have c: "ucast (of_int ?c :: u16) = (of_int ?c :: u32)"
    using cb assms(3) by (simp add: word_uint_eq_iff unsigned_ucast_eq uint_word_of_int take_bit_eq_mod)
  have e: "((if ?n < 0 then 0 else ?n) + (4 * (uint sf - (if low then 2 else 0)) - 1)) div (4 * (uint sf - (if low then 2 else 0))) = ?c"
    by (simp only: coded_symbols_def Let_def)
  have "(ucast (ucast pre :: u16) :: u32) = ucast pre"
    by (rule bit_word_eqI) (auto simp: bit_ucast_iff dest: bit_imp_le_length)
  then have p: "(ucast (ucast pre :: u16) :: u32) = of_int (uint pre)" "(ucast cr :: u32) = of_int (uint cr)"
    by (simp_all only: ucast_eq)
  show ?thesis unfolding calculateTimeOnAir_def Let_def
    by (simp only: short n d e c p simp_thms if_True if_False) (simp add: symbols_x4_def)
qed

lemma word_quarter:
  assumes "0 \<le> a * b" "a * b < 2 ^ 32"
  shows "of_int a * of_int b div 4 = (of_int (a * b div 4) :: u32)"
proof -
  obtain m where m: "a * b = int m" using assms(1) nonneg_int_cases by blast
  then have "of_int a * of_int b = (of_nat m :: u32)" by (metis of_int_mult of_int_of_nat_eq)
  moreover have "unat (of_nat m :: u32) = m" using assms(2) m by (simp add: unat_of_nat)
  moreover have "int m div 4 = int (m div 4)" by simp
  ultimately show ?thesis using assms(2) m by (simp add: word_unat_eq_iff unat_div unat_of_nat)
qed

text \<open>
  C29. For every frame up to 255 bytes, every spreading factor from 7 to 12, coding rate up to 4/8, preamble and bandwidth at which a
  symbol is a whole number of microseconds: the airtime the duty cycle is charged, computed by the driver in floating point, is to the
  microsecond, rounding at every step included, the time on air the library computes in integers, with the low data rate optimization that the library turns on itself.
\<close>

theorem airtime_is_the_librarys:
  assumes "bandwidthHz params \<in> set whole_bandwidths" "7 \<le> unat (spreadingFactor params)" "unat (spreadingFactor params) \<le> 12"
    "unat (codingRate params) \<le> 8" "len \<le> 255"
  shows "airtimeUsFor params len = (let sf = spreadingFactor params; bw = bandwidth_kHz (bandwidthHz params)
    in calculateTimeOnAir sf bw (codingRate params) (ucast (preambleSymbols params)) True False (ldro_for sf bw = 1) len)"
proof -
  obtain k where k: "k \<in> {2, 4, 8, 16, 32}" "of_nat (unat (bandwidthHz params)) = (1000000 / of_int k :: rat)"
    using whole_factor [OF assms(1)] .
  let ?n = "unat (spreadingFactor params)"
  define K where "K = k * 2 ^ ?n"
  have s: "symbolUs params = of_int K" using symbolUs_whole [of params k] k assms(3) by (auto simp: K_def)
  let ?X = "symbols_x4 (uint (spreadingFactor params)) (K > 16000) (uint (preambleSymbols params)) (uint (codingRate params)) (int len)"
  have sf: "7 \<le> uint (spreadingFactor params)" "uint (spreadingFactor params) \<le> 12"
    "uint (codingRate params) \<le> 8"
    using assms(2-4) [folded of_nat_le_iff [where 'a = int]] by simp_all
  note lib = library_symbols [OF sf(1,2) assms(5), of "bandwidth_kHz (bandwidthHz params)" "codingRate params" "preambleSymbols params" "K > 16000"]
  have K: "0 < K" "K \<le> 32 * 4096" unfolding K_def using k(1) power_increasing [OF assms(3), of "2 :: int"] by (auto intro: mult_mono)
  have "of_int K * of_int ?X div 4 = (of_int (K * ?X div 4) :: u32)"
  proof (rule word_quarter)
    have X: "0 \<le> ?X" "?X < 8192" 
      using symbols_x4_bounds [OF sf(1,2), of "int len" "uint (preambleSymbols params)" "uint (codingRate params)"] sf(3) assms(5)
        uint_bounded [of "preambleSymbols params"] by simp_all
    then have "K * ?X \<le> (32 * 4096) * 8192" using K by (intro mult_mono) auto
    then show "K * ?X < 2 ^ 32" by simp
    show "0 \<le> K * ?X" using K X by simp
  qed
  then show ?thesis
    using airtime_whole_symbols [OF s _ _ _ sf(2) assms(5)] sf(1) K lib symbol_exact [OF k(2,1) assms(3)] low_rate_agrees [OF k(2,1) assms(3)]
    by (simp add: Let_def K_def)
qed

theorem airtime_is_the_librarys_witness:
  "airtimeUsFor params_default 255 = calculateTimeOnAir 11 (bandwidth_kHz 62500) 5 16 True False (ldro_for 11 (bandwidth_kHz 62500) = 1) 255"
  using airtime_is_the_librarys [of params_default 255] by (simp add: params_default_def whole_bandwidths_def Let_def)

text \<open>
  At spreading factors 5 and 6 the library counts two symbols more for the preamble and eight bits less, as the chip does; the driver
  does not, and charges a short frame less than it takes.
\<close>

lemma short_symbols_undercharged:
  "airtimeUsFor (params_default\<lparr>spreadingFactor := 6\<rparr>) 3 = 39168" "calculateTimeOnAir 6 (bandwidth_kHz 62500) 5 16 True False False 3 = 41216"
proof -
  let ?p = "params_default\<lparr>spreadingFactor := 6\<rparr>"
  have "symbolUs ?p = of_int 1024" using symbolUs_whole [of ?p 16] by (simp add: params_default_def)
  from airtime_whole_symbols [OF this, of 3] show "airtimeUsFor ?p 3 = 39168"
    by (simp add: symbols_x4_def coded_symbols_def Let_def params_default_def)
  have "symbolLength_us 6 (bandwidth_kHz 62500) = 1024" using symbol_exact [of 62500 16 6] by simp
  then show "calculateTimeOnAir 6 (bandwidth_kHz 62500) 5 16 True False False 3 = 41216"
    by (simp add: calculateTimeOnAir_def)
qed

end
