(* ===== verification/Spec2Isabelle.thy ===== *)
theory Spec2Isabelle
  imports Packet_Codec Aes128_Block Crypto_Protocol Telemetry_Bus Transit_Policy Identity_Store Radio_Driver
    Router_Properties Message_Delivery Room_Storage Node_Settings Node_Adverts Node_On_Chip Sx126x_Airtime
begin

text \<open>
  A verification development of MeshCore-Linux, a mesh radio node with a noticeboard for its clients (\<^verbatim>\<open>src/src\<close>).

  \<^bold>\<open>The program.\<close> A radio (\<^verbatim>\<open>radio\<close>) hears and sends frames within a duty cycle. The router (\<^verbatim>\<open>routing\<close>) parses each
  frame (\<^verbatim>\<open>packet\<close>), drops what it has seen, opens what is for this node with the keys it has (\<^verbatim>\<open>crypto\<close>, \<^verbatim>\<open>identity\<close>), passes on
  what is not when the transit policy (\<^verbatim>\<open>repeater\<close>) allows, acknowledges, learns routes and retries. What is delivered goes to
  the room (\<^verbatim>\<open>room\<close>), which logs clients in, keeps posts, hands them over one by one and takes admin commands. \<^verbatim>\<open>telemetry\<close>
  counts events. \<^verbatim>\<open>main.cpp\<close> reads the configuration and the overlay of admin settings (\<^verbatim>\<open>platform\<close>), builds all of it and
  runs one loop.

  \<^bold>\<open>The theories\<close>, in the order of their imports:

  \<^item> \<open>MC_Prelude\<close>: integer types, little-endian codecs, decimal printing, list and word lemmas.
  \<^item> \<open>Packet_Codec\<close> (\<^verbatim>\<open>packet/packet.cpp\<close>): frames and payloads. Parsing inverts serialising, and the other way round on what
    parses; the same for each payload codec.
  \<^item> \<open>Aes128_Block\<close> (\<^verbatim>\<open>crypto/aes128.c\<close>): the block cipher; decryption inverts encryption under every key.
  \<^item> \<open>Crypto_Protocol\<close> (\<^verbatim>\<open>crypto/core.cpp\<close>, \<^verbatim>\<open>protocol.cpp\<close>): keys, signatures, sealing. What is sealed opens to itself, and
    nothing opens whose authenticator does not match; key files round-trip.
  \<^item> \<open>Telemetry_Bus\<close> (\<^verbatim>\<open>telemetry\<close>): the event ring refines a bounded queue.
  \<^item> \<open>Transit_Policy\<close> (\<^verbatim>\<open>repeater\<close>): the decision in every case, and the bound on the floods carried for one previous hop.
  \<^item> \<open>Identity_Store\<close> (\<^verbatim>\<open>identity\<close>): contacts, their index and the secret cache; no advert replays while its contact is stored, the table refines
    a map with eviction, the index is exact, the file round-trips.
  \<^item> \<open>Float_Round\<close>: IEEE rounding of rational numbers, for the radio code's floats, with its error and the numbers it keeps.
  \<^item> \<open>Radio_Driver\<close> (\<^verbatim>\<open>radio/radio.cpp\<close>): airtime in double precision, duty cycle, queue, in-process medium, virtual and replay radios.
  \<^item> \<open>Std_Map\<close>: the ordered maps of the C++ library.
  \<^item> \<open>Json_Text\<close>, \<open>Json_Document\<close> (\<^verbatim>\<open>lib/json/include/nlohmann/detail\<close>): the JSON library as the node uses it. \<open>Json_Text\<close> has the
    characters: strings and integers written and read; \<open>Json_Document\<close> the lexer, the parser, the document under construction
    and the serializer.
  \<^item> \<open>Json_Utf8\<close>, \<open>Json_Strings\<close>, \<open>Json_Integers\<close>, \<open>Json_Writing\<close>, \<open>Json_Reading\<close>, \<open>Json_Typing\<close>: the library is right about
    them. Its automaton accepts exactly UTF-8, no buffer is overrun, every document reads back as written, and whatever is
    read is a document.
  \<^item> \<open>Host_Platform\<close> (\<^verbatim>\<open>platform\<close>): clocks, log, stores, overlay, configuration.
  \<^item> \<open>Chip_Radio\<close> (\<^verbatim>\<open>radio/udp_radio.cpp\<close>, \<^verbatim>\<open>sx1262_radio.cpp\<close>): the drivers a node runs with. What the driver charges keeps to the
    duty cycle in every run, whatever the chip answers; a transmission never blocks the driver for longer than its airtime and half a second.
  \<^item> \<open>Radio_Module\<close>, \<open>Sx126x_Commands\<close>, \<open>Lr_Fhss\<close>, \<open>Sx126x_Modes\<close>, \<open>Sx126x_Config\<close> (\<^verbatim>\<open>lib/radiolib/src\<close>: \<^verbatim>\<open>Module.cpp\<close>, \<^verbatim>\<open>hal/RPi/PiHal.h\<close>,
    \<^verbatim>\<open>modules/SX126x\<close>, \<^verbatim>\<open>protocols/PhysicalLayer\<close>, \<^verbatim>\<open>utils\<close>): RadioLib as a node with an SX1262 runs it. The host's pins, clock and SPI bus, the
    transfers with their waits for the BUSY line, the commands of the chip, the LR-FHSS packet, staging and launching a mode, reading
    a packet, and the set-up.
  \<^item> \<open>Spi_Bus\<close>, \<open>Sx126x_Orders\<close>, \<open>Sx126x_Waits\<close>: what a call leaves on the bus. The orders a transmission gives, and what a chip that
    obeys them sends; which calls return and which wait need not end.
  \<^item> \<open>Sx1262_Driver\<close>, \<open>Sx126x_Airtime\<close>: the driver of \<open>Chip_Radio\<close> with that library in place of its parameter. What it charges went on
    the air, the frequency is the configured one up to rounding, and the airtime is the library's.
  \<^item> \<open>Mesh_Router\<close>, \<open>Router_Properties\<close> (\<^verbatim>\<open>routing\<close>): the router; duplicates, echoes, forwarding, routes and retries.
  \<^item> \<open>Room_Text\<close>, \<open>Room_State\<close>, \<open>Room_Invariant\<close>, \<open>Room_Login\<close>, \<open>Room_Server\<close>, \<open>Room_Commands\<close>, \<open>Room_Runs\<close>, \<open>Room_Delivery\<close>,
    \<open>Message_Delivery\<close>, \<open>Room_Storage\<close> (\<^verbatim>\<open>room\<close>): text helpers; the board and the client table; what always holds of them; logins and lock-out;
    requests, posts, channels and commands with every reply; runs of the room and who may change what; hand-over and channels;
    a text sent, taken in by the room of another node and acknowledged; the state file.
  \<^item> \<open>Mesh_Node\<close> (\<^verbatim>\<open>main.cpp\<close>): configuration, start, host interface, receiver, adverts, and the loop turn by turn.
  \<^item> \<open>Node_Runs\<close>, \<open>Node_On_Chip\<close>, \<open>Node_Settings\<close>, \<open>Node_Adverts\<close>: runs of the whole node. Every turn ends and keeps the room
    well-formed, on the chip as long as the calls of RadioLib return, for which there are conditions; what an admin set is in force again after a restart at any moment; an advert introduces its sender; and where the composition
    root falls short.

  \<^bold>\<open>State and operations.\<close> A class is a record and its methods are functions on it. The router, the store, the bus and the room
  call each other, so they work on one record, \<open>world\<close>, whose last field is the state of the router's delegate: the room, and
  within it what is behind the host interface (\<open>HostAdmin\<close>). The abstract classes of the source (\<^verbatim>\<open>Delegate\<close>, \<^verbatim>\<open>Sender\<close>, \<^verbatim>\<open>Admin\<close>,
  \<^verbatim>\<open>RxSink\<close>, \<^verbatim>\<open>IRadio\<close>) are records of functions and are instantiated with the program's own implementations. The frames
  a router hands to its radio are appended to a log of the world; \<open>take_air\<close> moves them to the device's queue, in order, before
  anything else touches that queue, which is where \<^verbatim>\<open>RadioLink\<close> puts them at once. Integers are words of the source's width where they can wrap; container
  sizes and the sequence counter of the transmit queue are natural numbers. Errors are \<open>None\<close>, \<open>False\<close> or \<open>Inl\<close>.
  An exception of the JSON library, which nothing in the program catches, is \<open>None\<close> of the host call: the command and the turn
  stop there, and the loop with them (\<open>ha_thrown\<close>).

  \<^bold>\<open>Parameters.\<close> libsodium is the record \<open>sodium\<close>, and lgpio the record \<open>lgpio\<close> of what the pins, the clock and the chip answer, each
  a function of everything done before. To the node RadioLib is the record \<open>RadioLib\<close> on the state of the chip, of which nothing is assumed
  there and which \<open>Sx1262_Driver\<close> instantiates with the library's model. How the
  JSON library reads and prints a floating-point number the function \<open>float_text\<close>. The operating system answers each write, each read of random bytes, each address lookup and each
  datagram receipt by an argument; \<^verbatim>\<open>strtod\<close> and \<^verbatim>\<open>llround\<close> are arguments too. What a theorem needs of them is among its
  hypotheses (a MAC of 32 bytes, a shared secret both sides agree on, a printed number that reads as itself),
  and its witness gives a concrete instance. What a chip does with the orders it gets is \<open>chip_obeys\<close>, from its documented commands.

  \<^bold>\<open>Interfaces.\<close> The locale \<open>stable_pq\<close> is what the drivers rely on in the transmit queue, \<open>charging_driver\<close> what the duty cycle
  needs of a driver (interpreted on the datagram radio and on the chip), \<open>sending_library\<close> what the driver relies on in RadioLib (interpreted on
  the library's model over any lgpio, once with the calls taken to return and once with the calls as partial functions), \<open>key_value\<close> the laws of the settings map, \<open>bounded_fifo\<close> of the event ring, \<open>keyring\<close> and \<open>announcement_book\<close> of the
  contact store, \<open>failure_noter\<close> what the retry loop needs of its delegate, \<open>quiet_sender\<close> and
  \<open>answering_sender\<close> what the room relies on in the router, \<open>hearing_device\<close> and \<open>lasting_device\<close> what the node relies on in a radio, and
  \<open>setting_holder\<close> what a property of the room must survive to hold in every run of the node.

  \<^bold>\<open>Termination.\<close> Every loop is a structural recursion or a \<open>fun\<close> with a measure, with these exceptions. The waits of RadioLib for the
  chip depend on what lgpio answers and the search for a hop on its register; they are \<open>partial_function\<close>s, \<open>None\<close> where the code waits
  for ever or leaves an array, and \<open>Sx126x_Waits\<close> shows which calls return. The retry loop of
  \<^verbatim>\<open>Router::tick\<close> tells the delegate of failures, and a delegate that sends from there could keep it going. \<open>tick_pending\<close> is
  therefore a \<open>partial_function\<close> into an option; \<open>Room_Delivery\<close> shows that it returns with the room as delegate, \<open>Node_Runs\<close>
  that every turn of the node does, the calls on the radio being functions there, and \<open>Node_On_Chip\<close> that it also does with the calls
  of RadioLib, which need not return, if the chip answers. The only fuel is that of \<open>isqrt_up\<close>: the number itself, which
  its root does not exceed.

  \<^bold>\<open>Not modelled.\<close> Of the vendored libraries what the node does not use: of \<^verbatim>\<open>lib/radiolib\<close> the other chips, blocking calls, direct mode,
  channel scan, setting up the other modems and the protocols on top; of \<^verbatim>\<open>lib/json\<close> comments, callbacks, the handlers that ignore or
  replace bad bytes and binary formats, and besides what rests on floating point (\<^verbatim>\<open>strtod\<close>, \<^verbatim>\<open>to_chars\<close>); the tests, scripts and the build; the text of log lines (\<^verbatim>\<open>logCounters\<close> among them); the system calls below the answers above; signals,
  the pause between turns and destructors. A run of the node is any sequence of turns at any times. Wiping secrets from
  memory has no counterpart in a pure model. While the
  state of the room, the contacts or a settings file is read, the system reports no error but that the file is not there.
\<close>

end
